(* ===== verification/Prelude.thy ===== *)
theory Prelude
  imports Main "HOL-Library.Word" "HOL-Library.Sublist"
begin

unbundle bit_operations_syntax

text \<open>
  The vocabulary the component theories share: C characters and C strings, the character
  classes of \<^verbatim>\<open>ctype.h\<close> in the "C" locale, the string functions of the C library that the
  sources call (those of \<^verbatim>\<open>src/extras/strutil.c\<close> are translated from that file), the outcomes
  of system calls, and generic facts on lists.

  A C string is a \<open>string\<close> holding the bytes before the terminating NUL. A raw byte array is
  a \<open>string\<close> too; \<open>cstr\<close> reads the C string that starts at its first byte. The type \<open>char\<close> of
  the sources is signed and eight bits wide: \<open>schar\<close> is its value where the sign matters.
  \<open>int\<close> is 32 bits and \<open>long\<close> is 64 bits wide (the LP64 model).
\<close>

section \<open>Collections\<close>

named_theorems ctype_simps \<open>unfolding of the character classes\<close>
named_theorems frame_simps \<open>fields an operation leaves alone\<close>

section \<open>Characters\<close>

abbreviation NUL :: char where "NUL \<equiv> CHR 0x00"
abbreviation HT :: char where "HT \<equiv> CHR 0x09"
abbreviation LF :: char where "LF \<equiv> CHR 0x0A"
abbreviation CR :: char where "CR \<equiv> CHR 0x0D"
abbreviation DQUOTE :: char where "DQUOTE \<equiv> CHR 0x22"

definition uchar :: "char \<Rightarrow> nat" where
  "uchar c = of_char c"

definition schar :: "char \<Rightarrow> int" where
  "schar c = (let n = int (uchar c) in if n \<ge> 128 then n - 256 else n)"

text \<open>Assignment of an \<open>int\<close> to a \<open>char\<close> keeps the low eight bits.\<close>

definition char_of_int :: "int \<Rightarrow> char" where
  "char_of_int i = char_of (nat (i mod 256))"

definition isdigit :: "char \<Rightarrow> bool" where
  "isdigit c \<longleftrightarrow> 48 \<le> uchar c \<and> uchar c \<le> 57"

definition isupper :: "char \<Rightarrow> bool" where
  "isupper c \<longleftrightarrow> 65 \<le> uchar c \<and> uchar c \<le> 90"

definition islower :: "char \<Rightarrow> bool" where
  "islower c \<longleftrightarrow> 97 \<le> uchar c \<and> uchar c \<le> 122"

definition isalnum :: "char \<Rightarrow> bool" where
  "isalnum c \<longleftrightarrow> isdigit c \<or> isupper c \<or> islower c"

definition isspace :: "char \<Rightarrow> bool" where
  "isspace c \<longleftrightarrow> uchar c = 32 \<or> (9 \<le> uchar c \<and> uchar c \<le> 13)"

definition toupper :: "char \<Rightarrow> char" where
  "toupper c = (if islower c then char_of (uchar c - 32) else c)"

definition tolower :: "char \<Rightarrow> char" where
  "tolower c = (if isupper c then char_of (uchar c + 32) else c)"

lemmas [ctype_simps] = uchar_def isdigit_def isupper_def islower_def isalnum_def isspace_def

lemma uchar_less: "uchar c < 256"
  by (simp add: uchar_def)

lemma uchar_inject [simp]: "uchar c = uchar d \<longleftrightarrow> c = d"
  by (simp add: uchar_def)

lemma uchar_char_of [simp]: "uchar (char_of n) = n mod 256"
  by (simp add: uchar_def of_char_of)

lemma char_of_uchar [simp]: "char_of (uchar c) = c"
  by (simp add: uchar_def)

lemma uchar_eq_0 [simp]: "uchar c = 0 \<longleftrightarrow> c = NUL"
proof -
  have "uchar NUL = 0" by (simp add: uchar_def)
  then show ?thesis by (metis uchar_inject)
qed

lemma schar_range: "-128 \<le> schar c \<and> schar c < 128"
  using uchar_less [of c] by (simp add: schar_def Let_def)

lemma schar_ascii: "uchar c < 128 \<Longrightarrow> schar c = int (uchar c)"
  by (simp add: schar_def)

lemma schar_bounds_iff:
  "32 \<le> schar c \<and> schar c \<le> 126 \<longleftrightarrow> 32 \<le> uchar c \<and> uchar c \<le> 126"
  using uchar_less [of c] by (auto simp: schar_def Let_def)

lemma uchar_char_of_int [simp]: "uchar (char_of_int i) = nat (i mod 256)"
proof -
  have "nat (i mod 256) < 256"
    by (simp add: nat_less_iff)
  then show ?thesis by (simp add: char_of_int_def)
qed

lemma uchar_tolower: "uchar (tolower c) = (if isupper c then uchar c + 32 else uchar c)"
  by (simp add: tolower_def isupper_def)

lemma uchar_toupper: "uchar (toupper c) = (if islower c then uchar c - 32 else uchar c)"
  using uchar_less [of c] by (auto simp: toupper_def islower_def)

lemma not_isupper_tolower [simp]: "\<not> isupper (tolower c)"
  by (auto simp: isupper_def [of "tolower c"] uchar_tolower isupper_def)

lemma tolower_idem [simp]: "tolower (tolower c) = tolower c"
  by (simp add: tolower_def [of "tolower c"])

lemma not_islower_toupper [simp]: "\<not> islower (toupper c)"
  by (auto simp: islower_def [of "toupper c"] uchar_toupper islower_def)

lemma tolower_NUL [simp]: "tolower c = NUL \<longleftrightarrow> c = NUL"
proof -
  have "uchar (tolower c) = 0 \<longleftrightarrow> uchar c = 0"
    by (auto simp: uchar_tolower isupper_def simp del: uchar_eq_0)
  then show ?thesis by simp
qed

section \<open>C strings\<close>

definition cstr :: "string \<Rightarrow> string" where
  "cstr bs = takeWhile (\<lambda>c. c \<noteq> NUL) bs"

text \<open>A C string proper: it holds no NUL.\<close>

definition is_cstr :: "string \<Rightarrow> bool" where
  "is_cstr s \<longleftrightarrow> NUL \<notin> set s"

lemma cstr_id [simp]: "is_cstr s \<Longrightarrow> cstr s = s"
  by (auto simp: cstr_def is_cstr_def takeWhile_eq_all_conv)

lemma is_cstr_cstr [simp]: "is_cstr (cstr bs)"
  unfolding is_cstr_def cstr_def by (auto dest: set_takeWhileD)

lemma is_cstr_simps [simp]:
  "is_cstr []"
  "is_cstr (c # s) \<longleftrightarrow> c \<noteq> NUL \<and> is_cstr s"
  "is_cstr (s @ t) \<longleftrightarrow> is_cstr s \<and> is_cstr t"
  by (auto simp: is_cstr_def)

lemma cstr_simps [simp]:
  "cstr [] = []"
  "cstr (c # s) = (if c = NUL then [] else c # cstr s)"
  by (auto simp: cstr_def)

lemma cstr_append_NUL [simp]: "is_cstr s \<Longrightarrow> cstr (s @ NUL # t) = s"
  by (induction s) auto

text \<open>\<open>strchr\<close> and \<open>strrchr\<close> as offsets.\<close>

fun strchr :: "string \<Rightarrow> char \<Rightarrow> nat option" where
  "strchr [] c = None"
| "strchr (x # s) c = (if x = c then Some 0 else map_option Suc (strchr s c))"

fun strrchr :: "string \<Rightarrow> char \<Rightarrow> nat option" where
  "strrchr [] c = None"
| "strrchr (x # s) c =
     (case strrchr s c of Some i \<Rightarrow> Some (Suc i) | None \<Rightarrow> if x = c then Some 0 else None)"

lemma strchr_Some:
  "strchr s c = Some i \<Longrightarrow> i < length s \<and> s ! i = c \<and> c \<notin> set (take i s)"
proof (induction s arbitrary: i)
  case Nil
  then show ?case by simp
next
  case (Cons x s)
  then show ?case by (auto split: if_splits)
qed

lemma strchr_append: "c \<notin> set xs \<Longrightarrow> strchr (xs @ c # ys) c = Some (length xs)"
  by (induction xs) auto

lemma strchr_None: "strchr s c = None \<longleftrightarrow> c \<notin> set s"
  by (induction s) auto

lemma strrchr_Some:
  "strrchr s c = Some i \<Longrightarrow> i < length s \<and> s ! i = c \<and> c \<notin> set (drop (Suc i) s)"
proof (induction s arbitrary: i)
  case Nil
  then show ?case by simp
next
  case (Cons x s)
  show ?case
  proof (cases "strrchr s c")
    case None
    have "strrchr t c = None \<Longrightarrow> c \<notin> set t" for t
      by (induction t) (auto split: option.splits if_splits)
    with None have "c \<notin> set s" by simp
    with None Cons.prems show ?thesis by (auto split: if_splits)
  next
    case (Some j)
    with Cons show ?thesis by auto
  qed
qed

end
