(* ===== verification/Strutil.thy ===== *)
theory Strutil
  imports Prelude
begin

text \<open>
  The string routines of \<^verbatim>\<open>src/extras/strutil.c\<close>, which stand in for the C library where it lacks
  them: \<open>strstr\<close> and \<open>strncasecmp\<close>. Both are proved equal to their declarative meaning
  (the first occurrence of a substring; equality of the first \<open>n\<close> bytes up to case), and the
  other components use those characterisations.
\<close>

section \<open>strstr\<close>

text \<open>
  \<open>strncmp s t n = 0\<close> on two C strings: the first \<open>n\<close> bytes agree, the terminator included.
\<close>

definition strncmp_eq :: "string \<Rightarrow> string \<Rightarrow> nat \<Rightarrow> bool" where
  "strncmp_eq s t n \<longleftrightarrow> take n s = take n t"

text \<open>The loop of \<open>strstr\<close>: jump to the next occurrence of the first byte, compare, advance.\<close>

function strstr_loop :: "string \<Rightarrow> string \<Rightarrow> nat option" where
  "strstr_loop p s2 =
     (case strchr p (hd s2) of
        None \<Rightarrow> None
      | Some i \<Rightarrow>
          if strncmp_eq (drop i p) s2 (length s2) then Some i
          else map_option (\<lambda>j. Suc (i + j)) (strstr_loop (drop (Suc i) p) s2))"
  by pat_completeness auto
termination
  by (relation "measure (\<lambda>(p, s2). length p)") (auto dest: strchr_Some)

declare strstr_loop.simps [simp del]

definition strstr :: "string \<Rightarrow> string \<Rightarrow> nat option" where
  "strstr s1 s2 = (if s2 = [] then Some 0 else strstr_loop s1 s2)"

text \<open>The meaning of \<open>strstr\<close>: the least offset at which the needle is a prefix.\<close>

definition first_occ :: "string \<Rightarrow> string \<Rightarrow> nat \<Rightarrow> bool" where
  "first_occ s1 s2 i \<longleftrightarrow>
     i \<le> length s1 \<and> prefix s2 (drop i s1) \<and> (\<forall>j < i. \<not> prefix s2 (drop j s1))"

lemma strncmp_eq_prefix:
  "strncmp_eq s t (length t) \<longleftrightarrow> prefix t s"
  by (auto simp: strncmp_eq_def prefix_def) (metis append_take_drop_id)

lemma not_prefix_before_first:
  assumes "s2 \<noteq> []" and "hd s2 \<notin> set (take i p)" and "j < i" and "i \<le> length p"
  shows "\<not> prefix s2 (drop j p)"
proof
  assume pre: "prefix s2 (drop j p)"
  from assms have "j < length p" by simp
  then have "drop j p = p ! j # drop (Suc j) p" by (simp add: Cons_nth_drop_Suc)
  with pre assms(1) have "hd s2 = p ! j" by (auto simp: prefix_Cons)
  moreover have "p ! j \<in> set (take i p)"
    using assms(3) \<open>j < length p\<close> by (metis length_take min_less_iff_conj nth_mem nth_take)
  ultimately show False using assms(2) by simp
qed

lemma strstr_loop_spec:
  assumes "s2 \<noteq> []"
  shows "(case strstr_loop p s2 of
            Some i \<Rightarrow> first_occ p s2 i
          | None \<Rightarrow> \<forall>j \<le> length p. \<not> prefix s2 (drop j p))"
  using assms
proof (induction p s2 rule: strstr_loop.induct)
  case (1 p s2)
  show ?case
  proof (cases "strchr p (hd s2)")
    case None
    then have "hd s2 \<notin> set p" by (simp add: strchr_None)
    then have "\<not> prefix s2 (drop j p)" for j
      using "1.prems" by (metis in_set_dropD list.set_sel(1) set_mono_prefix subsetD)
    with None show ?thesis by (simp add: strstr_loop.simps [of p s2])
  next
    case (Some i)
    note i = strchr_Some [OF Some]
    have before: "\<not> prefix s2 (drop j p)" if "j < i" for j
      by (rule not_prefix_before_first [OF "1.prems" _ that]) (use i in simp_all)
    show ?thesis
    proof (cases "prefix s2 (drop i p)")
      case True
      with Some i before show ?thesis
        by (auto simp: strstr_loop.simps [of p s2] strncmp_eq_prefix first_occ_def)
    next
      case False
      with Some have eq: "strstr_loop p s2 =
          map_option (\<lambda>j. Suc (i + j)) (strstr_loop (drop (Suc i) p) s2)"
        by (simp add: strstr_loop.simps [of p s2] strncmp_eq_prefix)
      have upto: "\<not> prefix s2 (drop j p)" if "j \<le> i" for j
        using before False that by (cases "j = i") auto
      have shift: "drop (Suc i + j) p = drop j (drop (Suc i) p)" for j
        by (simp add: add.commute)
      have IH: "(case strstr_loop (drop (Suc i) p) s2 of
            Some k \<Rightarrow> first_occ (drop (Suc i) p) s2 k
          | None \<Rightarrow> \<forall>j \<le> length (drop (Suc i) p). \<not> prefix s2 (drop j (drop (Suc i) p)))"
        using "1.IH" [OF Some _ "1.prems"] False by (simp add: strncmp_eq_prefix)
      show ?thesis
      proof (cases "strstr_loop (drop (Suc i) p) s2")
        case None
        have "\<not> prefix s2 (drop j p)" if "j \<le> length p" for j
        proof (cases "j \<le> i")
          case True
          then show ?thesis by (rule upto)
        next
          case False
          then obtain k where "j = Suc i + k" by (metis not_less_eq_eq le_Suc_ex)
          with IH None that show ?thesis using shift [of k] by auto
        qed
        with None eq show ?thesis by simp
      next
        case (Some k)
        have "\<not> prefix s2 (drop j p)" if "j < Suc i + k" for j
        proof (cases "j \<le> i")
          case True
          then show ?thesis by (rule upto)
        next
          case False
          then obtain m where "j = Suc i + m" by (metis not_less_eq_eq le_Suc_ex)
          with IH Some that show ?thesis using shift [of m] by (auto simp: first_occ_def)
        qed
        with Some eq IH i show ?thesis
          using shift [of k] by (auto simp: first_occ_def)
      qed
    qed
  qed
qed

lemma strstr_Some: "strstr s1 s2 = Some i \<Longrightarrow> first_occ s1 s2 i"
  using strstr_loop_spec [of s2 s1]
  by (auto simp: strstr_def first_occ_def split: if_splits option.splits)

lemma strstr_None: "strstr s1 s2 = None \<longleftrightarrow> \<not> sublist s2 s1"
proof -
  have "sublist s2 s1 \<longleftrightarrow> (\<exists>j \<le> length s1. prefix s2 (drop j s1))"
  proof
    assume "sublist s2 s1"
    then obtain ps ss where "s1 = ps @ s2 @ ss" by (auto simp: sublist_def)
    then have "length ps \<le> length s1 \<and> prefix s2 (drop (length ps) s1)" by simp
    then show "\<exists>j \<le> length s1. prefix s2 (drop j s1)" by blast
  next
    assume "\<exists>j \<le> length s1. prefix s2 (drop j s1)"
    then obtain j ss where "drop j s1 = s2 @ ss" by (auto simp: prefix_def)
    then have "s1 = take j s1 @ s2 @ ss" by (metis append_take_drop_id)
    then show "sublist s2 s1" unfolding sublist_def by blast
  qed
  then show ?thesis
    using strstr_loop_spec [of s2 s1]
    by (auto simp: strstr_def first_occ_def split: if_splits option.splits)
qed

section \<open>strncasecmp\<close>

text \<open>
  \<open>strncasecmp\<close> compares at most \<open>n\<close> bytes after \<open>tolower\<close>, stops at the first difference, and
  stops when both strings end. A string that has ended contributes its terminator.
\<close>

fun strncasecmp :: "string \<Rightarrow> string \<Rightarrow> nat \<Rightarrow> int" where
  "strncasecmp s1 s2 0 = 0"
| "strncasecmp s1 s2 (Suc n) =
     (let c1 = (case s1 of [] \<Rightarrow> NUL | c # _ \<Rightarrow> tolower c);
          c2 = (case s2 of [] \<Rightarrow> NUL | c # _ \<Rightarrow> tolower c)
      in if c1 \<noteq> c2 then int (uchar c1) - int (uchar c2)
         else if c1 = NUL then 0
         else strncasecmp (tl s1) (tl s2) n)"

definition strcaseeq :: "string \<Rightarrow> string \<Rightarrow> bool" where
  "strcaseeq s t \<longleftrightarrow> map tolower s = map tolower t"

lemma strncasecmp_zero:
  "is_cstr s \<Longrightarrow> is_cstr t \<Longrightarrow> strncasecmp s t n = 0 \<longleftrightarrow> strcaseeq (take n s) (take n t)"
proof (induction n arbitrary: s t)
  case 0
  then show ?case by (simp add: strcaseeq_def)
next
  case (Suc n)
  then show ?case
    by (cases s; cases t) (auto simp: strcaseeq_def Let_def dest: sym [of NUL])
qed

text \<open>The test the sources write as \<open>!strncasecmp(s, lit, strlen(lit))\<close>.\<close>

definition has_caseprefix :: "string \<Rightarrow> string \<Rightarrow> bool" where
  "has_caseprefix s lit \<longleftrightarrow> strncasecmp s lit (length lit) = 0"

lemma has_caseprefix_iff:
  "is_cstr s \<Longrightarrow> is_cstr lit \<Longrightarrow>
   has_caseprefix s lit \<longleftrightarrow> prefix (map tolower lit) (map tolower s)"
  by (simp add: has_caseprefix_def strncasecmp_zero strcaseeq_def take_map [symmetric]
        prefix_def) (metis append_eq_conv_conj append_take_drop_id length_map)

section \<open>Properties\<close>

text \<open>\<open>strstr\<close> returns the offset of the first occurrence of the needle when there is one,
  and null exactly when the needle does not occur.\<close>

theorem strstr_first_occurrence:
  "(case strstr s1 s2 of Some i \<Rightarrow> first_occ s1 s2 i | None \<Rightarrow> \<not> sublist s2 s1)"
  using strstr_Some [of s1 s2] strstr_None [of s1 s2] by (simp split: option.splits)

end
