(* ===== verification/Uri.thy ===== *)
theory Uri
  imports Strutil
begin

text \<open>
  The routines of \<^verbatim>\<open>src/src/util.c\<close> that turn the bytes of a request line into a path: \<open>clean_pathname\<close>,
  \<open>unescape_uri\<close>, \<open>to_upper\<close>, \<open>strlower\<close>, \<open>check_host\<close> and \<open>sanitize_log_string\<close>. They rewrite a
  C string in place, reading ahead of where they write, so a function from the old
  contents to the new contents is what they compute.
\<close>

section \<open>Definitions\<close>

subsection \<open>clean_pathname\<close>

text \<open>The inner loop: after a slash, skip further slashes, \<open>./\<close> and \<open>../\<close>.\<close>

function skip_dots :: "string \<Rightarrow> string" where
  "skip_dots p =
     (if prefix ''/'' p then skip_dots (drop 1 p)
      else if prefix ''./'' p then skip_dots (drop 2 p)
      else if prefix ''../'' p then skip_dots (drop 3 p)
      else p)"
  by pat_completeness auto
termination
  by (relation "measure length") (auto simp: prefix_def)

declare skip_dots.simps [simp del]

lemma length_skip_dots: "length (skip_dots p) \<le> length p"
proof (induction p rule: skip_dots.induct)
  case (1 p)
  then show ?case by (subst skip_dots.simps) auto
qed

function clean_pathname :: "string \<Rightarrow> string" where
  "clean_pathname [] = []"
| "clean_pathname (c # p) =
     (if c = CHR ''/'' then CHR ''/'' # clean_pathname (skip_dots p)
      else c # clean_pathname p)"
  by pat_completeness auto
termination
  by (relation "measure length") (auto simp: length_skip_dots less_Suc_eq_le)

subsection \<open>unescape_uri\<close>

text \<open>
  The macro \<open>HEX_TO_DECIMAL\<close> of \<^verbatim>\<open>defines.h\<close>: it takes any two characters, hexadecimal digits or
  not, and computes with their signed values.
\<close>

definition hex_digit_value :: "char \<Rightarrow> int" where
  "hex_digit_value c =
     (if schar c \<ge> 65 then ((schar c AND 0xdf) - 65) + 10 else schar c - 48)"

definition HEX_TO_DECIMAL :: "char \<Rightarrow> char \<Rightarrow> int" where
  "HEX_TO_DECIMAL c d = hex_digit_value c * 16 + hex_digit_value d"

text \<open>After a fragment, the query string is what follows the next question mark.\<close>

fun query_after :: "string \<Rightarrow> string option" where
  "query_after [] = None"
| "query_after (c # s) = (if c = CHR ''?'' then Some s else query_after s)"

text \<open>
  \<open>unescape_uri want uri\<close> is the return value, the new contents of the buffer and the query
  string it found; \<open>want\<close> says that the caller passed a place for the query string.
\<close>

fun unescape_uri :: "bool \<Rightarrow> string \<Rightarrow> bool \<times> string \<times> string option" where
  "unescape_uri want [] = (True, [], None)"
| "unescape_uri want (c # s) =
     (if c = CHR ''%'' then
        (case s of
           a # d # s' \<Rightarrow>
             (let u = char_of_int (HEX_TO_DECIMAL a d) in
              if schar u < 32 \<or> schar u > 126 then (False, [], None)
              else (case unescape_uri want s' of (ok, u', q) \<Rightarrow> (ok, u # u', q)))
         | _ \<Rightarrow> (False, [], None))
      else if c = CHR ''?'' then (True, [], if want then Some s else None)
      else if c = CHR ''#'' then (True, [], if want then query_after s else None)
      else (case unescape_uri want s of (ok, u', q) \<Rightarrow> (ok, c # u', q)))"

subsection \<open>Case folding and host names\<close>

definition to_upper :: "string \<Rightarrow> string" where
  "to_upper s = map (\<lambda>c. if c = CHR ''-'' then CHR ''_'' else toupper c) s"

definition strlower :: "string \<Rightarrow> string" where
  "strlower s = map tolower s"

text \<open>
  The loop of \<open>check_host\<close> over the characters after the first: the flag \<open>period_ok\<close> and the
  running length, \<open>None\<close> where the C code returns \<open>-1\<close>.
\<close>

fun check_host_loop :: "string \<Rightarrow> bool \<Rightarrow> int \<Rightarrow> int option" where
  "check_host_loop [] ok n = Some n"
| "check_host_loop (c # s) ok n =
     (if isalnum c \<or> c = CHR ''-'' then check_host_loop s True (n + 1)
      else if c = CHR ''.'' \<and> ok then check_host_loop s False (n + 1)
      else None)"

definition check_host :: "string option \<Rightarrow> int" where
  "check_host r =
     (case r of
        None \<Rightarrow> -1
      | Some [] \<Rightarrow> -1
      | Some (c # s) \<Rightarrow>
          if \<not> isalnum c then -1
          else if length (c # s) > 63 then -1
          else (case check_host_loop s False 1 of
                  None \<Rightarrow> -1
                | Some n \<Rightarrow> if \<not> isalnum (last (c # s)) then -1 else n))"

subsection \<open>sanitize_log_string\<close>

definition LOG_SANITIZE_BUF_SIZE :: nat where
  "LOG_SANITIZE_BUF_SIZE = 2048"

definition sanitize_char :: "char \<Rightarrow> char" where
  "sanitize_char c =
     (if (uchar c \<le> 0x1F \<and> uchar c \<noteq> 0x09) \<or> uchar c = 0x7F then CHR ''?'' else c)"

text \<open>The copying loop: at most \<open>sizeof(buf) - 4\<close> bytes, and what is left of the input.\<close>

fun sanitize_loop :: "string \<Rightarrow> nat \<Rightarrow> string \<times> string" where
  "sanitize_loop [] len = ([], [])"
| "sanitize_loop (c # p) len =
     (if len < LOG_SANITIZE_BUF_SIZE - 4
      then (case sanitize_loop p (len + 1) of (q, rest) \<Rightarrow> (sanitize_char c # q, rest))
      else ([], c # p))"

definition sanitize_log_string :: "string option \<Rightarrow> string" where
  "sanitize_log_string str =
     (case str of
        None \<Rightarrow> ''(null)''
      | Some p \<Rightarrow>
          (case sanitize_loop p 0 of
             (q, rest) \<Rightarrow> if rest \<noteq> [] then q @ ''...'' else q))"


section \<open>clean_pathname removes every dot component\<close>

lemma skip_dots_no_prefix:
  "\<not> prefix ''/'' (skip_dots p) \<and> \<not> prefix ''./'' (skip_dots p) \<and> \<not> prefix ''../'' (skip_dots p)"
proof (induction p rule: skip_dots.induct)
  case (1 p)
  then show ?case by (subst (1 2 3) skip_dots.simps) auto
qed

lemma skip_dots_id:
  "\<not> prefix ''/'' p \<Longrightarrow> \<not> prefix ''./'' p \<Longrightarrow> \<not> prefix ''../'' p \<Longrightarrow> skip_dots p = p"
  by (subst skip_dots.simps) simp

lemma set_skip_dots: "set (skip_dots p) \<subseteq> set p"
proof (induction p rule: skip_dots.induct)
  case (1 p)
  then show ?case by (subst skip_dots.simps) (auto dest: in_set_dropD)
qed

lemma length_clean_pathname: "length (clean_pathname p) \<le> length p"
proof (induction p rule: clean_pathname.induct)
  case (2 c p)
  then show ?case using length_skip_dots [of p] by auto
qed simp

lemma set_clean_pathname: "set (clean_pathname p) \<subseteq> set p"
proof (induction p rule: clean_pathname.induct)
  case (2 c p)
  then show ?case using set_skip_dots [of p] by auto
qed simp

lemma is_cstr_clean_pathname: "is_cstr p \<Longrightarrow> is_cstr (clean_pathname p)"
  using set_clean_pathname [of p] by (auto simp: is_cstr_def)

text \<open>Up to its first slash, the cleaned path reads as the original one.\<close>

lemma prefix_clean_pathname:
  "CHR ''/'' \<notin> set u \<Longrightarrow>
   prefix (u @ ''/'') (clean_pathname p) \<longleftrightarrow> prefix (u @ ''/'') p"
proof (induction u arbitrary: p)
  case Nil
  then show ?case by (cases p) auto
next
  case (Cons a u)
  then show ?case by (cases p) auto
qed

lemma clean_pathname_no_component:
  assumes "CHR ''/'' \<notin> set u" and "\<And>q. \<not> prefix (u @ ''/'') (skip_dots q)"
  shows "\<not> sublist (''/'' @ u @ ''/'') (clean_pathname p)"
proof (induction p rule: clean_pathname.induct)
  case 1
  then show ?case by simp
next
  case (2 c p)
  then show ?case
    using assms prefix_clean_pathname [OF assms(1), of "skip_dots p"]
    by (auto simp: sublist_Cons_right)
qed

lemma clean_pathname_no_dots:
  "\<not> sublist ''//'' (clean_pathname p)"
  "\<not> sublist ''/./'' (clean_pathname p)"
  "\<not> sublist ''/../'' (clean_pathname p)"
  using clean_pathname_no_component [of "[]" p] clean_pathname_no_component [of "''.''" p]
    clean_pathname_no_component [of "''..''" p] skip_dots_no_prefix
  by auto

lemma clean_pathname_idem: "clean_pathname (clean_pathname p) = clean_pathname p"
proof (induction p rule: clean_pathname.induct)
  case 1
  then show ?case by simp
next
  case (2 c p)
  have "skip_dots (clean_pathname (skip_dots p)) = clean_pathname (skip_dots p)"
    using skip_dots_no_prefix [of p] prefix_clean_pathname [of "[]" "skip_dots p"]
      prefix_clean_pathname [of "''.''" "skip_dots p"]
      prefix_clean_pathname [of "''..''" "skip_dots p"]
    by (intro skip_dots_id) auto
  with 2 show ?case by auto
qed

lemma clean_pathname_slash: "prefix ''/'' (clean_pathname p) \<longleftrightarrow> prefix ''/'' p"
  using prefix_clean_pathname [of "[]" p] by simp

subsection \<open>Walking a cleaned path\<close>

text \<open>
  The components of a path, and the condition that a walk along them never climbs above the
  directory it starts in.
\<close>

fun segments :: "string \<Rightarrow> string list" where
  "segments [] = [[]]"
| "segments (c # s) =
     (if c = CHR ''/'' then [] # segments s
      else (case segments s of x # xs \<Rightarrow> (c # x) # xs | [] \<Rightarrow> [[c]]))"

fun stays_below :: "nat \<Rightarrow> string list \<Rightarrow> bool" where
  "stays_below d [] = True"
| "stays_below d (x # xs) =
     (if x = ''..'' then d > 0 \<and> stays_below (d - 1) xs
      else if x = [] \<or> x = ''.'' then stays_below d xs
      else stays_below (Suc d) xs)"

lemma segments_not_Nil [simp]: "segments s \<noteq> []"
  by (induction s) (auto split: list.splits)

lemma segments_append_slash:
  "CHR ''/'' \<notin> set x \<Longrightarrow> segments (x @ CHR ''/'' # t) = x # segments t"
  by (induction x) auto

lemma segments_no_slash: "CHR ''/'' \<notin> set x \<Longrightarrow> segments x = [x]"
  by (induction x) auto

lemma inner_segment_sublist:
  "x \<in> set (butlast (segments s)) \<Longrightarrow> sublist (''/'' @ x @ ''/'') (''/'' @ s)"
proof (induction s rule: length_induct)
  case (1 s)
  show ?case
  proof (cases "CHR ''/'' \<in> set s")
    case False
    with "1.prems" show ?thesis by (simp add: segments_no_slash)
  next
    case True
    then obtain y t where s: "s = y @ CHR ''/'' # t" and y: "CHR ''/'' \<notin> set y"
      by (meson split_list_first)
    then have "segments s = y # segments t" by (simp add: segments_append_slash)
    with "1.prems" have "x = y \<or> x \<in> set (butlast (segments t))" by simp
    then show ?thesis
    proof
      assume "x = y"
      with s have "''/'' @ s = [] @ (''/'' @ x @ ''/'') @ t" by simp
      then show ?thesis unfolding sublist_def by blast
    next
      assume "x \<in> set (butlast (segments t))"
      with "1.IH" s have "sublist (''/'' @ x @ ''/'') (''/'' @ t)" by simp
      then obtain ps ss where "''/'' @ t = ps @ (''/'' @ x @ ''/'') @ ss"
        by (auto simp: sublist_def)
      with s have "''/'' @ s = (''/'' @ y @ ps) @ (''/'' @ x @ ''/'') @ ss" by simp
      then show ?thesis unfolding sublist_def by blast
    qed
  qed
qed

lemma stays_below_normal:
  "\<forall>x \<in> set (butlast xs). x \<noteq> [] \<and> x \<noteq> ''.'' \<and> x \<noteq> ''..'' \<Longrightarrow>
   d > 0 \<or> xs \<noteq> [''..''] \<Longrightarrow> stays_below d xs"
proof (induction xs arbitrary: d)
  case Nil
  then show ?case by simp
next
  case (Cons x xs)
  show ?case
  proof (cases "xs = []")
    case True
    with Cons.prems show ?thesis by auto
  next
    case False
    with Cons.prems have "x \<noteq> [] \<and> x \<noteq> ''.'' \<and> x \<noteq> ''..''" by simp
    moreover have "stays_below (Suc d) xs"
      using False Cons.prems by (intro Cons.IH) auto
    ultimately show ?thesis by simp
  qed
qed

lemma clean_pathname_stays_below:
  assumes "prefix ''/'' p" and "clean_pathname p \<noteq> ''/..''"
  shows "stays_below 0 (segments (clean_pathname p))"
proof -
  obtain q where q: "clean_pathname p = CHR ''/'' # q"
    using assms(1) clean_pathname_slash [of p] by (auto simp: prefix_def)
  have "x \<noteq> [] \<and> x \<noteq> ''.'' \<and> x \<noteq> ''..''" if "x \<in> set (butlast (segments q))" for x
    using inner_segment_sublist [OF that] clean_pathname_no_dots [of p] q by auto
  moreover have "segments q \<noteq> [''..'']"
  proof
    assume sq: "segments q = [''..'']"
    have "CHR ''/'' \<notin> set q"
    proof
      assume "CHR ''/'' \<in> set q"
      then obtain y t where "q = y @ CHR ''/'' # t" and "CHR ''/'' \<notin> set y"
        by (meson split_list_first)
      with sq show False by (simp add: segments_append_slash)
    qed
    with sq have "q = ''..''" by (simp add: segments_no_slash)
    with q assms(2) show False by simp
  qed
  ultimately have "stays_below 0 (segments q)" by (intro stays_below_normal) auto
  with q show ?thesis by simp
qed

section \<open>unescape_uri\<close>

lemma unescape_uri_printable:
  "unescape_uri want s = (ok, u, q) \<Longrightarrow> c \<in> set u \<Longrightarrow>
   c \<in> set s \<or> 32 \<le> uchar c \<and> uchar c \<le> 126"
proof (induction want s arbitrary: u rule: unescape_uri.induct)
  case (1 want)
  then show ?case by simp
next
  case (2 want a s)
  then show ?case
    using schar_bounds_iff
    by (fastforce simp: Let_def not_less split: if_splits list.splits prod.splits)
qed

lemma length_unescape_uri: "unescape_uri want s = (ok, u, q) \<Longrightarrow> length u \<le> length s"
proof (induction want s arbitrary: u rule: unescape_uri.induct)
  case (2 want a s)
  then show ?case
    by (fastforce simp: Let_def split: if_splits list.splits prod.splits)
qed simp

lemma is_cstr_unescape_uri: "unescape_uri want s = (ok, u, q) \<Longrightarrow> is_cstr s \<Longrightarrow> is_cstr u"
  using unescape_uri_printable [of want s ok u q NUL] by (auto simp: is_cstr_def uchar_def)

lemma query_after_Some: "query_after s = Some t \<Longrightarrow> \<exists>ps. s = ps @ CHR ''?'' # t"
proof (induction s)
  case Nil
  then show ?case by simp
next
  case (Cons c s)
  show ?case
  proof (cases "c = CHR ''?''")
    case True
    with Cons.prems show ?thesis by (auto intro: exI [of _ "[]"])
  next
    case False
    with Cons obtain ps where "s = ps @ CHR ''?'' # t" by auto
    then have "c # s = (c # ps) @ CHR ''?'' # t" by simp
    then show ?thesis by blast
  qed
qed

lemma unescape_uri_query:
  "unescape_uri want s = (ok, u, Some t) \<Longrightarrow> \<exists>ps. s = ps @ CHR ''?'' # t"
proof (induction want s arbitrary: u rule: unescape_uri.induct)
  case (1 want)
  then show ?case by simp
next
  case (2 want a s)
  have add: "\<exists>ps. xs @ r = ps @ CHR ''?'' # t" if "\<exists>ps. r = ps @ CHR ''?'' # t" for xs r
    using that by (metis append_assoc)
  show ?case
    using 2 query_after_Some [of s t] add [of _ "[a]"] add [of _ "[a, _, _]"]
    by (fastforce simp: Let_def split: if_splits list.splits prod.splits)
qed

section \<open>check_host\<close>

text \<open>What the loop accepts: letters, digits, hyphens and single dots, no dot right after the first.\<close>

lemma check_host_loop_eq:
  "check_host_loop s ok n =
     (if (\<forall>c \<in> set s. isalnum c \<or> c = CHR ''-'' \<or> c = CHR ''.'') \<and>
         \<not> sublist ''..'' s \<and> (ok \<or> \<not> prefix ''.'' s)
      then Some (n + int (length s)) else None)"
proof (induction s arbitrary: ok n)
  case Nil
  then show ?case by simp
next
  case (Cons c s)
  have dot: "\<not> isalnum CHR ''.''"
    by (simp add: ctype_simps)
  show ?case using Cons dot by (auto simp: sublist_Cons_right)
qed

definition valid_host :: "string \<Rightarrow> bool" where
  "valid_host s \<longleftrightarrow>
     s \<noteq> [] \<and> length s \<le> 63 \<and> isalnum (hd s) \<and> isalnum (last s) \<and>
     (\<forall>c \<in> set s. isalnum c \<or> c = CHR ''-'' \<or> c = CHR ''.'') \<and>
     \<not> sublist ''..'' s \<and> \<not> prefix ''.'' (tl s)"

lemma check_host_eq:
  "check_host (Some s) = (if valid_host s then int (length s) else -1)"
proof (cases s)
  case Nil
  then show ?thesis by (simp add: check_host_def valid_host_def)
next
  case (Cons c t)
  have dot: "\<not> isalnum CHR ''.''"
    by (simp add: ctype_simps)
  show ?thesis
    using Cons dot
    by (auto simp: check_host_def valid_host_def check_host_loop_eq sublist_Cons_right)
qed

section \<open>sanitize_log_string\<close>

lemma sanitize_char_safe:
  "uchar (sanitize_char c) \<ge> 32 \<and> uchar (sanitize_char c) \<noteq> 127 \<or> sanitize_char c = HT"
proof -
  have "uchar CHR ''?'' = 63" "uchar HT = 9" by (simp_all add: uchar_def)
  moreover have "uchar c = 9 \<Longrightarrow> c = HT" using \<open>uchar HT = 9\<close> by (metis uchar_inject)
  ultimately show ?thesis by (auto simp: sanitize_char_def)
qed

lemma sanitize_loop_eq:
  "len \<le> LOG_SANITIZE_BUF_SIZE - 4 \<Longrightarrow>
   sanitize_loop p len =
     (map sanitize_char (take (LOG_SANITIZE_BUF_SIZE - 4 - len) p),
      drop (LOG_SANITIZE_BUF_SIZE - 4 - len) p)"
proof (induction p arbitrary: len)
  case Nil
  then show ?case by simp
next
  case (Cons c p)
  show ?case
  proof (cases "len < LOG_SANITIZE_BUF_SIZE - 4")
    case True
    then have "LOG_SANITIZE_BUF_SIZE - 4 - len = Suc (LOG_SANITIZE_BUF_SIZE - 4 - Suc len)"
      by simp
    with True Cons show ?thesis by simp
  next
    case False
    with Cons.prems have "len = LOG_SANITIZE_BUF_SIZE - 4" by simp
    then show ?thesis by simp
  qed
qed

lemma sanitize_log_string_eq:
  "sanitize_log_string (Some p) =
     map sanitize_char (take 2044 p) @ (if length p > 2044 then ''...'' else [])"
  by (simp add: sanitize_log_string_def sanitize_loop_eq LOG_SANITIZE_BUF_SIZE_def)

section \<open>Properties\<close>

text \<open>C14: A cleaned path never climbs above the directory it is resolved in: walking its
  components from left to right, a \<open>..\<close> is never met at depth zero, unless the whole path
  is the single component \<open>/..\<close>.\<close>

theorem clean_pathname_confined:
  assumes "prefix ''/'' p" and "clean_pathname p \<noteq> ''/..''"
  shows "stays_below 0 (segments (clean_pathname p))"
  using assms by (rule clean_pathname_stays_below)

theorem clean_pathname_confined_witness:
  "stays_below 0 (segments (clean_pathname ''/a/./../../../etc/..''))"
proof -
  have "clean_pathname ''/a/./../../../etc/..'' = ''/a/etc/..''"
    by (simp add: skip_dots.simps)
  then show ?thesis
    using clean_pathname_confined [of "''/a/./../../../etc/..''"] by simp
qed

text \<open>\<open>clean_pathname\<close> normalises: its result holds no \<open>//\<close>, \<open>/./\<close> or \<open>/../\<close>, is no longer
  than the argument (it is written over it), and cleaning again changes nothing.\<close>

theorem clean_pathname_normalises:
  "\<not> sublist ''//'' (clean_pathname p) \<and> \<not> sublist ''/./'' (clean_pathname p) \<and>
   \<not> sublist ''/../'' (clean_pathname p) \<and> length (clean_pathname p) \<le> length p \<and>
   clean_pathname (clean_pathname p) = clean_pathname p"
  using clean_pathname_no_dots [of p] length_clean_pathname [of p] clean_pathname_idem [of p]
  by simp

text \<open>\<open>check_host\<close> returns the length of exactly the names of at most 63 letters, digits,
  hyphens and single dots that begin and end with a letter or digit and whose second character is
  not a dot, and \<open>-1\<close> on every other string.\<close>

theorem check_host_correct:
  "check_host (Some s) = (if valid_host s then int (length s) else -1)"
  by (rule check_host_eq)

text \<open>What \<open>sanitize_log_string\<close> hands to the log holds no control character but the
  tabulator, fits the static buffer of 2048 bytes with its terminator, and is the input with each
  control character replaced as long as the input has at most 2044 bytes.\<close>

theorem sanitize_log_string_correct:
  "(\<forall>c. c \<in> set (sanitize_log_string (Some p)) \<longrightarrow> c = HT \<or> uchar c \<ge> 32 \<and> uchar c \<noteq> 127) \<and>
   length (sanitize_log_string (Some p)) < LOG_SANITIZE_BUF_SIZE \<and>
   (length p \<le> 2044 \<longrightarrow> sanitize_log_string (Some p) = map sanitize_char p)"
proof -
  have dot: "uchar CHR ''.'' = 46" by (simp add: uchar_def)
  have "c = HT \<or> uchar c \<ge> 32 \<and> uchar c \<noteq> 127" if "c \<in> set (sanitize_log_string (Some p))" for c
    using that dot sanitize_char_safe by (fastforce simp: sanitize_log_string_eq split: if_splits)
  moreover have "length (sanitize_log_string (Some p)) < LOG_SANITIZE_BUF_SIZE"
    by (simp add: sanitize_log_string_eq LOG_SANITIZE_BUF_SIZE_def)
  ultimately show ?thesis by (simp add: sanitize_log_string_eq)
qed

theorem sanitize_log_string_correct_witness:
  "sanitize_log_string (Some [CHR ''a'', LF, CHR ''b'']) = ''a?b''"
proof -
  have "sanitize_log_string (Some [CHR ''a'', LF, CHR ''b'']) = map sanitize_char [CHR ''a'', LF, CHR ''b'']"
    using sanitize_log_string_correct [of "[CHR ''a'', LF, CHR ''b'']"] by simp
  also have "\<dots> = ''a?b''" by (simp add: sanitize_char_def uchar_def)
  finally show ?thesis .
qed

end
