(* ===== verification/Escape.thy ===== *)
theory Escape
  imports Uri
begin

unbundle bit_operations_syntax

text \<open>
  The escape table of \<^verbatim>\<open>src/src/escape.c\<close> and \<^verbatim>\<open>escape.h\<close>, kept as the array of machine words it is,
  and the encoders built on it: \<open>escape_string\<close> of \<^verbatim>\<open>buffer.c\<close> and the two encoders of the directory
  indexer \<^verbatim>\<open>index_dir.c\<close>. The table is proved to hold exactly the characters listed in the source,
  percent-encoding is proved inverse to \<open>unescape_uri\<close>, and HTML escaping is proved to leave no
  markup character.
\<close>

section \<open>The table\<close>

definition NEEDS_ESCAPE_BITS :: nat where "NEEDS_ESCAPE_BITS = 128"
definition NEEDS_ESCAPE_SHIFT :: nat where "NEEDS_ESCAPE_SHIFT = 5"
definition NEEDS_ESCAPE_WORD_LENGTH :: nat where
  "NEEDS_ESCAPE_WORD_LENGTH = 2 ^ NEEDS_ESCAPE_SHIFT"

definition NEEDS_ESCAPE_INDEX :: "nat \<Rightarrow> nat" where
  "NEEDS_ESCAPE_INDEX c = c div 2 ^ NEEDS_ESCAPE_SHIFT"

text \<open>
  The mask is an \<open>int\<close>: the bit 31 of a 32-bit value makes it negative, and it is sign-extended
  when it meets the \<open>unsigned long\<close> words of the table.
\<close>

definition NEEDS_ESCAPE_MASK :: "nat \<Rightarrow> 32 word" where
  "NEEDS_ESCAPE_MASK c = push_bit (c mod NEEDS_ESCAPE_WORD_LENGTH) 1"

definition special_chars :: string where
  "special_chars = ''ABCDEFGHIJKLMNOPQRSTUVWXYZ'' @ ''abcdefghijklmnopqrstuvwxyz'' @
     ''0123456789'' @ ''-_.!~*'' @ [CHR 0x27] @ ''():@&=+$,/?''"

text \<open>The first loop of \<open>build_needs_escape\<close>: shift a one out of an \<open>unsigned int\<close>, counting.\<close>

fun count_shifts :: "nat \<Rightarrow> 32 word \<Rightarrow> nat \<Rightarrow> nat option" where
  "count_shifts 0 b a = None"
| "count_shifts (Suc fuel) b a =
     (if b \<noteq> 0 then count_shifts fuel (push_bit 1 b) (a + 1) else Some a)"

definition clear_bit :: "64 word list \<Rightarrow> char \<Rightarrow> 64 word list" where
  "clear_bit t c =
     (let j = uchar c in
      if j \<ge> NEEDS_ESCAPE_BITS then t
      else t[NEEDS_ESCAPE_INDEX j :=
               t ! NEEDS_ESCAPE_INDEX j AND scast (NOT (NEEDS_ESCAPE_MASK j))])"

text \<open>\<open>None\<close> is the configuration error that ends the program.\<close>

definition build_needs_escape :: "64 word list option" where
  "build_needs_escape =
     (case count_shifts 33 1 0 of
        None \<Rightarrow> None
      | Some a \<Rightarrow>
          if a < NEEDS_ESCAPE_WORD_LENGTH then None
          else Some (foldl clear_bit
                 (replicate ((NEEDS_ESCAPE_BITS + NEEDS_ESCAPE_WORD_LENGTH - 1)
                               div NEEDS_ESCAPE_WORD_LENGTH) (NOT 0))
                 special_chars))"

definition needs_escape_in :: "64 word list \<Rightarrow> nat \<Rightarrow> bool" where
  "needs_escape_in t c \<longleftrightarrow>
     c \<ge> NEEDS_ESCAPE_BITS \<or>
     t ! NEEDS_ESCAPE_INDEX c AND scast (NEEDS_ESCAPE_MASK c) \<noteq> 0"

text \<open>The program builds the table at start-up and never changes it.\<close>

definition needs_escape :: "char \<Rightarrow> bool" where
  "needs_escape c = (case build_needs_escape of Some t \<Rightarrow> needs_escape_in t (uchar c) | None \<Rightarrow> True)"

section \<open>Encoders\<close>

text \<open>\<open>INT_TO_HEX\<close> of \<^verbatim>\<open>defines.h\<close> (lower case) and of \<^verbatim>\<open>index_dir.c\<close> (upper case).\<close>

definition INT_TO_HEX :: "nat \<Rightarrow> char" where
  "INT_TO_HEX x = char_of (if x > 9 then 97 - 10 + x else 48 + x)"

definition INT_TO_HEX_UPPER :: "nat \<Rightarrow> char" where
  "INT_TO_HEX_UPPER x = char_of (if x \<ge> 10 then 65 + (x - 10) else 48 + x)"

definition escape_char :: "char \<Rightarrow> string" where
  "escape_char c =
     (if needs_escape c
      then [CHR ''%'', INT_TO_HEX ((uchar c div 16) mod 16), INT_TO_HEX (uchar c mod 16)]
      else [c])"

text \<open>
  \<open>escape_string inp buf\<close> with \<open>buf\<close> null allocates three bytes per input byte; for the empty
  string it allocates nothing and reports an error. \<open>alloc\<close> is the outcome of \<open>malloc\<close>.
\<close>

definition escape_string :: "bool \<Rightarrow> string \<Rightarrow> string option" where
  "escape_string alloc inp =
     (if length inp * 3 \<noteq> 0 \<and> alloc then Some (concat (map escape_char inp)) else None)"

definition html_escape_char :: "char \<Rightarrow> string" where
  "html_escape_char c =
     (if c = CHR ''>'' then ''&gt;''
      else if c = CHR ''<'' then ''&lt;''
      else if c = CHR ''&'' then ''&amp;''
      else if c = DQUOTE then ''&quot;''
      else [c])"

text \<open>\<open>html_escape_string\<close> of the indexer, into a buffer its caller provides.\<close>

definition html_escape_string :: "string \<Rightarrow> string" where
  "html_escape_string inp = concat (map html_escape_char inp)"

definition escape_char_upper :: "char \<Rightarrow> string" where
  "escape_char_upper c =
     (if needs_escape c \<or> c = CHR ''?''
      then [CHR ''%'', INT_TO_HEX_UPPER ((uchar c div 16) mod 16), INT_TO_HEX_UPPER (uchar c mod 16)]
      else [c])"

text \<open>
  The loop of \<open>http_escape_string\<close>: the first colon that is not the first output byte makes the
  whole link relative by moving what is written two places up behind \<open>./\<close>.
\<close>

fun http_escape_loop :: "string \<Rightarrow> bool \<Rightarrow> string \<Rightarrow> string" where
  "http_escape_loop buf colon [] = buf"
| "http_escape_loop buf colon (c # s) =
     (if c = CHR '':'' \<and> \<not> colon \<and> buf \<noteq> []
      then http_escape_loop (''./'' @ buf @ '':'') True s
      else http_escape_loop (buf @ escape_char_upper c) colon s)"

definition http_escape_string :: "string \<Rightarrow> string" where
  "http_escape_string inp = http_escape_loop [] False inp"

section \<open>The table holds the characters of the source\<close>

lemma count_shifts_32: "count_shifts 33 1 0 = Some 32"
  by code_simp

lemma needs_escape_table:
  "build_needs_escape =
     Some [0xFFFFFFFFFFFFFFFF, 0x5800002D, 0x78000000, 0xFFFFFFFFB8000001]"
  by code_simp

text \<open>The listed characters by their codes.\<close>

definition special_codes :: "nat set" where
  "special_codes = {65..<91} \<union> ({97..<123} \<union> ({48..<58} \<union>
     {45, 95, 46, 33, 126, 42, 39, 40, 41, 58, 64, 38, 61, 43, 36, 44, 47, 63}))"

lemma special_chars_codes: "c \<in> set special_chars \<longleftrightarrow> uchar c \<in> special_codes"
proof -
  have codes: "map uchar special_chars = [65..<91] @ [97..<123] @ [48..<58] @
      [45, 95, 46, 33, 126, 42, 39, 40, 41, 58, 64, 38, 61, 43, 36, 44, 47, 63]"
    by (simp add: special_chars_def uchar_def upt_rec)
  have "c \<in> set special_chars \<longleftrightarrow> uchar c \<in> set (map uchar special_chars)"
    by (auto simp: image_iff)
  then show ?thesis by (simp only: special_codes_def codes set_append set_upt list.set)
qed

lemma needs_escape_low:
  assumes "n < 128"
  shows "needs_escape_in [0xFFFFFFFFFFFFFFFF, 0x5800002D, 0x78000000, 0xFFFFFFFFB8000001] n
           \<longleftrightarrow> n \<notin> special_codes"
proof -
  have "n \<in> set [0..<128]" using assms by simp
  then show ?thesis
    by (simp add: upt_rec needs_escape_in_def special_codes_def NEEDS_ESCAPE_BITS_def
        NEEDS_ESCAPE_INDEX_def NEEDS_ESCAPE_SHIFT_def NEEDS_ESCAPE_MASK_def
        NEEDS_ESCAPE_WORD_LENGTH_def, elim disjE) simp_all
qed

lemma special_ascii: "c \<in> set special_chars \<Longrightarrow> 32 < uchar c \<and> uchar c < 127"
  unfolding special_chars_codes by (auto simp: special_codes_def)

lemma needs_escape_iff: "needs_escape c \<longleftrightarrow> c \<notin> set special_chars"
proof (cases "uchar c < 128")
  case True
  then show ?thesis
    by (simp add: needs_escape_def needs_escape_table needs_escape_low special_chars_codes)
next
  case False
  then show ?thesis
    using special_ascii [of c]
    by (auto simp: needs_escape_def needs_escape_table needs_escape_in_def NEEDS_ESCAPE_BITS_def)
qed

section \<open>Percent-encoding round trips\<close>

lemma INT_TO_HEX_value:
  "x < 16 \<Longrightarrow> hex_digit_value (INT_TO_HEX x) = int x"
  "x < 16 \<Longrightarrow> hex_digit_value (INT_TO_HEX_UPPER x) = int x"
proof -
  have "\<forall>x \<in> set [0..<16]. hex_digit_value (INT_TO_HEX x) = int x \<and>
                      hex_digit_value (INT_TO_HEX_UPPER x) = int x"
    by (simp add: upt_rec hex_digit_value_def INT_TO_HEX_def INT_TO_HEX_UPPER_def schar_def Let_def)
  moreover have "x \<in> set [0..<16]" if "x < 16" using that by simp
  ultimately show "x < 16 \<Longrightarrow> hex_digit_value (INT_TO_HEX x) = int x"
    "x < 16 \<Longrightarrow> hex_digit_value (INT_TO_HEX_UPPER x) = int x" by blast+
qed

lemma nibbles: "int (uchar c div 16 mod 16) * 16 + int (uchar c mod 16) = int (uchar c)"
proof -
  have "uchar c div 16 mod 16 * 16 + uchar c mod 16 = uchar c"
    using uchar_less [of c] by (simp add: mod_less less_mult_imp_div_less div_mult_mod_eq)
  then show ?thesis by (metis of_nat_add of_nat_mult of_nat_numeral)
qed

lemma char_of_int_uchar [simp]: "char_of_int (int (uchar c)) = c"
proof -
  have "uchar (char_of_int (int (uchar c))) = uchar c"
    using uchar_less [of c] by simp
  then show ?thesis by (simp only: uchar_inject)
qed

lemma HEX_TO_DECIMAL_encode:
  "char_of_int (HEX_TO_DECIMAL (INT_TO_HEX (uchar c div 16 mod 16)) (INT_TO_HEX (uchar c mod 16))) = c"
  "char_of_int (HEX_TO_DECIMAL (INT_TO_HEX_UPPER (uchar c div 16 mod 16))
      (INT_TO_HEX_UPPER (uchar c mod 16))) = c"
  by (simp_all add: HEX_TO_DECIMAL_def INT_TO_HEX_value nibbles)

text \<open>What can travel in a URI path: printable ASCII.\<close>

definition printable :: "char \<Rightarrow> bool" where
  "printable c \<longleftrightarrow> 32 \<le> uchar c \<and> uchar c \<le> 126"

lemma unescape_step:
  "printable c \<Longrightarrow> unescape_uri want
     (CHR ''%'' # a # d # s) = (case unescape_uri want s of (ok, u', q) \<Rightarrow> (ok, c # u', q))"
  if "char_of_int (HEX_TO_DECIMAL a d) = c"
  using that schar_bounds_iff [of c] by (auto simp: printable_def Let_def split: prod.splits)

lemma escape_special: "{CHR ''%'', CHR ''#''} \<inter> set special_chars = {}"
  by code_simp

lemma unescape_escape_char:
  assumes "printable c" and "c \<noteq> CHR ''?''"
  shows "unescape_uri want (escape_char c @ s) =
           (case unescape_uri want s of (ok, u', q) \<Rightarrow> (ok, c # u', q))"
    and "unescape_uri want (escape_char_upper c @ s) =
           (case unescape_uri want s of (ok, u', q) \<Rightarrow> (ok, c # u', q))"
proof -
  show "unescape_uri want (escape_char c @ s) =
          (case unescape_uri want s of (ok, u', q) \<Rightarrow> (ok, c # u', q))"
  proof (cases "needs_escape c")
    case True
    then show ?thesis
      using unescape_step [OF HEX_TO_DECIMAL_encode(1) assms(1)]
      by (simp add: escape_char_def del: unescape_uri.simps)
  next
    case False
    with escape_special have "c \<noteq> CHR ''%''" "c \<noteq> CHR ''#''" by (auto simp: needs_escape_iff)
    with False assms show ?thesis by (simp add: escape_char_def)
  qed
  show "unescape_uri want (escape_char_upper c @ s) =
          (case unescape_uri want s of (ok, u', q) \<Rightarrow> (ok, c # u', q))"
  proof (cases "needs_escape c")
    case True
    then show ?thesis
      using unescape_step [OF HEX_TO_DECIMAL_encode(2) assms(1)]
      by (simp add: escape_char_upper_def del: unescape_uri.simps)
  next
    case False
    with escape_special have "c \<noteq> CHR ''%''" "c \<noteq> CHR ''#''" by (auto simp: needs_escape_iff)
    with False assms show ?thesis by (simp add: escape_char_upper_def)
  qed
qed

lemma unescape_escape_char_query:
  "unescape_uri want (escape_char_upper CHR ''?'' @ s) =
     (case unescape_uri want s of (ok, u', q) \<Rightarrow> (ok, CHR ''?'' # u', q))"
proof -
  have "printable CHR ''?''" by (simp add: printable_def uchar_def)
  then show ?thesis
    using unescape_step [OF HEX_TO_DECIMAL_encode(2)]
    by (simp add: escape_char_upper_def del: unescape_uri.simps)
qed

lemma unescape_escape_upper:
  "printable c \<Longrightarrow> unescape_uri want (escape_char_upper c @ s) =
     (case unescape_uri want s of (ok, u', q) \<Rightarrow> (ok, c # u', q))"
  using unescape_escape_char(2) unescape_escape_char_query by (cases "c = CHR ''?''") auto

lemma unescape_escape_string:
  "\<forall>c \<in> set s. printable c \<and> c \<noteq> CHR ''?'' \<Longrightarrow>
   unescape_uri want (concat (map escape_char s)) = (True, s, None)"
  by (induction s) (auto simp: unescape_escape_char)

subsection \<open>The indexer's links\<close>

text \<open>The link text the loop produces decodes to the name, behind \<open>./\<close> when a colon was met.\<close>

definition link_target :: "string \<Rightarrow> string" where
  "link_target s =
     (if s \<noteq> [] \<and> CHR '':'' \<in> set (tl s) then ''./'' @ s else s)"

lemma colon_plain: "escape_char_upper CHR '':'' = '':''"
proof -
  have "CHR '':'' \<in> set special_chars" by code_simp
  then show ?thesis by (simp add: escape_char_upper_def needs_escape_iff)
qed

lemma unescape_dot_slash:
  "unescape_uri want (''./'' @ s) = (case unescape_uri want s of (ok, u', q) \<Rightarrow> (ok, ''./'' @ u', q))"
  by (auto split: prod.splits)

lemma escape_char_upper_not_Nil [simp]: "escape_char_upper c \<noteq> []"
  by (simp add: escape_char_upper_def)

lemma http_escape_loop_True:
  "http_escape_loop buf True s = buf @ concat (map escape_char_upper s)"
  by (induction s arbitrary: buf) auto

lemma http_escape_loop_False:
  "buf \<noteq> [] \<Longrightarrow> http_escape_loop buf False s =
     (if CHR '':'' \<in> set s then ''./'' else []) @ buf @ concat (map escape_char_upper s)"
  by (induction s arbitrary: buf) (auto simp: http_escape_loop_True colon_plain)

lemma http_escape_string_eq:
  "http_escape_string s =
     (if s \<noteq> [] \<and> CHR '':'' \<in> set (tl s) then ''./'' else []) @ concat (map escape_char_upper s)"
  by (cases s) (simp_all add: http_escape_string_def http_escape_loop_False)

lemma unescape_http_escape_string:
  assumes "\<forall>c \<in> set s. printable c"
  shows "unescape_uri want (http_escape_string s) = (True, link_target s, None)"
proof -
  have "unescape_uri want (concat (map escape_char_upper s)) = (True, s, None)"
    using assms by (induction s) (auto simp: unescape_escape_upper)
  then show ?thesis
    using unescape_dot_slash [of want "concat (map escape_char_upper s)"]
    by (auto simp: http_escape_string_eq link_target_def simp del: unescape_uri.simps(2))
qed

section \<open>HTML escaping\<close>

lemma html_escape_no_markup:
  "{CHR ''<'', CHR ''>'', DQUOTE} \<inter> set (html_escape_string s) = {}"
  by (induction s) (auto simp: html_escape_string_def html_escape_char_def)

text \<open>A decoder for the four entities, used only to state that no information is lost.\<close>

fun html_unescape :: "string \<Rightarrow> string" where
  "html_unescape [] = []"
| "html_unescape (c # s) =
     (if c = CHR ''&'' then
        (if prefix ''gt;'' s then CHR ''>'' # html_unescape (drop 3 s)
         else if prefix ''lt;'' s then CHR ''<'' # html_unescape (drop 3 s)
         else if prefix ''amp;'' s then CHR ''&'' # html_unescape (drop 4 s)
         else if prefix ''quot;'' s then DQUOTE # html_unescape (drop 5 s)
         else c # html_unescape s)
      else c # html_unescape s)"

lemma html_unescape_char:
  "html_unescape (html_escape_char c @ s) = c # html_unescape s"
  by (simp add: html_escape_char_def)

lemma html_unescape_escape: "html_unescape (html_escape_string s) = s"
proof (induction s)
  case Nil
  then show ?case by (simp add: html_escape_string_def)
next
  case (Cons c s)
  then show ?case
    using html_unescape_char [of c "html_escape_string s"] by (simp add: html_escape_string_def)
qed

lemma length_html_escape_char: "length (html_escape_char c) \<le> 6"
  by (simp add: html_escape_char_def)

lemma length_escape_char: "length (escape_char c) \<le> 3"
  by (simp add: escape_char_def)

lemma length_http_escape_string: "length (http_escape_string s) \<le> 3 * length s + 2"
proof -
  have "length (concat (map escape_char_upper s)) \<le> 3 * length s"
    by (induction s) (auto simp: escape_char_upper_def)
  then show ?thesis by (simp add: http_escape_string_eq)
qed

section \<open>Properties\<close>

text \<open>Percent-encoding is undone by \<open>unescape_uri\<close>: for a nonempty string of printable
  characters other than the question mark, encoding succeeds when memory is available, and decoding
  the result gives the string back with no query string. The table that decides what is encoded is
  the array of machine words that \<open>build_needs_escape\<close> fills.\<close>

theorem escape_string_roundtrip:
  assumes "s \<noteq> []" and "\<forall>c \<in> set s. printable c \<and> c \<noteq> CHR ''?''"
  shows "\<exists>e. escape_string True s = Some e \<and> unescape_uri want e = (True, s, None) \<and>
             length e \<le> 3 * length s"
proof -
  have "length (concat (map escape_char s)) \<le> 3 * length s"
    by (induction s) (use length_escape_char in \<open>auto intro: add_mono\<close>)
  then show ?thesis
    using assms unescape_escape_string [of s want] by (simp add: escape_string_def)
qed

theorem escape_string_roundtrip_witness:
  "\<exists>e. escape_string True ''a b'' = Some e \<and> unescape_uri True e = (True, ''a b'', None) \<and>
       length e \<le> 9"
  using escape_string_roundtrip [of "''a b''" True] by (simp add: printable_def uchar_def)

text \<open>The links the directory indexer writes lead back to the names they stand for: decoding
  \<open>http_escape_string s\<close> gives \<open>s\<close>, or \<open>./\<close> and \<open>s\<close> when a colon after the first character
  could be read as a URI scheme.\<close>

theorem http_escape_string_roundtrip:
  assumes "\<forall>c \<in> set s. printable c"
  shows "unescape_uri want (http_escape_string s) = (True, link_target s, None)"
  using assms by (rule unescape_http_escape_string)

theorem http_escape_string_roundtrip_witness:
  "unescape_uri True (http_escape_string ''a:b?'') = (True, ''./a:b?'', None)"
  using http_escape_string_roundtrip [of "''a:b?''" True]
  by (simp add: printable_def uchar_def link_target_def)

text \<open>The HTML the indexer writes for a file name holds none of \<open><\<close>, \<open>>\<close> and the double
  quote, and determines the name: reading the entities back gives the name.\<close>

theorem html_escape_string_safe:
  "{CHR ''<'', CHR ''>'', DQUOTE} \<inter> set (html_escape_string s) = {} \<and>
   html_unescape (html_escape_string s) = s"
  using html_escape_no_markup html_unescape_escape by blast

text \<open>The escape table exempts exactly the characters the source lists.\<close>

theorem needs_escape_exact: "needs_escape c \<longleftrightarrow> c \<notin> set special_chars"
  by (rule needs_escape_iff)

end
