(* ===== verification/Decimal.thy ===== *)
theory Decimal
  imports Escape
begin

unbundle bit_operations_syntax

text \<open>
  Numbers and their decimal text, from \<^verbatim>\<open>src/src/util.c\<close>: \<open>simple_itoa\<close>, \<open>boa_atoi\<close> and \<open>parse_debug\<close>. The
  sources print with 32-bit unsigned arithmetic and parse through the C library's \<open>atoi\<close>, whose
  result is the low half of a 64-bit \<open>strtol\<close>; both widths are kept.
\<close>

section \<open>Decimal text\<close>

definition digit_char :: "nat \<Rightarrow> char" where
  "digit_char d = char_of (48 + d)"

text \<open>The reference notion: the canonical decimal numeral of a natural number.\<close>

fun decimal :: "nat \<Rightarrow> string" where
  "decimal n = (if n < 10 then [digit_char n] else decimal (n div 10) @ [digit_char (n mod 10)])"

declare decimal.simps [simp del]

text \<open>The loop of \<open>simple_itoa\<close> fills its buffer from the end; \<open>p\<close> is what is written so far.\<close>

function itoa_loop :: "32 word \<Rightarrow> string \<Rightarrow> string" where
  "itoa_loop i p =
     (let p' = digit_char (unat (i mod 10)) # p; i' = i div 10
      in if i' \<noteq> 0 then itoa_loop i' p' else p')"
  by pat_completeness auto
termination
proof (relation "measure (\<lambda>(i, p). unat i)")
  fix i :: "32 word" and p p' :: string and i' :: "32 word"
  assume "i' = i div 10" and "i' \<noteq> 0"
  then have "unat i div 10 \<noteq> 0" by (simp add: unat_div flip: unat_eq_zero)
  with \<open>i' = i div 10\<close> show "((i', p'), i, p) \<in> measure (\<lambda>(i, p). unat i)"
    by (simp add: unat_div)
qed simp

declare itoa_loop.simps [simp del]

definition simple_itoa :: "32 word \<Rightarrow> string" where
  "simple_itoa i = itoa_loop i []"


text \<open>The C library: \<open>strtol\<close> in base ten (white space, a sign, digits; saturating) and \<open>atoi\<close>.\<close>

definition digits_value :: "string \<Rightarrow> nat" where
  "digits_value ds = foldl (\<lambda>n c. n * 10 + (uchar c - 48)) 0 ds"

definition strtol :: "string \<Rightarrow> int" where
  "strtol s =
     (let t = dropWhile isspace s;
          neg = (t \<noteq> [] \<and> hd t = CHR ''-'');
          u = (if t \<noteq> [] \<and> hd t \<in> {CHR ''-'', CHR ''+''} then tl t else t);
          v = int (digits_value (takeWhile isdigit u));
          w = (if neg then - v else v)
      in max (- (2 ^ 63)) (min (2 ^ 63 - 1) w))"

definition atoi :: "string \<Rightarrow> int" where
  "atoi s = sint (word_of_int (strtol s) :: 32 word)"

text \<open>
  \<open>memcmp\<close> compares the bytes of \<open>s\<close> with those of the other buffer, terminator included; the
  terminator differs from every byte of \<open>s\<close>, so nothing behind it decides the outcome.
\<close>

definition boa_atoi :: "string \<Rightarrow> int" where
  "boa_atoi s =
     (if s = [] \<or> \<not> isdigit (hd s) then -1
      else (let retval = atoi s in
            if retval < 0 then -1
            else (let reconv = simple_itoa (word_of_int retval) in
                  if s \<noteq> take (length s) (reconv @ [NUL]) then -1 else retval)))"

section \<open>Debug levels\<close>

definition debug_level_table :: "(32 word \<times> string) list" where
  "debug_level_table =
     [(push_bit 0 1, ''Alias''), (push_bit 1 1, ''CGI Output''), (push_bit 2 1, ''CGI Input''),
      (push_bit 3 1, ''CGI Environment''), (push_bit 4 1, ''Header Read State''),
      (push_bit 5 1, ''Pipeline''), (push_bit 6 1, ''Plugin Error''),
      (push_bit 7 1, ''Range related''), (push_bit 8 1, ''Configuration''),
      (push_bit 9 1, ''Buffer I/O''), (push_bit 10 1, ''Body Read State''),
      (push_bit 11 1, ''mmap Cache''), (push_bit 12 1, ''Generic Request''),
      (push_bit 13 1, ''hash table'')]"

text \<open>\<open>parse_debug foo level\<close> is the new debug level; \<open>None\<close> is the exit on a malformed argument.\<close>

definition parse_debug :: "string \<Rightarrow> 32 word \<Rightarrow> 32 word option" where
  "parse_debug foo level =
     (let neg = (foo \<noteq> [] \<and> hd foo = CHR ''-'');
          i = boa_atoi (if neg then tl foo else foo)
      in if i = -1 then None
         else (let i = (if neg then - i else i) in
               Some (foldl (\<lambda>lv (p, mesg).
                       if i > 0 then if word_of_int i AND p \<noteq> 0 then lv OR p else lv
                       else if word_of_int (- i) AND p \<noteq> 0 then lv AND NOT p else lv)
                     level debug_level_table)))"

section \<open>Printing\<close>

lemma itoa_loop_eq: "itoa_loop i p = decimal (unat i) @ p"
proof (induction i p rule: itoa_loop.induct)
  case (1 i p)
  have q: "unat (i div 10) = unat i div 10" and r: "unat (i mod 10) = unat i mod 10"
    by (simp_all add: unat_div unat_mod)
  show ?case
  proof (cases "i div 10 = 0")
    case True
    then have "unat i div 10 = 0" using q by (metis unat_0)
    then have "unat i < 10" by simp
    with True show ?thesis
      by (simp add: itoa_loop.simps [of i] decimal.simps [of "unat i"] r)
  next
    case False
    then have "unat i div 10 \<noteq> 0" using q by (metis unat_eq_zero)
    then have "\<not> unat i < 10" by auto
    with False 1 show ?thesis
      by (simp add: itoa_loop.simps [of i p] decimal.simps [of "unat i"] q r)
  qed
qed

lemma simple_itoa_eq: "simple_itoa i = decimal (unat i)"
  by (simp add: simple_itoa_def itoa_loop_eq)

lemma digit_chars:
  "digit_char 0 = CHR ''0''" "digit_char (Suc 0) = CHR ''1''" "digit_char 1 = CHR ''1''"
  "digit_char 2 = CHR ''2''" "digit_char 3 = CHR ''3''" "digit_char 4 = CHR ''4''"
  "digit_char 5 = CHR ''5''" "digit_char 6 = CHR ''6''" "digit_char 7 = CHR ''7''"
  "digit_char 8 = CHR ''8''" "digit_char 9 = CHR ''9''"
  by code_simp+

lemma uchar_digit_char: "d < 10 \<Longrightarrow> uchar (digit_char d) = 48 + d"
  by (simp add: digit_char_def)

lemma isdigit_digit_char: "d < 10 \<Longrightarrow> isdigit (digit_char d)"
  by (simp add: isdigit_def uchar_digit_char)

lemma decimal_digits: "list_all isdigit (decimal n)"
proof (induction n rule: decimal.induct)
  case (1 n)
  then show ?case by (subst decimal.simps) (auto simp: isdigit_digit_char)
qed

lemma isdigit_NUL [simp]: "\<not> isdigit NUL"
  by (simp add: ctype_simps)

lemma is_cstr_decimal [simp]: "is_cstr (decimal n)"
  using decimal_digits [of n] by (auto simp: is_cstr_def list_all_iff)

lemma decimal_not_Nil [simp]: "decimal n \<noteq> []"
  by (subst decimal.simps) simp

lemma length_decimal: "n < 10 ^ k \<Longrightarrow> 0 < k \<Longrightarrow> length (decimal n) \<le> k"
proof (induction n arbitrary: k rule: decimal.induct)
  case (1 n)
  show ?case
  proof (cases "n < 10")
    case True
    with 1 show ?thesis by (simp add: decimal.simps [of n])
  next
    case False
    then obtain j where j: "k = Suc j" "0 < j" using 1 by (cases k; cases "k - 1") auto
    then have "length (decimal (n div 10)) \<le> j"
      using False "1.prems" by (intro "1.IH") auto
    with False j show ?thesis by (simp add: decimal.simps [of n])
  qed
qed

lemma length_simple_itoa: "length (simple_itoa i) \<le> 10"
proof -
  have "unat i < 2 ^ LENGTH(32)" by (rule unsigned_less)
  then have "unat i < 10 ^ 10" by simp
  then show ?thesis by (simp add: simple_itoa_eq length_decimal)
qed

section \<open>Parsing\<close>

lemma digits_value_Nil [simp]: "digits_value [] = 0"
  by (simp add: digits_value_def)

lemma digits_value_snoc [simp]: "digits_value (xs @ [c]) = digits_value xs * 10 + (uchar c - 48)"
  by (simp add: digits_value_def)

lemma digits_value_append:
  "digits_value (xs @ ys) = digits_value xs * 10 ^ length ys + digits_value ys"
proof (induction ys rule: rev_induct)
  case Nil
  then show ?case by simp
next
  case (snoc y ys)
  have "digits_value (xs @ ys @ [y]) = digits_value ((xs @ ys) @ [y])" by simp
  also have "\<dots> = digits_value (xs @ ys) * 10 + (uchar y - 48)"
    by (simp only: digits_value_snoc)
  also have "\<dots> = digits_value xs * 10 ^ length (ys @ [y]) + digits_value (ys @ [y])"
    by (simp add: snoc)
  finally show ?case .
qed

lemma digits_value_less: "list_all isdigit ds \<Longrightarrow> digits_value ds < 10 ^ length ds"
proof (induction ds rule: rev_induct)
  case (snoc c ds)
  then have "uchar c - 48 < 10" and "digits_value ds + 1 \<le> 10 ^ length ds"
    by (auto simp: isdigit_def)
  then have "digits_value ds * 10 + (uchar c - 48) < (digits_value ds + 1) * 10" by simp
  also have "\<dots> \<le> 10 ^ length ds * 10"
    using \<open>digits_value ds + 1 \<le> 10 ^ length ds\<close> by (rule mult_le_mono1)
  finally show ?case by simp
qed simp

lemma digits_value_decimal [simp]: "digits_value (decimal n) = n"
proof (induction n rule: decimal.induct)
  case (1 n)
  show ?case
  proof (cases "n < 10")
    case True
    then show ?thesis
      using digits_value_snoc [of "[]"] by (simp add: decimal.simps [of n] uchar_digit_char)
  next
    case False
    with 1 show ?thesis by (simp add: decimal.simps [of n] uchar_digit_char)
  qed
qed

lemma digits_value_take_decimal:
  "digits_value (take k (decimal n)) = n div 10 ^ (length (decimal n) - k)"
proof -
  let ?d = "decimal n"
  have "list_all isdigit (drop k ?d)"
    using decimal_digits [of n] by (metis append_take_drop_id list_all_append)
  then have less: "digits_value (drop k ?d) < 10 ^ (length ?d - k)"
    using digits_value_less [of "drop k ?d"] by simp
  have "n = digits_value (take k ?d @ drop k ?d)" by simp
  then have "n = digits_value (take k ?d) * 10 ^ (length ?d - k) + digits_value (drop k ?d)"
    by (simp only: digits_value_append length_drop)
  then show ?thesis
    using less by (metis add.right_neutral div_less div_mult_self3 mult.commute
        not_less_zero)
qed


lemma isdigit_not_space_sign:
  "isdigit c \<Longrightarrow> \<not> isspace c \<and> c \<noteq> CHR ''-'' \<and> c \<noteq> CHR ''+''"
  by (auto simp: ctype_simps)

lemma strtol_digits:
  "s \<noteq> [] \<Longrightarrow> isdigit (hd s) \<Longrightarrow>
   strtol s = min (2 ^ 63 - 1) (int (digits_value (takeWhile isdigit s)))"
  using isdigit_not_space_sign [of "hd s"]
  by (cases s) (simp_all add: strtol_def Let_def)

lemma unat_word_of_nonneg:
  "0 \<le> i \<Longrightarrow> i < 2 ^ 32 \<Longrightarrow> unat (word_of_int i :: 32 word) = nat i"
  by (simp add: unat_eq_nat_uint uint_word_of_int_eq take_bit_int_eq_self)

lemma sint_word_of_small:
  "0 \<le> i \<Longrightarrow> i < 2 ^ 31 \<Longrightarrow> sint (word_of_int i :: 32 word) = i"
  by (simp add: sint_sbintrunc' signed_take_bit_int_eq_self)

lemma sint_word_of_le:
  assumes "0 \<le> i" and "0 \<le> sint (word_of_int i :: 32 word)"
  shows "sint (word_of_int i :: 32 word) \<le> i \<and> sint (word_of_int i :: 32 word) < 2 ^ 31"
proof -
  let ?w = "word_of_int i :: 32 word"
  have st: "sint ?w = take_bit 32 i - 2 ^ 32 * of_bool (bit i 31)"
    using signed_take_bit_eq_take_bit_minus [of 31 i] by (simp add: sint_sbintrunc')
  have "take_bit 32 i \<le> i"
    using assms(1) by (simp add: take_bit_int_less_eq_self_iff)
  moreover have "sint ?w < 2 ^ 31"
    using sint_lt [of ?w] by simp
  ultimately show ?thesis using st by (cases "bit i 31") simp_all
qed

lemma prefix_of_terminated:
  "is_cstr s \<Longrightarrow> s = take (length s) (t @ [NUL]) \<longleftrightarrow> prefix s t"
proof -
  assume s: "is_cstr s"
  have "s = take (length s) (t @ [NUL]) \<longleftrightarrow> prefix s (t @ [NUL])"
    by (metis append_take_drop_id prefixI take_is_prefix append_eq_conv_conj prefixE)
  also have "\<dots> \<longleftrightarrow> prefix s t"
    using s by (auto simp: prefix_snoc)
  finally show ?thesis .
qed

lemma boa_atoi_decimal:
  assumes "n < 2 ^ 31"
  shows "boa_atoi (decimal n) = int n"
proof -
  have dig: "list_all isdigit (decimal n)" by (rule decimal_digits)
  then have tw: "takeWhile isdigit (decimal n) = decimal n"
    by (simp add: list_all_iff takeWhile_eq_all_conv)
  have hd: "isdigit (hd (decimal n))" using dig by (simp add: list_all_iff)
  have "strtol (decimal n) = int n"
    using assms by (simp add: strtol_digits hd tw)
  then have "atoi (decimal n) = int n"
    using assms sint_word_of_small [of "int n"] by (simp add: atoi_def)
  then show ?thesis
    using assms hd unat_word_of_nonneg [of "int n"]
    by (simp add: boa_atoi_def Let_def simple_itoa_eq)
qed

lemma boa_atoi_result:
  assumes "is_cstr s" and "boa_atoi s \<noteq> -1"
  shows "0 \<le> boa_atoi s \<and> boa_atoi s < 2 ^ 31 \<and> s = decimal (nat (boa_atoi s))"
proof -
  define v where "v = min (2 ^ 63 - 1) (int (digits_value (takeWhile isdigit s)))"
  define r where "r = sint (word_of_int v :: 32 word)"
  let ?d = "decimal (nat r)"
  from assms have ne: "s \<noteq> []" and hd: "isdigit (hd s)"
    by (auto simp: boa_atoi_def split: if_splits)
  then have at: "atoi s = r" by (simp add: atoi_def strtol_digits r_def v_def)
  with assms ne hd have r0: "0 \<le> r"
    and pre0: "s = take (length s) (simple_itoa (word_of_int r) @ [NUL])"
    and res: "boa_atoi s = r"
    by (auto simp: boa_atoi_def Let_def split: if_splits)
  have le: "r \<le> v" "r < 2 ^ 31"
    using sint_word_of_le [of v] r0 by (auto simp: r_def v_def)
  have "unat (word_of_int r :: 32 word) = nat r"
    by (rule unat_word_of_nonneg) (use r0 le(2) in auto)
  then have pre: "prefix s ?d"
    using iffD1 [OF prefix_of_terminated [OF assms(1)] pre0] by (simp only: simple_itoa_eq)
  then have s: "s = take (length s) ?d" by (auto simp: prefix_def)
  have "list_all isdigit s"
    using decimal_digits [of "nat r"] pre by (auto simp: prefix_def)
  then have "takeWhile isdigit s = s" by (simp add: list_all_iff takeWhile_eq_all_conv)
  then have "digits_value (takeWhile isdigit s) = nat r div 10 ^ (length ?d - length s)"
    using digits_value_take_decimal [of "length s" "nat r"] s by argo
  with le r0 have ge: "nat r \<le> nat r div 10 ^ (length ?d - length s)"
    unfolding v_def by (metis min.bounded_iff nat_le_iff)
  have "length s = length ?d"
  proof (cases "length ?d - length s")
    case 0
    with pre show ?thesis by (auto simp: prefix_def)
  next
    case (Suc m)
    then have "nat r = 0"
      using ge by (metis div_le_dividend div_less_dividend le_antisym less_irrefl not_gr_zero
          one_less_numeral_iff one_less_power semiring_norm(76) zero_less_Suc)
    then have "length ?d = 1" by (simp add: decimal.simps [of 0])
    with ne pre show ?thesis by (cases s) (auto simp: prefix_def)
  qed
  with s have "s = ?d" by simp
  with res r0 le(2) show ?thesis by simp
qed

section \<open>parse_debug\<close>

definition debug_mask :: "32 word" where
  "debug_mask = 0x3FFF"

lemma and_single: "w AND 2 ^ n = (if bit w n then 2 ^ n else 0)" for w :: "'a::len word"
  by (rule bit_eqI) (auto simp: bit_simps)

lemma single_bit_steps:
  "(if w AND 2 ^ n \<noteq> 0 then lv OR 2 ^ n else lv) = lv OR (w AND 2 ^ n)"
  "(if w AND 2 ^ n \<noteq> 0 then lv AND NOT (2 ^ n) else lv) = lv AND NOT (w AND 2 ^ n)"
  for w :: "'a::len word"
  unfolding and_single by simp_all

text \<open>Folding over single bits sets, or clears, the bits of the argument that are in the table.\<close>

lemma fold_bits:
  fixes w :: "'a::len word"
  assumes "\<forall>(p, mesg) \<in> set tab. \<exists>n. p = 2 ^ n"
  shows "foldl (\<lambda>lv (p, mesg). if w AND p \<noteq> 0 then lv OR p else lv) level tab =
           level OR (w AND foldr (OR) (map fst tab) 0)"
    and "foldl (\<lambda>lv (p, mesg). if w AND p \<noteq> 0 then lv AND NOT p else lv) level tab =
           level AND NOT (w AND foldr (OR) (map fst tab) 0)"
  using assms
proof (induction tab arbitrary: level)
  case (Cons x tab)
  {
    case 1
    then obtain n mesg where x: "x = (2 ^ n, mesg)" by fastforce
    from 1 have t: "\<forall>(p, mesg) \<in> set tab. \<exists>n. p = 2 ^ n" by simp
    show ?case
      by (simp only: x Cons.IH(1) [OF t] foldl_Cons prod.case single_bit_steps list.map foldr_Cons o_apply fst_conv
            bit.conj_disj_distrib or.assoc)
  next
    case 2
    then obtain n mesg where x: "x = (2 ^ n, mesg)" by fastforce
    from 2 have t: "\<forall>(p, mesg) \<in> set tab. \<exists>n. p = 2 ^ n" by simp
    show ?case
      by (simp only: x Cons.IH(2) [OF t] foldl_Cons prod.case single_bit_steps list.map foldr_Cons o_apply fst_conv
            bit.conj_disj_distrib bit.de_Morgan_disj and.assoc)
  }
qed simp_all

lemma debug_table_mask: "foldr (OR) (map fst debug_level_table) 0 = debug_mask"
  by code_simp

lemma debug_table_single: "\<forall>(p, mesg) \<in> set debug_level_table. \<exists>n. p = 2 ^ n"
  by (simp only: debug_level_table_def list.set ball_simps Set.ball_empty prod.case
        push_bit_of_1) blast

lemmas debug_fold = fold_bits [OF debug_table_single, unfolded debug_table_mask]

lemma parse_debug_decimal:
  assumes "n < 2 ^ 31"
  shows "parse_debug (decimal n) level = Some (level OR (word_of_nat n AND debug_mask))"
    and "parse_debug (CHR ''-'' # decimal n) level =
           Some (level AND NOT (word_of_nat n AND debug_mask))"
proof -
  have "isdigit (hd (decimal n))"
    using decimal_digits [of n] by (simp add: list_all_iff)
  then have "hd (decimal n) \<noteq> CHR ''-''"
    using isdigit_not_space_sign by blast
  with assms show "parse_debug (decimal n) level =
      Some (level OR (word_of_nat n AND debug_mask))"
    using debug_fold(2) [of 0 level]
    by (cases "n = 0") (simp_all add: parse_debug_def boa_atoi_decimal debug_fold(1) Let_def)
  show "parse_debug (CHR ''-'' # decimal n) level =
          Some (level AND NOT (word_of_nat n AND debug_mask))"
    using assms
    using debug_fold(2) [of 0 level]
    by (cases "n = 0") (simp_all add: parse_debug_def boa_atoi_decimal debug_fold(2) Let_def)
qed

section \<open>Properties\<close>

text \<open>\<open>boa_atoi\<close> accepts exactly the canonical decimal numerals below \<open>2 ^ 31\<close> and
  returns their value; leading zeros, signs, trailing characters and numbers whose 32-bit or 64-bit
  conversion overflows all give \<open>-1\<close>.\<close>

theorem boa_atoi_canonical:
  assumes "is_cstr s"
  shows "boa_atoi s = (if digits_value s < 2 ^ 31 \<and> s = decimal (digits_value s)
                       then int (digits_value s) else -1)"
proof (cases "boa_atoi s = -1")
  case True
  then show ?thesis using boa_atoi_decimal [of "digits_value s"] by auto
next
  case False
  note r = boa_atoi_result [OF assms False]
  then have "digits_value s = nat (boa_atoi s)" by (metis digits_value_decimal)
  with r show ?thesis by auto
qed

theorem boa_atoi_canonical_witness: "boa_atoi ''8080'' = 8080 \<and> boa_atoi ''4294967297'' = -1"
proof -
  have d: "digits_value ''8080'' = 8080" "digits_value ''4294967297'' = 4294967297"
    by (simp_all add: digits_value_def uchar_def)
  have "decimal 8080 = ''8080''"
    by (simp add: decimal.simps digit_chars)
  then show ?thesis
    using boa_atoi_canonical [of "''8080''"] boa_atoi_canonical [of "''4294967297''"]
    by (simp add: d)
qed

text \<open>Printing is canonical and stays inside the static buffer: \<open>simple_itoa\<close> writes the
  decimal numeral of its 32-bit argument, at most 10 of the 21 characters available.\<close>

theorem simple_itoa_correct:
  "simple_itoa i = decimal (unat i) \<and> length (simple_itoa i) \<le> 10 \<and>
   digits_value (simple_itoa i) = unat i"
  using length_simple_itoa [of i] by (simp add: simple_itoa_eq)

end
