(* ===== verification/Httpdate.thy ===== *)
theory Httpdate
  imports Decimal
begin

text \<open>
  Dates in HTTP headers, from \<^verbatim>\<open>src/src/util.c\<close>: \<open>month2int\<close>, \<open>date_to_tm\<close>, \<open>modified_since\<close> and
  \<open>rfc822_time_buf\<close>. The parts of the C library they rest on are written out: \<open>sscanf\<close> for the
  directives the formats use, and \<open>gmtime\<close> as the proleptic Gregorian calendar.
\<close>

section \<open>The C library: scanf and gmtime\<close>

text \<open>
  A format is read as a list of directives. White space in a format matches any amount of white
  space, including none; \<open>%d\<close>, \<open>%u\<close> and \<open>%ns\<close> skip white space first.
\<close>

datatype directive = Dint | Duns | Dstr nat | Dspace | Dlit char

datatype scanned = Sint int | Suns "32 word" | Sstr string

function parse_format :: "string \<Rightarrow> directive list" where
  "parse_format [] = []"
| "parse_format (c # f) =
     (if c = CHR ''%'' then
        (case f of
           [] \<Rightarrow> []
         | k # f' \<Rightarrow>
             if k = CHR ''d'' then Dint # parse_format f'
             else if k = CHR ''u'' then Duns # parse_format f'
             else (let w = takeWhile isdigit f; r = dropWhile isdigit f in
                   Dstr (digits_value w) # parse_format (tl r)))
      else if isspace c then Dspace # parse_format f
      else Dlit c # parse_format f)"
  by pat_completeness auto
termination
proof (relation "measure length", goal_cases)
  case (4 c f k f' w r)
  then show ?case using length_dropWhile_le [of isdigit f] by simp
qed auto

text \<open>An optional sign and at least one digit; \<open>None\<close> is a matching failure.\<close>

definition scan_number :: "string \<Rightarrow> (bool \<times> string \<times> string) option" where
  "scan_number s =
     (let t = dropWhile isspace s;
          neg = (t \<noteq> [] \<and> hd t = CHR ''-'');
          u = (if t \<noteq> [] \<and> hd t \<in> {CHR ''-'', CHR ''+''} then tl t else t);
          ds = takeWhile isdigit u
      in if ds = [] then None else Some (neg, ds, dropWhile isdigit u))"

definition signed_value :: "bool \<Rightarrow> string \<Rightarrow> int" where
  "signed_value neg ds = (if neg then - int (digits_value ds) else int (digits_value ds))"

text \<open>
  The values stored, in order, up to the first failure. The conversions go through \<open>strtol\<close> and
  \<open>strtoul\<close> and keep the low 32 bits.
\<close>

fun sscanf :: "string \<Rightarrow> directive list \<Rightarrow> scanned list" where
  "sscanf s [] = []"
| "sscanf s (Dspace # f) = sscanf (dropWhile isspace s) f"
| "sscanf s (Dlit c # f) = (case s of [] \<Rightarrow> [] | x # s' \<Rightarrow> if x = c then sscanf s' f else [])"
| "sscanf s (Dint # f) =
     (case scan_number s of
        None \<Rightarrow> []
      | Some (neg, ds, r) \<Rightarrow>
          Sint (sint (word_of_int (max (- (2 ^ 63)) (min (2 ^ 63 - 1) (signed_value neg ds))) :: 32 word))
            # sscanf r f)"
| "sscanf s (Duns # f) =
     (case scan_number s of
        None \<Rightarrow> []
      | Some (neg, ds, r) \<Rightarrow>
          Suns (if digits_value ds < 2 ^ 64 then word_of_int (signed_value neg ds)
                else word_of_int (2 ^ 64 - 1)) # sscanf r f)"
| "sscanf s (Dstr n # f) =
     (let t = dropWhile isspace s;
          w = take n (takeWhile (\<lambda>c. \<not> isspace c) t)
      in if w = [] then [] else Sstr w # sscanf (drop (length w) t) f)"

record tm =
  tm_sec :: int
  tm_min :: int
  tm_hour :: int
  tm_mday :: int
  tm_mon :: int
  tm_year :: int
  tm_wday :: int

definition leap :: "int \<Rightarrow> bool" where
  "leap y \<longleftrightarrow> y mod 4 = 0 \<and> (y mod 100 \<noteq> 0 \<or> y mod 400 = 0)"

definition year_days :: "int \<Rightarrow> int" where
  "year_days y = (if leap y then 366 else 365)"

definition month_days :: "int \<Rightarrow> int list" where
  "month_days y = [31, if leap y then 29 else 28, 31, 30, 31, 30, 31, 31, 30, 31, 30, 31]"

text \<open>From a year and a day number relative to its first day to the year the day falls in.\<close>

function year_down :: "int \<Rightarrow> int \<Rightarrow> int \<times> int" where
  "year_down y d = (if d < 0 then year_down (y - 1) (d + year_days (y - 1)) else (y, d))"
  by pat_completeness auto
termination
  by (relation "measure (\<lambda>(y, d). nat (- d))") (auto simp: year_days_def)

function year_up :: "int \<Rightarrow> int \<Rightarrow> int \<times> int" where
  "year_up y d = (if d \<ge> year_days y then year_up (y + 1) (d - year_days y) else (y, d))"
  by pat_completeness auto
termination
  by (relation "measure (\<lambda>(y, d). nat d)") (auto simp: year_days_def split: if_splits)

declare year_down.simps [simp del] year_up.simps [simp del]

fun month_of :: "int list \<Rightarrow> int \<Rightarrow> int \<Rightarrow> int \<times> int" where
  "month_of [] m d = (m, d)"
| "month_of (l # ls) m d = (if d < l then (m, d) else month_of ls (m + 1) (d - l))"

definition gmtime :: "int \<Rightarrow> tm" where
  "gmtime t =
     (let days = t div 86400; secs = t mod 86400;
          (y, d) = (case year_down 1970 days of (y0, d0) \<Rightarrow> year_up y0 d0);
          (m, md) = month_of (month_days y) 0 d
      in \<lparr>tm_sec = secs mod 60, tm_min = secs div 60 mod 60, tm_hour = secs div 3600,
          tm_mday = md + 1, tm_mon = m, tm_year = y - 1900, tm_wday = (days + 4) mod 7\<rparr>)"

section \<open>Definitions\<close>

definition month2int :: "string \<Rightarrow> int" where
  "month2int monthname =
     (let at = (\<lambda>i. if i < length monthname then monthname ! i else NUL); c = at 0 in
      if c = CHR ''A'' then (if at 1 = CHR ''p'' then 3 else 7)
      else if c = CHR ''D'' then 11
      else if c = CHR ''F'' then 1
      else if c = CHR ''J'' then
        (if at 1 = CHR ''a'' then 0 else if at 2 = CHR ''n'' then 5 else 6)
      else if c = CHR ''M'' then (if at 2 = CHR ''r'' then 2 else 4)
      else if c = CHR ''N'' then 10
      else if c = CHR ''O'' then 9
      else if c = CHR ''S'' then 8
      else -1)"

fun as_int :: "scanned \<Rightarrow> int" where
  "as_int (Sint i) = i"
| "as_int (Suns w) = uint w"
| "as_int (Sstr s) = 0"

fun as_str :: "scanned \<Rightarrow> string" where
  "as_str (Sstr s) = s"
| "as_str _ = []"

text \<open>
  The four formats in the order they are tried. A format is accepted when all six of its
  conversions succeed; the result is day, month name, year, hour, minute and second.
\<close>

definition scan_date :: "string \<Rightarrow> string \<Rightarrow> (int \<times> string \<times> int \<times> int \<times> int \<times> int) option" where
  "scan_date cmtime cmtime_start =
     (let v1 = sscanf cmtime (parse_format ''%d %3s %d %d:%d:%d GMT'');
          v2 = sscanf cmtime (parse_format ''%d-%3s-%d %d:%d:%d GMT'');
          v3 = sscanf cmtime (parse_format ''%3s %d %d:%d:%d %d'');
          v4 = sscanf cmtime_start (parse_format ''%d %10s %d %d:%d:%d GMT'');
          dmy = (\<lambda>v. Some (as_int (v ! 0), as_str (v ! 1), as_int (v ! 2), as_int (v ! 3),
                           as_int (v ! 4), as_int (v ! 5)))
      in if length v1 = 6 then dmy v1
         else if length v2 = 6 then dmy v2
         else if length v3 = 6 then
           Some (as_int (v3 ! 1), as_str (v3 ! 0), as_int (v3 ! 5), as_int (v3 ! 2),
                 as_int (v3 ! 3), as_int (v3 ! 4))
         else if length v4 = 6 then dmy v4
         else None)"

text \<open>\<open>None\<close> is the return value \<open>-1\<close>. \<open>tm_wday\<close> is set to zero and never read.\<close>

definition date_to_tm :: "string \<Rightarrow> tm option" where
  "date_to_tm cmtime =
     (let rest = dropWhile (\<lambda>c. c \<noteq> CHR '' '') cmtime in
      if rest = [] then None
      else
        (case scan_date rest cmtime of
           None \<Rightarrow> None
         | Some (day, monthname, year, hour, minute, second) \<Rightarrow>
             (let year = (if year < 70 then year + 100 else year);
                  year = (if year > 1900 then year - 1900 else year);
                  mon = month2int monthname
              in if mon = -1 then None
                 else if second < 0 \<or> second > 59 then None
                 else if minute < 0 \<or> minute > 59 then None
                 else if hour < 0 \<or> hour > 23 then None
                 else if day < 1 \<or> day > 31 then None
                 else if mon < 0 \<or> mon > 11 then None
                 else if year < 70 \<or> year > 120 then None
                 else Some \<lparr>tm_sec = second, tm_min = minute, tm_hour = hour, tm_mday = day,
                            tm_mon = mon, tm_year = year, tm_wday = 0\<rparr>)))"

definition modified_since :: "int \<Rightarrow> string \<Rightarrow> int" where
  "modified_since mtime if_modified_since =
     (case date_to_tm if_modified_since of
        None \<Rightarrow> -1
      | Some p \<Rightarrow>
          (let f = gmtime mtime; newer = (\<lambda>comp :: int. if comp > 0 then 1 else 0 :: int) in
           if tm_year f \<noteq> tm_year p then newer (tm_year f - tm_year p)
           else if tm_mon f \<noteq> tm_mon p then newer (tm_mon f - tm_mon p)
           else if tm_mday f \<noteq> tm_mday p then newer (tm_mday f - tm_mday p)
           else if tm_hour f \<noteq> tm_hour p then newer (tm_hour f - tm_hour p)
           else if tm_min f \<noteq> tm_min p then newer (tm_min f - tm_min p)
           else if tm_sec f \<noteq> tm_sec p then newer (tm_sec f - tm_sec p)
           else 0))"

definition month_tab :: string where
  "month_tab = ''Jan Feb Mar Apr May Jun Jul Aug Sep Oct Nov Dec ''"

definition day_tab :: string where
  "day_tab = ''Sun,Mon,Tue,Wed,Thu,Fri,Sat,''"

text \<open>
  \<open>rfc822_time_buf\<close> fills the 29 bytes from the last to the first. \<open>two a p\<close> writes two digits in
  front of what is there; the year is written digit by digit while it is not zero.
\<close>

definition two :: "int \<Rightarrow> string \<Rightarrow> string" where
  "two a p = char_of_int (48 + a div 10) # char_of_int (48 + a mod 10) # p"

function year_digits :: "nat \<Rightarrow> string \<Rightarrow> string" where
  "year_digits a p = (if a \<noteq> 0 then year_digits (a div 10) (digit_char (a mod 10) # p) else p)"
  by pat_completeness auto
termination
  by (relation "measure (\<lambda>(a, p). a)") auto

declare year_digits.simps [simp del]

definition rfc822_time_buf :: "int \<Rightarrow> int \<Rightarrow> string" where
  "rfc822_time_buf current_time s =
     (let t = gmtime (if s = 0 then current_time else s);
          p = '' GMT'';
          p = CHR '':'' # two (tm_sec t) p;
          p = CHR '':'' # two (tm_min t) p;
          p = CHR '' '' # two (tm_hour t) p;
          p = year_digits (nat ((1900 + tm_year t) mod 2 ^ 32)) p;
          p = take 4 (drop (4 * nat (tm_mon t)) month_tab) @ p;
          p = CHR '' '' # p;
          p = CHR '' '' # two (tm_mday t) p
      in take 4 (drop (4 * nat (tm_wday t)) day_tab) @ p)"

section \<open>The calendar\<close>

fun days_from :: "int \<Rightarrow> nat \<Rightarrow> int" where
  "days_from y 0 = 0"
| "days_from y (Suc n) = year_days y + days_from (y + 1) n"

lemma year_days_pos: "365 \<le> year_days y" "year_days y \<le> 366"
  by (simp_all add: year_days_def)

lemma year_up_range:
  "0 \<le> d \<Longrightarrow> year_up y d = (y', d') \<Longrightarrow> y \<le> y' \<and> 0 \<le> d' \<and> d' < year_days y'"
proof (induction y d rule: year_up.induct)
  case (1 y d)
  then show ?case
    by (cases "d \<ge> year_days y") (auto simp: year_up.simps [of y d])
qed

lemma year_up_le: "0 \<le> d \<Longrightarrow> d < days_from y (Suc n) \<Longrightarrow> fst (year_up y d) \<le> y + int n"
proof (induction n arbitrary: y d)
  case 0
  then show ?case by (simp add: year_up.simps [of y d])
next
  case (Suc n)
  show ?case
  proof (cases "d \<ge> year_days y")
    case True
    with Suc.prems have "fst (year_up (y + 1) (d - year_days y)) \<le> y + 1 + int n"
      by (intro Suc.IH) auto
    with True show ?thesis by (simp add: year_up.simps [of y d])
  next
    case False
    then show ?thesis by (simp add: year_up.simps [of y d])
  qed
qed

lemma year_up_ge: "days_from y n \<le> d \<Longrightarrow> y + int n \<le> fst (year_up y d)"
proof (induction n arbitrary: y d)
  case 0
  show ?case
  proof (cases "0 \<le> d")
    case True
    then show ?thesis using year_up_range [of d y] by (cases "year_up y d") auto
  qed (use 0 in simp)
next
  case (Suc n)
  have nonneg: "0 \<le> days_from z n" for z
    by (induction n arbitrary: z) (auto simp: year_days_def)
  have "year_days y \<le> d"
    using Suc.prems nonneg [of "y + 1"] by simp
  moreover from Suc.prems have "y + 1 + int n \<le> fst (year_up (y + 1) (d - year_days y))"
    by (intro Suc.IH) simp
  ultimately show ?case by (simp add: year_up.simps [of y d])
qed

lemma month_of_range:
  "month_of ls m d = (m', d') \<Longrightarrow> 0 \<le> d \<Longrightarrow> d < sum_list ls \<Longrightarrow>
   \<forall>l \<in> set ls. l \<le> 31 \<Longrightarrow> m \<le> m' \<and> m' < m + int (length ls) \<and> 0 \<le> d' \<and> d' < 31"
proof (induction ls m d rule: month_of.induct)
  case (2 l ls m d)
  then show ?case by (cases "d < l") auto
qed simp

lemma year_down_nonneg: "0 \<le> snd (year_down y d)"
proof (induction y d rule: year_down.induct)
  case (1 y d)
  then show ?case by (subst year_down.simps) auto
qed

definition tm_valid :: "tm \<Rightarrow> bool" where
  "tm_valid t \<longleftrightarrow>
     0 \<le> tm_sec t \<and> tm_sec t \<le> 59 \<and> 0 \<le> tm_min t \<and> tm_min t \<le> 59 \<and>
     0 \<le> tm_hour t \<and> tm_hour t \<le> 23 \<and> 1 \<le> tm_mday t \<and> tm_mday t \<le> 31 \<and>
     0 \<le> tm_mon t \<and> tm_mon t \<le> 11 \<and> 0 \<le> tm_wday t \<and> tm_wday t \<le> 6"

lemma gmtime_valid: "tm_valid (gmtime t)"
proof -
  let ?secs = "t mod 86400" and ?days = "t div 86400"
  obtain y0 d0 where yd0: "year_down 1970 ?days = (y0, d0)" by fastforce
  obtain y d where yd: "year_up y0 d0 = (y, d)" by fastforce
  obtain m md where mm: "month_of (month_days y) 0 d = (m, md)" by fastforce
  have "0 \<le> d0" using year_down_nonneg [of 1970 ?days] yd0 by simp
  then have "0 \<le> d" "d < year_days y" using year_up_range [OF _ yd] by auto
  then have "0 \<le> m \<and> m < 12 \<and> 0 \<le> md \<and> md < 31"
    using month_of_range [OF mm] by (simp add: month_days_def year_days_def split: if_splits)
  moreover have "0 \<le> ?secs" "?secs < 86400" by simp_all
  then have "0 \<le> ?secs div 3600" "?secs div 3600 < 24" by linarith+
  moreover have "0 \<le> (?days + 4) mod 7" "(?days + 4) mod 7 < 7" by simp_all
  moreover have "x mod 60 \<le> 59" for x :: int
    using pos_mod_bound [of 60 x] by linarith
  ultimately show ?thesis
    by (simp add: tm_valid_def gmtime_def yd0 yd mm Let_def)
qed

lemma gmtime_year:
  assumes "0 \<le> t"
  shows "t < 1609459200 \<Longrightarrow> 70 \<le> tm_year (gmtime t) \<and> tm_year (gmtime t) \<le> 120"
    and "1609459200 \<le> t \<Longrightarrow> 120 < tm_year (gmtime t)"
proof -
  let ?d = "t div 86400"
  have nonneg: "0 \<le> ?d" using assms by simp
  then have "year_down 1970 ?d = (1970, ?d)" by (simp add: year_down.simps)
  then have y: "tm_year (gmtime t) = fst (year_up 1970 ?d) - 1900"
    by (simp add: gmtime_def Let_def split: prod.splits)
  have k: "days_from 1970 51 = 18628"
    by (simp add: year_days_def leap_def eval_nat_numeral)
  have lo: "1970 \<le> fst (year_up 1970 ?d)"
    using year_up_range [OF nonneg, of 1970] by (cases "year_up 1970 ?d") auto
  show "t < 1609459200 \<Longrightarrow> 70 \<le> tm_year (gmtime t) \<and> tm_year (gmtime t) \<le> 120"
  proof -
    assume "t < 1609459200"
    then have "?d < days_from 1970 (Suc 50)" using k by (simp add: eval_nat_numeral)
    then show ?thesis using year_up_le [OF nonneg, of 1970 50] lo y by simp
  qed
  show "120 < tm_year (gmtime t)" if "1609459200 \<le> t"
  proof -
    from that have "days_from 1970 51 \<le> ?d" using k by linarith
    then show ?thesis using year_up_ge [of 1970 51 ?d] y by simp
  qed
qed

section \<open>Scanning what was printed\<close>

text \<open>A continuation that ends a number or a word.\<close>

definition ends :: "(char \<Rightarrow> bool) \<Rightarrow> string \<Rightarrow> bool" where
  "ends P r \<longleftrightarrow> r = [] \<or> \<not> P (hd r)"

lemma takeWhile_ends [simp]: "list_all P ds \<Longrightarrow> ends P r \<Longrightarrow> takeWhile P (ds @ r) = ds"
  by (induction ds) (auto simp: ends_def takeWhile_eq_Nil_iff)

lemma dropWhile_ends [simp]: "list_all P ds \<Longrightarrow> ends P r \<Longrightarrow> dropWhile P (ds @ r) = r"
  by (induction ds) (auto simp: ends_def dropWhile_eq_self_iff)

lemma dropWhile_space_digits:
  "list_all isdigit ds \<Longrightarrow> ds \<noteq> [] \<Longrightarrow> dropWhile isspace (ds @ r) = ds @ r"
  using isdigit_not_space_sign by (cases ds) auto

lemma scan_number_digits:
  assumes "list_all isdigit ds" and "ds \<noteq> []" and "ends isdigit r"
  shows "scan_number (ds @ r) = Some (False, ds, r)"
proof -
  from assms have "hd (ds @ r) \<noteq> CHR ''-''" "hd (ds @ r) \<noteq> CHR ''+''"
    using isdigit_not_space_sign by (cases ds; auto)+
  with assms show ?thesis
    by (simp add: scan_number_def Let_def dropWhile_space_digits)
qed

lemma scan_number_space [simp]: "scan_number (CHR '' '' # s) = scan_number s"
proof -
  have "isspace CHR '' ''" by (simp add: ctype_simps)
  then show ?thesis by (simp add: scan_number_def Let_def)
qed

lemma sscanf_Dint:
  assumes "list_all isdigit ds" and "ds \<noteq> []" and "ends isdigit r" and "digits_value ds < 2 ^ 31"
  shows "sscanf (ds @ r) (Dint # f) = Sint (int (digits_value ds)) # sscanf r f"
    and "sscanf (CHR '' '' # ds @ r) (Dint # f) = Sint (int (digits_value ds)) # sscanf r f"
    and "sscanf (CHR '' '' # ds @ r) (Dspace # Dint # f) = Sint (int (digits_value ds)) # sscanf r f"
  using assms sint_word_of_small [of "int (digits_value ds)"]
  by (simp_all add: scan_number_digits signed_value_def dropWhile_space_digits)

definition digits2 :: "int \<Rightarrow> string" where
  "digits2 a = [digit_char (nat (a div 10)), digit_char (nat (a mod 10))]"

lemma two_eq: "0 \<le> a \<Longrightarrow> a < 100 \<Longrightarrow> two a p = digits2 a @ p"
  by (simp add: two_def digits2_def digit_char_def char_of_int_def nat_add_distrib)

lemma digits2_props:
  assumes "0 \<le> a" and "a < 100"
  shows "list_all isdigit (digits2 a)" and "digits2 a \<noteq> []" and "digits_value (digits2 a) = nat a"
    and "length (digits2 a) = 2"
proof -
  have b: "nat (a div 10) < 10" "nat (a mod 10) < 10" using assms by linarith+
  then show "list_all isdigit (digits2 a)" by (simp add: digits2_def isdigit_digit_char)
  show "digits2 a \<noteq> []" "length (digits2 a) = 2" by (simp_all add: digits2_def)
  have "digits_value (digits2 a) = nat (a div 10) * 10 + nat (a mod 10)"
    using digits_value_append [of "[digit_char (nat (a div 10))]" "[digit_char (nat (a mod 10))]"] b
    by (simp add: digits2_def digits_value_def uchar_digit_char)
  also have "\<dots> = nat a" using assms by (simp add: nat_div_distrib nat_mod_distrib)
  finally show "digits_value (digits2 a) = nat a" .
qed

lemma year_digits_eq: "year_digits a p = (if a = 0 then p else decimal a @ p)"
proof (induction a p rule: year_digits.induct)
  case (1 a p)
  then show ?case
    by (cases "a < 10") (auto simp: year_digits.simps [of a p] decimal.simps [of a])
qed

text \<open>The tables: three letters and a separator per entry.\<close>

lemma month_entry:
  assumes "0 \<le> m" and "m \<le> 11"
  shows "\<exists>a b c. take 4 (drop (4 * nat m) month_tab) = [a, b, c, CHR '' ''] \<and>
           \<not> isspace a \<and> \<not> isspace b \<and> \<not> isspace c \<and> month2int [a, b, c] = m"
proof -
  have "m \<in> {0, 1, 2, 3, 4, 5, 6, 7, 8, 9, 10, 11}" using assms by simp presburger
  then show ?thesis
    by (elim insertE emptyE) (simp_all add: month_tab_def month2int_def ctype_simps)
qed

lemma day_entry:
  assumes "0 \<le> w" and "w \<le> 6"
  shows "length (take 4 (drop (4 * nat w) day_tab)) = 4 \<and>
         CHR '' '' \<notin> set (take 4 (drop (4 * nat w) day_tab))"
proof -
  have "w \<in> {0, 1, 2, 3, 4, 5, 6}" using assms by auto
  then show ?thesis by (elim insertE emptyE) (simp_all add: day_tab_def)
qed

section \<open>Printing and parsing\<close>

lemma rfc822_time_buf_eq:
  assumes t: "t = gmtime (if s = 0 then now else s)"
    and y: "1 \<le> 1900 + tm_year t" "1900 + tm_year t < 2 ^ 32"
  shows "rfc822_time_buf now s =
     take 4 (drop (4 * nat (tm_wday t)) day_tab) @ '' '' @ digits2 (tm_mday t) @ '' '' @
     take 4 (drop (4 * nat (tm_mon t)) month_tab) @ decimal (nat (1900 + tm_year t)) @ '' '' @
     digits2 (tm_hour t) @ '':'' @ digits2 (tm_min t) @ '':'' @ digits2 (tm_sec t) @ '' GMT''"
  using gmtime_valid [of "if s = 0 then now else s"] y
  by (simp add: rfc822_time_buf_def Let_def tm_valid_def two_eq year_digits_eq flip: t)

lemma parse_formats:
  "parse_format ''%d %3s %d %d:%d:%d GMT'' =
     [Dint, Dspace, Dstr 3, Dspace, Dint, Dspace, Dint, Dlit CHR '':'', Dint, Dlit CHR '':'', Dint,
      Dspace, Dlit CHR ''G'', Dlit CHR ''M'', Dlit CHR ''T'']"
  by (simp add: ctype_simps digits_value_def)

lemma scan_date_printed:
  assumes d: "0 \<le> day" "day < 100" and h: "0 \<le> hour" "hour < 100"
    and mi: "0 \<le> minute" "minute < 100" and se: "0 \<le> second" "second < 100"
    and mon: "\<not> isspace a" "\<not> isspace b" "\<not> isspace c" and y: "year < 2 ^ 31"
  shows "scan_date ('' '' @ digits2 day @ '' '' @ [a, b, c, CHR '' ''] @ decimal year @ '' '' @
           digits2 hour @ '':'' @ digits2 minute @ '':'' @ digits2 second @ '' GMT'') st =
         Some (day, [a, b, c], int year, hour, minute, second)"
proof -
  have sp: "isspace CHR '' ''" and nd: "\<not> isdigit CHR '' ''" "\<not> isdigit CHR '':''"
    by (simp_all add: ctype_simps)
  have e: "ends isdigit (CHR '' '' # r)" "ends isdigit (CHR '':'' # r)" for r
    using nd by (simp_all add: ends_def)
  note p = digits2_props [OF d] digits2_props [OF h] digits2_props [OF mi] digits2_props [OF se]
  have yd: "list_all isdigit (decimal year)" "decimal year \<noteq> []" "digits_value (decimal year) < 2 ^ 31"
    using y decimal_digits by auto
  have word: "sscanf (CHR '' '' # a # b # c # CHR '' '' # r) (Dspace # Dstr 3 # f) =
      Sstr [a, b, c] # sscanf (CHR '' '' # r) f" for r f
    using sp mon by simp
  have step: "sscanf (CHR '' '' # digits2 day @ r) (Dint # f) = Sint day # sscanf r f"
    if "ends isdigit r" for r f
    using sscanf_Dint(2) [OF p(1,2) that, of f] p(3) d by (simp del: sscanf.simps)
  have hour: "sscanf (CHR '' '' # digits2 hour @ r) (Dspace # Dint # f) = Sint hour # sscanf r f"
    if "ends isdigit r" for r f
    using sscanf_Dint(3) [OF p(5,6) that, of f] p(7) h by (simp del: sscanf.simps)
  have minute: "sscanf (digits2 minute @ r) (Dint # f) = Sint minute # sscanf r f"
    if "ends isdigit r" for r f
    using sscanf_Dint(1) [OF p(9,10) that, of f] p(11) mi by (simp del: sscanf.simps)
  have second: "sscanf (digits2 second @ r) (Dint # f) = Sint second # sscanf r f"
    if "ends isdigit r" for r f
    using sscanf_Dint(1) [OF p(13,14) that, of f] p(15) se by (simp del: sscanf.simps)
  have year: "sscanf (CHR '' '' # decimal year @ r) (Dspace # Dint # f) = Sint (int year) # sscanf r f"
    if "ends isdigit r" for r f
    using sscanf_Dint(3) [OF yd(1,2) that yd(3), of f] by (simp del: sscanf.simps)
  have lit: "sscanf (x # r) (Dlit x # f) = sscanf r f" for x r f by simp
  have fin: "sscanf ('' GMT'') [Dspace, Dlit CHR ''G'', Dlit CHR ''M'', Dlit CHR ''T''] = []"
    using sp by (simp add: ctype_simps)
  show ?thesis
    unfolding scan_date_def parse_formats append.simps
    by (simp only: step word hour minute second year lit fin e Let_def list.size simp_thms if_True nth_Cons_0 as_int.simps)
       simp
qed

text \<open>Parsing a printed date gives its fields back when the year is one the parser accepts.\<close>

lemma date_to_tm_printed:
  assumes t: "t = gmtime (if s = 0 then now else s)"
    and y: "70 \<le> tm_year t" "tm_year t < 2 ^ 30"
  shows "date_to_tm (rfc822_time_buf now s) =
           (if tm_year t \<le> 120 then Some (t\<lparr>tm_wday := 0\<rparr>) else None)"
proof -
  have v: "tm_valid t" unfolding t by (rule gmtime_valid)
  obtain a b c where mon: "take 4 (drop (4 * nat (tm_mon t)) month_tab) = [a, b, c, CHR '' '']"
      "\<not> isspace a" "\<not> isspace b" "\<not> isspace c" "month2int [a, b, c] = tm_mon t"
    using month_entry [of "tm_mon t"] v by (auto simp: tm_valid_def)
  define rest where "rest = '' '' @ digits2 (tm_mday t) @ '' '' @ [a, b, c, CHR '' ''] @
     decimal (nat (1900 + tm_year t)) @ '' '' @ digits2 (tm_hour t) @ '':'' @ digits2 (tm_min t) @
     '':'' @ digits2 (tm_sec t) @ '' GMT''"
  define day where "day = take 4 (drop (4 * nat (tm_wday t)) day_tab)"
  have eq: "rfc822_time_buf now s = day @ rest"
    using rfc822_time_buf_eq [OF t] y mon(1) by (simp add: rest_def day_def)
  have "CHR '' '' \<notin> set day"
    using day_entry [of "tm_wday t"] v by (auto simp: tm_valid_def day_def)
  then have dw: "dropWhile (\<lambda>c. c \<noteq> CHR '' '') (day @ rest) = rest"
    by (subst dropWhile_append2) (auto simp: rest_def)
  have "scan_date rest st =
      Some (tm_mday t, [a, b, c], 1900 + tm_year t, tm_hour t, tm_min t, tm_sec t)" for st
    using scan_date_printed [of "tm_mday t" "tm_hour t" "tm_min t" "tm_sec t" a b c
        "nat (1900 + tm_year t)" st] v y mon
    by (simp add: tm_valid_def rest_def)
  moreover have "rest \<noteq> []" by (simp add: rest_def)
  ultimately show ?thesis
    using v y mon(5) by (auto simp: date_to_tm_def eq dw tm_valid_def)
qed

lemma length_rfc822_time_buf:
  assumes t: "t = gmtime (if s = 0 then now else s)" and y: "0 \<le> tm_year t" "tm_year t < 8100"
  shows "length (rfc822_time_buf now s) = 29"
proof -
  have v: "tm_valid t" unfolding t by (rule gmtime_valid)
  have four: "length (decimal n) = 4" if "1000 \<le> n" "n < 10000" for n
    using that by (subst decimal.simps, subst decimal.simps, subst decimal.simps, subst decimal.simps)
      (auto simp: div_mult2_eq [symmetric] less_mult_imp_div_less)
  have "length (take 4 (drop (4 * nat (tm_mon t)) month_tab)) = 4"
    using month_entry [of "tm_mon t"] v by (fastforce simp: tm_valid_def)
  moreover have "length (take 4 (drop (4 * nat (tm_wday t)) day_tab)) = 4"
    using day_entry [of "tm_wday t"] v by (simp add: tm_valid_def)
  ultimately show ?thesis
    using rfc822_time_buf_eq [OF t] four [of "nat (1900 + tm_year t)"] y
    by (simp add: digits2_def del: length_take)
qed

lemma modified_since_Some:
  "date_to_tm s = Some ((gmtime t)\<lparr>tm_wday := 0\<rparr>) \<Longrightarrow> modified_since t s = 0"
  by (simp add: modified_since_def Let_def)

section \<open>Properties\<close>

text \<open>C39: For a file last modified between 1970 and the end of 2020, the date that the server
  prints in \<open>Last-Modified\<close> has 29 characters, parses back to the same calendar fields, and a
  client that sends it back in \<open>If-Modified-Since\<close> is told that the file has not changed.\<close>

theorem last_modified_roundtrip:
  assumes "0 < mtime" and "mtime < 1609459200"
  shows "length (rfc822_time_buf now mtime) = 29 \<and>
         date_to_tm (rfc822_time_buf now mtime) = Some ((gmtime mtime)\<lparr>tm_wday := 0\<rparr>) \<and>
         modified_since mtime (rfc822_time_buf now mtime) = 0"
proof -
  have y: "70 \<le> tm_year (gmtime mtime)" "tm_year (gmtime mtime) \<le> 120"
    using gmtime_year(1) [of mtime] assms by auto
  then have "date_to_tm (rfc822_time_buf now mtime) = Some ((gmtime mtime)\<lparr>tm_wday := 0\<rparr>)"
    using date_to_tm_printed [of "gmtime mtime" mtime now] assms by simp
  moreover have "length (rfc822_time_buf now mtime) = 29"
    using length_rfc822_time_buf [of "gmtime mtime" mtime now] y assms by simp
  ultimately show ?thesis using modified_since_Some by blast
qed

theorem last_modified_roundtrip_witness:
  "modified_since 784111777 (rfc822_time_buf 0 784111777) = 0"
  using last_modified_roundtrip [of 784111777 0] by simp

text \<open>A date of 2021 or later that the server printed itself is refused by its parser:
  \<open>modified_since\<close> returns its error value for every file, so such a request is always answered
  with the whole file. (The calendar year is assumed to fit the parser's 32-bit field.)\<close>

theorem modified_since_after_2020:
  assumes "1609459200 \<le> t" and "tm_year (gmtime t) < 2 ^ 30"
  shows "modified_since mtime (rfc822_time_buf now t) = -1"
proof -
  have "120 < tm_year (gmtime t)" using gmtime_year(2) [of t] assms by simp
  then have "date_to_tm (rfc822_time_buf now t) = None"
    using date_to_tm_printed [of "gmtime t" t now] assms by simp
  then show ?thesis by (simp add: modified_since_def)
qed

theorem modified_since_after_2020_witness:
  "modified_since 5 (rfc822_time_buf 0 1609459200) = -1"
proof -
  have "fst (year_up 1970 18628) \<le> 1970 + int 51"
    by (rule year_up_le) (simp_all add: year_days_def leap_def eval_nat_numeral)
  then have "tm_year (gmtime 1609459200) < 2 ^ 30"
    by (auto simp: gmtime_def year_down.simps Let_def split: prod.splits)
  then show ?thesis using modified_since_after_2020 [of 1609459200 5 0] by simp
qed

end
