(* ===== verification/Hash.thy ===== *)
theory Hash
  imports Decimal
begin

unbundle bit_operations_syntax

text \<open>
  The two string tables of \<^verbatim>\<open>src/src/hash.c\<close>: file extensions to MIME types and user names to home
  directories. A table is an array of chains; a chain is the list of its key/value pairs in link
  order. The library functions a table relies on are \<open>malloc\<close> and \<open>strdup\<close>, whose outcomes are
  read from a script of booleans (an exhausted script means success), and \<open>getpwnam\<close>, which is
  an argument.
\<close>

section \<open>Allocation outcomes\<close>

type_synonym allocs = "bool list"

fun alloc :: "allocs \<Rightarrow> bool \<times> allocs" where
  "alloc [] = (True, [])"
| "alloc (b # bs) = (b, bs)"

section \<open>Hash functions\<close>

definition MAX_HASH_LENGTH :: nat where "MAX_HASH_LENGTH = 4"
definition OFFSET_BASIS :: "32 word" where "OFFSET_BASIS = 2166136261"
definition FNV_PRIME :: "32 word" where "FNV_PRIME = 16777619"

text \<open>The \<open>do\<close> loop of \<open>fnv1a_hash\<close>; the argument is not empty. A byte is sign-extended.\<close>

fun fnv1a_loop :: "32 word \<Rightarrow> string \<Rightarrow> nat \<Rightarrow> 32 word" where
  "fnv1a_loop hash [] count = hash"
| "fnv1a_loop hash (c # str) count =
     (let hash = (hash XOR word_of_int (schar c)) * FNV_PRIME in
      if str \<noteq> [] \<and> count \<noteq> 0 then fnv1a_loop hash str (count - 1) else hash)"

definition fnv1a_hash :: "string \<Rightarrow> 32 word" where
  "fnv1a_hash str = fnv1a_loop OFFSET_BASIS str MAX_HASH_LENGTH"

text \<open>
  The variants a build can choose instead. \<open>sdbm_hash\<close> and \<open>djb2_hash\<close> fold over at most
  \<open>MAX_HASH_LENGTH\<close> bytes.
\<close>

definition four_char_hash :: "string \<Rightarrow> 32 word" where
  "four_char_hash buf =
     (let at = (\<lambda>i. if i < length buf then buf ! i else NUL); v = (\<lambda>c. word_of_int (schar c)) in
      v (at 0) +
      (if at 1 \<noteq> NUL then v (at 1)
       else 241 + (if at 2 \<noteq> NUL then v (at 2)
                   else 251 + (if at 3 \<noteq> NUL then v (at 3) else 257))))"

definition sdbm_hash :: "string \<Rightarrow> 32 word" where
  "sdbm_hash str =
     foldl (\<lambda>hash c. word_of_int (schar c) + push_bit 6 hash + push_bit 16 hash - hash) 0
       (take MAX_HASH_LENGTH str)"

definition djb2_hash :: "string \<Rightarrow> 32 word" where
  "djb2_hash str =
     foldl (\<lambda>hash c. (push_bit 5 hash + hash) + word_of_int (schar c)) 5381
       (take MAX_HASH_LENGTH str)"

datatype hash_choice = WANT_ICKY_HASH | WANT_SDBM_HASH | WANT_DJB2_HASH | FNV1A_HASH

fun boa_hash_with :: "hash_choice \<Rightarrow> string option \<Rightarrow> 32 word" where
  "boa_hash_with w None = 0"
| "boa_hash_with w (Some str) =
     (if str = [] then 0
      else (case w of WANT_ICKY_HASH \<Rightarrow> four_char_hash str | WANT_SDBM_HASH \<Rightarrow> sdbm_hash str
                    | WANT_DJB2_HASH \<Rightarrow> djb2_hash str | FNV1A_HASH \<Rightarrow> fnv1a_hash str))"

section \<open>Tables\<close>

type_synonym hash_struct = "string \<times> string"
type_synonym hash_table = "hash_struct list list"

definition MIME_HASHTABLE_SIZE :: nat where "MIME_HASHTABLE_SIZE = 47"
definition PASSWD_HASHTABLE_SIZE :: nat where "PASSWD_HASHTABLE_SIZE = 47"

text \<open>The search loop of \<open>hash_find\<close> and of \<open>hash_insert\<close> along one chain.\<close>

fun chain_find :: "hash_struct list \<Rightarrow> string \<Rightarrow> hash_struct option" where
  "chain_find [] key = None"
| "chain_find (current # rest) key =
     (if fst current = key then Some current else chain_find rest key)"

text \<open>
  \<open>hash_insert\<close> returns the entry found or added, the table and what is left of the script. The
  node is allocated first, then both strings, and a failure of any of the three leaves the table
  as it was.
\<close>

definition hash_insert ::
  "hash_table \<Rightarrow> nat \<Rightarrow> string option \<Rightarrow> string option \<Rightarrow> allocs \<Rightarrow>
     hash_struct option \<times> hash_table \<times> allocs" where
  "hash_insert table hash key value al =
     (case (key, value) of
        (Some k, Some v) \<Rightarrow>
          if k = [] \<or> v = [] then (None, table, al)
          else (case chain_find (table ! hash) k of
                  Some current \<Rightarrow> (Some current, table, al)
                | None \<Rightarrow>
                    (let (node_ok, al1) = alloc al in
                     if \<not> node_ok then (None, table, al1)
                     else (let (key_ok, al2) = alloc al1; (value_ok, al3) = alloc al2 in
                           if \<not> key_ok \<or> \<not> value_ok then (None, table, al3)
                           else (Some (k, v), table[hash := table ! hash @ [(k, v)]], al3))))
      | _ \<Rightarrow> (None, table, al))"

definition hash_find :: "hash_table \<Rightarrow> string option \<Rightarrow> nat \<Rightarrow> hash_struct option" where
  "hash_find table key hash =
     (case key of
        None \<Rightarrow> None
      | Some k \<Rightarrow> if k = [] then None else chain_find (table ! hash) k)"

definition hash_clear :: "hash_table \<Rightarrow> nat \<Rightarrow> hash_table" where
  "hash_clear table n = replicate n [] @ drop n table"

text \<open>The counts \<open>hash_show_stats\<close> reports.\<close>

definition hash_show_stats :: "hash_table \<Rightarrow> hash_table \<Rightarrow> nat \<times> nat" where
  "hash_show_stats mime passwd =
     (foldl (\<lambda>total temp. total + length temp) 0 mime,
      foldl (\<lambda>total temp. total + length temp) 0 passwd)"

section \<open>MIME types and home directories\<close>

definition get_mime_hash_value :: "hash_choice \<Rightarrow> string \<Rightarrow> nat" where
  "get_mime_hash_value w extension =
     unat (boa_hash_with w (Some extension)) mod MIME_HASHTABLE_SIZE"

text \<open>\<open>None\<close> is the exit of the program by \<open>DIE\<close>.\<close>

definition add_mime_type ::
  "hash_choice \<Rightarrow> string \<Rightarrow> string \<Rightarrow> hash_table \<Rightarrow> allocs \<Rightarrow> (hash_table \<times> allocs) option" where
  "add_mime_type w extension type table al =
     (case hash_insert table (get_mime_hash_value w extension) (Some extension) (Some type) al of
        (None, _, _) \<Rightarrow> None
      | (Some _, table', al') \<Rightarrow> Some (table', al'))"

definition get_mime_type ::
  "hash_choice \<Rightarrow> string option \<Rightarrow> hash_table \<Rightarrow> string option \<Rightarrow> string option" where
  "get_mime_type w default_type table filename =
     (case filename of
        None \<Rightarrow> default_type
      | Some f \<Rightarrow>
          if f = [] then default_type
          else (case strrchr f (CHR ''.'') of
                  None \<Rightarrow> default_type
                | Some i \<Rightarrow>
                    (let extension = drop (Suc i) f in
                     if extension = [] then default_type
                     else (case hash_find table (Some extension) (get_mime_hash_value w extension) of
                             Some current \<Rightarrow> Some (snd current)
                           | None \<Rightarrow> default_type))))"

definition get_homedir_hash_value :: "hash_choice \<Rightarrow> string \<Rightarrow> nat" where
  "get_homedir_hash_value w name = unat (boa_hash_with w (Some name)) mod PASSWD_HASHTABLE_SIZE"

text \<open>\<open>getpwnam\<close> maps a user name to the home directory of the password entry, if there is one.\<close>

definition get_home_dir ::
  "hash_choice \<Rightarrow> (string \<Rightarrow> string option) \<Rightarrow> string \<Rightarrow> hash_table \<Rightarrow> allocs \<Rightarrow>
     string option \<times> hash_table \<times> allocs" where
  "get_home_dir w getpwnam name table al =
     (let hash = get_homedir_hash_value w name in
      case hash_find table (Some name) hash of
        Some current \<Rightarrow> (Some (snd current), table, al)
      | None \<Rightarrow>
          (case getpwnam name of
             None \<Rightarrow> (None, table, al)
           | Some pw_dir \<Rightarrow>
               (case hash_insert table hash (Some name) (Some pw_dir) al of
                  (current, table', al') \<Rightarrow> (map_option snd current, table', al'))))"

definition dump_mime :: "hash_table \<Rightarrow> hash_table" where
  "dump_mime table = hash_clear table MIME_HASHTABLE_SIZE"

definition dump_passwd :: "hash_table \<Rightarrow> hash_table" where
  "dump_passwd table = hash_clear table PASSWD_HASHTABLE_SIZE"

section \<open>A table is a finite map\<close>

text \<open>Every entry sits in the chain of its key, and no chain holds a key twice.\<close>

definition table_ok :: "nat \<Rightarrow> (string \<Rightarrow> nat) \<Rightarrow> hash_table \<Rightarrow> bool" where
  "table_ok n h table \<longleftrightarrow>
     length table = n \<and>
     (\<forall>i < n. distinct (map fst (table ! i)) \<and> (\<forall>(k, v) \<in> set (table ! i). h k = i \<and> k \<noteq> [] \<and> v \<noteq> []))"

text \<open>The map a table stands for.\<close>

definition table_map :: "(string \<Rightarrow> nat) \<Rightarrow> hash_table \<Rightarrow> string \<Rightarrow> string option" where
  "table_map h table k = (if k = [] then None else map_of (table ! h k) k)"

lemma chain_find_map_of: "chain_find c k = map_option (Pair k) (map_of c k)"
  by (induction c) (auto simp: prod_eq_iff)

lemma hash_find_table_map:
  "hash_find table (Some k) (h k) = map_option (Pair k) (table_map h table k)"
  by (simp add: hash_find_def table_map_def chain_find_map_of)

lemma hash_insert_cases:
  assumes "k \<noteq> []" and "v \<noteq> []"
  shows "hash_insert table hash (Some k) (Some v) al = (e, table', al') \<Longrightarrow>
     (case map_of (table ! hash) k of
        Some v' \<Rightarrow> e = Some (k, v') \<and> table' = table
      | None \<Rightarrow> e = None \<and> table' = table \<or>
          e = Some (k, v) \<and> table' = table[hash := table ! hash @ [(k, v)]])"
  using assms
  by (auto simp: hash_insert_def chain_find_map_of split: option.splits prod.splits if_splits)

lemma hash_insert_default:
  assumes "k \<noteq> []" and "v \<noteq> []"
  shows "hash_insert table hash (Some k) (Some v) [] =
     (case map_of (table ! hash) k of
        Some v' \<Rightarrow> (Some (k, v'), table, [])
      | None \<Rightarrow> (Some (k, v), table[hash := table ! hash @ [(k, v)]], []))"
  using assms by (auto simp: hash_insert_def chain_find_map_of split: option.splits)

lemma table_ok_append:
  assumes "table_ok n h table" and "h k < n" and "map_of (table ! h k) k = None"
    and "k \<noteq> []" and "v \<noteq> []"
  shows "table_ok n h (table[h k := table ! h k @ [(k, v)]])"
  using assms by (auto simp: table_ok_def nth_list_update map_of_eq_None_iff)

lemma table_map_append:
  assumes "table_ok n h table" and "\<forall>x. h x < n" and "table_map h table k = None"
    and "k \<noteq> []"
  shows "table_map h (table[h k := table ! h k @ [(k, v)]]) = (table_map h table)(k \<mapsto> v)"
proof
  fix x
  show "table_map h (table[h k := table ! h k @ [(k, v)]]) x = ((table_map h table)(k \<mapsto> v)) x"
    using assms
    by (cases "h x = h k") (auto simp: table_map_def table_ok_def map_add_def split: option.splits)
qed

lemma hash_insert_refines:
  assumes ok: "table_ok n h table" and h: "\<forall>x. h x < n" and kv: "k \<noteq> []" "v \<noteq> []"
    and ins: "hash_insert table (h k) (Some k) (Some v) al = (e, table', al')"
  shows "table_ok n h table' \<and>
    (case e of
       Some (k', v') \<Rightarrow> k' = k \<and> table_map h table' =
         (if table_map h table k = None then (table_map h table)(k \<mapsto> v) else table_map h table) \<and>
         table_map h table' k = Some v'
     | None \<Rightarrow> table_map h table' = table_map h table)"
proof (cases "map_of (table ! h k) k")
  case None
  then have "table_map h table k = None" by (simp add: table_map_def)
  with hash_insert_cases [OF kv ins] None show ?thesis
    using table_ok_append [OF ok _ None kv] table_map_append [OF ok h _ kv(1)] ok h by auto
next
  case (Some v')
  with hash_insert_cases [OF kv ins] ok kv show ?thesis by (auto simp: table_map_def)
qed

section \<open>Tables that are written once per key\<close>

text \<open>
  The interface the server relies on: a binding, once made, is never changed by a later insertion,
  and an insertion affects no other key.
\<close>

locale write_once_table =
  fixes add :: "'t \<Rightarrow> string \<Rightarrow> string \<Rightarrow> 't"
    and find :: "'t \<Rightarrow> string \<Rightarrow> string option"
    and ok :: "'t \<Rightarrow> bool"
    and empty :: 't
  assumes ok_empty: "ok empty"
    and find_empty: "find empty k = None"
    and ok_add: "ok t \<Longrightarrow> k \<noteq> [] \<Longrightarrow> v \<noteq> [] \<Longrightarrow> ok (add t k v)"
    and find_add: "ok t \<Longrightarrow> k \<noteq> [] \<Longrightarrow> v \<noteq> [] \<Longrightarrow>
      find (add t k v) x = (if x = k \<and> find t k = None then Some v else find t x)"
begin

lemma ok_adds:
  "ok t \<Longrightarrow> \<forall>(k, v) \<in> set kvs. k \<noteq> [] \<and> v \<noteq> [] \<Longrightarrow> ok (foldl (\<lambda>t (k, v). add t k v) t kvs)"
  by (induction kvs arbitrary: t) (auto simp: ok_add)

lemma find_adds:
  "ok t \<Longrightarrow> \<forall>(k, v) \<in> set kvs. k \<noteq> [] \<and> v \<noteq> [] \<Longrightarrow>
   find (foldl (\<lambda>t (k, v). add t k v) t kvs) x =
     (case find t x of Some v \<Rightarrow> Some v | None \<Rightarrow> map_of kvs x)"
proof (induction kvs arbitrary: t)
  case (Cons kv kvs)
  obtain k v where kv: "kv = (k, v)" by fastforce
  with Cons show ?case by (auto simp: ok_add find_add split: option.splits)
qed (simp split: option.splits)

text \<open>Loading a list of bindings into an empty table: the first binding of a key is the one found.\<close>

lemma load_first:
  "\<forall>(k, v) \<in> set kvs. k \<noteq> [] \<and> v \<noteq> [] \<Longrightarrow>
   find (foldl (\<lambda>t (k, v). add t k v) empty kvs) x = map_of kvs x"
  by (simp add: find_adds ok_empty find_empty)

end

text \<open>Insertion with memory available, and look-up, at the hash function of each table.\<close>

definition insert_at :: "(string \<Rightarrow> nat) \<Rightarrow> hash_table \<Rightarrow> string \<Rightarrow> string \<Rightarrow> hash_table" where
  "insert_at h table k v = fst (snd (hash_insert table (h k) (Some k) (Some v) []))"

lemma insert_at_refines:
  assumes "table_ok n h t" and "\<forall>x. h x < n" and "k \<noteq> []" and "v \<noteq> []"
  shows "table_ok n h (insert_at h t k v)"
    and "table_map h (insert_at h t k v) x =
           (if x = k \<and> table_map h t k = None then Some v else table_map h t x)"
proof -
  obtain e t' al' where ins: "hash_insert t (h k) (Some k) (Some v) [] = (e, t', al')"
    by (metis prod_cases3)
  have "e \<noteq> None"
    using ins assms by (auto simp: hash_insert_default split: option.splits)
  then obtain k' v' where "e = Some (k', v')" by auto
  with hash_insert_refines [OF assms ins] ins
  show "table_ok n h (insert_at h t k v)"
    and "table_map h (insert_at h t k v) x =
           (if x = k \<and> table_map h t k = None then Some v else table_map h t x)"
    by (auto simp: insert_at_def)
qed

lemma empty_table:
  "table_ok n h (replicate n [])" "\<forall>x. h x < n \<Longrightarrow> table_map h (replicate n []) k = None"
  by (simp_all add: table_ok_def table_map_def)

lemma mime_hash_less: "\<forall>x. get_mime_hash_value w x < MIME_HASHTABLE_SIZE"
  by (simp add: get_mime_hash_value_def MIME_HASHTABLE_SIZE_def)

lemma homedir_hash_less: "\<forall>x. get_homedir_hash_value w x < PASSWD_HASHTABLE_SIZE"
  by (simp add: get_homedir_hash_value_def PASSWD_HASHTABLE_SIZE_def)

interpretation mime_table: write_once_table
  "insert_at (get_mime_hash_value w)" "table_map (get_mime_hash_value w)"
  "table_ok MIME_HASHTABLE_SIZE (get_mime_hash_value w)" "replicate MIME_HASHTABLE_SIZE []"
  for w
  by unfold_locales
    (use mime_hash_less insert_at_refines empty_table in \<open>auto simp: mime_hash_less\<close>)

interpretation passwd_table: write_once_table
  "insert_at (get_homedir_hash_value w)" "table_map (get_homedir_hash_value w)"
  "table_ok PASSWD_HASHTABLE_SIZE (get_homedir_hash_value w)" "replicate PASSWD_HASHTABLE_SIZE []"
  for w
  by unfold_locales
    (use homedir_hash_less insert_at_refines empty_table in \<open>auto simp: homedir_hash_less\<close>)

section \<open>MIME types\<close>

lemma hash_insert_Nil_alloc: "snd (snd (hash_insert t h (Some k) (Some v) [])) = []"
  by (simp add: hash_insert_def split: option.splits)

lemma add_mime_type_Some:
  assumes "ext \<noteq> []" and "type \<noteq> []"
  shows "add_mime_type w ext type t [] = Some (insert_at (get_mime_hash_value w) t ext type, [])"
  using assms
  by (simp add: add_mime_type_def insert_at_def hash_insert_default split: option.splits)

text \<open>Loading a MIME file: one call of \<open>add_mime_type\<close> per extension.\<close>

fun load_mime_types ::
  "hash_choice \<Rightarrow> (string \<times> string) list \<Rightarrow> hash_table \<Rightarrow> allocs \<Rightarrow> (hash_table \<times> allocs) option" where
  "load_mime_types w [] table al = Some (table, al)"
| "load_mime_types w ((ext, type) # es) table al =
     (case add_mime_type w ext type table al of
        None \<Rightarrow> None
      | Some (table', al') \<Rightarrow> load_mime_types w es table' al')"

lemma load_mime_types_eq:
  "\<forall>(k, v) \<in> set es. k \<noteq> [] \<and> v \<noteq> [] \<Longrightarrow>
   load_mime_types w es t [] = Some (foldl (\<lambda>t (k, v). insert_at (get_mime_hash_value w) t k v) t es, [])"
  by (induction es arbitrary: t) (auto simp: add_mime_type_Some)

lemma strrchr_extension:
  assumes "CHR ''.'' \<notin> set ext"
  shows "strrchr (base @ CHR ''.'' # ext) (CHR ''.'') = Some (length base)"
proof (induction base)
  case Nil
  have "strrchr ext (CHR ''.'') = None"
    using assms by (induction ext) auto
  then show ?case by simp
qed simp

lemma get_mime_type_extension:
  assumes "CHR ''.'' \<notin> set ext" and "ext \<noteq> []"
  shows "get_mime_type w dflt t (Some (base @ CHR ''.'' # ext)) =
           (case table_map (get_mime_hash_value w) t ext of Some v \<Rightarrow> Some v | None \<Rightarrow> dflt)"
  using assms
  by (simp add: get_mime_type_def strrchr_extension hash_find_table_map split: option.splits)

section \<open>Properties\<close>

text \<open>C38: A hash table implements a finite map that is written once per key. For every outcome of
  the allocations, \<open>hash_insert\<close> keeps the table well formed; when it returns an entry, the
  entry is the binding now found under the key, the map has gained the binding exactly if the key had
  none, and otherwise is unchanged; when it returns null, the map is unchanged.\<close>

theorem hash_insert_refines_map:
  assumes "table_ok n h table" and "\<forall>x. h x < n" and "k \<noteq> []" and "v \<noteq> []"
    and "hash_insert table (h k) (Some k) (Some v) al = (e, table', al')"
  shows "table_ok n h table' \<and>
    (case e of
       Some (k', v') \<Rightarrow> k' = k \<and> table_map h table' =
         (if table_map h table k = None then (table_map h table)(k \<mapsto> v) else table_map h table) \<and>
         hash_find table' (Some k) (h k) = Some (k, v')
     | None \<Rightarrow> table_map h table' = table_map h table)"
  using hash_insert_refines [OF assms]
  by (auto simp: hash_find_table_map split: option.splits)

theorem hash_insert_refines_map_witness:
  "hash_find (fst (snd (hash_insert [[], []] 1 (Some ''a'') (Some ''b'') []))) (Some ''a'') 1 =
     Some (''a'', ''b'')"
proof -
  have "table_ok 2 (\<lambda>_. 1) [[], []]" by (auto simp: table_ok_def less_2_cases_iff)
  then show ?thesis
    using hash_insert_refines_map [of 2 "\<lambda>_. 1" "[[], []]" "''a''" "''b''" "[]" "Some (''a'', ''b'')"
        "[[], [(''a'', ''b'')]]" "[]"]
    by (simp add: hash_insert_def)
qed

text \<open>After a list of extensions with their types has been loaded into the empty MIME table,
  a file name is given the type of the first entry for the text behind its last dot, and the default
  type when there is no such entry, whichever hash function the build selects.\<close>

theorem get_mime_type_loaded:
  assumes "\<forall>(k, v) \<in> set es. k \<noteq> [] \<and> v \<noteq> []" and "CHR ''.'' \<notin> set ext" and "ext \<noteq> []"
  shows "\<exists>t. load_mime_types w es (replicate MIME_HASHTABLE_SIZE []) [] = Some (t, []) \<and>
    get_mime_type w dflt t (Some (base @ CHR ''.'' # ext)) =
      (case map_of es ext of Some v \<Rightarrow> Some v | None \<Rightarrow> dflt)"
  using load_mime_types_eq [OF assms(1)] get_mime_type_extension [OF assms(2,3)]
    mime_table.load_first [OF assms(1)]
  by simp

theorem get_mime_type_loaded_witness:
  "\<exists>t. load_mime_types FNV1A_HASH [(''html'', ''text/html''), (''html'', ''x'')]
         (replicate MIME_HASHTABLE_SIZE []) [] = Some (t, []) \<and>
       get_mime_type FNV1A_HASH (Some ''text/plain'') t (Some ''/a.b/index.html'') = Some ''text/html''"
  using get_mime_type_loaded [of "[(''html'', ''text/html''), (''html'', ''x'')]" "''html''"
      FNV1A_HASH "Some ''text/plain''" "''/a.b/index''"]
  by simp

text \<open>\<open>get_home_dir\<close> answers from its cache or from the password data base, and a name it has
  answered once keeps its answer: asking again, with any data base, returns the same directory.\<close>

theorem get_home_dir_cached:
  assumes "table_ok PASSWD_HASHTABLE_SIZE (get_homedir_hash_value w) t" and "name \<noteq> []"
    and "get_home_dir w getpwnam name t al = (Some dir, t', al')"
  shows "get_home_dir w getpwnam' name t' al'' = (Some dir, t', al'') \<and>
    (table_map (get_homedir_hash_value w) t name = Some dir \<or> getpwnam name = Some dir)"
proof (cases "table_map (get_homedir_hash_value w) t name")
  case None
  then obtain pw e where pw: "getpwnam name = Some pw"
    and ins: "hash_insert t (get_homedir_hash_value w name) (Some name) (Some pw) al = (Some e, t', al')"
    and dir: "dir = snd e"
    using assms(3)
    by (auto simp: get_home_dir_def Let_def hash_find_table_map split: option.splits prod.splits)
  have pwne: "pw \<noteq> []"
    using ins by (auto simp: hash_insert_def)
  show ?thesis
    using hash_insert_refines [OF assms(1) homedir_hash_less assms(2) pwne ins] None pw dir
    by (auto simp: get_home_dir_def Let_def hash_find_table_map split: prod.splits if_splits)
next
  case (Some d)
  then show ?thesis
    using assms(3) by (auto simp: get_home_dir_def Let_def hash_find_table_map)
qed

theorem get_home_dir_cached_witness:
  "\<exists>t'. get_home_dir FNV1A_HASH Map.empty ''joe'' t' [] = (Some ''/home/joe'', t', [])"
proof -
  let ?h = "get_homedir_hash_value FNV1A_HASH ''joe''"
  let ?t = "replicate PASSWD_HASHTABLE_SIZE [] :: hash_table"
  have less: "?h < PASSWD_HASHTABLE_SIZE" using homedir_hash_less by blast
  then have first: "get_home_dir FNV1A_HASH [''joe'' \<mapsto> ''/home/joe''] ''joe'' ?t [] =
      (Some ''/home/joe'', ?t[?h := [(''joe'', ''/home/joe'')]], [])"
    by (simp add: get_home_dir_def hash_find_def hash_insert_def)
  show ?thesis
    using get_home_dir_cached [OF empty_table(1) _ first, of Map.empty "[]"] by auto
qed

end
