(* ===== verification/Mmap_Cache.thy ===== *)
theory Mmap_Cache
  imports Prelude "HOL-Library.Multiset"
begin

unbundle bit_operations_syntax

text \<open>
  The cache of memory-mapped files of \<^verbatim>\<open>src/src/mmap_cache.c\<close>: an open-addressed table of reference
  counted mappings keyed by device, inode and size. The kernel's side is the multiset of live
  mappings of the process, which \<open>mmap\<close> and \<open>munmap\<close> change. The counters of the statistics wrap at 32 bits.
\<close>

section \<open>State\<close>

record mmap_entry =
  e_dev :: nat
  e_ino :: nat
  e_mmap :: nat
  e_use_count :: nat
  e_len :: nat

record stat_id =
  st_dev :: nat
  st_ino :: nat
  st_size :: nat

record mmap_state =
  mmap_list :: "mmap_entry list"
  mmap_list_entries_used :: int
  mmap_list_total_requests :: "32 word"
  mmap_list_hash_bounces :: "32 word"
  live_maps :: "(nat \<times> nat) multiset"

definition MMAP_LIST_SIZE :: nat where "MMAP_LIST_SIZE = 256"
definition MMAP_LIST_MASK :: nat where "MMAP_LIST_MASK = 255"
definition MMAP_LIST_USE_MAX :: int where "MMAP_LIST_USE_MAX = 128"

definition MMAP_LIST_NEXT :: "nat \<Rightarrow> nat" where
  "MMAP_LIST_NEXT i = (i + 1) AND MMAP_LIST_MASK"

definition MMAP_LIST_HASH :: "nat \<Rightarrow> nat" where
  "MMAP_LIST_HASH ino = ino AND MMAP_LIST_MASK"

section \<open>Operations\<close>

definition same_file :: "mmap_entry \<Rightarrow> stat_id \<Rightarrow> bool" where
  "same_file e s \<longleftrightarrow> e_dev e = st_dev s \<and> e_ino e = st_ino s \<and> e_len e = st_size s"

datatype probe_result = Hit nat | Free_slot nat | Full

text \<open>
  The search loop from slot \<open>i\<close>, with the number of bounces it counts. It ends when it is back
  at \<open>start\<close>, so as many steps as the table has slots are enough; \<open>fuel\<close> is never exhausted.
\<close>

fun probe :: "nat \<Rightarrow> mmap_entry list \<Rightarrow> stat_id \<Rightarrow> nat \<Rightarrow> nat \<Rightarrow> 32 word \<Rightarrow> (probe_result \<times> 32 word) option" where
  "probe 0 tab s start i bounces = None"
| "probe (Suc fuel) tab s start i bounces =
     (if e_use_count (tab ! i) = 0 then Some (Free_slot i, bounces)
      else if same_file (tab ! i) s then Some (Hit i, bounces)
      else (let i' = MMAP_LIST_NEXT i in
            if i' = start then Some (Full, bounces + 1)
            else probe fuel tab s start i' (bounces + 1)))"

text \<open>
  \<open>find_mmap s m advise st\<close>: \<open>m\<close> is the address \<open>mmap\<close> returns, if it succeeds, and \<open>advise\<close>
  the success of \<open>madvise\<close>, which unmaps the file again when it fails.
\<close>

definition find_mmap :: "stat_id \<Rightarrow> nat option \<Rightarrow> bool \<Rightarrow> mmap_state \<Rightarrow> nat option \<times> mmap_state" where
  "find_mmap s m advise st0 =
     (let st = st0\<lparr>mmap_list_total_requests := mmap_list_total_requests st0 + 1\<rparr>;
          start = MMAP_LIST_HASH (st_ino s);
          tab = mmap_list st
      in case probe MMAP_LIST_SIZE tab s start start (mmap_list_hash_bounces st) of
           None \<Rightarrow> (None, st)
         | Some (Hit i, b) \<Rightarrow>
             (Some i, st\<lparr>mmap_list := tab[i := (tab ! i)\<lparr>e_use_count := e_use_count (tab ! i) + 1\<rparr>],
                         mmap_list_hash_bounces := b\<rparr>)
         | Some (Full, b) \<Rightarrow> (None, st\<lparr>mmap_list_hash_bounces := b\<rparr>)
         | Some (Free_slot i, b) \<Rightarrow>
             (let st = st\<lparr>mmap_list_hash_bounces := b\<rparr> in
              if mmap_list_entries_used st > MMAP_LIST_USE_MAX then (None, st)
              else (case m of
                      None \<Rightarrow> (None, st)
                    | Some a \<Rightarrow>
                        if \<not> advise then (None, st)
                        else (Some i,
                              st\<lparr>mmap_list_entries_used := mmap_list_entries_used st + 1,
                                 mmap_list := tab[i := \<lparr>e_dev = st_dev s, e_ino = st_ino s, e_mmap = a,
                                                        e_use_count = 1, e_len = st_size s\<rparr>],
                                 live_maps := add_mset (a, st_size s) (live_maps st)\<rparr>))))"

definition release_mmap :: "nat option \<Rightarrow> mmap_state \<Rightarrow> mmap_state" where
  "release_mmap e st =
     (case e of
        None \<Rightarrow> st
      | Some i \<Rightarrow>
          (let en = mmap_list st ! i in
           if e_use_count en = 0 then st
           else (let en' = en\<lparr>e_use_count := e_use_count en - 1\<rparr>;
                     st' = st\<lparr>mmap_list := (mmap_list st)[i := en']\<rparr>
                 in if e_use_count en' = 0
                    then st'\<lparr>live_maps := live_maps st - {#(e_mmap en, e_len en)#},
                             mmap_list_entries_used := mmap_list_entries_used st - 1\<rparr>
                    else st')))"

definition empty_entry :: mmap_entry where
  "empty_entry = \<lparr>e_dev = 0, e_ino = 0, e_mmap = 0, e_use_count = 0, e_len = 0\<rparr>"

definition mmap_init :: mmap_state where
  "mmap_init = \<lparr>mmap_list = replicate MMAP_LIST_SIZE empty_entry, mmap_list_entries_used = 0,
                mmap_list_total_requests = 0, mmap_list_hash_bounces = 0, live_maps = {#}\<rparr>"

section \<open>Probing\<close>

lemma and_255: "n AND 255 = n mod 256" for n :: nat
proof -
  have "n AND mask 8 = n mod 2 ^ 8" by (simp only: take_bit_eq_mask [symmetric] take_bit_eq_mod)
  then show ?thesis by (simp add: mask_eq_exp_minus_1)
qed

lemma mmap_next: "MMAP_LIST_NEXT i = (i + 1) mod 256"
  by (simp add: MMAP_LIST_NEXT_def MMAP_LIST_MASK_def and_255)

lemma mmap_hash: "MMAP_LIST_HASH ino = ino mod 256"
  by (simp add: MMAP_LIST_HASH_def MMAP_LIST_MASK_def and_255)

lemma probe_total:
  assumes "start < 256" and "0 < n" and "n \<le> 256"
  shows "\<exists>r b'. probe n tab s start ((start + 256 - n) mod 256) b = Some (r, b')"
  using assms(2,3)
proof (induction n arbitrary: b)
  case 0
  then show ?case by simp
next
  case (Suc n)
  let ?i = "(start + 256 - Suc n) mod 256"
  have "start + 256 - n = Suc (start + 256 - Suc n)" using Suc.prems by simp
  then have nx: "MMAP_LIST_NEXT ?i = (start + 256 - n) mod 256"
    by (simp add: mmap_next mod_Suc_eq)
  show ?case
  proof (cases "n = 0")
    case True
    with nx assms(1) have "MMAP_LIST_NEXT ?i = start" by simp
    with True show ?thesis by (simp add: Let_def)
  next
    case False
    then show ?thesis using Suc nx by (simp add: Let_def)
  qed
qed

lemma probe_sound:
  "probe n tab s start i b = Some (r, b') \<Longrightarrow> i < 256 \<Longrightarrow>
   (case r of
      Hit j \<Rightarrow> j < 256 \<and> e_use_count (tab ! j) \<noteq> 0 \<and> same_file (tab ! j) s
    | Free_slot j \<Rightarrow> j < 256 \<and> e_use_count (tab ! j) = 0
    | Full \<Rightarrow> True)"
proof (induction n tab s start i b rule: probe.induct)
  case (2 fuel tab s start i bounces)
  have "MMAP_LIST_NEXT i < 256" by (simp add: mmap_next)
  with 2 show ?case by (auto simp: Let_def split: if_splits)
qed simp

section \<open>The invariant\<close>

definition used :: "mmap_entry list \<Rightarrow> nat set" where
  "used tab = {i. i < length tab \<and> e_use_count (tab ! i) \<noteq> 0}"

definition map_of_entry :: "mmap_entry \<Rightarrow> nat \<times> nat" where
  "map_of_entry e = (e_mmap e, e_len e)"

definition used_maps :: "mmap_entry list \<Rightarrow> (nat \<times> nat) multiset" where
  "used_maps tab = image_mset map_of_entry (filter_mset (\<lambda>e. e_use_count e \<noteq> 0) (mset tab))"

text \<open>
  The number of entries in use is what the counter says, it never exceeds 129, and the live
  mappings of the process are exactly those of the entries in use.
\<close>

definition mmap_ok :: "mmap_state \<Rightarrow> bool" where
  "mmap_ok st \<longleftrightarrow>
     length (mmap_list st) = 256 \<and>
     mmap_list_entries_used st = int (card (used (mmap_list st))) \<and>
     mmap_list_entries_used st \<le> 129 \<and>
     live_maps st = used_maps (mmap_list st)"

lemma finite_used [simp]: "finite (used tab)"
  by (simp add: used_def)

lemma used_update:
  "i < length tab \<Longrightarrow> used (tab[i := e]) =
     (if e_use_count e = 0 then used tab - {i} else insert i (used tab))"
  by (auto simp: used_def nth_list_update split: if_splits)

lemma mmap_init_ok: "mmap_ok mmap_init"
  by (simp add: mmap_ok_def mmap_init_def used_def used_maps_def empty_entry_def MMAP_LIST_SIZE_def)

lemma used_maps_update:
  assumes "i < length tab"
  shows "used_maps (tab[i := e]) =
    used_maps tab - (if e_use_count (tab ! i) = 0 then {#} else {#map_of_entry (tab ! i)#}) +
    (if e_use_count e = 0 then {#} else {#map_of_entry e#})"
proof -
  obtain M where "mset tab = add_mset (tab ! i) M" and "mset (tab[i := e]) = add_mset e M"
    using assms by (metis add_mset_remove_trivial in_multiset_in_set insert_DiffM mset_update nth_mem)
  then show ?thesis by (simp add: used_maps_def)
qed

lemma used_maps_mem: "i < length tab \<Longrightarrow> e_use_count (tab ! i) \<noteq> 0 \<Longrightarrow> map_of_entry (tab ! i) \<in># used_maps tab"
  by (auto simp: used_maps_def)

lemma find_cases:
  assumes "length (mmap_list st) = 256"
  obtains (hit) j b where
      "find_mmap s m adv st = (Some j, st\<lparr>mmap_list_total_requests := mmap_list_total_requests st + 1,
         mmap_list := (mmap_list st)[j := (mmap_list st ! j)\<lparr>e_use_count := e_use_count (mmap_list st ! j) + 1\<rparr>],
         mmap_list_hash_bounces := b\<rparr>)"
      "j < 256" "e_use_count (mmap_list st ! j) \<noteq> 0" "same_file (mmap_list st ! j) s"
  | (new) j b a where
      "find_mmap s m adv st = (Some j, st\<lparr>mmap_list_total_requests := mmap_list_total_requests st + 1,
         mmap_list := (mmap_list st)[j := \<lparr>e_dev = st_dev s, e_ino = st_ino s, e_mmap = a,
                                          e_use_count = 1, e_len = st_size s\<rparr>],
         mmap_list_hash_bounces := b, mmap_list_entries_used := mmap_list_entries_used st + 1,
         live_maps := add_mset (a, st_size s) (live_maps st)\<rparr>)"
      "j < 256" "e_use_count (mmap_list st ! j) = 0" "mmap_list_entries_used st \<le> 128" "m = Some a"
  | (none) st' where "find_mmap s m adv st = (None, st')"
      "mmap_list st' = mmap_list st" "mmap_list_entries_used st' = mmap_list_entries_used st"
      "live_maps st' = live_maps st"
proof -
  let ?start = "MMAP_LIST_HASH (st_ino s)"
  obtain r b where pr: "probe 256 (mmap_list st) s ?start ?start (mmap_list_hash_bounces st) = Some (r, b)"
    using probe_total [of ?start 256 "mmap_list st" s "mmap_list_hash_bounces st"] by (auto simp: mmap_hash)
  note snd = probe_sound [OF pr, simplified mmap_hash, simplified]
  show thesis
  proof (cases r)
    case (Hit j)
    with snd pr show thesis
      by (intro hit [of j b]) (auto simp: find_mmap_def MMAP_LIST_SIZE_def Let_def)
  next
    case Full
    with pr show thesis
      by (intro none [of "snd (find_mmap s m adv st)"])
        (auto simp: find_mmap_def MMAP_LIST_SIZE_def Let_def)
  next
    case (Free_slot j)
    note fs = this
    show thesis
    proof (cases "mmap_list_entries_used st > MMAP_LIST_USE_MAX \<or> m = None \<or> \<not> adv")
      case True
      with fs pr show thesis
        by (intro none [of "snd (find_mmap s m adv st)"])
          (auto simp: find_mmap_def MMAP_LIST_SIZE_def Let_def split: option.splits)
    next
      case False
      then obtain a where "m = Some a" by auto
      with False fs snd pr show thesis
        by (intro new [of j a b])
          (auto simp: find_mmap_def MMAP_LIST_SIZE_def MMAP_LIST_USE_MAX_def Let_def)
    qed
  qed
qed

lemma find_mmap_ok:
  assumes ok: "mmap_ok st" and f: "find_mmap s m adv st = (r, st')"
  shows "mmap_ok st'"
proof -
  from ok have len: "length (mmap_list st) = 256" by (simp add: mmap_ok_def)
  let ?t = "mmap_list st"
  show ?thesis
  proof (cases rule: find_cases [OF len, of s m adv, case_names hit new none])
    case (hit j b)
    let ?e = "(?t ! j)\<lparr>e_use_count := e_use_count (?t ! j) + 1\<rparr>"
    have "j \<in> used ?t" using hit(2,3) len by (simp add: used_def)
    moreover have "map_of_entry ?e = map_of_entry (?t ! j)" by (simp add: map_of_entry_def)
    moreover have "map_of_entry (?t ! j) \<in># used_maps ?t"
      using hit(2,3) len by (simp add: used_maps_mem)
    ultimately show ?thesis
      using ok f hit len
      by (auto simp: mmap_ok_def used_update used_maps_update insert_absorb)
  next
    case (new j b a)
    have "j \<notin> used ?t" using new(3) by (simp add: used_def)
    then show ?thesis
      using ok f new len
      by (auto simp: mmap_ok_def used_update used_maps_update map_of_entry_def)
  next
    case (none st'')
    with ok f show ?thesis by (simp add: mmap_ok_def)
  qed
qed

lemma release_mmap_ok:
  assumes ok: "mmap_ok st" and i: "i < 256"
  shows "mmap_ok (release_mmap (Some i) st)"
proof (cases "e_use_count (mmap_list st ! i) = 0")
  case True
  with ok show ?thesis by (simp add: release_mmap_def)
next
  case False
  let ?t = "mmap_list st"
  let ?e = "(?t ! i)\<lparr>e_use_count := e_use_count (?t ! i) - 1\<rparr>"
  have len: "length ?t = 256" using ok by (simp add: mmap_ok_def)
  have u: "i \<in> used ?t" using False i len by (simp add: used_def)
  moreover have "map_of_entry ?e = map_of_entry (?t ! i)" by (simp add: map_of_entry_def)
  moreover have "map_of_entry (?t ! i) \<in># used_maps ?t"
    using False i len by (simp add: used_maps_mem)
  moreover have "0 < card (used ?t)" using u by (auto simp: card_gt_0_iff)
  ultimately show ?thesis
    using ok False i len
    by (auto simp: mmap_ok_def release_mmap_def Let_def used_update used_maps_update insert_absorb
        map_of_entry_def [symmetric] of_nat_diff)
qed

section \<open>Reference counting\<close>

text \<open>
  What the server does with the cache: it acquires a slot for a request, and later releases a slot
  that some request holds. \<open>run_ops\<close> executes such a history and keeps the list of slots held.
\<close>

datatype 'r cache_op = Acquire 'r | Release nat

fun run_ops :: "('r \<Rightarrow> 's \<Rightarrow> nat option \<times> 's) \<Rightarrow> (nat \<Rightarrow> 's \<Rightarrow> 's) \<Rightarrow> 'r cache_op list \<Rightarrow>
    's \<times> nat list \<Rightarrow> 's \<times> nat list" where
  "run_ops acq rel [] (st, held) = (st, held)"
| "run_ops acq rel (Acquire r # ops) (st, held) =
     (case acq r st of
        (Some i, st') \<Rightarrow> run_ops acq rel ops (st', i # held)
      | (None, st') \<Rightarrow> run_ops acq rel ops (st', held))"
| "run_ops acq rel (Release n # ops) (st, held) =
     (if n < length held
      then run_ops acq rel ops (rel (held ! n) st, take n held @ drop (Suc n) held)
      else run_ops acq rel ops (st, held))"

locale refcounted =
  fixes acquire :: "'r \<Rightarrow> 's \<Rightarrow> nat option \<times> 's"
    and release :: "nat \<Rightarrow> 's \<Rightarrow> 's"
    and cnt :: "'s \<Rightarrow> nat \<Rightarrow> nat"
    and inv :: "'s \<Rightarrow> bool"
  assumes acquire_inv: "inv st \<Longrightarrow> acquire r st = (oi, st') \<Longrightarrow> inv st'"
    and acquire_Some: "inv st \<Longrightarrow> acquire r st = (Some i, st') \<Longrightarrow> cnt st' = (cnt st)(i := Suc (cnt st i))"
    and acquire_None: "inv st \<Longrightarrow> acquire r st = (None, st') \<Longrightarrow> cnt st' = cnt st"
    and release_inv: "inv st \<Longrightarrow> 0 < cnt st i \<Longrightarrow> inv (release i st)"
    and release_cnt: "inv st \<Longrightarrow> 0 < cnt st i \<Longrightarrow> cnt (release i st) = (cnt st)(i := cnt st i - 1)"
begin

text \<open>The count of a slot is always the number of holders of that slot.\<close>

lemma run_counts:
  "inv st \<Longrightarrow> cnt st = count_list held \<Longrightarrow>
   run_ops acquire release ops (st, held) = (st', held') \<Longrightarrow> inv st' \<and> cnt st' = count_list held'"
proof (induction ops arbitrary: st held)
  case (Cons op ops)
  show ?case
  proof (cases op)
    case (Acquire r)
    obtain oi st1 where a: "acquire r st = (oi, st1)" by fastforce
    have i1: "inv st1" using acquire_inv [OF Cons.prems(1) a] .
    show ?thesis
    proof (cases oi)
      case None
      with a Acquire Cons i1 show ?thesis using acquire_None [of st r st1] by simp
    next
      case (Some i)
      with a Cons.prems have c1: "cnt st1 = count_list (i # held)"
        using acquire_Some [of st r i st1] by (auto simp: fun_eq_iff)
      from a Some Acquire Cons.prems have "run_ops acquire release ops (st1, i # held) = (st', held')"
        by simp
      then show ?thesis by (rule Cons.IH [OF i1 c1])
    qed
  next
    case (Release n)
    show ?thesis
    proof (cases "n < length held")
      case True
      then have split: "held = take n held @ held ! n # drop (Suc n) held"
        by (simp add: id_take_nth_drop)
      have c: "count_list held i = count_list (take n held @ drop (Suc n) held) i +
          (if i = held ! n then 1 else 0)" for i
        by (subst split) simp
      then have "0 < cnt st (held ! n)" using Cons.prems(2) by simp
      then have "inv (release (held ! n) st)"
        and "cnt (release (held ! n) st) = count_list (take n held @ drop (Suc n) held)"
        using Cons.prems(1,2) release_inv release_cnt c by (auto simp: fun_eq_iff)
      with Release True Cons show ?thesis by simp
    next
      case False
      with Release Cons show ?thesis by simp
    qed
  qed
qed simp

end

text \<open>The cache at the server's calls: the outcome of \<open>mmap\<close> and \<open>madvise\<close> comes with the call.\<close>

definition acquire_mmap :: "stat_id \<times> nat option \<times> bool \<Rightarrow> mmap_state \<Rightarrow> nat option \<times> mmap_state" where
  "acquire_mmap r st = (case r of (s, m, adv) \<Rightarrow> find_mmap s m adv st)"

definition slot_count :: "mmap_state \<Rightarrow> nat \<Rightarrow> nat" where
  "slot_count st i = (if i < 256 then e_use_count (mmap_list st ! i) else 0)"

lemma acquire_mmap_count:
  assumes "mmap_ok st" and "acquire_mmap r st = (oi, st')"
  shows "slot_count st' = (case oi of None \<Rightarrow> slot_count st
           | Some i \<Rightarrow> (slot_count st)(i := Suc (slot_count st i)))"
proof -
  obtain s m adv where r: "r = (s, m, adv)" by (metis prod_cases3)
  have len: "length (mmap_list st) = 256" using assms(1) by (simp add: mmap_ok_def)
  show ?thesis
    by (cases rule: find_cases [OF len, of s m adv])
      (use assms(2) r len in \<open>auto simp: acquire_mmap_def slot_count_def fun_eq_iff nth_list_update\<close>)
qed

lemma release_mmap_count:
  assumes "mmap_ok st" and "0 < slot_count st i"
  shows "slot_count (release_mmap (Some i) st) = (slot_count st)(i := slot_count st i - 1)"
  using assms
  by (auto simp: slot_count_def release_mmap_def mmap_ok_def fun_eq_iff nth_list_update Let_def
      split: if_splits)

interpretation mmap_refs: refcounted acquire_mmap "\<lambda>i. release_mmap (Some i)" slot_count mmap_ok
proof unfold_locales
  show "mmap_ok st'" if "mmap_ok st" "acquire_mmap r st = (oi, st')" for st r oi st'
    using that find_mmap_ok by (auto simp: acquire_mmap_def split: prod.splits)
  show "mmap_ok (release_mmap (Some i) st)" if "mmap_ok st" "0 < slot_count st i" for st i
    using that release_mmap_ok [of st i] by (auto simp: slot_count_def split: if_splits)
qed (use acquire_mmap_count release_mmap_count in fastforce)+

section \<open>Properties\<close>

text \<open>C34: Whatever files the server maps and releases, in whatever order and with whatever outcomes
  of \<open>mmap\<close> and \<open>madvise\<close>: the use count of every slot is the number of requests holding it,
  the live mappings of the process are exactly those of the slots in use, and when nothing is held
  any more, no mapping is left and the entry counter is back at zero.\<close>

theorem mmap_cache_no_leak:
  assumes "run_ops acquire_mmap (\<lambda>i. release_mmap (Some i)) ops (mmap_init, []) = (st, held)"
  shows "mmap_ok st \<and> (\<forall>i < MMAP_LIST_SIZE. e_use_count (mmap_list st ! i) = count_list held i) \<and>
         (held = [] \<longrightarrow> live_maps st = {#} \<and> mmap_list_entries_used st = 0)"
proof -
  have "slot_count mmap_init = count_list []"
    by (simp add: slot_count_def mmap_init_def fun_eq_iff empty_entry_def MMAP_LIST_SIZE_def)
  then have ok: "mmap_ok st" and cnt: "slot_count st = count_list held"
    using mmap_refs.run_counts [OF mmap_init_ok _ assms] by auto
  have use: "e_use_count (mmap_list st ! i) = count_list held i" if "i < 256" for i
    using fun_cong [OF cnt, of i] that by (simp add: slot_count_def)
  moreover have "live_maps st = {#} \<and> mmap_list_entries_used st = 0" if "held = []"
  proof -
    have "\<forall>e \<in> set (mmap_list st). e_use_count e = 0"
      using use ok that by (auto simp: in_set_conv_nth mmap_ok_def)
    then have "used_maps (mmap_list st) = {#}" "used (mmap_list st) = {}"
      by (auto simp: used_maps_def used_def filter_mset_eq_conv)
    with ok show ?thesis by (simp add: mmap_ok_def)
  qed
  ultimately show ?thesis using ok by (simp add: MMAP_LIST_SIZE_def)
qed

theorem mmap_cache_no_leak_witness:
  "let s = \<lparr>st_dev = 1, st_ino = 7, st_size = 10\<rparr> in
   live_maps (fst (run_ops acquire_mmap (\<lambda>i. release_mmap (Some i))
     [Acquire (s, Some 4096, True), Release 0] (mmap_init, []))) = {#}"
proof -
  let ?s = "\<lparr>st_dev = 1, st_ino = 7, st_size = 10\<rparr>"
  let ?ops = "[Acquire (?s, Some 4096, True), Release 0]"
  obtain st held where r: "run_ops acquire_mmap (\<lambda>i. release_mmap (Some i)) ?ops (mmap_init, []) = (st, held)"
    by fastforce
  have "length held \<le> 0"
    using r by (auto split: prod.splits option.splits)
  then show ?thesis using mmap_cache_no_leak [OF r] r by simp
qed

text \<open>\<open>find_mmap\<close> always ends within one round of the table, and an entry it returns is for
  the requested device, inode and size, is counted once more than before, and is backed by a live
  mapping of that size; no other slot changes.\<close>

theorem find_mmap_entry:
  assumes "mmap_ok st" and "find_mmap s m adv st = (Some i, st')"
  shows "i < MMAP_LIST_SIZE \<and> same_file (mmap_list st' ! i) s \<and>
         e_use_count (mmap_list st' ! i) = e_use_count (mmap_list st ! i) + 1 \<and>
         (e_mmap (mmap_list st' ! i), st_size s) \<in># live_maps st' \<and>
         (\<forall>j. j \<noteq> i \<longrightarrow> mmap_list st' ! j = mmap_list st ! j)"
proof -
  have len: "length (mmap_list st) = 256" using assms(1) by (simp add: mmap_ok_def)
  have slot: "i < 256 \<and> same_file (mmap_list st' ! i) s \<and>
      e_use_count (mmap_list st' ! i) = e_use_count (mmap_list st ! i) + 1 \<and>
      (\<forall>j. j \<noteq> i \<longrightarrow> mmap_list st' ! j = mmap_list st ! j)"
    by (cases rule: find_cases [OF len, of s m adv])
      (use assms(2) len in \<open>auto simp: same_file_def nth_list_update\<close>)
  have ok': "mmap_ok st'" using find_mmap_ok [OF assms] .
  then have "map_of_entry (mmap_list st' ! i) \<in># used_maps (mmap_list st')"
    using slot by (intro used_maps_mem) (auto simp: mmap_ok_def)
  then show ?thesis
    using slot ok' by (simp add: mmap_ok_def map_of_entry_def same_file_def MMAP_LIST_SIZE_def)
qed

theorem find_mmap_entry_witness:
  "\<exists>i st'. find_mmap \<lparr>st_dev = 1, st_ino = 7, st_size = 10\<rparr> (Some 4096) True mmap_init = (Some i, st') \<and>
     e_use_count (mmap_list st' ! i) = e_use_count (mmap_list mmap_init ! i) + 1"
proof -
  let ?s = "\<lparr>st_dev = 1, st_ino = 7, st_size = 10\<rparr>"
  have "probe 256 (replicate 256 empty_entry) ?s 7 7 0 = Some (Free_slot 7, 0)"
    by (simp add: eval_nat_numeral empty_entry_def)
  then have "fst (find_mmap ?s (Some 4096) True mmap_init) = Some 7"
    by (simp add: find_mmap_def mmap_init_def MMAP_LIST_SIZE_def mmap_hash MMAP_LIST_USE_MAX_def)
  then obtain st' where "find_mmap ?s (Some 4096) True mmap_init = (Some 7, st')"
    by (metis prod.collapse)
  then show ?thesis using find_mmap_entry [OF mmap_init_ok] by blast
qed

end
