(* ===== verification/Queue.thy ===== *)
theory Queue
  imports Main
begin

text \<open>
  The request queues of \<^verbatim>\<open>src/src/queue.c\<close>: doubly linked lists threaded through the \<open>next\<close> and
  \<open>prev\<close> pointers of the requests themselves. Requests are named by numbers (their addresses) and
  the pointers of all requests form one store, so that what an operation on one queue does to the
  others is part of what is proved. \<open>dlist\<close> relates a queue to the list of its members.
\<close>

section \<open>Operations on the store\<close>

record links =
  q_next :: "nat \<Rightarrow> nat option"
  q_prev :: "nat \<Rightarrow> nat option"

definition set_next :: "nat \<Rightarrow> nat option \<Rightarrow> links \<Rightarrow> links" where
  "set_next r p h = h\<lparr>q_next := (q_next h)(r := p)\<rparr>"

definition set_prev :: "nat \<Rightarrow> nat option \<Rightarrow> links \<Rightarrow> links" where
  "set_prev r p h = h\<lparr>q_prev := (q_prev h)(r := p)\<rparr>"

text \<open>\<open>dequeue head r h\<close> and \<open>enqueue head r h\<close> return the new head and the new store.\<close>

definition dequeue :: "nat option \<Rightarrow> nat \<Rightarrow> links \<Rightarrow> nat option \<times> links" where
  "dequeue head r h =
     (let head' = (if head = Some r then q_next h r else head);
          h1 = (case q_prev h r of Some p \<Rightarrow> set_next p (q_next h r) h | None \<Rightarrow> h);
          h2 = (case q_next h1 r of Some n \<Rightarrow> set_prev n (q_prev h1 r) h1 | None \<Rightarrow> h1)
      in (head', set_prev r None (set_next r None h2)))"

definition enqueue :: "nat option \<Rightarrow> nat \<Rightarrow> links \<Rightarrow> nat option \<times> links" where
  "enqueue head r h =
     (let h1 = (case head of Some x \<Rightarrow> set_prev x (Some r) h | None \<Rightarrow> h)
      in (Some r, set_prev r None (set_next r head h1)))"

section \<open>What a queue holds\<close>

text \<open>
  \<open>dseg h p c xs p' c'\<close>: starting at the pointer \<open>c\<close>, whose target must point back to \<open>p\<close>, the
  store holds the nodes \<open>xs\<close> in order and ends with the back pointer \<open>p'\<close> and the pointer \<open>c'\<close>.
\<close>

fun dseg :: "links \<Rightarrow> nat option \<Rightarrow> nat option \<Rightarrow> nat list \<Rightarrow> nat option \<Rightarrow> nat option \<Rightarrow> bool" where
  "dseg h p c [] p' c' \<longleftrightarrow> p = p' \<and> c = c'"
| "dseg h p c (x # xs) p' c' \<longleftrightarrow> c = Some x \<and> q_prev h x = p \<and> dseg h (Some x) (q_next h x) xs p' c'"

definition dlist :: "links \<Rightarrow> nat option \<Rightarrow> nat list \<Rightarrow> bool" where
  "dlist h head xs \<longleftrightarrow> distinct xs \<and> (\<exists>p'. dseg h None head xs p' None)"

lemma dseg_append:
  "dseg h p c (xs @ ys) p' c' \<longleftrightarrow> (\<exists>pm cm. dseg h p c xs pm cm \<and> dseg h pm cm ys p' c')"
  by (induction xs arbitrary: p c) auto

lemma dseg_frame:
  "(\<forall>x \<in> set xs. q_next h' x = q_next h x \<and> q_prev h' x = q_prev h x) \<Longrightarrow>
   dseg h' p c xs p' c' = dseg h p c xs p' c'"
  by (induction xs arbitrary: p c) auto

lemma dseg_end: "dseg h p c (xs @ [x]) p' c' \<Longrightarrow> p' = Some x \<and> q_next h x = c'"
  by (auto simp: dseg_append)

lemma links_simps [simp]:
  "q_next (set_next r p h) = (q_next h)(r := p)" "q_prev (set_next r p h) = q_prev h"
  "q_next (set_prev r p h) = q_next h" "q_prev (set_prev r p h) = (q_prev h)(r := p)"
  by (simp_all add: set_next_def set_prev_def)

lemma dseg_set_next_last:
  assumes "x \<notin> set xs" and "dseg h p c (xs @ [x]) p' c'"
  shows "dseg (set_next x c'' h) p c (xs @ [x]) (Some x) c''"
proof -
  obtain pm cm where 1: "dseg h p c xs pm cm" and 2: "dseg h pm cm [x] p' c'"
    using assms(2) by (auto simp: dseg_append)
  have "dseg (set_next x c'' h) p c xs pm cm"
    using 1 assms(1) by (subst dseg_frame [where h = h]) auto
  moreover have "dseg (set_next x c'' h) pm cm [x] (Some x) c''" using 2 by simp
  ultimately show ?thesis unfolding dseg_append by blast
qed

lemma dseg_set_prev_first:
  assumes "y \<notin> set ys" and "dseg h p c (y # ys) p' c'"
  shows "dseg (set_prev y p'' h) p'' c (y # ys) p' c'"
proof -
  have "dseg (set_prev y p'' h) (Some y) (q_next h y) ys p' c'"
    using assms by (subst dseg_frame [where h = h]) auto
  then show ?thesis using assms(2) by simp
qed

lemma dlist_frame:
  "dlist h head xs \<Longrightarrow> \<forall>x \<in> set xs. q_next h' x = q_next h x \<and> q_prev h' x = q_prev h x \<Longrightarrow>
   dlist h' head xs"
  unfolding dlist_def using dseg_frame by blast

lemma enqueue_dlist:
  assumes "dlist h head xs" and "r \<notin> set xs" and "enqueue head r h = (head', h')"
  shows "dlist h' head' (r # xs)"
proof (cases xs)
  case Nil
  with assms show ?thesis by (auto simp: dlist_def enqueue_def)
next
  case (Cons y ys)
  obtain p' where seg: "dseg h None head (y # ys) p' None" and d: "distinct (y # ys)"
    using assms(1) Cons by (auto simp: dlist_def)
  then have head: "head = Some y" by simp
  have "dseg (set_prev y (Some r) h) (Some r) head (y # ys) p' None"
    using d seg by (intro dseg_set_prev_first) auto
  moreover have "h' = set_prev r None (set_next r head (set_prev y (Some r) h))" "head' = Some r"
    using assms(3) head by (auto simp: enqueue_def)
  ultimately have "dseg h' (Some r) head (y # ys) p' None"
    using assms(2) Cons by (subst dseg_frame [where h = "set_prev y (Some r) h"]) auto
  then have "dseg h' None head' (r # y # ys) p' None"
    using \<open>h' = _\<close> \<open>head' = _\<close> head assms(2) Cons by auto
  then show ?thesis using d assms(2) Cons by (auto simp: dlist_def)
qed

lemma enqueue_frame:
  "enqueue head r h = (head', h') \<Longrightarrow> x \<noteq> r \<Longrightarrow> head \<noteq> Some x \<Longrightarrow>
   q_next h' x = q_next h x \<and> q_prev h' x = q_prev h x"
  by (auto simp: enqueue_def split: option.splits)

text \<open>The links around a member of a queue.\<close>

lemma dseg_member:
  assumes "dseg h None head (as @ r # bs) p' None"
  shows "q_prev h r = (if as = [] then None else Some (last as))"
    and "q_next h r = (case bs of [] \<Rightarrow> None | b # _ \<Rightarrow> Some b)"
    and "head = (case as of [] \<Rightarrow> Some r | a # _ \<Rightarrow> Some a)"
proof -
  obtain pm cm where 1: "dseg h None head as pm cm" and 2: "dseg h pm cm (r # bs) p' None"
    using assms by (auto simp: dseg_append)
  show "q_prev h r = (if as = [] then None else Some (last as))"
    using 1 2 dseg_end [of h None head "butlast as" "last as" pm cm] by (cases "as = []") auto
  show "q_next h r = (case bs of [] \<Rightarrow> None | b # _ \<Rightarrow> Some b)"
    using 2 by (cases bs) auto
  show "head = (case as of [] \<Rightarrow> Some r | a # _ \<Rightarrow> Some a)"
    using 1 2 by (cases as) auto
qed

lemma dequeue_links:
  assumes "q_prev h r \<noteq> Some r" and "q_next h r \<noteq> Some r" and "dequeue head r h = (head', h')"
  shows "q_next h' = ((case q_prev h r of Some p \<Rightarrow> (q_next h)(p := q_next h r) | None \<Rightarrow> q_next h))(r := None)"
    and "q_prev h' = ((case q_next h r of Some n \<Rightarrow> (q_prev h)(n := q_prev h r) | None \<Rightarrow> q_prev h))(r := None)"
    and "head' = (if head = Some r then q_next h r else head)"
  using assms by (auto simp: dequeue_def Let_def split: option.splits)

lemma dequeue_dlist:
  assumes dl: "dlist h head xs" and r: "r \<in> set xs" and dq: "dequeue head r h = (head', h')"
  shows "dlist h' head' (remove1 r xs)"
proof -
  obtain as bs where xs: "xs = as @ r # bs" using r by (meson split_list)
  obtain p' where seg: "dseg h None head (as @ r # bs) p' None" and d: "distinct (as @ r # bs)"
    using dl xs by (auto simp: dlist_def)
  note m = dseg_member [OF seg]
  obtain pm cm where sa: "dseg h None head as pm cm" and sr: "dseg h pm cm (r # bs) p' None"
    using seg by (auto simp: dseg_append)
  then have pm: "pm = q_prev h r" and sb: "dseg h (Some r) (q_next h r) bs p' None" by auto
  have nself: "q_prev h r \<noteq> Some r" "q_next h r \<noteq> Some r"
    using m d last_in_set [of as] by (auto split: list.splits)
  note dl' = dequeue_links [OF nself dq]
  have left: "dseg h' None head' as pm (q_next h r)"
  proof (cases "as = []")
    case True
    with m(3) sa dl'(3) show ?thesis by simp
  next
    case False
    then obtain as' a where as: "as = as' @ [a]" by (metis rev_exhaust)
    with m(1) have pr: "q_prev h r = Some a" by simp
    have "dseg (set_next a (q_next h r) h) None head as (Some a) (q_next h r)"
      unfolding as by (rule dseg_set_next_last) (use d sa as in auto)
    then have "dseg h' None head as (Some a) (q_next h r)"
      using d as m(2) by (subst dseg_frame [where h = "set_next a (q_next h r) h"])
        (auto simp: dl' pr split: list.splits option.splits)
    moreover have "head \<noteq> Some r" using m(3) d \<open>as \<noteq> []\<close> by (cases as) auto
    then have "head' = head" using dl'(3) by simp
    ultimately show ?thesis using pm pr by simp
  qed
  have right: "dseg h' pm (q_next h r) bs p'' None" if "bs \<noteq> [] \<longrightarrow> p'' = p'" "bs = [] \<longrightarrow> p'' = pm" for p''
  proof (cases bs)
    case Nil
    with sb that show ?thesis by simp
  next
    case (Cons b bs')
    with m(2) have nx: "q_next h r = Some b" by simp
    have "set as \<inter> set bs = {}" using d by auto
    then have lb: "as \<noteq> [] \<Longrightarrow> last as \<notin> set bs" using last_in_set by blast
    have "dseg (set_prev b pm h) pm (q_next h r) (b # bs') p' None"
      by (rule dseg_set_prev_first) (use d sb Cons in auto)
    then show ?thesis
      using that Cons d m(1) lb
      by (subst dseg_frame [where h = "set_prev b pm h"])
        (auto simp: dl' nx pm split: option.splits if_splits)
  qed
  have "dseg h' None head' (as @ bs) (if bs = [] then pm else p') None"
    unfolding dseg_append using left right [of "if bs = [] then pm else p'"] by (metis (full_types))
  moreover have "remove1 r xs = as @ bs" using d xs by (auto simp: remove1_append)
  ultimately show ?thesis using d unfolding dlist_def by auto
qed

lemma dequeue_frame:
  assumes "dlist h head xs" and "r \<in> set xs" and "dequeue head r h = (head', h')" and "x \<notin> set xs"
  shows "q_next h' x = q_next h x \<and> q_prev h' x = q_prev h x"
proof -
  obtain as bs p' where seg: "dseg h None head (as @ r # bs) p' None" and xs: "xs = as @ r # bs"
    and d: "distinct (as @ r # bs)"
    using assms by (metis dlist_def split_list)
  note m = dseg_member [OF seg]
  have nself: "q_prev h r \<noteq> Some r" "q_next h r \<noteq> Some r"
    using m d last_in_set [of as] by (auto split: list.splits)
  show ?thesis
    using dequeue_links [OF nself assms(3)] m assms(4) xs last_in_set [of as]
    by (auto split: list.splits option.splits if_splits)
qed

lemma dequeue_clears:
  "dequeue head r h = (head', h') \<Longrightarrow> q_next h' r = None \<and> q_prev h' r = None"
  by (auto simp: dequeue_def Let_def)

section \<open>Queues as an interface\<close>

text \<open>
  What the scheduler needs of a queue: entering puts a request in front, leaving removes it, and
  neither touches a queue whose members are different requests.
\<close>

locale request_queue =
  fixes enq deq :: "'p \<Rightarrow> nat \<Rightarrow> 'h \<Rightarrow> 'p \<times> 'h"
    and members :: "'h \<Rightarrow> 'p \<Rightarrow> nat list \<Rightarrow> bool"
  assumes enq_members: "members h q xs \<Longrightarrow> r \<notin> set xs \<Longrightarrow> enq q r h = (q', h') \<Longrightarrow> members h' q' (r # xs)"
    and enq_other: "members h q xs \<Longrightarrow> r \<notin> set xs \<Longrightarrow> enq q r h = (q', h') \<Longrightarrow>
      members h o2 ys \<Longrightarrow> set ys \<inter> insert r (set xs) = {} \<Longrightarrow> members h' o2 ys"
    and deq_members: "members h q xs \<Longrightarrow> r \<in> set xs \<Longrightarrow> deq q r h = (q', h') \<Longrightarrow> members h' q' (remove1 r xs)"
    and deq_other: "members h q xs \<Longrightarrow> r \<in> set xs \<Longrightarrow> deq q r h = (q', h') \<Longrightarrow>
      members h o2 ys \<Longrightarrow> set ys \<inter> set xs = {} \<Longrightarrow> members h' o2 ys"
    and members_distinct: "members h q xs \<Longrightarrow> distinct xs"
begin

text \<open>Moving a request from one queue to another, with a third queue standing by.\<close>

lemma transfer_members:
  assumes a: "members h qa as" and b: "members h qb bs" and c: "members h qc cs"
    and dis: "set as \<inter> set bs = {}" "set as \<inter> set cs = {}" "set bs \<inter> set cs = {}"
    and r: "r \<in> set as" and d: "deq qa r h = (qa', h1)" and e: "enq qb r h1 = (qb', h2)"
  shows "members h2 qa' (remove1 r as) \<and> members h2 qb' (r # bs) \<and> members h2 qc cs"
proof -
  have a1: "members h1 qa' (remove1 r as)" using deq_members [OF a r d] .
  have b1: "members h1 qb bs" and c1: "members h1 qc cs"
    using deq_other [OF a r d] b c dis by (auto simp: Int_commute)
  have nr: "r \<notin> set bs" "r \<notin> set cs" using r dis by auto
  have ra: "r \<notin> set (remove1 r as)" using members_distinct [OF a] by simp
  have "set (remove1 r as) \<subseteq> set as" by (rule set_remove1_subset)
  then have "set (remove1 r as) \<inter> insert r (set bs) = {}" using ra dis(1) by blast
  then have "members h2 qa' (remove1 r as)" by (rule enq_other [OF b1 nr(1) e a1])
  moreover have "members h2 qc cs"
    by (rule enq_other [OF b1 nr(1) e c1]) (use dis nr in blast)
  ultimately show ?thesis using enq_members [OF b1 nr(1) e] by simp
qed

end

lemma dlist_head: "dlist h head xs \<Longrightarrow> head = Some x \<Longrightarrow> x \<in> set xs"
  by (cases xs) (auto simp: dlist_def)

interpretation boa_queue: request_queue enqueue dequeue dlist
proof unfold_locales
  show "dlist h' q' (r # xs)" if "dlist h q xs" "r \<notin> set xs" "enqueue q r h = (q', h')" for h q xs r q' h'
    using that by (rule enqueue_dlist)
  show "dlist h' q' (remove1 r xs)" if "dlist h q xs" "r \<in> set xs" "dequeue q r h = (q', h')" for h q xs r q' h'
    using that by (rule dequeue_dlist)
  show "dlist h' o2 ys" if "dlist h q xs" "r \<notin> set xs" "enqueue q r h = (q', h')" "dlist h o2 ys"
    "set ys \<inter> insert r (set xs) = {}" for h q xs r q' h' o2 ys
  proof -
    have "q_next h' x = q_next h x \<and> q_prev h' x = q_prev h x" if "x \<in> set ys" for x
      by (rule enqueue_frame) (use dlist_head \<open>x \<in> set ys\<close> \<open>dlist h q xs\<close> \<open>enqueue q r h = (q', h')\<close>
        \<open>set ys \<inter> insert r (set xs) = {}\<close> in auto)
    then show ?thesis using dlist_frame [OF \<open>dlist h o2 ys\<close>] by blast
  qed
  show "dlist h' o2 ys" if "dlist h q xs" "r \<in> set xs" "dequeue q r h = (q', h')" "dlist h o2 ys"
    "set ys \<inter> set xs = {}" for h q xs r q' h' o2 ys
    using that by (intro dlist_frame [of h o2 ys h'] ballI) (auto dest: dequeue_frame)
  show "distinct xs" if "dlist h q xs" for h q xs
    using that by (simp add: dlist_def)
qed

section \<open>Properties\<close>

text \<open>C37: The pointer surgery of \<open>dequeue\<close> followed by \<open>enqueue\<close> moves a request between two
  doubly linked queues exactly as it would move between lists: the request leaves its position in
  the first queue, becomes the head of the second, and every other member of all three queues keeps
  its place, with forward and backward links consistent.\<close>

theorem queue_transfer:
  assumes "dlist h qa as" and "dlist h qb bs" and "dlist h qc cs"
    and "set as \<inter> set bs = {}" and "set as \<inter> set cs = {}" and "set bs \<inter> set cs = {}"
    and "r \<in> set as" and "dequeue qa r h = (qa', h1)" and "enqueue qb r h1 = (qb', h2)"
  shows "dlist h2 qa' (remove1 r as) \<and> dlist h2 qb' (r # bs) \<and> dlist h2 qc cs"
  using assms by (rule boa_queue.transfer_members)

theorem queue_transfer_witness:
  "let h = \<lparr>q_next = [1 \<mapsto> 2, 2 \<mapsto> 3], q_prev = [3 \<mapsto> 2, 2 \<mapsto> 1]\<rparr>;
       (qa, h1) = dequeue (Some 1) 2 h; (qb, h2) = enqueue (Some 4) 2 h1
   in dlist h2 qa [1, 3] \<and> dlist h2 qb [2, 4]"
proof -
  let ?h = "\<lparr>q_next = [1 \<mapsto> 2, 2 \<mapsto> 3], q_prev = [3 \<mapsto> 2, 2 \<mapsto> 1]\<rparr>"
  obtain qa h1 where d: "dequeue (Some 1) 2 ?h = (qa, h1)" by fastforce
  obtain qb h2 where e: "enqueue (Some 4) 2 h1 = (qb, h2)" by fastforce
  have "dlist ?h (Some 1) [1, 2, 3]" "dlist ?h (Some 4) [4]" "dlist ?h None []"
    by (auto simp: dlist_def)
  then show ?thesis using queue_transfer [OF _ _ _ _ _ _ _ d e, of "[1, 2, 3]" "[4]" None "[]"] d e by simp
qed

end
