(* ===== verification/Request.thy ===== *)
theory Request
  imports Hash Httpdate Mmap_Cache
begin

text \<open>
  The data of the server, from \<^verbatim>\<open>src/src/globals.h\<close>: the enumerations, the request structure and the
  global variables. Enumerations whose zero value has no name get one (\<open>HTTP_NONE\<close>, \<open>M_NONE\<close>,
  \<open>CGI_NONE\<close>). Character pointers that are null or point to a C string are \<open>string option\<close>; the
  two pointers into a request's own arrays, \<open>header_line\<close> and \<open>header_end\<close>, keep the array and
  the offset. A byte array is the list of the bytes written to it so far, so writing past its size
  shows as a list that is too long.

  \<open>data_file\<close> stands for the contents of the file behind \<open>data_fd\<close>.

  Descriptors are backed by channels: the results of the successive system calls on a descriptor are
  read from a script, and the bytes the kernel accepted are recorded.
\<close>

section \<open>Enumerations\<close>

datatype http_method = M_NONE | M_GET | M_HEAD | M_PUT | M_POST | M_DELETE | M_LINK | M_UNLINK | M_MOVE | M_TRACE

datatype http_version = HTTP_NONE | HTTP09 | HTTP10 | HTTP11

datatype req_status = READ_HEADER | ONE_CR | ONE_LF | TWO_CR | BODY_READ | BODY_WRITE | WRITE
  | PIPE_READ | PIPE_WRITE | IOSHUFFLE | DONE | TIMED_OUT | DEAD

primrec status_code :: "req_status \<Rightarrow> nat" where
  "status_code READ_HEADER = 0"
| "status_code ONE_CR = 1"
| "status_code ONE_LF = 2"
| "status_code TWO_CR = 3"
| "status_code BODY_READ = 4"
| "status_code BODY_WRITE = 5"
| "status_code WRITE = 6"
| "status_code PIPE_READ = 7"
| "status_code PIPE_WRITE = 8"
| "status_code IOSHUFFLE = 9"
| "status_code DONE = 10"
| "status_code TIMED_OUT = 11"
| "status_code DEAD = 12"

lemma status_code_inject [simp]: "status_code a = status_code b \<longleftrightarrow> a = b"
  by (cases a; cases b) simp_all

instantiation req_status :: linorder
begin

definition less_eq_req_status :: "req_status \<Rightarrow> req_status \<Rightarrow> bool" where
  "less_eq_req_status a b \<longleftrightarrow> status_code a \<le> status_code b"

definition less_req_status :: "req_status \<Rightarrow> req_status \<Rightarrow> bool" where
  "less_req_status a b \<longleftrightarrow> status_code a < status_code b"

instance
  by standard (auto simp: less_eq_req_status_def less_req_status_def)

end

lemmas status_order = less_eq_req_status_def less_req_status_def

datatype ka_status = KA_INACTIVE | KA_ACTIVE | KA_STOPPED

datatype cgi_status = CGI_PARSE | CGI_BUFFER | CGI_DONE

datatype cgi_type = CGI_NONE | NPH | CGI

datatype alias_type = ALIAS | SCRIPTALIAS | REDIRECT

text \<open>Response codes keep their numbers.\<close>

definition R_CONTINUE :: nat where "R_CONTINUE = 100"
definition R_REQUEST_OK :: nat where "R_REQUEST_OK = 200"
definition R_NO_CONTENT :: nat where "R_NO_CONTENT = 204"
definition R_PARTIAL_CONTENT :: nat where "R_PARTIAL_CONTENT = 206"
definition R_MOVED_PERM :: nat where "R_MOVED_PERM = 301"
definition R_MOVED_TEMP :: nat where "R_MOVED_TEMP = 302"
definition R_NOT_MODIFIED :: nat where "R_NOT_MODIFIED = 304"
definition R_BAD_REQUEST :: nat where "R_BAD_REQUEST = 400"
definition R_UNAUTHORIZED :: nat where "R_UNAUTHORIZED = 401"
definition R_FORBIDDEN :: nat where "R_FORBIDDEN = 403"
definition R_NOT_FOUND :: nat where "R_NOT_FOUND = 404"
definition R_LENGTH_REQUIRED :: nat where "R_LENGTH_REQUIRED = 411"
definition R_PRECONDITION_FAILED :: nat where "R_PRECONDITION_FAILED = 412"
definition R_REQUEST_URI_TOO_LONG :: nat where "R_REQUEST_URI_TOO_LONG = 414"
definition R_INVALID_RANGE :: nat where "R_INVALID_RANGE = 416"
definition R_ERROR :: nat where "R_ERROR = 500"
definition R_NOT_IMP :: nat where "R_NOT_IMP = 501"
definition R_BAD_GATEWAY :: nat where "R_BAD_GATEWAY = 502"
definition R_SERVICE_UNAV :: nat where "R_SERVICE_UNAV = 503"
definition R_BAD_VERSION :: nat where "R_BAD_VERSION = 505"

lemmas response_codes = R_CONTINUE_def R_REQUEST_OK_def R_NO_CONTENT_def R_PARTIAL_CONTENT_def
  R_MOVED_PERM_def R_MOVED_TEMP_def R_NOT_MODIFIED_def R_BAD_REQUEST_def R_UNAUTHORIZED_def
  R_FORBIDDEN_def R_NOT_FOUND_def R_LENGTH_REQUIRED_def R_PRECONDITION_FAILED_def
  R_REQUEST_URI_TOO_LONG_def R_INVALID_RANGE_def R_ERROR_def R_NOT_IMP_def R_BAD_GATEWAY_def
  R_SERVICE_UNAV_def R_BAD_VERSION_def

section \<open>Channels\<close>

datatype errno = EAGAIN | EWOULDBLOCK | EINTR | EPIPE | ECONNRESET | ENOENT | EACCES | ENOSPC | EOTHER

datatype write_result = Wrote nat | Write_error errno
datatype read_result = Got string | Read_error errno

record chan =
  ch_writes :: "write_result list"
  ch_sent :: string
  ch_reads :: "read_result list"

text \<open>
  \<open>write\<close> accepts a prefix of the bytes offered; \<open>read\<close> delivers at most \<open>n\<close> bytes and keeps the
  rest for the next call, and delivers nothing at the end of the data. When a script is exhausted
  the call would block.
\<close>

definition sys_write :: "chan \<Rightarrow> string \<Rightarrow> (errno + nat) \<times> chan" where
  "sys_write ch bs =
     (case ch_writes ch of
        [] \<Rightarrow> (Inl EAGAIN, ch)
      | Write_error e # q \<Rightarrow> (Inl e, ch\<lparr>ch_writes := q\<rparr>)
      | Wrote n # q \<Rightarrow>
          (let k = min n (length bs) in
           (Inr k, ch\<lparr>ch_writes := q, ch_sent := ch_sent ch @ take k bs\<rparr>)))"

definition sys_read :: "chan \<Rightarrow> nat \<Rightarrow> (errno + string) \<times> chan" where
  "sys_read ch n =
     (case ch_reads ch of
        [] \<Rightarrow> (Inl EAGAIN, ch)
      | Read_error e # q \<Rightarrow> (Inl e, ch\<lparr>ch_reads := q\<rparr>)
      | Got s # q \<Rightarrow>
          (Inr (take n s), ch\<lparr>ch_reads := (if length s > n then Got (drop n s) # q else q)\<rparr>))"

definition null_chan :: chan where
  "null_chan = \<lparr>ch_writes = [], ch_sent = [], ch_reads = []\<rparr>"

section \<open>Requests\<close>

datatype ptr = Null | Stream nat | Buf nat

record Range =
  r_start :: "64 word"
  r_stop :: "64 word"

record request =
  status :: req_status
  keepalive :: ka_status
  http_version :: http_version
  req_method :: http_method
  response_status :: nat
  cgi_type :: cgi_type
  cgi_status :: cgi_status
  pathname :: "string option"
  ranges :: "Range list"
  numranges :: nat
  data_fd :: nat
  filesize :: "64 word"
  filepos :: "64 word"
  bytes_written :: "64 word"
  data_mem :: "string option"
  logline :: "string option"
  header_line :: ptr
  header_end :: ptr
  parse_pos :: nat
  buffer_start :: nat
  buffer_end :: nat
  if_modified_since :: "string option"
  last_modified :: int
  cgi_env_index :: nat
  header_host :: "string option"
  header_user_agent :: "string option"
  header_referer :: "string option"
  header_ifrange :: "string option"
  host :: "string option"
  post_data_fd :: nat
  path_info :: "string option"
  path_translated :: "string option"
  script_name :: "string option"
  query_string :: "string option"
  content_type :: "string option"
  content_length :: "string option"
  mmap_entry_var :: "nat option"
  fd :: nat
  time_last :: int
  local_ip_addr :: string
  remote_ip_addr :: string
  remote_port :: "32 word"
  kacount :: nat
  client_stream_pos :: nat
  buffer :: string
  request_uri :: string
  client_stream :: string
  cgi_env :: "string list"
  sock :: chan
  data_ch :: chan
  post_ch :: chan
  data_file :: string

section \<open>The server\<close>

record alias_entry =
  fakename :: string
  realname :: string
  alias_type :: alias_type

datatype file_kind = Regular | Directory | Special

text \<open>What \<open>stat\<close> and reading tell of a file.\<close>

record file_info =
  f_kind :: file_kind
  f_dev :: nat
  f_ino :: nat
  f_mtime :: int
  f_content :: string

text \<open>
  The configuration, the tables and counters of the server, and what the operating system answers:
  \<open>fs_open\<close>, \<open>fs_stat\<close> and \<open>fs_access\<close> for path names, \<open>getpwnam\<close> and \<open>fnmatch\<close>, the number
  the next descriptor gets, \<open>fs_create\<close> for a file written with given contents, the script of allocation outcomes and that of the other system calls that
  can only succeed or fail. \<open>mmap_addr\<close> is the result of the next \<open>mmap\<close> and \<open>madvise_ok\<close> of
  \<open>madvise\<close>. \<open>open_fds\<close> are the descriptors the handlers have opened and not closed, and a new
  descriptor gets a number of its own. \<open>script_buf\<close> is the static array \<open>pathname\<close> of \<open>init_script_alias\<close>, as the bytes
  written to it so far. The build options that change the code are flags.
\<close>

record server =
  server_port :: "32 word"
  server_name :: string
  document_root :: "string option"
  user_dir :: "string option"
  directory_index :: "string option"
  default_type :: "string option"
  default_charset :: "string option"
  dirmaker :: "string option"
  cachedir :: "string option"
  vhost_root :: "string option"
  default_vhost :: string
  virtualhost :: bool
  ka_timeout :: "32 word"
  ka_max :: nat
  max_connections :: nat
  conceal_server_identity :: bool
  single_post_limit :: int
  system_bufsize :: nat
  current_time :: int
  hash_variant :: hash_choice
  mime_hashtable :: hash_table
  passwd_hashtable :: hash_table
  alias_hashtable :: "alias_entry list list"
  access_nodes :: "(string \<times> bool) list"
  mmaps :: mmap_state
  range_pool :: nat
  common_cgi_env :: "string list"
  alloc_script :: allocs
  sys_script :: "bool list"
  script_buf :: string
  server_root :: string
  tempdir :: string
  fs_open :: "string \<Rightarrow> errno + file_info"
  fs_stat :: "string \<Rightarrow> file_info option"
  fs_access :: "string \<Rightarrow> bool"
  fs_getpwnam :: "string \<Rightarrow> string option"
  fs_fnmatch :: "string \<Rightarrow> string \<Rightarrow> bool"
  fs_chdir :: "string \<Rightarrow> errno option"
  fs_readdir :: "string \<Rightarrow> string list option"
  fs_create :: "string \<Rightarrow> string \<Rightarrow> errno + file_info"
  next_fd :: nat
  open_fds :: "nat list"
  mmap_addr :: "nat option"
  madvise_ok :: bool
  build_access_control :: bool
  build_gunzip :: bool
  build_sendfile :: bool
  build_strip :: bool
  cgi_strip_prefix :: bool
  cgi_strip_tokens :: "string list"

text \<open>
  A server to evaluate the definitions on: the document root \<open>/www\<close>, empty tables, and a file system
  that holds nothing.
\<close>

definition example_server :: server where
  "example_server =
     \<lparr>server_port = 80, server_name = ''localhost'', document_root = Some ''/www'', user_dir = None,
      directory_index = Some ''index.html'', default_type = Some ''text/plain'', default_charset = None,
      dirmaker = None, cachedir = None, vhost_root = None, default_vhost = ''default'',
      virtualhost = False, ka_timeout = 10, ka_max = 1000, max_connections = 100,
      conceal_server_identity = False, single_post_limit = 1048576, system_bufsize = 16384,
      current_time = 0, hash_variant = FNV1A_HASH, mime_hashtable = replicate MIME_HASHTABLE_SIZE [],
      passwd_hashtable = replicate PASSWD_HASHTABLE_SIZE [], alias_hashtable = replicate 17 [],
      access_nodes = [], mmaps = mmap_init, range_pool = 0, common_cgi_env = [], alloc_script = [],
      sys_script = [], script_buf = [], server_root = ''/'', tempdir = ''/tmp'', fs_open = (\<lambda>p. Inl ENOENT), fs_stat = (\<lambda>p. None), fs_access = (\<lambda>p. False),
      fs_getpwnam = (\<lambda>u. None), fs_fnmatch = (\<lambda>p s. p = s),
      fs_chdir = (\<lambda>p. Some ENOENT), fs_readdir = (\<lambda>p. None),
      fs_create = (\<lambda>p c. Inl EACCES), next_fd = 7, open_fds = [], mmap_addr = Some 4096,
      madvise_ok = True, build_access_control = True, build_gunzip = False, build_sendfile = False,
      build_strip = False, cgi_strip_prefix = False, cgi_strip_tokens = []\<rparr>"

text \<open>One allocation: its outcome and the server with the rest of the script.\<close>

definition try_alloc :: "server \<Rightarrow> bool \<times> server" where
  "try_alloc sv = (case alloc (alloc_script sv) of (b, al) \<Rightarrow> (b, sv\<lparr>alloc_script := al\<rparr>))"

text \<open>One of the other system calls: whether it succeeds.\<close>

definition try_sys :: "server \<Rightarrow> bool \<times> server" where
  "try_sys sv = (case sys_script sv of [] \<Rightarrow> (True, sv) | b # q \<Rightarrow> (b, sv\<lparr>sys_script := q\<rparr>))"

definition fd_open :: "server \<Rightarrow> nat \<times> server" where
  "fd_open sv = (next_fd sv, sv\<lparr>next_fd := next_fd sv + 1, open_fds := next_fd sv # open_fds sv\<rparr>)"

definition fd_close :: "nat \<Rightarrow> server \<Rightarrow> server" where
  "fd_close n sv = sv\<lparr>open_fds := removeAll n (open_fds sv)\<rparr>"

text \<open>A byte of a string; the terminator and what follows it read as NUL.\<close>

definition char_at :: "string \<Rightarrow> nat \<Rightarrow> char" where
  "char_at s i = (if i < length s then s ! i else NUL)"

section \<open>Array sizes\<close>

definition BUFFER_SIZE :: nat where "BUFFER_SIZE = 4096"
definition CLIENT_STREAM_SIZE :: nat where "CLIENT_STREAM_SIZE = 8192"
definition MAX_HEADER_LENGTH :: nat where "MAX_HEADER_LENGTH = 1024"
definition CGI_ENV_MAX :: nat where "CGI_ENV_MAX = 100"
definition FD_SETSIZE :: nat where "FD_SETSIZE = 1024"

text \<open>The seconds a request may take.\<close>

definition REQUEST_TIMEOUT :: int where "REQUEST_TIMEOUT = 60"

definition SQUASH_KA :: "request \<Rightarrow> request" where
  "SQUASH_KA r = r\<lparr>keepalive := KA_STOPPED\<rparr>"

lemma SQUASH_KA_fields [simp]:
  "keepalive (SQUASH_KA r) = KA_STOPPED" "status (SQUASH_KA r) = status r"
  "http_version (SQUASH_KA r) = http_version r" "req_method (SQUASH_KA r) = req_method r"
  "response_status (SQUASH_KA r) = response_status r" "cgi_type (SQUASH_KA r) = cgi_type r"
  "request_uri (SQUASH_KA r) = request_uri r" "pathname (SQUASH_KA r) = pathname r"
  "buffer (SQUASH_KA r) = buffer r" "buffer_start (SQUASH_KA r) = buffer_start r"
  "buffer_end (SQUASH_KA r) = buffer_end r" "sock (SQUASH_KA r) = sock r"
  "kacount (SQUASH_KA r) = kacount r" "ranges (SQUASH_KA r) = ranges r"
  by (simp_all add: SQUASH_KA_def)

text \<open>Copying \<open>bs\<close> to offset \<open>off\<close> of an array; a gap before the offset reads as zero bytes.\<close>

definition blit :: "string \<Rightarrow> nat \<Rightarrow> string \<Rightarrow> string" where
  "blit buf off bs =
     (if bs = [] then buf
      else take off buf @ replicate (off - length buf) NUL @ bs @ drop (off + length bs) buf)"

lemma length_blit: "length (blit buf off bs) = (if bs = [] then length buf else max (length buf) (off + length bs))"
  by (auto simp: blit_def)

lemma take_blit: "off \<le> length buf \<Longrightarrow> take off (blit buf off bs) = take off buf"
  by (simp add: blit_def)

lemma blit_exact:
  "off \<le> length buf \<Longrightarrow> take (off + length bs) (blit buf off bs) = take off buf @ bs"
  by (cases "bs = []") (simp_all add: blit_def)

end
