(* ===== verification/Access.thy ===== *)
theory Access
  imports Request
begin

text \<open>
  Access control (\<open>access.c\<close>): a list of patterns with a verdict each, tried in the order they were
  added. \<open>fnmatch\<close> is the matcher of the C library and a field of the server. \<open>None\<close> is the fatal
  exit when memory runs out.
\<close>

definition access_shutdown :: "server \<Rightarrow> server" where
  "access_shutdown sv = sv\<lparr>access_nodes := []\<rparr>"

definition access_init :: "server \<Rightarrow> server" where
  "access_init sv = (if access_nodes sv \<noteq> [] then access_shutdown sv else sv)"

definition access_add :: "string \<Rightarrow> bool \<Rightarrow> server \<Rightarrow> server option" where
  "access_add pattern allow sv =
     (case try_alloc sv of (ok, sv) \<Rightarrow>
        if \<not> ok then None
        else case try_alloc sv of (ok, sv) \<Rightarrow>
          if \<not> ok then None
          else Some (sv\<lparr>access_nodes := access_nodes sv @ [(pattern, allow)]\<rparr>))"

fun access_loop :: "(string \<Rightarrow> string \<Rightarrow> bool) \<Rightarrow> (string \<times> bool) list \<Rightarrow> string \<Rightarrow> bool" where
  "access_loop fnm [] path = True"
| "access_loop fnm ((pattern, allow) # nodes) path =
     (if fnm pattern path then allow else access_loop fnm nodes path)"

definition access_allow :: "server \<Rightarrow> string \<Rightarrow> bool" where
  "access_allow sv path = access_loop (fs_fnmatch sv) (access_nodes sv) path"

section \<open>Rules in order\<close>

text \<open>The rules of a configuration, added one after another.\<close>

fun access_add_all :: "(string \<times> bool) list \<Rightarrow> server \<Rightarrow> server option" where
  "access_add_all [] sv = Some sv"
| "access_add_all ((pattern, allow) # rules) sv =
     (case access_add pattern allow sv of None \<Rightarrow> None | Some sv \<Rightarrow> access_add_all rules sv)"

lemma access_add_nodes:
  "access_add p a sv = Some sv' \<Longrightarrow>
   access_nodes sv' = access_nodes sv @ [(p, a)] \<and> fs_fnmatch sv' = fs_fnmatch sv"
  by (auto simp: access_add_def try_alloc_def split: prod.splits if_splits)

lemma access_add_all_nodes:
  "access_add_all rules sv = Some sv' \<Longrightarrow>
   access_nodes sv' = access_nodes sv @ rules \<and> fs_fnmatch sv' = fs_fnmatch sv"
proof (induction rules sv rule: access_add_all.induct)
  case (2 p a rules sv)
  then show ?case by (auto dest!: access_add_nodes split: option.splits)
qed simp

lemma access_loop_find:
  "access_loop fnm nodes path =
     (case find (\<lambda>(p, _). fnm p path) nodes of None \<Rightarrow> True | Some (_, allow) \<Rightarrow> allow)"
  by (induction nodes) (auto split: prod.splits)

lemma access_init_nodes: "access_nodes (access_init sv) = []" "fs_fnmatch (access_init sv) = fs_fnmatch sv"
  by (auto simp: access_init_def access_shutdown_def)

section \<open>Properties\<close>

text \<open>After the rules have been reset and those of the configuration added, access to a file is
  decided by the first rule whose pattern matches it, whatever rules were loaded before, and is allowed
  when no rule matches.\<close>

theorem access_first_match_decides:
  assumes "access_add_all rules (access_init sv) = Some sv'"
  shows "access_allow sv' path =
           (case find (\<lambda>(p, _). fs_fnmatch sv p path) rules of None \<Rightarrow> True | Some (_, allow) \<Rightarrow> allow)"
  using access_add_all_nodes [OF assms] by (simp add: access_allow_def access_loop_find access_init_nodes)

theorem access_first_match_decides_witness:
  "\<exists>sv'. access_add_all [(''/www/secret'', False), (''/www/secret'', True)] (access_init example_server) = Some sv' \<and>
     \<not> access_allow sv' ''/www/secret'' \<and> access_allow sv' ''/www/index.html''"
proof -
  let ?rules = "[(''/www/secret'', False), (''/www/secret'', True)]"
  have "access_add_all ?rules (access_init example_server) \<noteq> None"
    by (simp add: access_init_def access_add_def try_alloc_def example_server_def)
  then obtain sv' where sv': "access_add_all ?rules (access_init example_server) = Some sv'" by blast
  show ?thesis
    using access_first_match_decides [OF sv'] sv' by (simp add: example_server_def)
qed

end
