(* ===== verification/Buffer.thy ===== *)
theory Buffer
  imports Request
begin

text \<open>
  The output buffer of a request, from \<^verbatim>\<open>src/src/buffer.c\<close>: \<open>req_write\<close>, its two escaping variants,
  \<open>reset_output_buffer\<close> and \<open>req_flush\<close>. The bytes between \<open>buffer_start\<close> and \<open>buffer_end\<close> are
  pending; together with what the socket has accepted they are the output of the request. The
  theorems say that no writer leaves the array and that no byte is lost, duplicated or reordered.
\<close>

section \<open>Definitions\<close>

definition req_write :: "request \<Rightarrow> string \<Rightarrow> int \<times> request" where
  "req_write r msg =
     (let msg_len = length msg in
      if msg_len = 0 \<or> status r > DONE then (int (buffer_end r), r)
      else if buffer_end r + msg_len > BUFFER_SIZE then (-1, r\<lparr>status := DEAD\<rparr>)
      else (int (buffer_end r + msg_len),
            r\<lparr>buffer := blit (buffer r) (buffer_end r) msg,
              buffer_end := buffer_end r + msg_len\<rparr>))"

definition reset_output_buffer :: "request \<Rightarrow> request" where
  "reset_output_buffer r = r\<lparr>buffer_end := 0\<rparr>"

text \<open>The copying loops: the bytes produced and the input that did not fit.\<close>

fun escape_http_loop :: "string \<Rightarrow> int \<Rightarrow> string \<times> string" where
  "escape_http_loop [] left = ([], [])"
| "escape_http_loop (c # inp) left =
     (if left \<ge> 3 then
        (if needs_escape c
         then (case escape_http_loop inp (left - 3) of
                 (d, rest) \<Rightarrow> (CHR ''%'' # INT_TO_HEX (uchar c div 16 mod 16) # INT_TO_HEX (uchar c mod 16) # d, rest))
         else (case escape_http_loop inp (left - 1) of (d, rest) \<Rightarrow> (c # d, rest)))
      else ([], c # inp))"

definition req_write_escape_http :: "request \<Rightarrow> string \<Rightarrow> int \<times> request" where
  "req_write_escape_http r msg =
     (case escape_http_loop msg (int BUFFER_SIZE - int (buffer_end r)) of
        (d, rest) \<Rightarrow>
          (let r' = r\<lparr>buffer := blit (buffer r) (buffer_end r) d,
                      buffer_end := buffer_end r + length d\<rparr>
           in if rest \<noteq> [] then (-1, r'\<lparr>status := DEAD\<rparr>)
              else (int (buffer_end r'), r')))"

fun escape_html_loop :: "string \<Rightarrow> int \<Rightarrow> string \<times> string" where
  "escape_html_loop [] left = ([], [])"
| "escape_html_loop (c # inp) left =
     (if left \<ge> 6 then
        (let e = (if c = CHR ''>'' then ''&gt;'' else if c = CHR ''<'' then ''&lt;''
                  else if c = CHR ''&'' then ''&amp;'' else if c = DQUOTE then ''&quot;'' else [c])
         in case escape_html_loop inp (left - int (length e)) of (d, rest) \<Rightarrow> (e @ d, rest))
      else ([], c # inp))"

definition req_write_escape_html :: "request \<Rightarrow> string \<Rightarrow> int \<times> request" where
  "req_write_escape_html r msg =
     (case escape_html_loop msg (int BUFFER_SIZE - int (buffer_end r)) of
        (d, rest) \<Rightarrow>
          (let r' = r\<lparr>buffer := blit (buffer r) (buffer_end r) d,
                      buffer_end := buffer_end r + length d\<rparr>
           in if rest \<noteq> [] then (-1, r'\<lparr>status := DEAD\<rparr>)
              else (int (buffer_end r'), r')))"

text \<open>The unsigned difference of the two offsets, and the flush.\<close>

definition bytes_pending :: "request \<Rightarrow> nat" where
  "bytes_pending r = nat ((int (buffer_end r) - int (buffer_start r)) mod 2 ^ 32)"

definition req_flush :: "request \<Rightarrow> int \<times> request" where
  "req_flush r =
     (let n = bytes_pending r in
      if status r > DONE then (-2, r)
      else
        (let finish = (\<lambda>r. let r = (if buffer_start r = buffer_end r
                                    then r\<lparr>buffer_start := 0, buffer_end := 0\<rparr> else r)
                           in (int (buffer_end r), r))
         in if n \<noteq> 0 then
              (case sys_write (sock r) (take n (drop (buffer_start r) (buffer r))) of
                 (Inl e, ch) \<Rightarrow>
                   if e = EWOULDBLOCK \<or> e = EAGAIN then (-1, r\<lparr>sock := ch\<rparr>)
                   else (-2, r\<lparr>sock := ch, buffer_start := 0, buffer_end := 0, status := DEAD\<rparr>)
               | (Inr k, ch) \<Rightarrow> finish (r\<lparr>sock := ch, buffer_start := buffer_start r + k\<rparr>))
            else finish r))"

text \<open>Most callers ignore what the writers return.\<close>

definition wr :: "string \<Rightarrow> request \<Rightarrow> request" where
  "wr msg r = snd (req_write r msg)"

definition wr_http :: "string \<Rightarrow> request \<Rightarrow> request" where
  "wr_http msg r = snd (req_write_escape_http r msg)"

definition wr_html :: "string \<Rightarrow> request \<Rightarrow> request" where
  "wr_html msg r = snd (req_write_escape_html r msg)"

definition flush :: "request \<Rightarrow> request" where
  "flush r = snd (req_flush r)"

section \<open>Invariant and output\<close>

definition buf_ok :: "request \<Rightarrow> bool" where
  "buf_ok r \<longleftrightarrow> buffer_start r \<le> buffer_end r \<and> buffer_end r \<le> BUFFER_SIZE \<and>
               buffer_end r \<le> length (buffer r) \<and> length (buffer r) \<le> BUFFER_SIZE + 1"

lemma buf_ok_update [simp]:
  "buf_ok (r\<lparr>status := v_status\<rparr>) = buf_ok r" "buf_ok (r\<lparr>keepalive := v_keepalive\<rparr>) = buf_ok r"
  "buf_ok (r\<lparr>http_version := v_http_version\<rparr>) = buf_ok r"
  "buf_ok (r\<lparr>req_method := v_req_method\<rparr>) = buf_ok r"
  "buf_ok (r\<lparr>response_status := v_response_status\<rparr>) = buf_ok r"
  "buf_ok (r\<lparr>cgi_type := v_cgi_type\<rparr>) = buf_ok r" "buf_ok (r\<lparr>cgi_status := v_cgi_status\<rparr>) = buf_ok r"
  "buf_ok (r\<lparr>pathname := v_pathname\<rparr>) = buf_ok r" "buf_ok (r\<lparr>ranges := v_ranges\<rparr>) = buf_ok r"
  "buf_ok (r\<lparr>numranges := v_numranges\<rparr>) = buf_ok r" "buf_ok (r\<lparr>data_fd := v_data_fd\<rparr>) = buf_ok r"
  "buf_ok (r\<lparr>filesize := v_filesize\<rparr>) = buf_ok r" "buf_ok (r\<lparr>filepos := v_filepos\<rparr>) = buf_ok r"
  "buf_ok (r\<lparr>bytes_written := v_bytes_written\<rparr>) = buf_ok r"
  "buf_ok (r\<lparr>data_mem := v_data_mem\<rparr>) = buf_ok r" "buf_ok (r\<lparr>logline := v_logline\<rparr>) = buf_ok r"
  "buf_ok (r\<lparr>header_line := v_header_line\<rparr>) = buf_ok r"
  "buf_ok (r\<lparr>header_end := v_header_end\<rparr>) = buf_ok r"
  "buf_ok (r\<lparr>parse_pos := v_parse_pos\<rparr>) = buf_ok r"
  "buf_ok (r\<lparr>if_modified_since := v_if_modified_since\<rparr>) = buf_ok r"
  "buf_ok (r\<lparr>last_modified := v_last_modified\<rparr>) = buf_ok r"
  "buf_ok (r\<lparr>cgi_env_index := v_cgi_env_index\<rparr>) = buf_ok r"
  "buf_ok (r\<lparr>header_host := v_header_host\<rparr>) = buf_ok r"
  "buf_ok (r\<lparr>header_user_agent := v_header_user_agent\<rparr>) = buf_ok r"
  "buf_ok (r\<lparr>header_referer := v_header_referer\<rparr>) = buf_ok r"
  "buf_ok (r\<lparr>header_ifrange := v_header_ifrange\<rparr>) = buf_ok r" "buf_ok (r\<lparr>host := v_host\<rparr>) = buf_ok r"
  "buf_ok (r\<lparr>post_data_fd := v_post_data_fd\<rparr>) = buf_ok r"
  "buf_ok (r\<lparr>path_info := v_path_info\<rparr>) = buf_ok r"
  "buf_ok (r\<lparr>path_translated := v_path_translated\<rparr>) = buf_ok r"
  "buf_ok (r\<lparr>script_name := v_script_name\<rparr>) = buf_ok r"
  "buf_ok (r\<lparr>query_string := v_query_string\<rparr>) = buf_ok r"
  "buf_ok (r\<lparr>content_type := v_content_type\<rparr>) = buf_ok r"
  "buf_ok (r\<lparr>content_length := v_content_length\<rparr>) = buf_ok r"
  "buf_ok (r\<lparr>mmap_entry_var := v_mmap_entry_var\<rparr>) = buf_ok r" "buf_ok (r\<lparr>fd := v_fd\<rparr>) = buf_ok r"
  "buf_ok (r\<lparr>time_last := v_time_last\<rparr>) = buf_ok r"
  "buf_ok (r\<lparr>local_ip_addr := v_local_ip_addr\<rparr>) = buf_ok r"
  "buf_ok (r\<lparr>remote_ip_addr := v_remote_ip_addr\<rparr>) = buf_ok r"
  "buf_ok (r\<lparr>remote_port := v_remote_port\<rparr>) = buf_ok r" "buf_ok (r\<lparr>kacount := v_kacount\<rparr>) = buf_ok r"
  "buf_ok (r\<lparr>client_stream_pos := v_client_stream_pos\<rparr>) = buf_ok r"
  "buf_ok (r\<lparr>request_uri := v_request_uri\<rparr>) = buf_ok r"
  "buf_ok (r\<lparr>client_stream := v_client_stream\<rparr>) = buf_ok r"
  "buf_ok (r\<lparr>cgi_env := v_cgi_env\<rparr>) = buf_ok r" "buf_ok (r\<lparr>sock := v_sock\<rparr>) = buf_ok r"
  "buf_ok (r\<lparr>data_ch := v_data_ch\<rparr>) = buf_ok r" "buf_ok (r\<lparr>post_ch := v_post_ch\<rparr>) = buf_ok r" "buf_ok (r\<lparr>data_file := v_data_file\<rparr>) = buf_ok r"
  by (simp_all add: buf_ok_def)

definition pending :: "request \<Rightarrow> string" where
  "pending r = take (buffer_end r - buffer_start r) (drop (buffer_start r) (buffer r))"

definition req_output :: "request \<Rightarrow> string" where
  "req_output r = ch_sent (sock r) @ pending r"

lemma pending_drop: "buf_ok r \<Longrightarrow> pending r = drop (buffer_start r) (take (buffer_end r) (buffer r))"
  by (simp add: pending_def buf_ok_def drop_take)

lemma bytes_pending_eq: "buf_ok r \<Longrightarrow> bytes_pending r = buffer_end r - buffer_start r"
  by (simp add: bytes_pending_def buf_ok_def BUFFER_SIZE_def)

lemma length_pending: "buf_ok r \<Longrightarrow> length (pending r) = buffer_end r - buffer_start r"
  by (auto simp: pending_def buf_ok_def)

text \<open>Copying \<open>d\<close> behind the pending bytes.\<close>

lemma append_bytes:
  assumes "buf_ok r" and "buffer_end r + length d \<le> BUFFER_SIZE"
    and "r' = r\<lparr>buffer := blit (buffer r) (buffer_end r) d, buffer_end := buffer_end r + length d, status := st\<rparr>"
  shows "buf_ok r' \<and> pending r' = pending r @ d"
proof -
  have len: "buffer_end r \<le> length (buffer r)" and s: "buffer_start r \<le> buffer_end r"
    using assms(1) by (auto simp: buf_ok_def)
  have ok: "buf_ok r'"
    using assms by (auto simp: buf_ok_def length_blit max_def)
  have "pending r' = drop (buffer_start r) (take (buffer_end r) (buffer r) @ d)"
    unfolding pending_drop [OF ok] using blit_exact [OF len, of d] assms(3) by simp
  also have "\<dots> = pending r @ d"
    using s len by (simp add: pending_drop [OF assms(1)])
  finally show ?thesis using ok by simp
qed

section \<open>Writers\<close>

text \<open>
  \<open>appends r r' s\<close>: going from \<open>r\<close> to \<open>r'\<close> touched only the buffer and the status, either kept
  the status or gave the connection up, and in the first case the pending bytes have grown by
  exactly \<open>s\<close>.
\<close>

definition sans_buffer :: "request \<Rightarrow> request" where
  "sans_buffer r = r\<lparr>buffer := [], buffer_end := 0, status := DEAD\<rparr>"

definition appends :: "request \<Rightarrow> request \<Rightarrow> string \<Rightarrow> bool" where
  "appends r r' s \<longleftrightarrow>
     sans_buffer r' = sans_buffer r \<and>
     (status r' = status r \<or> status r' = DEAD) \<and>
     (buf_ok r \<longrightarrow> buf_ok r' \<and> (status r' \<le> DONE \<longrightarrow> pending r' = pending r @ s))"

lemma appends_refl: "appends r r []"
  by (simp add: appends_def)

lemma dead_not_le [simp]: "\<not> DEAD \<le> DONE" "\<not> TIMED_OUT \<le> DONE"
  by (simp_all add: status_order)

lemma appends_trans: "appends r r1 s \<Longrightarrow> appends r1 r2 t \<Longrightarrow> appends r r2 (s @ t)"
  unfolding appends_def by auto

lemma sans_buffer_eq:
  "sans_buffer r' = sans_buffer r \<Longrightarrow>
   r' = r\<lparr>buffer := buffer r', buffer_end := buffer_end r', status := status r'\<rparr>"
  by (cases r; cases r') (simp add: sans_buffer_def)

lemma buffer_update_fields:
  assumes "r' = r\<lparr>buffer := b, buffer_end := e, status := st\<rparr>"
  shows
    "keepalive r' = keepalive r" "http_version r' = http_version r"
    "req_method r' = req_method r" "response_status r' = response_status r"
    "cgi_type r' = cgi_type r" "cgi_status r' = cgi_status r" "pathname r' = pathname r"
    "ranges r' = ranges r" "numranges r' = numranges r" "data_fd r' = data_fd r"
    "filesize r' = filesize r" "filepos r' = filepos r" "bytes_written r' = bytes_written r"
    "data_mem r' = data_mem r" "logline r' = logline r" "header_line r' = header_line r"
    "header_end r' = header_end r" "parse_pos r' = parse_pos r"
    "buffer_start r' = buffer_start r" "if_modified_since r' = if_modified_since r"
    "last_modified r' = last_modified r" "cgi_env_index r' = cgi_env_index r"
    "header_host r' = header_host r" "header_user_agent r' = header_user_agent r"
    "header_referer r' = header_referer r" "header_ifrange r' = header_ifrange r"
    "host r' = host r" "post_data_fd r' = post_data_fd r" "path_info r' = path_info r"
    "path_translated r' = path_translated r" "script_name r' = script_name r"
    "query_string r' = query_string r" "content_type r' = content_type r"
    "content_length r' = content_length r" "mmap_entry_var r' = mmap_entry_var r"
    "fd r' = fd r" "time_last r' = time_last r" "local_ip_addr r' = local_ip_addr r"
    "remote_ip_addr r' = remote_ip_addr r" "remote_port r' = remote_port r"
    "kacount r' = kacount r" "client_stream_pos r' = client_stream_pos r"
    "request_uri r' = request_uri r" "client_stream r' = client_stream r"
    "cgi_env r' = cgi_env r" "sock r' = sock r" "data_ch r' = data_ch r"
    "post_ch r' = post_ch r" "data_file r' = data_file r"
  by (simp_all add: assms)

lemmas sans_buffer_fields = buffer_update_fields [OF sans_buffer_eq]

lemma appends_sans: "appends r r' s \<Longrightarrow> sans_buffer r' = sans_buffer r"
  by (simp add: appends_def)

lemmas appends_frame = sans_buffer_fields [OF appends_sans]

lemma req_write_appends: "appends r (wr msg r) msg"
proof (cases "length msg = 0 \<or> status r > DONE")
  case True
  then have "wr msg r = r" by (simp add: wr_def req_write_def)
  with True show ?thesis
    using appends_refl [of r] by (auto simp: appends_def)
next
  case False
  show ?thesis
  proof (cases "buffer_end r + length msg > BUFFER_SIZE")
    case True
    with False have "wr msg r = r\<lparr>buffer := buffer r, buffer_end := buffer_end r, status := DEAD\<rparr>"
      by (simp add: wr_def req_write_def)
    then show ?thesis unfolding appends_def by (auto simp: buf_ok_def sans_buffer_def)
  next
    case fits: False
    with False have eq: "wr msg r = r\<lparr>buffer := blit (buffer r) (buffer_end r) msg,
        buffer_end := buffer_end r + length msg, status := status r\<rparr>"
      by (simp add: wr_def req_write_def Let_def)
    show ?thesis
      unfolding appends_def using append_bytes [OF _ _ eq] fits eq by (auto simp: sans_buffer_def)
  qed
qed

lemma escape_http_loop_props:
  "escape_http_loop inp left = (d, rest) \<Longrightarrow>
   int (length d) \<le> max 0 left \<and> (rest = [] \<longrightarrow> d = concat (map escape_char inp))"
proof (induction inp left arbitrary: d rest rule: escape_http_loop.induct)
  case (2 c inp left)
  then show ?case by (auto simp: escape_char_def split: if_splits prod.splits)
qed simp

lemma escape_html_loop_props:
  "escape_html_loop inp left = (d, rest) \<Longrightarrow>
   int (length d) \<le> max 0 left \<and> (rest = [] \<longrightarrow> d = html_escape_string inp)"
proof (induction inp left arbitrary: d rest rule: escape_html_loop.induct)
  case (2 c inp left)
  have e: "(if c = CHR ''>'' then ''&gt;'' else if c = CHR ''<'' then ''&lt;''
      else if c = CHR ''&'' then ''&amp;'' else if c = DQUOTE then ''&quot;'' else [c]) = html_escape_char c"
    by (simp add: html_escape_char_def)
  show ?case
  proof (cases "left \<ge> 6")
    case True
    obtain d' where "escape_html_loop inp (left - int (length (html_escape_char c))) = (d', rest)"
      and "d = html_escape_char c @ d'"
      using "2.prems" True unfolding escape_html_loop.simps e Let_def by (auto split: prod.splits)
    then show ?thesis
      using "2.IH" [OF True refl, unfolded e] length_html_escape_char [of c] True
      by (auto simp: html_escape_string_def)
  next
    case False
    with 2 show ?thesis by auto
  qed
qed (simp add: html_escape_string_def)

lemma escaped_appends:
  assumes "int (length d) \<le> max 0 (int BUFFER_SIZE - int (buffer_end r))"
    and "rest = [] \<longrightarrow> d = s"
    and "r' = r\<lparr>buffer := blit (buffer r) (buffer_end r) d, buffer_end := buffer_end r + length d,
               status := (if rest = [] then status r else DEAD)\<rparr>"
  shows "appends r r' s"
proof -
  have "buffer_end r + length d \<le> BUFFER_SIZE" if "buf_ok r"
    using assms(1) that by (auto simp: buf_ok_def)
  then have "buf_ok r \<longrightarrow> buf_ok r' \<and> pending r' = pending r @ d"
    using append_bytes [OF _ _ assms(3)] by auto
  then show ?thesis
    unfolding appends_def using assms(2,3) by (auto simp: sans_buffer_def)
qed

lemma wr_http_appends: "appends r (wr_http msg r) (concat (map escape_char msg))"
proof -
  obtain d rest where l: "escape_http_loop msg (int BUFFER_SIZE - int (buffer_end r)) = (d, rest)"
    by fastforce
  show ?thesis
    by (rule escaped_appends [of d r rest])
      (use escape_http_loop_props [OF l] l in \<open>auto simp: wr_http_def req_write_escape_http_def Let_def\<close>)
qed

lemma wr_html_appends: "appends r (wr_html msg r) (html_escape_string msg)"
proof -
  obtain d rest where l: "escape_html_loop msg (int BUFFER_SIZE - int (buffer_end r)) = (d, rest)"
    by fastforce
  show ?thesis
    by (rule escaped_appends [of d r rest])
      (use escape_html_loop_props [OF l] l in \<open>auto simp: wr_html_def req_write_escape_html_def Let_def\<close>)
qed

section \<open>Writers as an interface\<close>

text \<open>
  What the response code relies on: a writer appends the encoding of its argument or gives the
  connection up, and stays inside the buffer either way.
\<close>

locale bounded_writer =
  fixes writer :: "string \<Rightarrow> request \<Rightarrow> request"
    and encoding :: "string \<Rightarrow> string"
  assumes writer_appends: "appends r (writer msg r) (encoding msg)"
begin

lemma writes_append: "appends r (fold writer msgs r) (concat (map encoding msgs))"
proof (induction msgs arbitrary: r)
  case Nil
  then show ?case by (simp add: appends_refl)
next
  case (Cons m msgs)
  show ?case using appends_trans [OF writer_appends Cons.IH] by simp
qed

lemma writes_ok: "buf_ok r \<Longrightarrow> buf_ok (fold writer msgs r)"
  using writes_append [of r msgs] by (simp add: appends_def)

lemma writes_output:
  "buf_ok r \<Longrightarrow> status (fold writer msgs r) \<le> DONE \<Longrightarrow>
   req_output (fold writer msgs r) = req_output r @ concat (map encoding msgs)"
  using writes_append [of r msgs] appends_frame(46) [OF writes_append, of msgs r]
  by (simp add: appends_def req_output_def)

end

interpretation plain: bounded_writer wr "\<lambda>s. s"
  by unfold_locales (rule req_write_appends)

interpretation http_escaping: bounded_writer wr_http "\<lambda>s. concat (map escape_char s)"
  by unfold_locales (rule wr_http_appends)

interpretation html_escaping: bounded_writer wr_html html_escape_string
  by unfold_locales (rule wr_html_appends)

section \<open>Flushing\<close>

lemma sys_write_sent:
  "sys_write ch bs = (Inr k, ch') \<Longrightarrow> k \<le> length bs \<and> ch_sent ch' = ch_sent ch @ take k bs"
  "sys_write ch bs = (Inl e, ch') \<Longrightarrow> ch_sent ch' = ch_sent ch"
  by (auto simp: sys_write_def Let_def split: list.splits write_result.splits)

lemma req_flush_cases:
  assumes ok: "buf_ok r"
  obtains (dead) "status r > DONE" "req_flush r = (-2, r)"
  | (blocked) ch where "status r \<le> DONE" "req_flush r = (-1, r\<lparr>sock := ch\<rparr>)" "ch_sent ch = ch_sent (sock r)"
  | (failed) ch where "status r \<le> DONE"
      "req_flush r = (-2, r\<lparr>sock := ch, buffer_start := 0, buffer_end := 0, status := DEAD\<rparr>)"
  | (flushed) ch where "status r \<le> DONE"
      "req_flush r = (0, r\<lparr>sock := ch, buffer_start := 0, buffer_end := 0\<rparr>)"
      "ch_sent ch = ch_sent (sock r) @ pending r"
  | (partial) ch k where "status r \<le> DONE" "k < length (pending r)"
      "req_flush r = (int (buffer_end r), r\<lparr>sock := ch, buffer_start := buffer_start r + k\<rparr>)"
      "ch_sent ch = ch_sent (sock r) @ take k (pending r)" "0 < buffer_end r"
proof (cases "status r > DONE")
  case True
  then show thesis by (intro dead) (auto simp: req_flush_def Let_def)
next
  case False
  then have le: "status r \<le> DONE" by simp
  note n = bytes_pending_eq [OF ok] length_pending [OF ok]
  have s: "buffer_start r \<le> buffer_end r" using ok by (simp add: buf_ok_def)
  show thesis
  proof (cases "bytes_pending r = 0")
    case True
    with n s have "buffer_start r = buffer_end r" "pending r = []" by auto
    then have "req_flush r = (0, r\<lparr>sock := sock r, buffer_start := 0, buffer_end := 0\<rparr>)"
      using True False by (simp add: req_flush_def)
    then show thesis using le \<open>pending r = []\<close> by (intro flushed) auto
  next
    case np: False
    have p: "take (bytes_pending r) (drop (buffer_start r) (buffer r)) = pending r"
      using n by (simp add: pending_def)
    obtain res ch where w: "sys_write (sock r) (pending r) = (res, ch)" by fastforce
    show thesis
    proof (cases res)
      case (Inl e)
      then show thesis
        using blocked [of ch] failed [of ch] le w p np sys_write_sent(2) [of "sock r" "pending r" e ch]
        by (cases "e = EWOULDBLOCK \<or> e = EAGAIN") (auto simp: req_flush_def Let_def)
    next
      case (Inr k)
      note snt = sys_write_sent(1) [OF w [unfolded Inr]]
      show thesis
      proof (cases "k = length (pending r)")
        case True
        with Inr snt show thesis
          using le w p np n s by (intro flushed [of ch]) (auto simp: req_flush_def Let_def)
      next
        case k: False
        with Inr snt show thesis
          using le w p np n s by (intro partial [of k ch]) (auto simp: req_flush_def Let_def)
      qed
    qed
  qed
qed

lemma req_flush_ok: "buf_ok r \<Longrightarrow> req_flush r = (v, r') \<Longrightarrow> buf_ok r'"
  by (cases rule: req_flush_cases [of r]) (auto simp: buf_ok_def length_pending)

lemma req_flush_output:
  assumes "buf_ok r" and "req_flush r = (v, r')" and "v \<noteq> -2"
  shows "req_output r' = req_output r"
proof (cases rule: req_flush_cases [OF assms(1), case_names dead blocked failed flushed partial])
  case (partial ch k)
  then have r': "r' = r\<lparr>sock := ch, buffer_start := buffer_start r + k\<rparr>" using assms by simp
  have "pending r' = drop k (pending r)"
    using partial(2) by (simp add: r' pending_def drop_take add.commute)
  then show ?thesis using partial(4) r' by (simp add: req_output_def)
qed (use assms in \<open>auto simp: req_output_def pending_def\<close>)

text \<open>A flush touches the socket, the two offsets and the status.\<close>

definition same_but_io :: "request \<Rightarrow> request \<Rightarrow> bool" where
  "same_but_io r r' \<longleftrightarrow> (\<exists>ch a b st.
     r' = r\<lparr>sock := ch, buffer_start := a, buffer_end := b, status := st\<rparr>)"

lemma same_but_io_updates:
  "same_but_io r r" "same_but_io r (r\<lparr>sock := ch\<rparr>)"
  "same_but_io r (r\<lparr>sock := ch, buffer_start := a\<rparr>)"
  "same_but_io r (r\<lparr>buffer_start := a, buffer_end := b\<rparr>)"
  "same_but_io r (r\<lparr>sock := ch, buffer_start := a, buffer_end := b\<rparr>)"
  "same_but_io r (r\<lparr>sock := ch, buffer_start := a, buffer_end := b, status := st\<rparr>)"
proof -
  show 6: "same_but_io r (r\<lparr>sock := ch, buffer_start := a, buffer_end := b, status := st\<rparr>)" for ch a b st
    unfolding same_but_io_def by blast
  show "same_but_io r r" using 6 [where ch = "sock r" and a = "buffer_start r" and b = "buffer_end r" and st = "status r"] by simp
  show "same_but_io r (r\<lparr>sock := ch\<rparr>)"
    using 6 [where ch = ch and a = "buffer_start r" and b = "buffer_end r" and st = "status r"] by simp
  show "same_but_io r (r\<lparr>sock := ch, buffer_start := a\<rparr>)"
    using 6 [where ch = ch and a = a and b = "buffer_end r" and st = "status r"] by simp
  show "same_but_io r (r\<lparr>buffer_start := a, buffer_end := b\<rparr>)"
    using 6 [where ch = "sock r" and a = a and b = b and st = "status r"] by simp
  show "same_but_io r (r\<lparr>sock := ch, buffer_start := a, buffer_end := b\<rparr>)"
    using 6 [where ch = ch and a = a and b = b and st = "status r"] by simp
qed

lemma flush_same: "same_but_io r (flush r)"
  by (simp add: flush_def req_flush_def Let_def same_but_io_updates split: sum.splits prod.splits)

lemma same_but_io_fields:
  assumes "same_but_io r r'"
  shows
  "keepalive r' = keepalive r" "http_version r' = http_version r"
  "req_method r' = req_method r" "response_status r' = response_status r"
  "cgi_type r' = cgi_type r" "cgi_status r' = cgi_status r"
  "pathname r' = pathname r" "ranges r' = ranges r"
  "numranges r' = numranges r" "data_fd r' = data_fd r"
  "filesize r' = filesize r" "filepos r' = filepos r"
  "bytes_written r' = bytes_written r" "data_mem r' = data_mem r"
  "logline r' = logline r" "header_line r' = header_line r"
  "header_end r' = header_end r" "parse_pos r' = parse_pos r"
  "if_modified_since r' = if_modified_since r"
  "last_modified r' = last_modified r" "cgi_env_index r' = cgi_env_index r"
  "header_host r' = header_host r" "header_user_agent r' = header_user_agent r"
  "header_referer r' = header_referer r" "header_ifrange r' = header_ifrange r"
  "host r' = host r" "post_data_fd r' = post_data_fd r"
  "path_info r' = path_info r" "path_translated r' = path_translated r"
  "script_name r' = script_name r" "query_string r' = query_string r"
  "content_type r' = content_type r" "content_length r' = content_length r"
  "mmap_entry_var r' = mmap_entry_var r" "fd r' = fd r"
  "time_last r' = time_last r" "local_ip_addr r' = local_ip_addr r"
  "remote_ip_addr r' = remote_ip_addr r" "remote_port r' = remote_port r"
  "kacount r' = kacount r" "client_stream_pos r' = client_stream_pos r"
  "buffer r' = buffer r" "request_uri r' = request_uri r"
  "client_stream r' = client_stream r" "cgi_env r' = cgi_env r"
  "data_ch r' = data_ch r" "post_ch r' = post_ch r" "data_file r' = data_file r"
  using assms by (auto simp: same_but_io_def)

lemmas flush_fields [simp] = same_but_io_fields [OF flush_same]

lemma flush_status: "status (flush r) = status r \<or> status (flush r) = DEAD"
  by (simp add: flush_def req_flush_def Let_def split: sum.splits prod.splits)

lemma flush_ok: "buf_ok r \<Longrightarrow> buf_ok (flush r)"
  using req_flush_ok [of r] by (cases "req_flush r") (simp add: flush_def)

lemma flush_output:
  assumes "buf_ok r" and "status (flush r) \<le> DONE"
  shows "req_output (flush r) = req_output r"
proof -
  obtain v r' where f: "req_flush r = (v, r')" by fastforce
  with assms(2) have "v \<noteq> -2"
    by (cases rule: req_flush_cases [OF assms(1)]) (auto simp: flush_def)
  with req_flush_output [OF assms(1) f] f show ?thesis by (simp add: flush_def)
qed

section \<open>Properties\<close>

text \<open>C36: Memory safety of the output buffer: \<open>req_write\<close>, both escaping writers and
  \<open>req_flush\<close> keep \<open>buffer_start\<close> at most \<open>buffer_end\<close> at most \<open>BUFFER_SIZE\<close> and never write
  past the array of \<open>BUFFER_SIZE + 1\<close> bytes, whatever the message and the answers of the socket.\<close>

theorem buffer_writers_stay_inside:
  assumes "buf_ok r"
  shows "buf_ok (snd (req_write r msg)) \<and> buf_ok (snd (req_write_escape_http r msg)) \<and>
         buf_ok (snd (req_write_escape_html r msg)) \<and> buf_ok (snd (req_flush r))"
  using assms plain.writes_ok [of r "[msg]"] http_escaping.writes_ok [of r "[msg]"]
    html_escaping.writes_ok [of r "[msg]"] req_flush_ok [of r]
  by (cases "req_flush r") (simp add: wr_def wr_http_def wr_html_def)

definition example_request :: request where
  "example_request =
     \<lparr>status = READ_HEADER, keepalive = KA_INACTIVE, http_version = HTTP10, req_method = M_GET,
      response_status = 0, cgi_type = CGI_NONE, cgi_status = CGI_PARSE, pathname = None, ranges = [],
      numranges = 0, data_fd = 0, filesize = 0, filepos = 0, bytes_written = 0, data_mem = None,
      logline = None, header_line = Stream 0, header_end = Null, parse_pos = 0, buffer_start = 0,
      buffer_end = 0, if_modified_since = None, last_modified = 0, cgi_env_index = 0,
      header_host = None, header_user_agent = None, header_referer = None, header_ifrange = None,
      host = None, post_data_fd = 0, path_info = None, path_translated = None, script_name = None,
      query_string = None, content_type = None, content_length = None, mmap_entry_var = None, fd = 3,
      time_last = 0, local_ip_addr = ''127.0.0.1'', remote_ip_addr = ''127.0.0.1'', remote_port = 4711,
      kacount = 10, client_stream_pos = 0, buffer = [], request_uri = [], client_stream = [],
      cgi_env = [], sock = null_chan, data_ch = null_chan, post_ch = null_chan, data_file = []\<rparr>"

lemma example_request_ok: "buf_ok example_request"
  by (simp add: buf_ok_def example_request_def BUFFER_SIZE_def)

theorem buffer_writers_stay_inside_witness:
  "buf_ok (snd (req_write_escape_html example_request (replicate 5000 DQUOTE)))"
  using buffer_writers_stay_inside [OF example_request_ok] by blast

text \<open>C35: No byte of output is lost, duplicated or reordered by buffering: a flush that does not
  report an error keeps the bytes already accepted by the socket followed by the bytes still pending
  exactly as they were, and returns \<open>-1\<close> only with nothing sent.\<close>

theorem req_flush_preserves_output:
  assumes "buf_ok r" and "req_flush r = (v, r')" and "v \<noteq> -2"
  shows "req_output r' = req_output r \<and> (v = -1 \<longrightarrow> pending r' = pending r) \<and>
         (v = 0 \<longrightarrow> pending r' = [])"
proof -
  have "v = -1 \<longrightarrow> pending r' = pending r" "v = 0 \<longrightarrow> pending r' = []"
    using assms(2,3) by (cases rule: req_flush_cases [OF assms(1)]; auto simp: pending_def)+
  then show ?thesis using req_flush_output [OF assms] by simp
qed

theorem req_flush_preserves_output_witness:
  "let r = (wr ''hello'' example_request)\<lparr>sock := null_chan\<lparr>ch_writes := [Wrote 2]\<rparr>\<rparr>
   in req_output (snd (req_flush r)) = ''hello'' \<and> fst (req_flush r) = 5"
proof -
  let ?r = "(wr ''hello'' example_request)\<lparr>sock := null_chan\<lparr>ch_writes := [Wrote 2]\<rparr>\<rparr>"
  have eq: "wr ''hello'' example_request = example_request\<lparr>buffer := ''hello'', buffer_end := 5\<rparr>"
    by (simp add: wr_def req_write_def blit_def example_request_def BUFFER_SIZE_def status_order)
  have ok: "buf_ok ?r" unfolding eq by (simp add: buf_ok_def example_request_def BUFFER_SIZE_def)
  have out: "req_output ?r = ''hello''"
    unfolding eq by (simp add: req_output_def pending_def example_request_def null_chan_def)
  have fl: "fst (req_flush ?r) = 5"
    unfolding eq by (simp add: req_flush_def bytes_pending_def example_request_def status_order sys_write_def Let_def)
  obtain v r' where f: "req_flush ?r = (v, r')" by fastforce
  show ?thesis
    using req_flush_preserves_output [OF ok f] f fl out by simp
qed

text \<open>Each writer appends exactly the encoding of its message to the output, or gives the
  connection up: if the status of the request afterwards still allows output, the output has grown by
  the message, by its percent-encoding, or by its HTML-escaped form.\<close>

theorem writers_append_encoding:
  assumes "buf_ok r"
  shows "(status (snd (req_write r msg)) \<le> DONE \<longrightarrow>
            req_output (snd (req_write r msg)) = req_output r @ msg) \<and>
         (status (snd (req_write_escape_http r msg)) \<le> DONE \<longrightarrow>
            req_output (snd (req_write_escape_http r msg)) = req_output r @ concat (map escape_char msg)) \<and>
         (status (snd (req_write_escape_html r msg)) \<le> DONE \<longrightarrow>
            req_output (snd (req_write_escape_html r msg)) = req_output r @ html_escape_string msg)"
  using assms plain.writes_output [of r "[msg]"] http_escaping.writes_output [of r "[msg]"]
    html_escaping.writes_output [of r "[msg]"]
  by (simp add: wr_def wr_http_def wr_html_def)

theorem writers_append_encoding_witness:
  "req_output (snd (req_write_escape_html example_request ''<b>'')) = ''&lt;b&gt;''"
proof -
  have "status (snd (req_write_escape_html example_request ''<b>'')) \<le> DONE"
    by (simp add: req_write_escape_html_def example_request_def BUFFER_SIZE_def status_order)
  moreover have "req_output example_request = []"
    by (simp add: req_output_def pending_def example_request_def null_chan_def)
  ultimately show ?thesis
    using writers_append_encoding [OF example_request_ok, of "''<b>''"]
    by (simp add: html_escape_string_def html_escape_char_def)
qed

end
