(* ===== verification/Response.thy ===== *)
theory Response
  imports Buffer
begin

text \<open>
  The responses of \<^verbatim>\<open>src/src/response.c\<close>, every \<open>send_r_\<close> function and the header printers they
  share, statement by statement. A response is a sequence of writes to the output buffer; the lemmas
  reduce each function to the list of its pieces, from which the text it sends, its status code and
  what it leaves alone follow.
\<close>

section \<open>Header lines\<close>

abbreviation CRLF :: string where "CRLF \<equiv> [CR, LF]"

definition HTML :: string where "HTML = ''text/html; charset=ISO-8859-1''"
definition SERVER_VERSION :: string where "SERVER_VERSION = ''YABWF/0.0.2''"

fun http_ver_string :: "http_version \<Rightarrow> string" where
  "http_ver_string HTTP09 = ''HTTP/0.9''"
| "http_ver_string HTTP10 = ''HTTP/1.0''"
| "http_ver_string HTTP11 = ''HTTP/1.1''"
| "http_ver_string HTTP_NONE = ''HTTP/1.0''"

definition print_content_type :: "server \<Rightarrow> request \<Rightarrow> request" where
  "print_content_type sv r =
    (case get_mime_type (hash_variant sv) (default_type sv) (mime_hashtable sv) (Some (request_uri r)) of
       None \<Rightarrow> r
     | Some mime_type \<Rightarrow>
         let r = wr ''Content-Type: '' r in
         let r = wr mime_type r in
         let r = (case default_charset sv of
                    Some cs \<Rightarrow>
                      if strncasecmp mime_type ''text'' 4 = 0 then (
                        let r = wr ''; charset='' r in
                        let r = wr cs r in
                        r) else r
                  | None \<Rightarrow> r) in
         wr CRLF r)"

text \<open>\<open>simple_itoa\<close> takes an \<open>unsigned int\<close>: a 64-bit size is cut to its low 32 bits.\<close>

definition print_content_length :: "server \<Rightarrow> request \<Rightarrow> request" where
  "print_content_length sv r =
    (let r = wr ''Content-Length: '' r in
     let r = wr (simple_itoa (ucast (filesize r))) r in
     wr CRLF r)"

definition print_last_modified :: "server \<Rightarrow> request \<Rightarrow> request" where
  "print_last_modified sv r =
    wr (''Last-Modified: '' @ rfc822_time_buf (current_time sv) (last_modified r) @ CRLF) r"

definition print_ka_phrase :: "server \<Rightarrow> request \<Rightarrow> request" where
  "print_ka_phrase sv r =
    (if kacount r > 0 \<and> keepalive r = KA_ACTIVE \<and> response_status r < 500 then
       let r = wr (''Connection: Keep-Alive'' @ CRLF @ ''Keep-Alive: timeout='') r in
       let r = wr (simple_itoa (ka_timeout sv)) r in
       let r = wr '', max='' r in
       let r = wr (simple_itoa (of_nat (kacount r))) r in
       wr CRLF r
     else wr (''Connection: close'' @ CRLF) r)"

definition print_http_headers :: "server \<Rightarrow> request \<Rightarrow> request" where
  "print_http_headers sv r =
    (let r = wr (''Date: '' @ rfc822_time_buf (current_time sv) 0 @ CRLF) r in
     let r = (if \<not> conceal_server_identity sv then wr (''Server: '' @ SERVER_VERSION @ CRLF) r else r) in
     let r = wr (''Accept-Ranges: bytes'' @ CRLF) r in
     print_ka_phrase sv r)"

definition print_content_range :: "server \<Rightarrow> request \<Rightarrow> request" where
  "print_content_range sv r =
    (let r = wr ''Content-Range: bytes '' r in
     let r = wr (simple_itoa (ucast (r_start (hd (ranges r))))) r in
     let r = wr ''-'' r in
     let r = wr (simple_itoa (ucast (r_stop (hd (ranges r))))) r in
     let r = wr ''/'' r in
     let r = wr (simple_itoa (ucast (filesize r))) r in
     wr CRLF r)"

definition print_partial_content_continue :: "server \<Rightarrow> request \<Rightarrow> request" where
  "print_partial_content_continue sv r =
    (let r = (if numranges r > 1 then wr (CRLF @ ''--THIS_STRING_SEPARATES'' @ CRLF) r else r) in
     let r = print_content_type sv r in
     print_content_range sv r)"

definition print_partial_content_done :: "request \<Rightarrow> request" where
  "print_partial_content_done r = wr (CRLF @ ''--THIS_STRING_SEPARATES--'' @ CRLF) r"

section \<open>Completing a range\<close>

text \<open>
  \<open>range_pool_push\<close> returns the range node to the pool. The list of ranges is not empty here: the
  source dereferences its head.
\<close>

definition complete_response :: "request \<Rightarrow> server \<Rightarrow> int \<times> request \<times> server" where
  "complete_response r sv =
    (let r = r\<lparr>ranges := tl (ranges r)\<rparr>;
         sv = sv\<lparr>range_pool := range_pool sv + 1\<rparr>
     in if response_status r = R_PARTIAL_CONTENT \<and> numranges r > 1 then
          (if ranges r \<noteq> [] then
             let r = print_partial_content_continue sv r in
             let r = wr CRLF r in
             (1, r, sv)
           else
             let r = print_partial_content_done r in
             let r = r\<lparr>status := DONE\<rparr> in
             (1, flush r, sv))
        else (0, r\<lparr>status := DONE\<rparr>, sv))"

section \<open>Responses\<close>

definition send_r_continue :: "server \<Rightarrow> request \<Rightarrow> request" where
  "send_r_continue sv r =
    (if http_version r \<noteq> HTTP11 then r else
     let r = r\<lparr>response_status := R_CONTINUE\<rparr> in
     let r = wr (http_ver_string (http_version r)) r in
     let r = wr ('' 100 Continue'' @ CRLF @ CRLF) r in
     r)"

definition send_r_request_ok :: "server \<Rightarrow> request \<Rightarrow> request" where
  "send_r_request_ok sv r =
    (let r = r\<lparr>response_status := R_REQUEST_OK\<rparr> in
     if http_version r = HTTP09 then r else
     let r = wr (http_ver_string (http_version r)) r in
     let r = wr ('' 200 OK'' @ CRLF) r in
     let r = print_http_headers sv r in
     let r = (if cgi_type r = CGI_NONE then (
         let r = print_content_length sv r in
         let r = print_last_modified sv r in
         let r = print_content_type sv r in
         let r = wr CRLF r in
         r) else r) in
     r)"

definition send_r_no_content :: "server \<Rightarrow> request \<Rightarrow> request" where
  "send_r_no_content sv r =
    (let r = r\<lparr>response_status := R_NO_CONTENT\<rparr> in
     if http_version r = HTTP09 then r else
     let r = wr (http_ver_string (http_version r)) r in
     let r = wr ('' 204 NO CONTENT'' @ CRLF) r in
     let r = print_http_headers sv r in
     let r = (if cgi_type r = CGI_NONE then (
         let r = wr CRLF r in
         r) else r) in
     r)"

definition send_r_partial_content :: "server \<Rightarrow> request \<Rightarrow> request" where
  "send_r_partial_content sv r =
    (let r = r\<lparr>response_status := R_PARTIAL_CONTENT\<rparr> in
     let r = wr (http_ver_string (http_version r)) r in
     let r = wr ('' 206 Partial Content'' @ CRLF) r in
     let r = print_http_headers sv r in
     let r = print_last_modified sv r in
     let r = (if numranges r > 1 then (
         let r = wr (''Content-Type: multipart/byteranges; boundary=THIS_STRING_SEPARATES'' @ CRLF) r in
         let r = wr CRLF r in
         r)
       else (
         let r = wr ''Content-Length: '' r in
         let r = wr (simple_itoa (ucast (r_stop (hd (ranges r)) - r_start (hd (ranges r)) + 1))) r in
         let r = wr CRLF r in
         r)) in
     let r = print_partial_content_continue sv r in
     let r = wr CRLF r in
     r)"

definition send_r_moved_perm :: "server \<Rightarrow> string \<Rightarrow> request \<Rightarrow> request" where
  "send_r_moved_perm sv url r =
    (let r = SQUASH_KA r in
     let r = r\<lparr>response_status := R_MOVED_PERM\<rparr> in
     let r = (if http_version r \<noteq> HTTP09 then (
         let r = wr (http_ver_string (http_version r)) r in
         let r = wr ('' 301 Moved Permanently'' @ CRLF) r in
         let r = print_http_headers sv r in
         let r = wr (''Content-Type: '' @ HTML @ CRLF) r in
         let r = wr ''Location: '' r in
         let r = wr_http url r in
         let r = wr (CRLF @ CRLF) r in
         r) else r) in
     let r = (if req_method r \<noteq> M_HEAD then (
         let r = wr (''<HTML><HEAD><TITLE>301 Moved Permanently</TITLE></HEAD>'' @ [LF] @ ''<BODY>'' @ [LF] @
                        ''<H1>301 Moved</H1>The document has moved'' @ [LF] @ ''<A HREF='' @ [DQUOTE]) r in
         let r = wr_html url r in
         let r = wr ([DQUOTE] @ ''>here</A>.'' @ [LF] @ ''</BODY></HTML>'' @ [LF]) r in
         r) else r) in
     flush r)"

definition send_r_moved_temp :: "server \<Rightarrow> string \<Rightarrow> string \<Rightarrow> request \<Rightarrow> request" where
  "send_r_moved_temp sv url more_hdr r =
    (let r = SQUASH_KA r in
     let r = r\<lparr>response_status := R_MOVED_TEMP\<rparr> in
     let r = (if http_version r \<noteq> HTTP09 then (
         let r = wr (http_ver_string (http_version r)) r in
         let r = wr ('' 302 Moved Temporarily'' @ CRLF) r in
         let r = print_http_headers sv r in
         let r = wr (''Content-Type: '' @ HTML @ CRLF) r in
         let r = wr ''Location: '' r in
         let r = wr_http url r in
         let r = wr CRLF r in
         let r = wr more_hdr r in
         let r = wr (CRLF @ CRLF) r in
         r) else r) in
     let r = (if req_method r \<noteq> M_HEAD then (
         let r = wr (''<HTML><HEAD><TITLE>302 Moved Temporarily</TITLE></HEAD>'' @ [LF] @ ''<BODY>'' @ [LF] @
                        ''<H1>302 Moved</H1>The document has moved'' @ [LF] @ ''<A HREF='' @ [DQUOTE]) r in
         let r = wr_html url r in
         let r = wr ([DQUOTE] @ ''>here</A>.'' @ [LF] @ ''</BODY></HTML>'' @ [LF]) r in
         r) else r) in
     flush r)"

definition send_r_not_modified :: "server \<Rightarrow> request \<Rightarrow> request" where
  "send_r_not_modified sv r =
    (let r = SQUASH_KA r in
     let r = r\<lparr>response_status := R_NOT_MODIFIED\<rparr> in
     let r = wr (http_ver_string (http_version r)) r in
     let r = wr ('' 304 Not Modified'' @ CRLF) r in
     let r = print_http_headers sv r in
     let r = print_content_type sv r in
     let r = wr CRLF r in
     flush r)"

definition send_r_bad_request :: "server \<Rightarrow> request \<Rightarrow> request" where
  "send_r_bad_request sv r =
    (let r = SQUASH_KA r in
     let r = r\<lparr>response_status := R_BAD_REQUEST\<rparr> in
     let r = (if http_version r \<noteq> HTTP09 then (
         let r = wr (http_ver_string (http_version r)) r in
         let r = wr ('' 400 Bad Request'' @ CRLF) r in
         let r = print_http_headers sv r in
         let r = wr (''Content-Type: '' @ HTML @ CRLF @ CRLF) r in
         r) else r) in
     let r = (if req_method r \<noteq> M_HEAD then (
         let r = wr (''<HTML><HEAD><TITLE>400 Bad Request</TITLE></HEAD>'' @ [LF] @
                        ''<BODY><H1>400 Bad Request</H1>'' @ [LF] @
                        ''Your client has issued a malformed or illegal request.'' @ [LF] @ ''</BODY></HTML>'' @
                        [LF]) r in
         r) else r) in
     flush r)"

definition send_r_unauthorized :: "server \<Rightarrow> string \<Rightarrow> request \<Rightarrow> request" where
  "send_r_unauthorized sv realm_name r =
    (let r = SQUASH_KA r in
     let r = r\<lparr>response_status := R_UNAUTHORIZED\<rparr> in
     let r = (if http_version r \<noteq> HTTP09 then (
         let r = wr (http_ver_string (http_version r)) r in
         let r = wr ('' 401 Unauthorized'' @ CRLF) r in
         let r = print_http_headers sv r in
         let r = wr (''WWW-Authenticate: Basic realm='' @ [DQUOTE]) r in
         let r = wr realm_name r in
         let r = wr CRLF r in
         let r = wr (''Content-Type: '' @ HTML @ CRLF @ CRLF) r in
         r) else r) in
     let r = (if req_method r \<noteq> M_HEAD then (
         let r = wr (''<HTML><HEAD><TITLE>401 Unauthorized</TITLE></HEAD>'' @ [LF] @
                        ''<BODY><H1>401 Unauthorized</H1>'' @ [LF] @
                        ''Your client does not have permission to get URL '') r in
         let r = wr_html (request_uri r) r in
         let r = wr ('' from this server.'' @ [LF] @ ''</BODY></HTML>'' @ [LF]) r in
         r) else r) in
     flush r)"

definition send_r_forbidden :: "server \<Rightarrow> request \<Rightarrow> request" where
  "send_r_forbidden sv r =
    (let r = SQUASH_KA r in
     let r = r\<lparr>response_status := R_FORBIDDEN\<rparr> in
     let r = (if http_version r \<noteq> HTTP09 then (
         let r = wr (http_ver_string (http_version r)) r in
         let r = wr ('' 403 Forbidden'' @ CRLF) r in
         let r = print_http_headers sv r in
         let r = wr (''Content-Type: '' @ HTML @ CRLF @ CRLF) r in
         r) else r) in
     let r = (if req_method r \<noteq> M_HEAD then (
         let r = wr (''<HTML><HEAD><TITLE>403 Forbidden</TITLE></HEAD>'' @ [LF] @
                        ''<BODY><H1>403 Forbidden</H1>'' @ [LF] @
                        ''Your client does not have permission to get URL '') r in
         let r = wr_html (request_uri r) r in
         let r = wr ('' from this server.'' @ [LF] @ ''</BODY></HTML>'' @ [LF]) r in
         r) else r) in
     flush r)"

definition send_r_not_found :: "server \<Rightarrow> request \<Rightarrow> request" where
  "send_r_not_found sv r =
    (let r = SQUASH_KA r in
     let r = r\<lparr>response_status := R_NOT_FOUND\<rparr> in
     let r = (if http_version r \<noteq> HTTP09 then (
         let r = wr (http_ver_string (http_version r)) r in
         let r = wr ('' 404 Not Found'' @ CRLF) r in
         let r = print_http_headers sv r in
         let r = wr (''Content-Type: '' @ HTML @ CRLF @ CRLF) r in
         r) else r) in
     let r = (if req_method r \<noteq> M_HEAD then (
         let r = wr (''<HTML><HEAD><TITLE>404 Not Found</TITLE></HEAD>'' @ [LF] @
                        ''<BODY><H1>404 Not Found</H1>'' @ [LF] @ ''The requested URL '') r in
         let r = wr_html (request_uri r) r in
         let r = wr ('' was not found on this server.'' @ [LF] @ ''</BODY></HTML>'' @ [LF]) r in
         r) else r) in
     flush r)"

definition send_r_length_required :: "server \<Rightarrow> request \<Rightarrow> request" where
  "send_r_length_required sv r =
    (let r = SQUASH_KA r in
     let r = r\<lparr>response_status := R_LENGTH_REQUIRED\<rparr> in
     let r = (if http_version r \<noteq> HTTP09 then (
         let r = wr (http_ver_string (http_version r)) r in
         let r = wr ('' 411 Length Required'' @ CRLF) r in
         let r = print_http_headers sv r in
         let r = wr (''Content-Type: '' @ HTML @ CRLF) r in
         let r = print_last_modified sv r in
         let r = print_content_type sv r in
         let r = wr CRLF r in
         r) else r) in
     let r = (if req_method r \<noteq> M_HEAD then (
         let r = wr (''<HTML><HEAD><TITLE>411 Length Required</TITLE></HEAD>'' @ [LF] @
                        ''<BODY><H1>411 Length Required</H1>'' @ [LF] @ ''The requested URL '') r in
         let r = wr_html (request_uri r) r in
         let r = wr ('' requires that a valid Content-Length header be sent with it.'' @ [LF] @
                        ''</BODY></HTML>'' @ [LF]) r in
         r) else r) in
     flush r)"

definition send_r_precondition_failed :: "server \<Rightarrow> request \<Rightarrow> request" where
  "send_r_precondition_failed sv r =
    (let r = SQUASH_KA r in
     let r = r\<lparr>response_status := R_PRECONDITION_FAILED\<rparr> in
     let r = (if http_version r \<noteq> HTTP09 then (
         let r = wr (http_ver_string (http_version r)) r in
         let r = wr ('' 412 Precondition Failed'' @ CRLF) r in
         let r = print_http_headers sv r in
         let r = wr (''Content-Type: '' @ HTML @ CRLF @ CRLF) r in
         r) else r) in
     let r = (if req_method r \<noteq> M_HEAD then (
         let r = wr (''<HTML><HEAD><TITLE>412 Precondition Failed</TITLE></HEAD>'' @ [LF] @
                        ''<BODY><H1>412 Precondition Failed</H1>'' @ [LF] @ ''</BODY></HTML>'' @ [LF]) r in
         r) else r) in
     flush r)"

definition body_414 :: string where
  "body_414 =
     ''<HTML><HEAD><TITLE>414 Request URI Too Long</TITLE></HEAD>'' @ [LF] @
     ''<BODY><H1>414 Request URI Too Long</H1>'' @ [LF] @
     ''Your client has issued a malformed or illegal request.'' @ [LF] @ ''</BODY></HTML>'' @
     [LF]"

definition send_r_request_uri_too_long :: "server \<Rightarrow> request \<Rightarrow> request" where
  "send_r_request_uri_too_long sv r =
    (let r = r\<lparr>response_status := R_REQUEST_URI_TOO_LONG\<rparr> in
     let r = (if http_version r \<noteq> HTTP09 then (
         let r = wr (http_ver_string (http_version r)) r in
         let r = wr ('' 414 Request URI Too Long'' @ CRLF) r in
         let r = print_http_headers sv r in
         let r = wr (''Content-Type: '' @ HTML @ CRLF) r in
         let r = wr ''Content-Length: '' r in
         let r = wr (simple_itoa (of_nat (length body_414))) r in
         let r = wr (CRLF @ CRLF) r in
         r) else r) in
     let r = (if req_method r \<noteq> M_HEAD then (
         let r = wr body_414 r in
         r) else r) in
     flush r)"

definition body_416 :: string where
  "body_416 =
     ''<HTML><HEAD><TITLE>416 Invalid Range</TITLE></HEAD>'' @ [LF] @
     ''<BODY><H1>416 Invalid Range</H1>'' @ [LF] @ ''</BODY></HTML>'' @ [LF]"

definition send_r_invalid_range :: "server \<Rightarrow> request \<Rightarrow> request" where
  "send_r_invalid_range sv r =
    (let r = SQUASH_KA r in
     let r = r\<lparr>response_status := R_INVALID_RANGE\<rparr> in
     let r = (if http_version r \<noteq> HTTP09 then (
         let r = wr (http_ver_string (http_version r)) r in
         let r = wr ('' 416 Invalid Range'' @ CRLF) r in
         let r = print_http_headers sv r in
         let r = wr ''Content-Length: '' r in
         let r = wr (simple_itoa (of_nat (length body_416))) r in
         let r = wr (CRLF @ ''Content-Type: '' @ HTML @ CRLF @ CRLF) r in
         r) else r) in
     let r = (if req_method r \<noteq> M_HEAD then (
         let r = wr body_416 r in
         r) else r) in
     flush r)"

definition send_r_error :: "server \<Rightarrow> request \<Rightarrow> request" where
  "send_r_error sv r =
    (let r = SQUASH_KA r in
     let r = r\<lparr>response_status := R_ERROR\<rparr> in
     let r = (if http_version r \<noteq> HTTP09 then (
         let r = wr (http_ver_string (http_version r)) r in
         let r = wr ('' 500 Server Error'' @ CRLF) r in
         let r = print_http_headers sv r in
         let r = wr (''Content-Type: '' @ HTML @ CRLF @ CRLF) r in
         r) else r) in
     let r = (if req_method r \<noteq> M_HEAD then (
         let r = wr (''<HTML><HEAD><TITLE>500 Server Error</TITLE></HEAD>'' @ [LF] @
                        ''<BODY><H1>500 Server Error</H1>'' @ [LF] @
                        ''The server encountered an internal error and could not complete your request.'' @
                        [LF] @ ''</BODY></HTML>'' @ [LF]) r in
         r) else r) in
     flush r)"

definition send_r_not_implemented :: "server \<Rightarrow> request \<Rightarrow> request" where
  "send_r_not_implemented sv r =
    (let r = SQUASH_KA r in
     let r = r\<lparr>response_status := R_NOT_IMP\<rparr> in
     let r = (if http_version r \<noteq> HTTP09 then (
         let r = wr (http_ver_string (http_version r)) r in
         let r = wr ('' 501 Not Implemented'' @ CRLF) r in
         let r = print_http_headers sv r in
         let r = wr (''Content-Type: '' @ HTML @ CRLF @ CRLF) r in
         r) else r) in
     let r = wr (''<HTML><HEAD><TITLE>501 Not Implemented</TITLE></HEAD>'' @ [LF] @
                    ''<BODY><H1>501 Not Implemented</H1>'' @ [LF] @
                    ''POST to non-script is not supported in Boa.'' @ [LF] @ ''</BODY></HTML>'' @ [LF]) r in
     flush r)"

definition send_r_bad_gateway :: "server \<Rightarrow> request \<Rightarrow> request" where
  "send_r_bad_gateway sv r =
    (let r = SQUASH_KA r in
     let r = r\<lparr>response_status := R_BAD_GATEWAY\<rparr> in
     let r = (if http_version r \<noteq> HTTP09 then (
         let r = wr (http_ver_string (http_version r)) r in
         let r = wr ('' 502 Bad Gateway'' @ CRLF) r in
         let r = print_http_headers sv r in
         let r = wr (''Content-Type: '' @ HTML @ CRLF @ CRLF) r in
         r) else r) in
     let r = (if req_method r \<noteq> M_HEAD then (
         let r = wr (''<HTML><HEAD><TITLE>502 Bad Gateway</TITLE></HEAD>'' @ [LF] @
                        ''<BODY><H1>502 Bad Gateway</H1>'' @ [LF] @ ''The CGI was not CGI/1.1 compliant.'' @
                        [LF] @ ''</BODY></HTML>'' @ [LF]) r in
         r) else r) in
     flush r)"

definition body_503 :: string where
  "body_503 =
     ''<HTML><HEAD><TITLE>503 Service Unavailable</TITLE></HEAD>'' @ [LF] @
     ''<BODY><H1>503 Service Unavailable</H1>'' @ [LF] @
     ''There are too many connections in use right now.'' @ [LF] @
     ''Please try again later.'' @ [LF] @ ''</BODY></HTML>'' @ [LF]"

text \<open>
  The static string \<open>body_len\<close> is allocated at the first call; the flag says whether it was.
\<close>

definition send_r_service_unavailable :: "server \<Rightarrow> bool \<Rightarrow> request \<Rightarrow> request" where
  "send_r_service_unavailable sv have_body_len r =
    (let r = SQUASH_KA r in
     let r = r\<lparr>response_status := R_SERVICE_UNAV\<rparr> in
     let r = (if http_version r \<noteq> HTTP09 then (
         let r = wr (http_ver_string (http_version r)) r in
         let r = wr ('' 503 Service Unavailable'' @ CRLF) r in
         let r = print_http_headers sv r in
         let r = (if have_body_len then (
             let r = wr ''Content-Length: '' r in
             let r = wr (simple_itoa (of_nat (length body_503))) r in
             let r = wr CRLF r in
             r) else r) in
         let r = wr (''Content-Type: '' @ HTML @ CRLF @ CRLF) r in
         r) else r) in
     let r = (if req_method r \<noteq> M_HEAD then (
         let r = wr body_503 r in
         r) else r) in
     flush r)"

definition send_r_bad_version :: "server \<Rightarrow> string \<Rightarrow> request \<Rightarrow> request" where
  "send_r_bad_version sv version r =
    (let r = SQUASH_KA r in
     let r = r\<lparr>response_status := R_BAD_VERSION\<rparr> in
     let r = (if http_version r \<noteq> HTTP09 then (
         let r = wr (http_ver_string (http_version r)) r in
         let r = wr ('' 505 HTTP Version Not Supported'' @ CRLF) r in
         let r = print_http_headers sv r in
         let r = wr (''Content-Type: '' @ HTML @ CRLF @ CRLF) r in
         r) else r) in
     let r = (if req_method r \<noteq> M_HEAD then (
         let r = wr (''<HTML><HEAD><TITLE>505 HTTP Version Not Supported</TITLE></HEAD>'' @ [LF] @
                        ''<BODY><H1>505 HTTP Version Not Supported</H1>'' @ [LF] @
                        ''HTTP versions other than 0.9 and 1.0 are not supported in Boa.'' @ [LF] @
                        ''<p><p>Version encountered: '') r in
         let r = wr version r in
         let r = wr (''<p><p></BODY></HTML>'' @ [LF]) r in
         r) else r) in
     flush r)"

section \<open>Responses as lists of pieces\<close>

text \<open>
  A sequence of writes is a list of pieces. The definitions above become such lists by rewriting, so
  each of them inherits what the buffer theory proves of the writers.
\<close>

datatype piece = Plain string | Http string | Html string

fun emit :: "piece \<Rightarrow> request \<Rightarrow> request" where
  "emit (Plain s) r = wr s r"
| "emit (Http s) r = wr_http s r"
| "emit (Html s) r = wr_html s r"

fun piece_text :: "piece \<Rightarrow> string" where
  "piece_text (Plain s) = s"
| "piece_text (Http s) = concat (map escape_char s)"
| "piece_text (Html s) = html_escape_string s"

definition emits :: "piece list \<Rightarrow> request \<Rightarrow> request" where
  "emits ps r = fold emit ps r"

definition text_of :: "piece list \<Rightarrow> string" where
  "text_of ps = concat (map piece_text ps)"

lemma wr_emits:
  "wr s r = emits [Plain s] r" "wr_http s r = emits [Http s] r" "wr_html s r = emits [Html s] r"
  by (simp_all add: emits_def)

lemma emits_emits [simp]: "emits xs (emits ys r) = emits (ys @ xs) r"
  by (simp add: emits_def)

lemma emits_Nil: "emits [] r = r"
  by (simp add: emits_def)

lemma text_of_simps [simp]:
  "text_of [] = []" "text_of (p # ps) = piece_text p @ text_of ps" "text_of (ps @ qs) = text_of ps @ text_of qs"
  by (simp_all add: text_of_def)

lemma emit_appends: "appends r (emit p r) (piece_text p)"
  by (cases p) (simp_all add: req_write_appends wr_http_appends wr_html_appends)

lemma emits_appends: "appends r (emits ps r) (text_of ps)"
proof (induction ps arbitrary: r)
  case Nil
  then show ?case by (simp add: emits_Nil appends_refl)
next
  case (Cons p ps)
  show ?case using appends_trans [OF emit_appends Cons.IH, of r p] by (simp add: emits_def)
qed

lemmas emits_fields [simp] = appends_frame [OF emits_appends]

lemma emits_ok: "buf_ok r \<Longrightarrow> buf_ok (emits ps r)"
  using emits_appends [of r ps] by (simp add: appends_def)

lemma emits_status: "status (emits ps r) = status r \<or> status (emits ps r) = DEAD"
  using emits_appends [of r ps] by (simp add: appends_def)

lemma emits_output:
  "buf_ok r \<Longrightarrow> status (emits ps r) \<le> DONE \<Longrightarrow> req_output (emits ps r) = req_output r @ text_of ps"
  using emits_appends [of r ps] by (simp add: appends_def req_output_def)

subsection \<open>The header printers\<close>

definition content_type_pieces :: "server \<Rightarrow> string \<Rightarrow> piece list" where
  "content_type_pieces sv uri =
    (case get_mime_type (hash_variant sv) (default_type sv) (mime_hashtable sv) (Some uri) of
       None \<Rightarrow> []
     | Some mime_type \<Rightarrow>
         [Plain ''Content-Type: '', Plain mime_type] @
         (case default_charset sv of
            Some cs \<Rightarrow> if strncasecmp mime_type ''text'' 4 = 0 then [Plain ''; charset='', Plain cs] else []
          | None \<Rightarrow> []) @
         [Plain CRLF])"

lemma print_content_type_emits: "print_content_type sv r = emits (content_type_pieces sv (request_uri r)) r"
  by (simp add: print_content_type_def content_type_pieces_def wr_emits Let_def emits_Nil split: option.splits)

definition ka_pieces :: "server \<Rightarrow> request \<Rightarrow> piece list" where
  "ka_pieces sv r =
    (if kacount r > 0 \<and> keepalive r = KA_ACTIVE \<and> response_status r < 500
     then [Plain (''Connection: Keep-Alive'' @ CRLF @ ''Keep-Alive: timeout=''),
           Plain (simple_itoa (ka_timeout sv)), Plain '', max='', Plain (simple_itoa (of_nat (kacount r))),
           Plain CRLF]
     else [Plain (''Connection: close'' @ CRLF)])"

definition header_pieces :: "server \<Rightarrow> request \<Rightarrow> piece list" where
  "header_pieces sv r =
    [Plain (''Date: '' @ rfc822_time_buf (current_time sv) 0 @ CRLF)] @
    (if conceal_server_identity sv then [] else [Plain (''Server: '' @ SERVER_VERSION @ CRLF)]) @
    [Plain (''Accept-Ranges: bytes'' @ CRLF)] @ ka_pieces sv r"

lemma print_http_headers_emits: "print_http_headers sv r = emits (header_pieces sv r) r"
  by (simp add: print_http_headers_def print_ka_phrase_def header_pieces_def ka_pieces_def wr_emits Let_def)

lemma header_pieces_emits [simp]: "header_pieces sv (emits ps r) = header_pieces sv r"
  by (simp add: header_pieces_def ka_pieces_def)

definition range_pieces :: "request \<Rightarrow> piece list" where
  "range_pieces r =
    [Plain ''Content-Range: bytes '', Plain (simple_itoa (ucast (r_start (hd (ranges r))))), Plain ''-'',
     Plain (simple_itoa (ucast (r_stop (hd (ranges r))))), Plain ''/'',
     Plain (simple_itoa (ucast (filesize r))), Plain CRLF]"

definition part_pieces :: "server \<Rightarrow> request \<Rightarrow> piece list" where
  "part_pieces sv r =
    (if numranges r > 1 then [Plain (CRLF @ ''--THIS_STRING_SEPARATES'' @ CRLF)] else []) @
    content_type_pieces sv (request_uri r) @ range_pieces r"

lemma print_partial_content_continue_emits:
  "print_partial_content_continue sv r = emits (part_pieces sv r) r"
  by (simp add: print_partial_content_continue_def part_pieces_def print_content_type_emits
      print_content_range_def range_pieces_def wr_emits Let_def)

lemma part_pieces_emits [simp]: "part_pieces sv (emits ps r) = part_pieces sv r"
  by (simp add: part_pieces_def range_pieces_def)

lemmas printers = wr_emits print_content_type_emits print_http_headers_emits
  print_partial_content_continue_emits print_content_length_def print_last_modified_def
  print_partial_content_done_def

section \<open>Error responses\<close>

text \<open>
  The error responses share one shape: they stop keep-alive, set the status code, write a status
  line, the common headers and their own, and, except to a \<open>HEAD\<close> request, an HTML page. The table
  below lists what is particular to each; \<open>err_send_emits\<close> shows that the functions above produce
  exactly that.
\<close>

datatype err = E_bad_request | E_forbidden | E_not_found | E_precondition_failed | E_invalid_range
  | E_error | E_not_implemented | E_bad_gateway | E_service_unavailable bool | E_bad_version string

fun err_send :: "err \<Rightarrow> server \<Rightarrow> request \<Rightarrow> request" where
  "err_send E_bad_request = send_r_bad_request"
| "err_send E_forbidden = send_r_forbidden"
| "err_send E_not_found = send_r_not_found"
| "err_send E_precondition_failed = send_r_precondition_failed"
| "err_send E_invalid_range = send_r_invalid_range"
| "err_send E_error = send_r_error"
| "err_send E_not_implemented = send_r_not_implemented"
| "err_send E_bad_gateway = send_r_bad_gateway"
| "err_send (E_service_unavailable have_body_len) = (\<lambda>sv. send_r_service_unavailable sv have_body_len)"
| "err_send (E_bad_version version) = (\<lambda>sv. send_r_bad_version sv version)"

fun err_code :: "err \<Rightarrow> nat" where
  "err_code E_bad_request = 400"
| "err_code E_forbidden = 403"
| "err_code E_not_found = 404"
| "err_code E_precondition_failed = 412"
| "err_code E_invalid_range = 416"
| "err_code E_error = 500"
| "err_code E_not_implemented = 501"
| "err_code E_bad_gateway = 502"
| "err_code (E_service_unavailable have_body_len) = 503"
| "err_code (E_bad_version version) = 505"

fun err_reason :: "err \<Rightarrow> string" where
  "err_reason E_bad_request = ''Bad Request''"
| "err_reason E_forbidden = ''Forbidden''"
| "err_reason E_not_found = ''Not Found''"
| "err_reason E_precondition_failed = ''Precondition Failed''"
| "err_reason E_invalid_range = ''Invalid Range''"
| "err_reason E_error = ''Server Error''"
| "err_reason E_not_implemented = ''Not Implemented''"
| "err_reason E_bad_gateway = ''Bad Gateway''"
| "err_reason (E_service_unavailable have_body_len) = ''Service Unavailable''"
| "err_reason (E_bad_version version) = ''HTTP Version Not Supported''"

text \<open>The title and heading of the page are the status line; the rest of its body follows.\<close>

fun err_message :: "err \<Rightarrow> string \<Rightarrow> piece list" where
  "err_message E_bad_request uri = [Plain (''Your client has issued a malformed or illegal request.'' @ [LF])]"
| "err_message E_forbidden uri =
     [Plain ''Your client does not have permission to get URL '', Html uri, Plain ('' from this server.'' @ [LF])]"
| "err_message E_not_found uri =
     [Plain ''The requested URL '', Html uri, Plain ('' was not found on this server.'' @ [LF])]"
| "err_message E_precondition_failed uri = []"
| "err_message E_invalid_range uri = []"
| "err_message E_error uri =
     [Plain (''The server encountered an internal error and could not complete your request.'' @ [LF])]"
| "err_message E_not_implemented uri = [Plain (''POST to non-script is not supported in Boa.'' @ [LF])]"
| "err_message E_bad_gateway uri = [Plain (''The CGI was not CGI/1.1 compliant.'' @ [LF])]"
| "err_message (E_service_unavailable have_body_len) uri =
     [Plain (''There are too many connections in use right now.'' @ [LF] @ ''Please try again later.'' @ [LF])]"
| "err_message (E_bad_version version) uri =
     [Plain (''HTTP versions other than 0.9 and 1.0 are not supported in Boa.'' @ [LF] @ ''<p><p>Version encountered: ''), Plain version,
      Plain ''<p><p>'']"

definition err_page :: "err \<Rightarrow> string \<Rightarrow> string" where
  "err_page e uri =
     (let line = decimal (err_code e) @ '' '' @ err_reason e in
      ''<HTML><HEAD><TITLE>'' @ line @ ''</TITLE></HEAD>'' @ [LF] @ ''<BODY><H1>'' @ line @ ''</H1>'' @ [LF] @
      text_of (err_message e uri) @ ''</BODY></HTML>'' @ [LF])"

definition err_headers :: "err \<Rightarrow> string \<Rightarrow> string" where
  "err_headers e uri =
     (case e of
        E_invalid_range \<Rightarrow> ''Content-Length: '' @ decimal (length (err_page e uri)) @ CRLF @ ''Content-Type: '' @ HTML
      | E_service_unavailable have_body_len \<Rightarrow>
          (if have_body_len then ''Content-Length: '' @ decimal (length (err_page e uri)) @ CRLF else []) @ ''Content-Type: '' @ HTML
      | _ \<Rightarrow> ''Content-Type: '' @ HTML) @ CRLF @ CRLF"

text \<open>The common headers with keep-alive stopped.\<close>

definition closing_headers :: "server \<Rightarrow> string" where
  "closing_headers sv =
     ''Date: '' @ rfc822_time_buf (current_time sv) 0 @ CRLF @
     (if conceal_server_identity sv then [] else ''Server: '' @ SERVER_VERSION @ CRLF) @
     ''Accept-Ranges: bytes'' @ CRLF @ ''Connection: close'' @ CRLF"

definition err_text :: "err \<Rightarrow> server \<Rightarrow> request \<Rightarrow> string" where
  "err_text e sv r =
     (if http_version r \<noteq> HTTP09
      then http_ver_string (http_version r) @ '' '' @ decimal (err_code e) @ '' '' @ err_reason e @ CRLF @
           closing_headers sv @ err_headers e (request_uri r)
      else []) @
     (if req_method r \<noteq> M_HEAD \<or> e = E_not_implemented then err_page e (request_uri r) else [])"

lemma header_text_closing:
  "keepalive r = KA_STOPPED \<Longrightarrow> text_of (header_pieces sv r) = closing_headers sv"
  by (simp add: header_pieces_def ka_pieces_def closing_headers_def)

lemma err_decimals:
  "decimal 400 = ''400''" "decimal 403 = ''403''" "decimal 404 = ''404''" "decimal 412 = ''412''"
  "decimal 416 = ''416''" "decimal 500 = ''500''" "decimal 501 = ''501''" "decimal 502 = ''502''"
  "decimal 503 = ''503''" "decimal 505 = ''505''"
  by (simp_all add: decimal.simps digit_chars)

definition closing :: "err \<Rightarrow> request \<Rightarrow> request" where
  "closing e r = (SQUASH_KA r)\<lparr>response_status := err_code e\<rparr>"

lemma closing_fields [simp]:
  "keepalive (closing e r) = KA_STOPPED" "response_status (closing e r) = err_code e"
  "http_version (closing e r) = http_version r" "req_method (closing e r) = req_method r"
  "request_uri (closing e r) = request_uri r" "status (closing e r) = status r"
  "kacount (closing e r) = kacount r" "sock (closing e r) = sock r"
  by (simp_all add: closing_def SQUASH_KA_def)

lemma closing_ok: "buf_ok (closing e r) = buf_ok r" "req_output (closing e r) = req_output r"
  by (simp_all add: closing_def SQUASH_KA_def buf_ok_def req_output_def pending_def)

lemmas err_defs = send_r_bad_request_def send_r_forbidden_def send_r_not_found_def
  send_r_precondition_failed_def send_r_invalid_range_def send_r_error_def send_r_not_implemented_def
  send_r_bad_gateway_def send_r_service_unavailable_def send_r_bad_version_def

lemma closing_eqs:
  "(SQUASH_KA r)\<lparr>response_status := R_BAD_REQUEST\<rparr> = closing E_bad_request r"
  "(SQUASH_KA r)\<lparr>response_status := R_FORBIDDEN\<rparr> = closing E_forbidden r"
  "(SQUASH_KA r)\<lparr>response_status := R_NOT_FOUND\<rparr> = closing E_not_found r"
  "(SQUASH_KA r)\<lparr>response_status := R_PRECONDITION_FAILED\<rparr> = closing E_precondition_failed r"
  "(SQUASH_KA r)\<lparr>response_status := R_INVALID_RANGE\<rparr> = closing E_invalid_range r"
  "(SQUASH_KA r)\<lparr>response_status := R_ERROR\<rparr> = closing E_error r"
  "(SQUASH_KA r)\<lparr>response_status := R_NOT_IMP\<rparr> = closing E_not_implemented r"
  "(SQUASH_KA r)\<lparr>response_status := R_BAD_GATEWAY\<rparr> = closing E_bad_gateway r"
  by (simp_all add: closing_def response_codes)

lemma closing_eqs_arg:
  "(SQUASH_KA r)\<lparr>response_status := R_SERVICE_UNAV\<rparr> = closing (E_service_unavailable have_body_len) r"
  "(SQUASH_KA r)\<lparr>response_status := R_BAD_VERSION\<rparr> = closing (E_bad_version version) r"
  by (simp_all add: closing_def response_codes)

text \<open>\<open>sends r r' t\<close>: some pieces that spell \<open>t\<close> were written to \<open>r\<close> and then flushed.\<close>

definition sends :: "request \<Rightarrow> request \<Rightarrow> string \<Rightarrow> bool" where
  "sends r r' t \<longleftrightarrow> (\<exists>ps. r' = flush (emits ps r) \<and> text_of ps = t)"

lemma sends_emits: "text_of ps = t \<Longrightarrow> sends r (flush (emits ps r)) t"
  by (auto simp: sends_def)

lemma sends_nothing: "t = [] \<Longrightarrow> sends r (flush r) t"
  unfolding sends_def by (rule exI [of _ "[]"]) (simp add: emits_Nil)

lemma sends_result:
  assumes "sends r r' t" and "buf_ok r" and "status r \<le> DONE"
  shows "buf_ok r' \<and> (status r' = status r \<or> status r' = DEAD) \<and> keepalive r' = keepalive r \<and>
         response_status r' = response_status r \<and>
         (status r' \<le> DONE \<longrightarrow> req_output r' = req_output r @ t)"
proof -
  obtain ps where r': "r' = flush (emits ps r)" and t: "text_of ps = t"
    using assms(1) by (auto simp: sends_def)
  have ok: "buf_ok (emits ps r)" using assms(2) by (rule emits_ok)
  have st: "status r' = status (emits ps r) \<or> status r' = DEAD"
    unfolding r' by (rule flush_status)
  have "req_output r' = req_output r @ t" if "status r' \<le> DONE"
    using that st flush_output [OF ok] emits_output [OF assms(2), of ps] r' t by auto
  then show ?thesis using st emits_status [of ps r] flush_ok [OF ok] r' by auto
qed

lemma err_page_lengths:
  "length (err_page E_invalid_range uri) = 100" "length (err_page (E_service_unavailable have_body_len) uri) = 185"
  by (simp_all add: err_page_def err_decimals)

lemma err_send_sends: "sends (closing e r) (err_send e sv r) (err_text e sv r)"
proof -
  note defs = err_defs closing_eqs printers Let_def err_text_def
  note headers = err_headers_def err_page_lengths
  note texts = header_text_closing err_page_def err_decimals body_416_def body_503_def
    simple_itoa_eq
  have unav: "sends (closing (E_service_unavailable b) r) (err_send (E_service_unavailable b) sv r) (err_text (E_service_unavailable b) sv r)" for b
    by (cases "http_version r = HTTP09"; cases "req_method r = M_HEAD"; cases b;
        simp add: defs closing_eqs_arg(1) [of r b] headers SQUASH_KA_fields; (rule sends_nothing | rule sends_emits); simp add: texts)
  have version: "sends (closing (E_bad_version v) r) (err_send (E_bad_version v) sv r) (err_text (E_bad_version v) sv r)" for v
    by (cases "http_version r = HTTP09"; cases "req_method r = M_HEAD";
        simp add: defs closing_eqs_arg(2) [of r v] headers SQUASH_KA_fields; (rule sends_nothing | rule sends_emits); simp add: texts)
  have "sends (closing e r) (err_send e sv r) (err_text e sv r)" if "\<nexists>b. e = E_service_unavailable b" "\<nexists>v. e = E_bad_version v"
    by (insert that; cases "http_version r = HTTP09"; cases "req_method r = M_HEAD"; cases e;
        simp add: defs headers SQUASH_KA_fields; (rule sends_nothing | rule sends_emits); simp add: texts)
  then show ?thesis using unav version by blast
qed

section \<open>The contract of a response\<close>

text \<open>
  \<open>responds c r r'\<close>: the response with code \<open>c\<close> was written to \<open>r\<close>, and perhaps flushed; keep-alive may have been
  stopped. Every response of \<open>response.c\<close> with a final status satisfies it, so the handlers above can be
  verified without looking at the text of the responses.
\<close>

definition responds :: "nat \<Rightarrow> request \<Rightarrow> request \<Rightarrow> bool" where
  "responds c r r' \<longleftrightarrow>
     (\<exists>ps. \<exists>ka \<in> {keepalive r, KA_STOPPED}.
        r' = emits ps (r\<lparr>keepalive := ka, response_status := c\<rparr>) \<or>
        r' = flush (emits ps (r\<lparr>keepalive := ka, response_status := c\<rparr>)))"

lemma responds_intros:
  "responds c r (flush (emits ps (r\<lparr>keepalive := KA_STOPPED, response_status := c\<rparr>)))"
  "responds c r (flush (r\<lparr>keepalive := KA_STOPPED, response_status := c\<rparr>))"
  "responds c r (flush (emits ps (r\<lparr>response_status := c\<rparr>)))"
  "responds c r (flush (r\<lparr>response_status := c\<rparr>))"
  "responds c r (emits ps (r\<lparr>response_status := c\<rparr>))"
  "responds c r (r\<lparr>response_status := c\<rparr>)"
proof -
  let ?s = "r\<lparr>keepalive := KA_STOPPED, response_status := c\<rparr>"
  let ?k = "r\<lparr>keepalive := keepalive r, response_status := c\<rparr>"
  have "responds c r (flush (emits ps ?s))" "responds c r (flush (emits ps ?k))" "responds c r (emits ps ?k)" for ps
    unfolding responds_def by blast+
  from this(1) [of ps] this(1) [of "[]"] this(2) [of ps] this(2) [of "[]"] this(3) [of ps] this(3) [of "[]"] show
    "responds c r (flush (emits ps ?s))" "responds c r (flush ?s)"
    "responds c r (flush (emits ps (r\<lparr>response_status := c\<rparr>)))" "responds c r (flush (r\<lparr>response_status := c\<rparr>))"
    "responds c r (emits ps (r\<lparr>response_status := c\<rparr>))" "responds c r (r\<lparr>response_status := c\<rparr>)"
    by (simp_all add: emits_Nil)
qed

lemma responds_fields:
  assumes "responds c r r'"
  shows "response_status r' = c" "keepalive r' = keepalive r \<or> keepalive r' = KA_STOPPED"
    "status r' = status r \<or> status r' = DEAD" "buf_ok r \<Longrightarrow> buf_ok r'"
    "pathname r' = pathname r" "req_method r' = req_method r" "http_version r' = http_version r"
    "cgi_type r' = cgi_type r" "ranges r' = ranges r" "numranges r' = numranges r"
    "filesize r' = filesize r" "filepos r' = filepos r" "data_mem r' = data_mem r" "data_fd r' = data_fd r"
    "mmap_entry_var r' = mmap_entry_var r" "kacount r' = kacount r" "request_uri r' = request_uri r"
    "post_data_fd r' = post_data_fd r" "client_stream r' = client_stream r" "parse_pos r' = parse_pos r"
    "client_stream_pos r' = client_stream_pos r" "bytes_written r' = bytes_written r" "fd r' = fd r"
    "logline r' = logline r" "header_line r' = header_line r" "header_end r' = header_end r"
proof -
  obtain ps ka where ka: "ka = keepalive r \<or> ka = KA_STOPPED"
    and r': "r' = emits ps (r\<lparr>keepalive := ka, response_status := c\<rparr>) \<or>
             r' = flush (emits ps (r\<lparr>keepalive := ka, response_status := c\<rparr>))"
    using assms unfolding responds_def by blast
  let ?r = "r\<lparr>keepalive := ka, response_status := c\<rparr>"
  show "status r' = status r \<or> status r' = DEAD"
    using r' emits_status [of ps ?r] flush_status [of "emits ps ?r"] by auto
  show "buf_ok r \<Longrightarrow> buf_ok r'"
    using r' emits_ok [of ?r ps] flush_ok [of "emits ps ?r"] by (auto simp: buf_ok_def [of ?r] buf_ok_def [of r])
  show "keepalive r' = keepalive r \<or> keepalive r' = KA_STOPPED" using r' ka by auto
qed (use assms in \<open>auto simp: responds_def\<close>)

lemma responds_all:
  "responds R_REQUEST_OK r (send_r_request_ok sv r)"
  "responds R_NO_CONTENT r (send_r_no_content sv r)"
  "responds R_PARTIAL_CONTENT r (send_r_partial_content sv r)"
  "responds R_MOVED_PERM r (send_r_moved_perm sv url r)"
  "responds R_MOVED_TEMP r (send_r_moved_temp sv url hdr r)"
  "responds R_NOT_MODIFIED r (send_r_not_modified sv r)"
  "responds R_BAD_REQUEST r (send_r_bad_request sv r)"
  "responds R_UNAUTHORIZED r (send_r_unauthorized sv realm r)"
  "responds R_FORBIDDEN r (send_r_forbidden sv r)"
  "responds R_NOT_FOUND r (send_r_not_found sv r)"
  "responds R_LENGTH_REQUIRED r (send_r_length_required sv r)"
  "responds R_PRECONDITION_FAILED r (send_r_precondition_failed sv r)"
  "responds R_REQUEST_URI_TOO_LONG r (send_r_request_uri_too_long sv r)"
  "responds R_INVALID_RANGE r (send_r_invalid_range sv r)"
  "responds R_ERROR r (send_r_error sv r)"
  "responds R_NOT_IMP r (send_r_not_implemented sv r)"
  "responds R_BAD_GATEWAY r (send_r_bad_gateway sv r)"
  "responds R_SERVICE_UNAV r (send_r_service_unavailable sv have_body_len r)"
  "responds R_BAD_VERSION r (send_r_bad_version sv version r)"
  by (simp_all add: err_defs send_r_request_ok_def send_r_no_content_def send_r_partial_content_def
        send_r_moved_perm_def send_r_moved_temp_def send_r_not_modified_def send_r_unauthorized_def
        send_r_length_required_def send_r_request_uri_too_long_def send_r_bad_version_def
        printers SQUASH_KA_def Let_def responds_intros)

lemmas sends_buf_ok [simp] = responds_all [THEN responds_fields(4)]

lemma SQUASH_KA_buf_ok [simp]: "buf_ok (SQUASH_KA r) = buf_ok r"
  by (simp add: SQUASH_KA_def)

lemma wr_buf_ok [simp]: "buf_ok r \<Longrightarrow> buf_ok (wr s r)"
  using emits_ok [of r "[Plain s]"] by (simp add: emits_def)

lemma flush_buf_ok [simp]: "buf_ok r \<Longrightarrow> buf_ok (flush r)"
  by (rule flush_ok)

lemma printers_buf_ok [simp]:
  assumes "buf_ok r"
  shows "buf_ok (print_http_headers sv r)" "buf_ok (print_content_type sv r)" "buf_ok (print_last_modified sv r)"
    "buf_ok (print_partial_content_continue sv r)" "buf_ok (print_partial_content_done r)"
  using assms by (simp_all add: printers emits_ok)

lemma complete_response_ok:
  "buf_ok r \<Longrightarrow> complete_response r sv = (v, r', sv') \<Longrightarrow>
   buf_ok r' \<and> (v = 0 \<or> v = 1) \<and> open_fds sv' = open_fds sv \<and> next_fd sv' = next_fd sv \<and> data_fd r' = data_fd r"
  by (cases "response_status r = R_PARTIAL_CONTENT \<and> numranges r > 1"; cases "tl (ranges r) = []")
     (auto simp: complete_response_def Let_def, simp_all add: printers)

section \<open>Properties\<close>

text \<open>C32: Every error response that the server sends (400, 403, 404, 412, 416, 500, 501, 502, 503, 505; the functions for 401, 411
  and 414 are never called, and that for 414 does not end keep-alive) ends keep-alive, sets the
  response code that the log records, keeps the output buffer inside its bounds, leaves the request in the
  state it was in unless the flush found the peer gone, and adds exactly the page of that code to what
  the client has received and has yet to receive: the status line, the common headers with
  Connection: close, the content headers, and, except for HEAD requests, the page with the escaped URI (501 sends its page to HEAD requests too); an
  HTTP/0.9 client gets the page alone.\<close>
theorem error_response_sent:
  assumes "buf_ok r" and "status r \<le> DONE"
  shows "buf_ok (err_send e sv r) \<and> response_status (err_send e sv r) = err_code e \<and>
         keepalive (err_send e sv r) = KA_STOPPED \<and>
         (status (err_send e sv r) = status r \<or> status (err_send e sv r) = DEAD) \<and>
         (status (err_send e sv r) \<le> DONE \<longrightarrow>
            req_output (err_send e sv r) = req_output r @ err_text e sv r)"
  using sends_result [OF err_send_sends, of e r sv] assms by (simp add: closing_ok)

theorem error_response_sent_witness:
  "buf_ok example_request \<and> status example_request \<le> DONE \<and>
   response_status (err_send E_not_found example_server example_request) = 404"
proof -
  have st: "status example_request \<le> DONE" by (simp add: example_request_def status_order)
  show ?thesis
    using error_response_sent [OF example_request_ok st, of E_not_found example_server] st
    by (simp add: example_request_ok del: err_send.simps)
qed

end
