(* ===== verification/Ranges.thy ===== *)
theory Ranges
  imports Response
begin

unbundle bit_operations_syntax

text \<open>
  Byte ranges (\<open>range.c\<close>): the pool of range structures, the table-driven parser of the Range header,
  and the adjustment of the parsed ranges to the size of the file. The linked list of ranges is a list;
  the pool is the number of structures in it, since a popped structure is cleared. \<open>None\<close> is the
  fatal exit when memory runs out; \<open>unsigned long\<close> has 64 bits and \<open>unsigned\<close> has 32.
\<close>

section \<open>The pool of ranges\<close>

definition range_pool_push :: "server \<Rightarrow> server" where
  "range_pool_push sv = sv\<lparr>range_pool := range_pool sv + 1\<rparr>"

definition range_pool_pop :: "server \<Rightarrow> (Range \<times> server) option" where
  "range_pool_pop sv =
     (if range_pool sv \<noteq> 0 then Some (\<lparr>r_start = 0, r_stop = 0\<rparr>, sv\<lparr>range_pool := range_pool sv - 1\<rparr>)
      else case try_alloc sv of (ok, sv) \<Rightarrow> if ok then Some (\<lparr>r_start = 0, r_stop = 0\<rparr>, sv) else None)"

function range_pool_empty :: "server \<Rightarrow> server" where
  "range_pool_empty sv =
     (if range_pool sv \<noteq> 0
      then range_pool_empty (case range_pool_pop sv of Some (_, sv) \<Rightarrow> sv | None \<Rightarrow> sv)
      else sv)"
  by pat_completeness auto
termination
  by (relation "measure range_pool") (auto simp: range_pool_pop_def)

definition ranges_reset :: "request \<Rightarrow> server \<Rightarrow> request \<times> server" where
  "ranges_reset r sv = (r\<lparr>ranges := []\<rparr>, fold (\<lambda>_ sv. range_pool_push sv) (ranges r) sv)"

definition range_abort :: "request \<Rightarrow> server \<Rightarrow> (request \<times> server) option" where
  "range_abort r sv =
     (case ranges_reset r sv of (r, sv) \<Rightarrow>
        case range_pool_pop sv of
          None \<Rightarrow> None
        | Some (x, sv) \<Rightarrow> Some (r\<lparr>ranges := [x\<lparr>r_stop := -1\<rparr>]\<rparr>, sv))"

definition range_add :: "request \<Rightarrow> 64 word \<Rightarrow> 64 word \<Rightarrow> server \<Rightarrow> (request \<times> server) option" where
  "range_add r start stop sv =
     (case range_pool_pop sv of
        None \<Rightarrow> None
      | Some (x, sv) \<Rightarrow>
          Some (r\<lparr>ranges := ranges r @ [x\<lparr>r_start := start, r_stop := stop\<rparr>], numranges := numranges r + 1\<rparr>, sv))"

section \<open>Adjusting ranges to the file\<close>

definition unsigned_max :: "64 word" where
  "unsigned_max = 0xFFFFFFFF"

text \<open>One turn of the loop: the range with its limits resolved, or \<open>None\<close> if it goes back to the pool.\<close>

definition fixup_range :: "64 word \<Rightarrow> Range \<Rightarrow> Range option" where
  "fixup_range sz x =
     (let stop = (if r_stop x = unsigned_max \<or> r_stop x \<ge> sz then sz - 1 else r_stop x);
          (start, stop) = (if sint (r_start x) = -1 then (sz - stop, sz - 1) else (r_start x, stop))
      in if sint start < 0 \<or> start > stop then None else Some (x\<lparr>r_start := start, r_stop := stop\<rparr>))"

fun fixup_loop :: "64 word \<Rightarrow> Range list \<Rightarrow> server \<Rightarrow> Range list \<times> server" where
  "fixup_loop sz [] sv = ([], sv)"
| "fixup_loop sz (x # xs) sv =
     (case fixup_range sz x of
        None \<Rightarrow> fixup_loop sz xs (range_pool_push sv)
      | Some y \<Rightarrow> (case fixup_loop sz xs sv of (ys, sv) \<Rightarrow> (y # ys, sv)))"

definition ranges_fixup :: "request \<Rightarrow> server \<Rightarrow> int \<times> request \<times> server" where
  "ranges_fixup r sv =
     (let (xs, sv) = (if filesize r = 0 then ([], fold (\<lambda>_ sv. range_pool_push sv) (ranges r) sv)
                      else fixup_loop (filesize r) (ranges r) sv);
          r = r\<lparr>ranges := xs\<rparr>
      in if xs = [] then (0, send_r_invalid_range sv r, sv) else (1, r, sv))"

section \<open>The parser\<close>

text \<open>The states, character codes and actions, and the table of the source.\<close>

definition initial :: nat where "initial = 0"
definition startnum :: nat where "startnum = 1"
definition gap1 :: nat where "gap1 = 2"
definition gap2 :: nat where "gap2 = 3"
definition stopnum :: nat where "stopnum = 4"

datatype range_class = Digit | White | Comma | Hyphen | NullChar | OtherChar

primrec class_code :: "range_class \<Rightarrow> nat" where
  "class_code Digit = 0"
| "class_code White = 1"
| "class_code Comma = 2"
| "class_code Hyphen = 3"
| "class_code NullChar = 4"
| "class_code OtherChar = 5"

definition ACTMASK1 :: nat where "ACTMASK1 = 0xE0"
definition PB :: nat where "PB = 0x20"
definition PE :: nat where "PE = 0x40"
definition DB :: nat where "DB = 0x60"
definition DE :: nat where "DE = 0x80"
definition ACTMASK2 :: nat where "ACTMASK2 = 0x18"
definition AR :: nat where "AR = 0x10"
definition SR :: nat where "SR = 0x18"
definition STATEMASK :: nat where "STATEMASK = 0x07"

definition stable :: "nat list" where
  "stable =
     [PB + startnum, 0 + initial, 0 + initial, DB + gap2, 0, AR,
      PB + startnum, 0 + gap1, AR, 0 + gap2, AR, AR,
      AR, 0 + gap1, AR, 0 + gap2, AR, AR,
      PE + stopnum, 0 + gap2, DE + SR + initial, AR, DE + SR, AR,
      PE + stopnum, SR + initial, SR + initial, AR, SR, AR]"

definition range_char :: "char \<Rightarrow> range_class" where
  "range_char c =
     (if isdigit c then Digit
      else if isspace c then White
      else if c = CHR '','' then Comma
      else if c = CHR ''-'' then Hyphen
      else if c = NUL then NullChar
      else OtherChar)"

definition char_value :: "char \<Rightarrow> 64 word" where
  "char_value c = word_of_int (schar c - 48)"

datatype range_outcome = Fatal | Return int request server | Next nat "64 word" "64 word" request server

text \<open>One turn of the loop on the character \<open>c\<close>, up to the test for the end of the string.\<close>

definition range_step :: "nat \<Rightarrow> 64 word \<Rightarrow> 64 word \<Rightarrow> char \<Rightarrow> request \<Rightarrow> server \<Rightarrow> range_outcome" where
  "range_step mode start stop c r sv =
     (let fcode = stable ! (mode * 6 + class_code (range_char c));
          start = (if fcode AND ACTMASK1 = PB then start * 10 + char_value c
                   else if fcode AND ACTMASK1 = DB then -1 else start);
          stop = (if fcode AND ACTMASK1 = PE then stop * 10 + char_value c
                  else if fcode AND ACTMASK1 = DE then -1 else stop);
          mode = fcode AND STATEMASK
      in if fcode AND ACTMASK2 = AR
         then (case range_abort r sv of None \<Rightarrow> Fatal | Some (r, sv) \<Rightarrow> Return 0 r sv)
         else if fcode AND ACTMASK2 = SR
         then (if start = stop \<and> start = unsigned_max
               then (case range_abort r sv of None \<Rightarrow> Fatal | Some (r, sv) \<Rightarrow> Return 0 r sv)
               else (case range_add r start stop sv of
                       None \<Rightarrow> Fatal
                     | Some (r, sv) \<Rightarrow> Next mode 0 0 r sv))
         else Next mode start stop r sv)"

fun range_loop :: "nat \<Rightarrow> 64 word \<Rightarrow> 64 word \<Rightarrow> string \<Rightarrow> request \<Rightarrow> server \<Rightarrow>
    (int \<times> request \<times> server) option" where
  "range_loop mode start stop [] r sv =
     (case range_step mode start stop NUL r sv of
        Fatal \<Rightarrow> None
      | Return v r sv \<Rightarrow> Some (v, r, sv)
      | Next _ _ _ r sv \<Rightarrow> Some (1, r, sv))"
| "range_loop mode start stop (c # cs) r sv =
     (case range_step mode start stop c r sv of
        Fatal \<Rightarrow> None
      | Return v r sv \<Rightarrow> Some (v, r, sv)
      | Next mode start stop r sv \<Rightarrow>
          if range_char c = NullChar then Some (1, r, sv) else range_loop mode start stop cs r sv)"

definition range_parse :: "request \<Rightarrow> string \<Rightarrow> server \<Rightarrow> (int \<times> request \<times> server) option" where
  "range_parse r str sv =
     (if strncasecmp str ''bytes='' 6 \<noteq> 0 then Some (0, r, sv)
      else range_loop initial 0 0 (drop 6 str) r sv)"

lemmas range_consts = initial_def startnum_def gap1_def gap2_def stopnum_def ACTMASK1_def PB_def PE_def
  DB_def DE_def ACTMASK2_def AR_def SR_def STATEMASK_def

section \<open>Steps of the parser\<close>

lemma range_char_simps [simp]:
  "isdigit c \<Longrightarrow> range_char c = Digit" "range_char (CHR '','') = Comma" "range_char (CHR ''-'') = Hyphen"
  "range_char NUL = NullChar"
  by (simp_all add: range_char_def ctype_simps)

lemma char_value_digit: "isdigit c \<Longrightarrow> char_value c = of_nat (uchar c - 48)"
  by (simp add: char_value_def schar_ascii isdigit_def of_nat_diff)

lemmas step_simps = range_step_def stable_def range_consts Let_def

lemma range_step_simps:
  "isdigit c \<Longrightarrow> range_step 0 a b c r sv = Next 1 (a * 10 + char_value c) b r sv"
  "isdigit c \<Longrightarrow> range_step 1 a b c r sv = Next 1 (a * 10 + char_value c) b r sv"
  "isdigit c \<Longrightarrow> range_step 3 a b c r sv = Next 4 a (b * 10 + char_value c) r sv"
  "isdigit c \<Longrightarrow> range_step 4 a b c r sv = Next 4 a (b * 10 + char_value c) r sv"
  "range_step 0 a b (CHR ''-'') r sv = Next 3 (-1) b r sv"
  "range_step 1 a b (CHR ''-'') r sv = Next 3 a b r sv"
  "range_step 0 a b (CHR '','') r sv = Next 0 a b r sv"
  "range_step 0 a b NUL r sv = Next 0 a b r sv"
  by (simp_all add: step_simps)

lemma digit_fold:
  assumes "list_all isdigit ds"
  shows "foldl (\<lambda>a c. a * 10 + char_value c) (of_nat k) ds = of_nat (k * 10 ^ length ds + digits_value ds)"
  using assms
proof (induction ds rule: rev_induct)
  case (snoc c ds)
  then show ?case by (simp add: char_value_digit algebra_simps)
qed simp

lemma loop_digits_start:
  "list_all isdigit ds \<Longrightarrow>
   range_loop 1 a b (ds @ s) r sv = range_loop 1 (foldl (\<lambda>a c. a * 10 + char_value c) a ds) b s r sv"
  by (induction ds arbitrary: a) (simp_all add: range_step_simps del: One_nat_def)

lemma loop_digits_stop:
  "list_all isdigit ds \<Longrightarrow>
   range_loop 4 a b (ds @ s) r sv = range_loop 4 a (foldl (\<lambda>a c. a * 10 + char_value c) b ds) s r sv"
  by (induction ds arbitrary: b) (simp_all add: range_step_simps)

lemma loop_start:
  "range_loop 0 0 b (decimal n @ s) r sv = range_loop 1 (of_nat n) b s r sv"
proof -
  have d: "list_all isdigit (decimal n)" by (rule decimal_digits)
  then obtain c cs where cs: "decimal n = c # cs" by (cases "decimal n") auto
  have "range_loop 0 0 b (decimal n @ s) r sv = range_loop 1 (foldl (\<lambda>a c. a * 10 + char_value c) 0 (decimal n)) b s r sv"
    using d unfolding cs by (simp add: range_step_simps loop_digits_start del: One_nat_def)
  then show ?thesis using digit_fold [OF d, of 0] by simp
qed

lemma loop_stop:
  "range_loop 3 a 0 (decimal n @ s) r sv = range_loop 4 a (of_nat n) s r sv"
proof -
  have d: "list_all isdigit (decimal n)" by (rule decimal_digits)
  then obtain c cs where cs: "decimal n = c # cs" by (cases "decimal n") auto
  have "range_loop 3 a 0 (decimal n @ s) r sv = range_loop 4 a (foldl (\<lambda>a c. a * 10 + char_value c) 0 (decimal n)) s r sv"
    using d unfolding cs by (simp add: range_step_simps loop_digits_stop)
  then show ?thesis using digit_fold [OF d, of 0] by simp
qed

section \<open>Range specifications\<close>

text \<open>The three forms of a byte range specification, as a client prints them and as the parser records them.\<close>

datatype byte_range = Between nat nat | From nat | Last nat

fun print_spec :: "byte_range \<Rightarrow> string" where
  "print_spec (Between a b) = decimal a @ ''-'' @ decimal b"
| "print_spec (From a) = decimal a @ ''-''"
| "print_spec (Last n) = ''-'' @ decimal n"

fun print_specs :: "byte_range list \<Rightarrow> string" where
  "print_specs [] = []"
| "print_specs [x] = print_spec x"
| "print_specs (x # y # xs) = print_spec x @ '','' @ print_specs (y # xs)"

fun recorded :: "byte_range \<Rightarrow> Range" where
  "recorded (Between a b) = \<lparr>r_start = of_nat a, r_stop = of_nat b\<rparr>"
| "recorded (From a) = \<lparr>r_start = of_nat a, r_stop = -1\<rparr>"
| "recorded (Last n) = \<lparr>r_start = -1, r_stop = of_nat n\<rparr>"

text \<open>Numbers below the marker \<open>(unsigned) -1\<close>.\<close>

fun small_spec :: "byte_range \<Rightarrow> bool" where
  "small_spec (Between a b) \<longleftrightarrow> a < 2 ^ 32 - 1 \<and> b < 2 ^ 32 - 1"
| "small_spec (From a) \<longleftrightarrow> a < 2 ^ 32 - 1"
| "small_spec (Last n) \<longleftrightarrow> n < 2 ^ 32 - 1"

definition pooled :: "server \<Rightarrow> server" where
  "pooled sv = sv\<lparr>range_pool := range_pool sv - 1\<rparr>"

definition with_range :: "Range \<Rightarrow> request \<Rightarrow> request" where
  "with_range x r = r\<lparr>ranges := ranges r @ [x], numranges := numranges r + 1\<rparr>"

lemma range_add_eq:
  "alloc_script sv = [] \<Longrightarrow>
   range_add r a b sv = Some (with_range \<lparr>r_start = a, r_stop = b\<rparr> r, pooled sv)"
  by (simp add: range_add_def range_pool_pop_def try_alloc_def with_range_def pooled_def)

lemma unat_small: "n < 2 ^ 64 \<Longrightarrow> unat (of_nat n :: 64 word) = n"
  by (simp add: unat_of_nat take_bit_nat_eq_self)

lemma of_nat_not_max: "n < 2 ^ 32 - 1 \<Longrightarrow> of_nat n \<noteq> unsigned_max"
  using unat_small [of n] by (auto simp: unsigned_max_def)

lemma submit_comma:
  "alloc_script sv = [] \<Longrightarrow> \<not> (a = unsigned_max \<and> b = unsigned_max) \<Longrightarrow>
   range_loop 4 a b (CHR '','' # s) r sv = range_loop 0 0 0 s (with_range \<lparr>r_start = a, r_stop = b\<rparr> r) (pooled sv)"
  "alloc_script sv = [] \<Longrightarrow>
   range_loop 3 a b (CHR '','' # s) r sv = range_loop 0 0 0 s (with_range \<lparr>r_start = a, r_stop = -1\<rparr> r) (pooled sv)"
  by (auto simp: step_simps range_add_eq unsigned_max_def)

lemma submit_end:
  "alloc_script sv = [] \<Longrightarrow> \<not> (a = unsigned_max \<and> b = unsigned_max) \<Longrightarrow>
   range_loop 4 a b [] r sv = Some (1, with_range \<lparr>r_start = a, r_stop = b\<rparr> r, pooled sv)"
  "alloc_script sv = [] \<Longrightarrow>
   range_loop 3 a b [] r sv = Some (1, with_range \<lparr>r_start = a, r_stop = -1\<rparr> r, pooled sv)"
  by (auto simp: step_simps range_add_eq unsigned_max_def)

lemma loop_spec:
  assumes "alloc_script sv = []" and "small_spec x"
  shows "range_loop 0 0 0 (print_spec x @ CHR '','' # s) r sv = range_loop 0 0 0 s (with_range (recorded x) r) (pooled sv)"
    and "range_loop 0 0 0 (print_spec x) r sv = Some (1, with_range (recorded x) r, pooled sv)"
proof -
  have dash: "range_loop 1 a b (CHR ''-'' # t) r sv = range_loop 3 a b t r sv"
       "range_loop 0 a b (CHR ''-'' # t) r sv = range_loop 3 (-1) b t r sv" for a b t
    by (simp_all add: range_step_simps del: One_nat_def)
  have nil: "range_loop m a b (decimal n) r sv = range_loop m a b (decimal n @ []) r sv" for m a b n
    by simp
  have neq: "(-1 :: 64 word) \<noteq> unsigned_max" by (simp add: unsigned_max_def)
  note facts = assms loop_start loop_stop dash submit_comma submit_end of_nat_not_max neq
  show "range_loop 0 0 0 (print_spec x @ CHR '','' # s) r sv = range_loop 0 0 0 s (with_range (recorded x) r) (pooled sv)"
    using assms by (cases x) (simp_all add: facts del: One_nat_def range_loop.simps)
  show "range_loop 0 0 0 (print_spec x) r sv = Some (1, with_range (recorded x) r, pooled sv)"
    using assms by (cases x) (simp_all add: facts nil del: One_nat_def range_loop.simps append_Nil2)
qed

lemma pooled_alloc [simp]: "alloc_script (pooled sv) = alloc_script sv"
  by (simp add: pooled_def)

lemma loop_specs:
  "alloc_script sv = [] \<Longrightarrow> \<forall>x \<in> set xs. small_spec x \<Longrightarrow>
   range_loop 0 0 0 (print_specs xs) r sv =
     Some (1, fold with_range (map recorded xs) r, (pooled ^^ length xs) sv)"
proof (induction xs arbitrary: r sv rule: print_specs.induct)
  case 1
  then show ?case by (simp add: range_step_simps)
next
  case (2 x)
  then show ?case by (simp add: loop_spec(2) del: range_loop.simps)
next
  case (3 x y xs)
  then show ?case by (simp add: loop_spec(1) funpow_swap1 del: range_loop.simps)
qed

lemma fold_with_range:
  "fold with_range xs r = r\<lparr>ranges := ranges r @ xs, numranges := numranges r + length xs\<rparr>"
  by (induction xs arbitrary: r) (simp_all add: with_range_def)

lemma range_parse_specs:
  assumes "alloc_script sv = []" and "\<forall>x \<in> set xs. small_spec x"
  shows "range_parse r (''bytes='' @ print_specs xs) sv =
           Some (1, r\<lparr>ranges := ranges r @ map recorded xs, numranges := numranges r + length xs\<rparr>, (pooled ^^ length xs) sv)"
proof -
  have "strncasecmp (''bytes='' @ print_specs xs) ''bytes='' 6 = 0"
    by (simp add: eval_nat_numeral Let_def)
  then show ?thesis
    using loop_specs [OF assms] by (simp add: range_parse_def initial_def fold_with_range)
qed

section \<open>What the ranges of a file are\<close>

text \<open>
  The bytes a specification selects from a file of \<open>n\<close> bytes, as HTTP and the comments of the source say: the first and
  the last offset. \<open>-k\<close> asks for the last \<open>k\<close> bytes, or for the whole file when it is shorter.
\<close>

fun resolve :: "nat \<Rightarrow> byte_range \<Rightarrow> (nat \<times> nat) option" where
  "resolve n (Between a b) = (if a \<le> min b (n - 1) then Some (a, min b (n - 1)) else None)"
| "resolve n (From a) = (if a \<le> n - 1 then Some (a, n - 1) else None)"
| "resolve n (Last k) = (if k = 0 then None else Some (n - min k n, n - 1))"

definition word_range :: "nat \<times> nat \<Rightarrow> Range" where
  "word_range ab = \<lparr>r_start = of_nat (fst ab), r_stop = of_nat (snd ab)\<rparr>"

lemma of_nat_le: "a < 2 ^ 64 \<Longrightarrow> b < 2 ^ 64 \<Longrightarrow> (of_nat a :: 64 word) \<le> of_nat b \<longleftrightarrow> a \<le> b"
  by (simp add: word_le_nat_alt unat_small)

lemma of_nat_less: "a < 2 ^ 64 \<Longrightarrow> b < 2 ^ 64 \<Longrightarrow> (of_nat a :: 64 word) < of_nat b \<longleftrightarrow> a < b"
  by (simp add: word_less_nat_alt unat_small)

lemma sint_small: "a < 2 ^ 63 \<Longrightarrow> sint (of_nat a :: 64 word) = int a"
  using signed_take_bit_int_eq_self [of 63 "int a"]
  by (simp add: signed_of_nat)

lemma le_minus_one: "(w :: 64 word) \<le> -1"
  by (metis word_order.extremum)

lemma of_nat_pred: "0 < n \<Longrightarrow> (of_nat n :: 64 word) - 1 = of_nat (n - 1)"
  by (simp add: of_nat_diff)

lemma of_nat_minus: "k \<le> n \<Longrightarrow> (of_nat n :: 64 word) - of_nat k = of_nat (n - k)"
  by (simp add: of_nat_diff)

lemma fixup_stop:
  assumes "0 < n" and "n < 2 ^ 63" and "s < 2 ^ 32 - 1"
  shows "(if of_nat s = unsigned_max \<or> of_nat s \<ge> (of_nat n :: 64 word) then of_nat n - 1 else of_nat s) =
           (of_nat (min s (n - 1)) :: 64 word)"
proof -
  have "(of_nat s \<ge> (of_nat n :: 64 word)) = (s \<ge> n)" using assms by (intro of_nat_le) auto
  moreover have "min s (n - 1) = (if s \<ge> n then n - 1 else s)" using assms by auto
  ultimately show ?thesis
    using of_nat_not_max [OF assms(3)] of_nat_pred [OF assms(1)] by (simp only: HOL.simp_thms if_distrib [of of_nat])
qed

lemma fixup_no_stop:
  assumes "0 < n"
  shows "(if -1 = unsigned_max \<or> -1 \<ge> (of_nat n :: 64 word) then of_nat n - 1 else -1) = (of_nat (n - 1) :: 64 word)"
  unfolding of_nat_pred [OF assms, symmetric] by (simp only: le_minus_one HOL.simp_thms if_True)

lemma fixup_check:
  assumes "a < 2 ^ 63" and "b < 2 ^ 63"
  shows "(sint (of_nat a :: 64 word) < 0 \<or> of_nat a > (of_nat b :: 64 word)) \<longleftrightarrow> b < a"
  using assms by (simp add: sint_small of_nat_less)

lemma fixup_range_start:
  assumes "(if s = unsigned_max \<or> s \<ge> sz then sz - 1 else s) = of_nat q" and "a < 2 ^ 63" and "q < 2 ^ 63"
  shows "fixup_range sz \<lparr>r_start = of_nat a, r_stop = s\<rparr> = (if a \<le> q then Some (word_range (a, q)) else None)"
proof -
  have "sint (of_nat a :: 64 word) \<noteq> -1" using assms(2) by (simp add: sint_small)
  then show ?thesis
    using assms(1) fixup_check [OF assms(2,3)]
    unfolding fixup_range_def Range.simps assms(1) by (simp add: word_range_def not_less)
qed

lemma fixup_range_suffix:
  assumes "(if s = unsigned_max \<or> s \<ge> of_nat n then of_nat n - 1 else s) = of_nat q"
    and "q \<le> n" and "0 < n" and "n < 2 ^ 63"
  shows "fixup_range (of_nat n) \<lparr>r_start = -1, r_stop = s\<rparr> =
           (if n - q \<le> n - 1 then Some (word_range (n - q, n - 1)) else None)"
proof -
  have "(sint (of_nat (n - q) :: 64 word) < 0 \<or> of_nat (n - q) > (of_nat (n - 1) :: 64 word)) \<longleftrightarrow> n - 1 < n - q"
    using assms(4) by (intro fixup_check) auto
  moreover have "fixup_range (of_nat n) \<lparr>r_start = -1, r_stop = s\<rparr> =
      (if sint (of_nat (n - q) :: 64 word) < 0 \<or> of_nat (n - q) > (of_nat (n - 1) :: 64 word) then None
       else Some \<lparr>r_start = of_nat (n - q), r_stop = of_nat (n - 1)\<rparr>)"
    unfolding fixup_range_def Range.simps assms(1) Let_def prod.case
    by (simp only: sint_n1 of_nat_minus [OF assms(2)] of_nat_pred [OF assms(3)] refl if_True prod.case)
  ultimately show ?thesis by (simp only: word_range_def fst_conv snd_conv not_less [symmetric] if_not_P) simp
qed

lemma fixup_recorded:
  assumes "small_spec x" and "0 < n" and "n < 2 ^ 63" and "\<forall>k. x = Last k \<longrightarrow> k < n"
  shows "fixup_range (of_nat n) (recorded x) = map_option word_range (resolve n x)"
proof (cases x)
  case (Between a b)
  then show ?thesis
    using assms fixup_range_start [OF fixup_stop [OF assms(2,3)], of b a] by simp
next
  case (From a)
  then show ?thesis
    using assms fixup_range_start [OF fixup_no_stop [OF assms(2)], of a] by simp
next
  case (Last k)
  then show ?thesis
  proof -
    have m: "min k (n - 1) = k" "min k n = k" "k \<le> n" using assms(4) Last by auto
    show ?thesis
      using assms Last fixup_range_suffix [OF fixup_stop [OF assms(2,3), of k], unfolded m(1)] m(3) by (auto simp: m(2))
  qed
qed

lemma fixup_loop_eq:
  "fixup_loop sz xs sv =
     (let ys = List.map_filter (fixup_range sz) xs
      in (ys, sv\<lparr>range_pool := range_pool sv + (length xs - length ys)\<rparr>))"
proof (induction xs arbitrary: sv)
  case (Cons x xs)
  have "length (List.map_filter (fixup_range sz) xs) \<le> length xs"
    by (simp add: map_filter_def)
  then show ?case
    by (simp add: Cons map_filter_simps range_pool_push_def Let_def Suc_diff_le split: option.split)
qed (simp add: map_filter_simps)

lemma fold_push: "fold (\<lambda>_ sv. range_pool_push sv) xs sv = sv\<lparr>range_pool := range_pool sv + length xs\<rparr>"
  by (induction xs arbitrary: sv) (simp_all add: range_pool_push_def)

lemma fixup_range_in_file:
  assumes "fixup_range sz x = Some y" and "sz \<noteq> 0"
  shows "r_start y \<le> r_stop y \<and> r_stop y < sz"
proof -
  have "sz - 1 < sz" using measure_unat [OF assms(2)] by (simp add: word_less_nat_alt)
  then show ?thesis using assms(1)
    by (auto simp: fixup_range_def Let_def not_less not_le split: if_splits)
qed

lemma set_map_filter_iff: "y \<in> set (List.map_filter f xs) \<longleftrightarrow> (\<exists>x \<in> set xs. f x = Some y)"
  by (induction xs) (auto simp: map_filter_simps split: option.splits)

lemma map_filter_recorded:
  assumes "\<forall>x \<in> set xs. small_spec x" and "0 < n" and "n < 2 ^ 63" and "\<forall>k. Last k \<in> set xs \<longrightarrow> k < n"
  shows "List.map_filter (fixup_range (of_nat n)) (map recorded xs) = map word_range (List.map_filter (resolve n) xs)"
  using assms
  by (induction xs) (simp_all add: map_filter_simps fixup_recorded split: option.split)

text \<open>
  Two departures from what the comments of the source intend. A suffix at least as long as the file
  loses its first byte, and a specification with neither number is accepted, since the
  64-bit marker is compared with the 32-bit one.
\<close>

lemma suffix_range_loses_byte:
  "k < 2 ^ 32 - 1 \<Longrightarrow> 1 < n \<Longrightarrow> n \<le> k \<Longrightarrow>
     fixup_range (of_nat n) (recorded (Last k)) = Some (word_range (1, n - 1)) \<and> resolve n (Last k) = Some (0, n - 1)"
proof -
  assume k: "k < 2 ^ 32 - 1" "1 < n" "n \<le> k"
  then have m: "min k (n - 1) = n - 1" "(0 :: nat) < n" "n < 2 ^ 63" "n - 1 \<le> n" by auto
  show ?thesis using k fixup_range_suffix [OF fixup_stop [OF m(2,3), of k, unfolded m(1)] m(4,2,3)] by simp
qed

lemma dash_range_accepted:
  "alloc_script sv = [] \<Longrightarrow>
   range_parse r ''bytes=-'' sv = Some (1, with_range \<lparr>r_start = -1, r_stop = -1\<rparr> r, pooled sv)"
proof -
  have "strncasecmp ''bytes=-'' ''bytes='' 6 = 0" by (simp add: eval_nat_numeral Let_def)
  then show "alloc_script sv = [] \<Longrightarrow> ?thesis"
    by (simp add: range_parse_def initial_def range_step_simps submit_end del: range_loop.simps(1))
qed

section \<open>Properties\<close>

text \<open>C17: Whatever the Range header held, the ranges that are served lie inside the file: when
  \<open>ranges_fixup\<close> accepts, there is at least one range, every range has start \<open>\<le>\<close> stop \<open><\<close> file size, and
  rejected ranges return to the pool; otherwise, and only when no range is left, the answer is 416.\<close>

theorem ranges_fixup_in_file:
  shows "(\<forall>r' sv'. ranges_fixup r sv = (1, r', sv') \<longrightarrow>
            ranges r' \<noteq> [] \<and> (\<forall>x \<in> set (ranges r'). r_start x \<le> r_stop x \<and> r_stop x < filesize r) \<and>
            range_pool sv' + length (ranges r') = range_pool sv + length (ranges r)) \<and>
         (\<forall>v r' sv'. ranges_fixup r sv = (v, r', sv') \<and> v \<noteq> 1 \<longrightarrow>
            v = 0 \<and> r' = send_r_invalid_range sv' (r\<lparr>ranges := []\<rparr>) \<and>
            range_pool sv' = range_pool sv + length (ranges r))"
proof -
  let ?ys = "List.map_filter (fixup_range (filesize r)) (ranges r)"
  have len: "length ?ys \<le> length (ranges r)" by (simp add: map_filter_def)
  have eq: "ranges_fixup r sv =
      (if filesize r = 0 \<or> ?ys = []
       then (0, send_r_invalid_range (sv\<lparr>range_pool := range_pool sv + length (ranges r)\<rparr>) (r\<lparr>ranges := []\<rparr>),
             sv\<lparr>range_pool := range_pool sv + length (ranges r)\<rparr>)
       else (1, r\<lparr>ranges := ?ys\<rparr>, sv\<lparr>range_pool := range_pool sv + (length (ranges r) - length ?ys)\<rparr>))"
    by (simp add: ranges_fixup_def fixup_loop_eq fold_push Let_def)
  show ?thesis
    using len by (auto simp: eq set_map_filter_iff dest: fixup_range_in_file split: if_splits)
qed

theorem ranges_fixup_in_file_witness:
  "let r = example_request\<lparr>filesize := 10, ranges := [\<lparr>r_start = 5, r_stop = 20\<rparr>]\<rparr> in
   fst (ranges_fixup r example_server) = 1 \<and>
   (\<forall>x \<in> set (ranges (fst (snd (ranges_fixup r example_server)))). r_stop x < 10)"
proof -
  let ?r = "example_request\<lparr>filesize := 10, ranges := [\<lparr>r_start = 5, r_stop = 20\<rparr>]\<rparr>"
  have one: "fst (ranges_fixup ?r example_server) = 1"
    by (simp add: ranges_fixup_def fixup_range_def unsigned_max_def Let_def)
  then obtain r' sv' where "ranges_fixup ?r example_server = (1, r', sv')"
    by (metis prod.collapse)
  then show ?thesis
    using ranges_fixup_in_file [of ?r example_server] one by simp
qed

text \<open>C15: Parsing and resolving a well-formed Range header: for any list of specifications
  \<open>a-b\<close>, \<open>a-\<close>, \<open>-n\<close> with numbers below the marker value, printed with commas after \<open>bytes=\<close>,
  \<open>range_parse\<close> accepts and records one range per specification, and \<open>ranges_fixup\<close> then keeps, in order,
  exactly the satisfiable ones with the offsets that HTTP says they select (\<open>resolve\<close>: the last \<open>n\<close> bytes for \<open>-n\<close>); it accepts exactly
  when there is one. Suffixes are shorter than the file; a longer one loses a byte (\<open>suffix_range_loses_byte\<close>).\<close>

theorem range_header_resolved:
  assumes "alloc_script sv = []" and "\<forall>x \<in> set xs. small_spec x" and "ranges r = []"
    and "0 < n" and "n < 2 ^ 63" and "\<forall>k. Last k \<in> set xs \<longrightarrow> k < n"
  shows "\<exists>r' sv'. range_parse r (''bytes='' @ print_specs xs) sv = Some (1, r', sv') \<and>
           numranges r' = numranges r + length xs \<and>
           (let fx = ranges_fixup (r'\<lparr>filesize := of_nat n\<rparr>) sv'; sel = List.map_filter (resolve n) xs in
              (fst fx = 1 \<longleftrightarrow> sel \<noteq> []) \<and>
              (sel \<noteq> [] \<longrightarrow> ranges (fst (snd fx)) = map word_range sel))"
proof -
  have "(of_nat n :: 64 word) \<noteq> 0" using of_nat_less [of 0 n] assms(4,5) by auto
  then show ?thesis
    using range_parse_specs [OF assms(1,2), of r] map_filter_recorded [OF assms(2,4,5,6)] assms(3)
    by (simp add: ranges_fixup_def fixup_loop_eq Let_def)
qed

theorem range_header_resolved_witness:
  "\<exists>r' sv'. range_parse example_request ''bytes=0-9,95-,-3'' example_server = Some (1, r', sv') \<and>
     ranges (fst (snd (ranges_fixup (r'\<lparr>filesize := 100\<rparr>) sv'))) =
       [word_range (0, 9), word_range (95, 99), word_range (97, 99)]"
proof -
  have p: "''bytes='' @ print_specs [Between 0 9, From 95, Last 3] = ''bytes=0-9,95-,-3''"
    by (simp add: decimal.simps digit_chars)
  have s: "List.map_filter (resolve 100) [Between 0 9, From 95, Last 3] = [(0, 9), (95, 99), (97, 99)]"
    by (simp add: map_filter_simps)
  have h: "alloc_script example_server = []" "ranges example_request = []"
    by (simp_all add: example_server_def example_request_def)
  show ?thesis
    using range_header_resolved [OF h(1), of "[Between 0 9, From 95, Last 3]" example_request 100]
    unfolding p s by (auto simp: h Let_def)
qed

end
