(* ===== verification/Alias.thy ===== *)
theory Alias
  imports Response
begin

text \<open>
  Aliases and the translation of a URI to a file name (\<open>alias.c\<close>). The hash table is a list of
  chains in the order of insertion. A handler takes the request and the server and returns the
  result of the C function with both updated; \<open>None\<close> from \<open>add_alias\<close> is the fatal exit.
\<close>

section \<open>The alias table\<close>

definition ALIAS_HASHTABLE_SIZE :: nat where "ALIAS_HASHTABLE_SIZE = 17"

text \<open>A \<open>char\<close> converted to \<open>unsigned int\<close>: the sign is extended.\<close>

definition char_word :: "char \<Rightarrow> 32 word" where
  "char_word c = word_of_int (schar c)"

fun alias_hash_loop :: "32 word \<Rightarrow> string \<Rightarrow> 32 word" where
  "alias_hash_loop hash [] = hash"
| "alias_hash_loop hash (c # cs) = (if c = CHR ''/'' then hash else alias_hash_loop (hash + char_word c) cs)"

fun get_alias_hash_value :: "string \<Rightarrow> nat" where
  "get_alias_hash_value [] = 0"
| "get_alias_hash_value (c # cs) = unat (alias_hash_loop (char_word c) cs) mod ALIAS_HASHTABLE_SIZE"

definition add_alias :: "string option \<Rightarrow> string option \<Rightarrow> alias_type \<Rightarrow> server \<Rightarrow> server option" where
  "add_alias fake real type sv =
     (case (fake, real) of
        (Some fake, Some real) \<Rightarrow>
          if fake = [] \<or> real = [] then None
          else
            (let hash = get_alias_hash_value fake;
                 chain = alias_hashtable sv ! hash in
             if \<exists>a \<in> set (butlast chain). fakename a = fake then Some sv
             else case try_alloc sv of (ok, sv) \<Rightarrow>
               if \<not> ok then None
               else case try_alloc sv of (ok, sv) \<Rightarrow>
                 if \<not> ok then None
                 else case try_alloc sv of (ok, sv) \<Rightarrow>
                   if \<not> ok then None
                   else Some (sv\<lparr>alias_hashtable := (alias_hashtable sv)
                          [hash := chain @ [\<lparr>fakename = fake, realname = real, alias_type = type\<rparr>]]\<rparr>))
      | _ \<Rightarrow> None)"

text \<open>The match of one alias: a prefix of the URI that ends at a segment boundary.\<close>

definition alias_matches :: "string \<Rightarrow> nat \<Rightarrow> alias_entry \<Rightarrow> bool" where
  "alias_matches uri urilen a \<longleftrightarrow>
     (let fake_len = length (fakename a) in
      fake_len \<le> urilen \<and> take fake_len uri = fakename a \<and>
      (char_at (fakename a) (fake_len - 1) = CHR ''/'' \<or>
       (char_at uri fake_len = NUL \<or> char_at uri fake_len = CHR ''/'')))"

fun find_in_chain :: "alias_entry list \<Rightarrow> string \<Rightarrow> nat \<Rightarrow> alias_entry option" where
  "find_in_chain [] uri urilen = None"
| "find_in_chain (a # as) uri urilen = (if alias_matches uri urilen a then Some a else find_in_chain as uri urilen)"

definition find_alias :: "server \<Rightarrow> string \<Rightarrow> nat \<Rightarrow> alias_entry option" where
  "find_alias sv uri urilen =
     (let urilen = (if urilen = 0 then length uri else urilen)
      in find_in_chain (alias_hashtable sv ! get_alias_hash_value uri) uri urilen)"

definition dump_alias :: "server \<Rightarrow> server" where
  "dump_alias sv = sv\<lparr>alias_hashtable := replicate ALIAS_HASHTABLE_SIZE [] @ drop ALIAS_HASHTABLE_SIZE (alias_hashtable sv)\<rparr>"

section \<open>Calls the translation makes\<close>

definition CGI_MIME_TYPE :: string where "CGI_MIME_TYPE = ''application/x-httpd-cgi''"

text \<open>The size of the static path arrays, with the terminator.\<close>

definition PATH_BUF :: nat where "PATH_BUF = MAX_HEADER_LENGTH + 1"

definition boa_perror :: "server \<Rightarrow> request \<Rightarrow> request" where
  "boa_perror sv r = send_r_error sv r"

definition lookup_home :: "string \<Rightarrow> server \<Rightarrow> string option \<times> server" where
  "lookup_home name sv =
     (case get_home_dir (hash_variant sv) (fs_getpwnam sv) name (passwd_hashtable sv) (alloc_script sv) of
        (dir, table, al) \<Rightarrow> (dir, sv\<lparr>passwd_hashtable := table, alloc_script := al\<rparr>))"

definition mime_type :: "server \<Rightarrow> string \<Rightarrow> string option" where
  "mime_type sv name = get_mime_type (hash_variant sv) (default_type sv) (mime_hashtable sv) (Some name)"

text \<open>The host of the request in virtual host mode, where \<open>process_header_end\<close> has set it.\<close>

definition host_name :: "request \<Rightarrow> string" where
  "host_name r = (case host r of Some h \<Rightarrow> h | None \<Rightarrow> [])"

section \<open>Scripts\<close>

text \<open>The path of a script: the real name and the part of the URI after the alias.\<close>

definition script_path :: "request \<Rightarrow> server \<Rightarrow> alias_entry \<Rightarrow> string" where
  "script_path r sv a =
     (case vhost_root sv of
        Some root \<Rightarrow> root @ ''/'' @ local_ip_addr r @ ''/'' @ host_name r @ ''/'' @ realname a
      | None \<Rightarrow> realname a) @ drop (length (fakename a)) (request_uri r)"

text \<open>
  The loop over the slashes of the path, on the bytes \<open>pb\<close> of the static array. It starts one byte
  after the real name, so bytes that an earlier request left behind a shorter path are read too. A
  failed lookup leaves the array cut at the slash.
\<close>

datatype script_scan = Missing string | Denied string | Stopped char nat

function script_loop :: "server \<Rightarrow> string \<Rightarrow> nat \<Rightarrow> script_scan" where
  "script_loop sv pb i =
     (let i = i + 1; c = char_at pb i; here = cstr (take i pb) in
      if c = CHR ''/'' then
        (case fs_stat sv here of
           None \<Rightarrow> Missing (pb[i := NUL])
         | Some f \<Rightarrow>
             if f_kind f \<noteq> Directory then
               (if f_kind f \<noteq> Regular \<or> \<not> fs_access sv here then Denied (pb[i := NUL]) else Stopped c i)
             else script_loop sv pb i)
      else if c = NUL then Stopped c i
      else script_loop sv pb i)"
  by pat_completeness auto
termination
  by (relation "measure (\<lambda>(sv, pb, i). length pb - i)") (auto simp: char_at_def split: if_splits)

declare script_loop.simps [simp del]

text \<open>The alias of the extra path: the first whose name is a prefix of it.\<close>

fun realias_loop :: "alias_entry list \<Rightarrow> string \<Rightarrow> request \<Rightarrow> server \<Rightarrow> int \<times> request \<times> server" where
  "realias_loop [] info r sv = (1, r, sv)"
| "realias_loop (a # as) info r sv =
     (if path_translated r \<noteq> None then (1, r, sv)
      else if strncmp_eq info (fakename a) (length (fakename a)) then
        (if length (realname a) + length info - length (fakename a) + 1 > PATH_BUF
         then (0, send_r_bad_request sv r, sv)
         else case try_alloc sv of (ok, sv) \<Rightarrow>
           if \<not> ok then (0, boa_perror sv r, sv)
           else realias_loop as info
                  (r\<lparr>path_translated := Some (realname a @ drop (length (fakename a)) info)\<rparr>) sv)
      else realias_loop as info r sv)"

text \<open>\<open>path_translated\<close> from the home directory of a user or from the document root.\<close>

definition path_from_home :: "string \<Rightarrow> string \<Rightarrow> request \<Rightarrow> server \<Rightarrow> int \<times> request \<times> server" where
  "path_from_home udir info r sv =
     (let rest = drop 1 info;
          p = strchr rest (CHR ''/'');
          user = (case p of Some k \<Rightarrow> drop 1 (take k rest) | None \<Rightarrow> drop 1 rest);
          tail = (case p of Some k \<Rightarrow> drop k rest | None \<Rightarrow> []);
          (home, sv) = lookup_home user sv
      in case home of
           None \<Rightarrow> (0, send_r_not_found sv r, sv)
         | Some dir \<Rightarrow>
             (case try_alloc sv of (ok, sv) \<Rightarrow>
                if \<not> ok then (0, boa_perror sv r, sv)
                else (1, r\<lparr>path_translated := Some (dir @ ''/'' @ udir @ tail)\<rparr>, sv)))"

definition path_from_root :: "string \<Rightarrow> string \<Rightarrow> request \<Rightarrow> server \<Rightarrow> int \<times> request \<times> server" where
  "path_from_root root info r sv =
     (case try_alloc sv of (ok, sv) \<Rightarrow>
        if \<not> ok then (0, boa_perror sv r, sv)
        else (1, r\<lparr>path_translated := Some (root @ info)\<rparr>, sv))"

definition path_default :: "string \<Rightarrow> request \<Rightarrow> server \<Rightarrow> int \<times> request \<times> server" where
  "path_default info r sv =
     (if path_translated r = None \<and> user_dir sv \<noteq> None \<and> char_at info 1 = CHR ''~''
      then path_from_home (the (user_dir sv)) info r sv
      else if path_translated r = None \<and> document_root sv \<noteq> None
      then path_from_root (the (document_root sv)) info r sv
      else (1, r, sv))"

text \<open>The tail of \<open>init_script_alias\<close>: the path of the script is what the array holds.\<close>

definition set_script_pathname :: "string \<Rightarrow> request \<Rightarrow> server \<Rightarrow> int \<times> request \<times> server" where
  "set_script_pathname pb r sv =
     (let sv = sv\<lparr>script_buf := pb\<rparr>; (ok, sv) = try_alloc sv
      in if \<not> ok then (0, boa_perror sv r, sv) else (1, r\<lparr>pathname := Some (cstr pb)\<rparr>, sv))"

text \<open>The loop reached the end of the path: the whole path is the script.\<close>

definition script_whole :: "string \<Rightarrow> request \<Rightarrow> server \<Rightarrow> int \<times> request \<times> server" where
  "script_whole pb r sv =
     (let sv = sv\<lparr>script_buf := pb\<rparr> in
      case fs_stat sv (cstr pb) of
        None \<Rightarrow> (0, send_r_not_found sv r, sv)
      | Some f \<Rightarrow>
          if f_kind f \<noteq> Directory then
            (if f_kind f \<noteq> Regular \<or> \<not> fs_access sv (cstr pb) then (0, send_r_forbidden sv r, sv)
             else set_script_pathname pb r sv)
          else (0, send_r_forbidden sv r, sv))"

text \<open>
  The loop stopped at the slash at \<open>i\<close>: the rest is the extra path. When the rest is longer than the
  script name, the write that cuts the name falls before the string and leaves it as it is.
\<close>

definition script_with_info :: "string \<Rightarrow> nat \<Rightarrow> request \<Rightarrow> server \<Rightarrow> int \<times> request \<times> server" where
  "script_with_info pb i r sv =
     (case try_alloc (sv\<lparr>script_buf := pb\<rparr>) of (ok, sv) \<Rightarrow>
      if \<not> ok then (0, boa_perror sv r, sv)
      else
        (let info = cstr (drop i pb);
             pb = pb[i := NUL];
             sv = sv\<lparr>script_buf := pb\<rparr>;
             cut = (\<lambda>name. if length info \<le> length name then take (length name - length info) name else name);
             r = r\<lparr>path_info := Some info, script_name := map_option cut (script_name r)\<rparr>;
             (v, r, sv) = realias_loop (alias_hashtable sv ! get_alias_hash_value info) info r sv
         in if v = 0 then (0, r, sv)
            else (case path_default info r sv of (v, r, sv) \<Rightarrow>
                    if v = 0 then (0, r, sv) else set_script_pathname pb r sv)))"

definition init_script_alias :: "request \<Rightarrow> alias_entry \<Rightarrow> nat \<Rightarrow> server \<Rightarrow> int \<times> request \<times> server" where
  "init_script_alias r a uri_len sv =
     (let path = script_path r sv a;
          real_len = length (realname a) in
      if length path + 1 > PATH_BUF then (0, send_r_bad_request sv r, sv)
      else
        (let pb = path @ [NUL] @ drop (length path + 1) (script_buf sv);
             r = r\<lparr>cgi_type := (if strncmp_eq ''nph-'' (cstr (drop real_len pb)) 4 \<or> http_version r = HTTP09
                               then NPH else CGI)\<rparr>
         in case script_loop sv pb real_len of
              Missing pb \<Rightarrow> (let sv = sv\<lparr>script_buf := pb\<rparr> in (0, send_r_not_found sv r, sv))
            | Denied pb \<Rightarrow> (let sv = sv\<lparr>script_buf := pb\<rparr> in (0, send_r_forbidden sv r, sv))
            | Stopped c i \<Rightarrow>
                (case try_alloc (sv\<lparr>script_buf := pb\<rparr>) of (ok, sv) \<Rightarrow>
                   if \<not> ok then (0, boa_perror sv r, sv)
                   else (let r = r\<lparr>script_name := Some (request_uri r)\<rparr> in
                         if c = NUL then script_whole pb r sv else script_with_info pb i r sv))))"

section \<open>Translation\<close>

definition bad_request :: "request \<Rightarrow> server \<Rightarrow> int \<times> request \<times> server" where
  "bad_request r sv = (0, send_r_bad_request sv r, sv)"

text \<open>The end of \<open>translate_uri\<close>, with the path in the buffer.\<close>

definition set_pathname :: "string \<Rightarrow> request \<Rightarrow> server \<Rightarrow> int \<times> request \<times> server" where
  "set_pathname path r sv =
     (case try_alloc sv of (ok, sv) \<Rightarrow>
      if \<not> ok then (0, boa_perror sv r, sv)
      else
        (let r = r\<lparr>pathname := Some path\<rparr> in
         if mime_type sv path = Some CGI_MIME_TYPE then
           (case try_alloc sv of (ok, sv) \<Rightarrow>
              if \<not> ok then (0, boa_perror sv r, sv)
              else (1, r\<lparr>script_name := Some (request_uri r),
                         cgi_type := (if http_version r = HTTP09 then NPH else CGI)\<rparr>, sv))
         else if req_method r = M_POST then bad_request r sv
         else (1, r, sv)))"

text \<open>The match of an Alias or a Redirect.\<close>

definition translate_alias :: "alias_entry \<Rightarrow> request \<Rightarrow> server \<Rightarrow> int \<times> request \<times> server" where
  "translate_alias a r sv =
     (let uri = request_uri r in
      if alias_type a = SCRIPTALIAS then init_script_alias r a (length uri) sv
      else if length (realname a) + length uri - length (fakename a) + 1 > PATH_BUF then bad_request r sv
      else
        (let path = realname a @ drop (length (fakename a)) uri in
         if alias_type a = REDIRECT then
           (if req_method r = M_POST then bad_request r sv
            else (0, send_r_moved_temp sv path [] r, sv))
         else
           (case try_alloc sv of (ok, sv) \<Rightarrow>
              if \<not> ok then (0, boa_perror sv r, sv) else (1, r\<lparr>pathname := Some path\<rparr>, sv))))"

text \<open>The path of a URI \<open>/~user/rest\<close>.\<close>

definition translate_user :: "string \<Rightarrow> request \<Rightarrow> server \<Rightarrow> int \<times> request \<times> server" where
  "translate_user udir r sv =
     (let uri = request_uri r in
      if char_at uri 2 = NUL then bad_request r sv
      else
        (let name = drop 2 uri;
             p = strchr name (CHR ''/'');
             user = (case p of Some k \<Rightarrow> take k name | None \<Rightarrow> name);
             rest = (case p of Some k \<Rightarrow> drop k name | None \<Rightarrow> []);
             (home, sv) = lookup_home user sv
         in case home of
              None \<Rightarrow> (0, send_r_not_found sv r, sv)
            | Some dir \<Rightarrow>
                if length dir + 1 + length udir + length rest + 1 > PATH_BUF then bad_request r sv
                else set_pathname (dir @ ''/'' @ udir @ rest) r sv))"

definition translate_vhost :: "string \<Rightarrow> request \<Rightarrow> server \<Rightarrow> int \<times> request \<times> server" where
  "translate_vhost root r sv =
     (let path = root @ ''/'' @ local_ip_addr r @ ''/'' @ host_name r @ ''/'' @ ''htdocs'' @ request_uri r in
      if length path + 1 > PATH_BUF then bad_request r sv else set_pathname path r sv)"

text \<open>The length test counts one byte more than the path without virtual hosts needs.\<close>

definition translate_root :: "string \<Rightarrow> request \<Rightarrow> server \<Rightarrow> int \<times> request \<times> server" where
  "translate_root root r sv =
     (let l3 = (if virtualhost sv then length (local_ip_addr r) else 0) in
      if length root + 1 + length (request_uri r) + l3 + 1 > PATH_BUF then bad_request r sv
      else set_pathname
             (root @ (if virtualhost sv then ''/'' @ local_ip_addr r else []) @ request_uri r) r sv)"

definition translate_uri :: "request \<Rightarrow> server \<Rightarrow> int \<times> request \<times> server" where
  "translate_uri r sv =
     (let uri = request_uri r in
      if char_at uri 0 \<noteq> CHR ''/'' then bad_request r sv
      else case find_alias sv uri (length uri) of
        Some a \<Rightarrow> translate_alias a r sv
      | None \<Rightarrow>
          if user_dir sv \<noteq> None \<and> char_at uri 1 = CHR ''~'' then translate_user (the (user_dir sv)) r sv
          else if vhost_root sv \<noteq> None then translate_vhost (the (vhost_root sv)) r sv
          else if document_root sv \<noteq> None then translate_root (the (document_root sv)) r sv
          else (0, send_r_not_found sv r, sv))"

section \<open>Looking an alias up\<close>

text \<open>
  Every alias sits in the chain of its hash. The name \<open>/\<close> is excluded: its hash covers the slash
  alone, while that of a URI below it covers the first segment, so such an alias is found only when
  the two collide.
\<close>

definition alias_table_ok :: "alias_entry list list \<Rightarrow> bool" where
  "alias_table_ok tab \<longleftrightarrow>
     length tab = ALIAS_HASHTABLE_SIZE \<and>
     (\<forall>i < ALIAS_HASHTABLE_SIZE. \<forall>a \<in> set (tab ! i).
        fakename a \<noteq> [] \<and> fakename a \<noteq> ''/'' \<and> get_alias_hash_value (fakename a) = i)"

definition aliases :: "alias_entry list list \<Rightarrow> alias_entry set" where
  "aliases tab = (\<Union>c \<in> set tab. set c)"

lemma alias_hash_loop_stop:
  "CHR ''/'' \<in> set fs \<or> rest = [] \<or> hd rest = CHR ''/'' \<Longrightarrow>
   alias_hash_loop h (fs @ rest) = alias_hash_loop h fs"
  by (induction fs arbitrary: h) (auto, (cases rest; auto)+)

lemma alias_hash_less: "get_alias_hash_value s < ALIAS_HASHTABLE_SIZE"
  by (cases s) (simp_all add: ALIAS_HASHTABLE_SIZE_def)

lemma alias_matches_hash:
  assumes "alias_matches uri (length uri) a" and "fakename a \<noteq> []" and "fakename a \<noteq> ''/''" and "is_cstr uri"
  shows "get_alias_hash_value uri = get_alias_hash_value (fakename a)"
proof -
  obtain c fs where fake: "fakename a = c # fs" using assms(2) by (cases "fakename a") auto
  obtain rest where uri: "uri = fakename a @ rest"
    using assms(1) by (metis alias_matches_def append_take_drop_id)
  have "rest = [] \<or> hd rest \<noteq> NUL" using assms(4) uri by (cases rest) auto
  then have "last (fakename a) = CHR ''/'' \<or> rest = [] \<or> hd rest = CHR ''/''"
    using assms(1,2) unfolding alias_matches_def Let_def char_at_def uri
    by (auto simp: last_conv_nth hd_conv_nth nth_append split: if_splits)
  moreover have "last (fakename a) = CHR ''/'' \<Longrightarrow> CHR ''/'' \<in> set fs"
    using assms(3) fake last_in_set [of fs] by (cases "fs = []") auto
  ultimately show ?thesis
    using alias_hash_loop_stop [of fs rest] unfolding uri fake by auto
qed

lemma find_in_chain_eq: "find_in_chain c uri n = find (alias_matches uri n) c"
  by (induction c) auto

lemma aliases_chain:
  assumes "alias_table_ok tab" and "a \<in> aliases tab"
  shows "a \<in> set (tab ! get_alias_hash_value (fakename a))" "fakename a \<noteq> []" "fakename a \<noteq> ''/''"
proof -
  obtain c where "c \<in> set tab" and a: "a \<in> set c" using assms(2) by (auto simp: aliases_def)
  then obtain i where "i < length tab" "c = tab ! i" by (metis in_set_conv_nth)
  then show "a \<in> set (tab ! get_alias_hash_value (fakename a))" "fakename a \<noteq> []" "fakename a \<noteq> ''/''"
    using assms(1) a by (auto simp: alias_table_ok_def)
qed

lemma aliases_update:
  assumes "i < length tab"
  shows "aliases (tab[i := tab ! i @ [a]]) = insert a (aliases tab)"
proof -
  have "aliases tab = aliases (take i tab @ tab ! i # drop (Suc i) tab)"
    using id_take_nth_drop [OF assms] by simp
  then show ?thesis by (simp add: upd_conv_take_nth_drop [OF assms] aliases_def Un_ac)
qed

lemma try_alloc_table: "try_alloc sv = (b, sv') \<Longrightarrow> alias_hashtable sv' = alias_hashtable sv"
  by (auto simp: try_alloc_def split: prod.splits)

lemma add_alias_cases:
  assumes "add_alias (Some f) (Some rn) type sv = Some sv'"
  shows "(sv' = sv \<and> (\<exists>a \<in> set (alias_hashtable sv ! get_alias_hash_value f). fakename a = f)) \<or>
         (f \<noteq> [] \<and> alias_hashtable sv' = (alias_hashtable sv)[get_alias_hash_value f :=
            alias_hashtable sv ! get_alias_hash_value f @ [\<lparr>fakename = f, realname = rn, alias_type = type\<rparr>]])"
proof (cases "\<exists>a \<in> set (butlast (alias_hashtable sv ! get_alias_hash_value f)). fakename a = f")
  case True
  then show ?thesis using assms by (auto simp: add_alias_def Let_def split: if_splits dest: in_set_butlastD)
next
  case False
  obtain b1 sv1 where a1: "try_alloc sv = (b1, sv1)" by fastforce
  obtain b2 sv2 where a2: "try_alloc sv1 = (b2, sv2)" by fastforce
  obtain b3 sv3 where a3: "try_alloc sv2 = (b3, sv3)" by fastforce
  note tables = try_alloc_table [OF a1] try_alloc_table [OF a2] try_alloc_table [OF a3]
  show ?thesis
    using assms False unfolding add_alias_def by (simp add: Let_def a1 a2 a3 tables split: if_splits) (auto simp: tables)
qed

text \<open>The aliases of a configuration, added in order.\<close>

fun add_aliases :: "(string \<times> string \<times> alias_type) list \<Rightarrow> server \<Rightarrow> server option" where
  "add_aliases [] sv = Some sv"
| "add_aliases ((f, rn, type) # cfg) sv =
     (case add_alias (Some f) (Some rn) type sv of None \<Rightarrow> None | Some sv \<Rightarrow> add_aliases cfg sv)"

definition alias_of :: "string \<times> string \<times> alias_type \<Rightarrow> alias_entry" where
  "alias_of t = (case t of (f, rn, type) \<Rightarrow> \<lparr>fakename = f, realname = rn, alias_type = type\<rparr>)"

lemma add_alias_step:
  assumes "add_alias (Some f) (Some rn) type sv = Some sv'" and "alias_table_ok (alias_hashtable sv)" and "f \<noteq> ''/''"
  shows "alias_table_ok (alias_hashtable sv')"
    "aliases (alias_hashtable sv') \<subseteq> insert (alias_of (f, rn, type)) (aliases (alias_hashtable sv))"
    "aliases (alias_hashtable sv) \<subseteq> aliases (alias_hashtable sv')"
    "\<exists>a \<in> aliases (alias_hashtable sv'). fakename a = f"
proof -
  have len: "get_alias_hash_value f < length (alias_hashtable sv)"
    using assms(2) alias_hash_less [of f] by (simp add: alias_table_ok_def)
  then have mem: "a \<in> set (alias_hashtable sv ! get_alias_hash_value f) \<Longrightarrow> a \<in> aliases (alias_hashtable sv)" for a
    unfolding aliases_def using nth_mem by blast
  show "alias_table_ok (alias_hashtable sv')"
    using add_alias_cases [OF assms(1)] assms(2,3) len
    by (auto simp: alias_table_ok_def nth_list_update split: if_splits)
  show "aliases (alias_hashtable sv') \<subseteq> insert (alias_of (f, rn, type)) (aliases (alias_hashtable sv))"
    "aliases (alias_hashtable sv) \<subseteq> aliases (alias_hashtable sv')"
    "\<exists>a \<in> aliases (alias_hashtable sv'). fakename a = f"
    using add_alias_cases [OF assms(1)] mem by (auto simp: aliases_update [OF len] alias_of_def)
qed

lemma add_aliases_table:
  assumes "add_aliases cfg sv = Some sv'" and "alias_table_ok (alias_hashtable sv)" and "\<forall>t \<in> set cfg. fst t \<noteq> ''/''"
  shows "alias_table_ok (alias_hashtable sv') \<and>
         aliases (alias_hashtable sv) \<subseteq> aliases (alias_hashtable sv') \<and>
         aliases (alias_hashtable sv') \<subseteq> aliases (alias_hashtable sv) \<union> alias_of ` set cfg \<and>
         (\<forall>t \<in> set cfg. \<exists>a \<in> aliases (alias_hashtable sv'). fakename a = fst t)"
  using assms
proof (induction cfg sv rule: add_aliases.induct)
  case (2 f rn type cfg sv)
  obtain sv1 where sv1: "add_alias (Some f) (Some rn) type sv = Some sv1" and rest: "add_aliases cfg sv1 = Some sv'"
    using 2(2) by (auto split: option.splits)
  note step = add_alias_step [OF sv1 2(3)]
  have f: "f \<noteq> ''/''" using 2(4) by simp
  have IH: "alias_table_ok (alias_hashtable sv') \<and>
         aliases (alias_hashtable sv1) \<subseteq> aliases (alias_hashtable sv') \<and>
         aliases (alias_hashtable sv') \<subseteq> aliases (alias_hashtable sv1) \<union> alias_of ` set cfg \<and>
         (\<forall>t \<in> set cfg. \<exists>a \<in> aliases (alias_hashtable sv'). fakename a = fst t)"
    using 2(1) [OF sv1 rest step(1) [OF f]] 2(4) by simp
  have "\<exists>a \<in> aliases (alias_hashtable sv'). fakename a = f" using IH step(4) [OF f] by blast
  moreover have "aliases (alias_hashtable sv) \<subseteq> aliases (alias_hashtable sv')"
    using IH step(3) [OF f] by blast
  moreover have "aliases (alias_hashtable sv') \<subseteq>
      aliases (alias_hashtable sv) \<union> insert (alias_of (f, rn, type)) (alias_of ` set cfg)"
    using IH step(2) [OF f] by blast
  ultimately show ?case using IH by simp
qed simp

lemma find_alias_eq:
  "find_alias sv uri (length uri) = find (alias_matches uri (length uri)) (alias_hashtable sv ! get_alias_hash_value uri)"
  by (simp add: find_alias_def find_in_chain_eq)

lemma find_alias_None:
  assumes "alias_table_ok (alias_hashtable sv)" and "is_cstr uri"
  shows "find_alias sv uri (length uri) = None \<longleftrightarrow> (\<forall>a \<in> aliases (alias_hashtable sv). \<not> alias_matches uri (length uri) a)"
proof
  assume none: "find_alias sv uri (length uri) = None"
  show "\<forall>a \<in> aliases (alias_hashtable sv). \<not> alias_matches uri (length uri) a"
  proof (intro ballI notI)
    fix a assume a: "a \<in> aliases (alias_hashtable sv)" and m: "alias_matches uri (length uri) a"
    note chain = aliases_chain [OF assms(1) a]
    show False using none chain m alias_matches_hash [OF m chain(2,3) assms(2)]
      by (auto simp: find_alias_eq find_None_iff)
  qed
next
  assume all: "\<forall>a \<in> aliases (alias_hashtable sv). \<not> alias_matches uri (length uri) a"
  have "get_alias_hash_value uri < length (alias_hashtable sv)"
    using assms(1) alias_hash_less [of uri] by (simp add: alias_table_ok_def)
  then have "set (alias_hashtable sv ! get_alias_hash_value uri) \<subseteq> aliases (alias_hashtable sv)"
    unfolding aliases_def using nth_mem by blast
  then show "find_alias sv uri (length uri) = None"
    using all by (auto simp: find_alias_eq find_None_iff)
qed

lemma find_alias_Some:
  assumes "alias_table_ok (alias_hashtable sv)" and "find_alias sv uri (length uri) = Some a"
  shows "a \<in> aliases (alias_hashtable sv) \<and> alias_matches uri (length uri) a"
proof -
  have "get_alias_hash_value uri < length (alias_hashtable sv)"
    using assms(1) alias_hash_less [of uri] by (simp add: alias_table_ok_def)
  moreover have "a \<in> set (alias_hashtable sv ! get_alias_hash_value uri)" "alias_matches uri (length uri) a"
    using assms(2) by (auto simp: find_alias_eq find_Some_iff)
  ultimately show ?thesis unfolding aliases_def using nth_mem by blast
qed

section \<open>What a translated URI names\<close>

definition runnable :: "server \<Rightarrow> string \<Rightarrow> bool" where
  "runnable sv p \<longleftrightarrow> (case fs_stat sv p of None \<Rightarrow> False | Some f \<Rightarrow> f_kind f = Regular) \<and> fs_access sv p"

text \<open>
  The script that a path names: the part of it that ends at a slash or at its end, that is a regular file that may be read and
  executed, and before which every slash after the real name of the alias ends a directory.
\<close>

definition names_script :: "server \<Rightarrow> string \<Rightarrow> nat \<Rightarrow> string \<Rightarrow> bool" where
  "names_script sv path n p \<longleftrightarrow>
     runnable sv p \<and> (p = path \<or> (\<exists>rest. path = p @ CHR ''/'' # rest)) \<and>
     (\<forall>k. n < k \<and> k < length p \<and> path ! k = CHR ''/'' \<longrightarrow>
        (case fs_stat sv (take k path) of None \<Rightarrow> False | Some f \<Rightarrow> f_kind f = Directory))"

lemma script_loop_stopped:
  "script_loop sv pb i = Stopped c k \<Longrightarrow>
     i < k \<and> (c = NUL \<and> char_at pb k = NUL \<or> c = CHR ''/'' \<and> k < length pb \<and> pb ! k = c \<and> runnable sv (cstr (take k pb))) \<and>
     (\<forall>j. i < j \<and> j < k \<longrightarrow> char_at pb j \<noteq> NUL \<and> (char_at pb j = CHR ''/'' \<longrightarrow>
        (case fs_stat sv (cstr (take j pb)) of None \<Rightarrow> False | Some f \<Rightarrow> f_kind f = Directory)))"
proof (induction sv pb i rule: script_loop.induct)
  case (1 sv pb i)
  let ?c = "char_at pb (i + 1)" let ?here = "cstr (take (i + 1) pb)"
  have step: "script_loop sv pb i =
      (if ?c = CHR ''/'' then
        (case fs_stat sv ?here of
           None \<Rightarrow> Missing (pb[i + 1 := NUL])
         | Some f \<Rightarrow>
             if f_kind f \<noteq> Directory then
               (if f_kind f \<noteq> Regular \<or> \<not> fs_access sv ?here then Denied (pb[i + 1 := NUL]) else Stopped ?c (i + 1))
             else script_loop sv pb (i + 1))
      else if ?c = NUL then Stopped ?c (i + 1)
      else script_loop sv pb (i + 1))"
    by (subst script_loop.simps) (simp only: Let_def)
  have more: ?case if rec: "script_loop sv pb (i + 1) = Stopped c k" and ih: "script_loop sv pb (i + 1) = Stopped c k \<Longrightarrow>
       i + 1 < k \<and> (c = NUL \<and> char_at pb k = NUL \<or> c = CHR ''/'' \<and> k < length pb \<and> pb ! k = c \<and> runnable sv (cstr (take k pb))) \<and>
       (\<forall>j. i + 1 < j \<and> j < k \<longrightarrow> char_at pb j \<noteq> NUL \<and> (char_at pb j = CHR ''/'' \<longrightarrow>
          (case fs_stat sv (cstr (take j pb)) of None \<Rightarrow> False | Some f \<Rightarrow> f_kind f = Directory)))"
    and here: "?c \<noteq> NUL" "?c = CHR ''/'' \<Longrightarrow> (case fs_stat sv ?here of None \<Rightarrow> False | Some f \<Rightarrow> f_kind f = Directory)"
  proof -
    have "char_at pb j \<noteq> NUL \<and> (char_at pb j = CHR ''/'' \<longrightarrow>
        (case fs_stat sv (cstr (take j pb)) of None \<Rightarrow> False | Some f \<Rightarrow> f_kind f = Directory))" if "i < j" "j < k" for j
    proof (cases "j = i + 1")
      case False
      then show ?thesis using ih [OF rec] that by auto
    qed (use here in simp)
    then show ?thesis using ih [OF rec] by auto
  qed
  show ?case
  proof (cases "?c = CHR ''/''")
    case slash: True
    show ?thesis
    proof (cases "fs_stat sv ?here")
      case None
      then show ?thesis using 1(3) slash by (simp add: step)
    next
      case (Some f)
      show ?thesis
      proof (cases "f_kind f = Directory")
        case True
        then have "script_loop sv pb (i + 1) = Stopped c k" using 1(3) slash Some by (simp add: step)
        then show ?thesis using 1(1) [OF refl refl refl slash Some] True Some slash by (intro more) auto
      next
        case False
        then have "c = ?c" "k = i + 1" and r: "runnable sv ?here" using 1(3) slash Some by (auto simp: step runnable_def split: if_splits)
        moreover have "i + 1 < length pb" "pb ! (i + 1) = CHR ''/''" using slash by (auto simp: char_at_def split: if_splits)
        ultimately show ?thesis using slash by auto
      qed
    qed
  next
    case False
    show ?thesis
    proof (cases "?c = NUL")
      case True
      then have "c = NUL" "k = i + 1" using 1(3) by (auto simp: step)
      then show ?thesis using True by auto
    next
      case nul: False
      then have "script_loop sv pb (i + 1) = Stopped c k" using 1(3) False by (simp add: step)
      then show ?thesis using 1(2) [OF refl refl refl False nul] nul False by (intro more) auto
    qed
  qed
qed

lemma cstr_take: "cstr (take k xs) = take k (cstr xs)"
proof (induction xs arbitrary: k)
  case (Cons x xs)
  then show ?case by (cases k) (simp_all add: cstr_def)
qed (simp add: cstr_def)

lemma cstr_char: "j < length (cstr xs) \<Longrightarrow> char_at xs j = cstr xs ! j \<and> cstr xs ! j \<noteq> NUL"
proof -
  assume j: "j < length (cstr xs)"
  then have "j < length xs" using length_takeWhile_le [of "\<lambda>c. c \<noteq> NUL" xs] by (simp add: cstr_def)
  then show ?thesis using j nth_mem [OF j] takeWhile_nth [of j "\<lambda>c. c \<noteq> NUL" xs] by (auto simp: cstr_def char_at_def dest: set_takeWhileD)
qed

lemma cstr_ended: "cstr (path @ NUL # t) = cstr path"
  unfolding cstr_def by (rule takeWhile_tail) simp

lemma cstr_bound: "length (cstr xs) \<le> length xs"
  by (simp add: cstr_def length_takeWhile_le)

lemma cstr_cut: "k < length pb \<Longrightarrow> cstr (pb[k := NUL]) = cstr (take k pb)"
  unfolding cstr_def by (simp add: upd_conv_take_nth_drop takeWhile_tail)

text \<open>What the loop over the slashes finds.\<close>

lemma scan_names_script:
  assumes "script_loop sv pb n = Stopped c i"
  shows "c = NUL \<Longrightarrow> runnable sv (cstr pb) \<Longrightarrow> names_script sv (cstr pb) n (cstr pb)"
    "c \<noteq> NUL \<Longrightarrow> names_script sv (cstr pb) n (cstr (pb[i := NUL])) \<and> prefix (cstr (pb[i := NUL])) (cstr pb)"
proof -
  note st = script_loop_stopped [OF assms]
  have dirs: "case fs_stat sv (take j (cstr pb)) of None \<Rightarrow> False | Some f \<Rightarrow> f_kind f = Directory"
    if "n < j" "j < i" "j < length (cstr pb)" "cstr pb ! j = CHR ''/''" for j
    using st that cstr_char [of j pb] by (simp add: cstr_take)
  show "names_script sv (cstr pb) n (cstr pb)" if "c = NUL" "runnable sv (cstr pb)"
  proof -
    have "char_at pb i = NUL" using st that(1) by auto
    then have "\<not> i < length (cstr pb)" using cstr_char [of i pb] by auto
    then show ?thesis using dirs that(2) by (auto simp: names_script_def)
  qed
  show "names_script sv (cstr pb) n (cstr (pb[i := NUL])) \<and> prefix (cstr (pb[i := NUL])) (cstr pb)" if "c \<noteq> NUL"
  proof -
    have i: "i < length pb" "pb ! i = CHR ''/''" "runnable sv (take i (cstr pb))" using st that by (auto simp: cstr_take)
    have e: "cstr (pb[i := NUL]) = take i (cstr pb)" using cstr_cut [OF i(1)] by (simp add: cstr_take)
    have "take i (cstr pb) = cstr pb \<or> (\<exists>rest. cstr pb = take i (cstr pb) @ CHR ''/'' # rest)"
    proof (cases "i < length (cstr pb)")
      case True
      have "cstr pb ! i = CHR ''/''" using True cstr_char [of i pb] i(1,2) by (simp add: char_at_def)
      then have "cstr pb = take i (cstr pb) @ CHR ''/'' # drop (Suc i) (cstr pb)" using id_take_nth_drop [OF True] by simp
      then show ?thesis by blast
    qed simp
    then show ?thesis using i(3) dirs unfolding e by (auto simp: names_script_def take_is_prefix)
  qed
qed

text \<open>
  The two outcomes of a translation: a path name that satisfies \<open>P\<close>, or an answer to the client.
\<close>

definition answered :: "request \<Rightarrow> bool" where
  "answered r \<longleftrightarrow> response_status r \<in> {302, 400, 403, 404, 500}"

definition translated :: "(string \<Rightarrow> bool) \<Rightarrow> int \<times> request \<times> server \<Rightarrow> bool" where
  "translated P res \<longleftrightarrow>
     (fst res = 1 \<and> (\<exists>p. pathname (fst (snd res)) = Some p \<and> P p)) \<or> (fst res = 0 \<and> answered (fst (snd res)))"

lemma answered_sends [simp]:
  "answered (send_r_bad_request sv r)" "answered (send_r_not_found sv r)" "answered (send_r_forbidden sv r)"
  "answered (send_r_moved_temp sv url hdr r)" "answered (boa_perror sv r)"
  by (simp_all add: answered_def boa_perror_def responds_fields(1) [OF responds_all(5)]
      responds_fields(1) [OF responds_all(7)] responds_fields(1) [OF responds_all(9)]
      responds_fields(1) [OF responds_all(10)] responds_fields(1) [OF responds_all(15)] response_codes)

lemma translated_simps [simp]:
  "translated P (0, r, sv) = answered r"
  "translated P (1, r\<lparr>pathname := Some p\<rparr>, sv) = P p"
  by (simp_all add: translated_def)

lemma translated_bad_request [simp]: "translated P (bad_request r sv)"
  by (simp add: bad_request_def)

lemma translated_mono: "translated P res \<Longrightarrow> (\<And>p. P p \<Longrightarrow> Q p) \<Longrightarrow> translated Q res"
  by (auto simp: translated_def)

lemma set_pathname_translated: "P path \<Longrightarrow> translated P (set_pathname path r sv)"
  by (simp add: set_pathname_def Let_def split: prod.split) (simp add: translated_def)

lemma set_script_pathname_translated: "P (cstr pb) \<Longrightarrow> translated P (set_script_pathname pb r sv)"
  by (simp add: set_script_pathname_def Let_def split: prod.split)

lemma try_alloc_runnable: "try_alloc sv = (b, sv') \<Longrightarrow> runnable sv' p = runnable sv p"
  by (auto simp: try_alloc_def runnable_def split: prod.splits)

lemma runnable_script_buf [simp]: "runnable (sv\<lparr>script_buf := pb\<rparr>) p = runnable sv p"
  by (simp add: runnable_def)

lemma script_whole_translated:
  assumes "runnable sv (cstr pb) \<Longrightarrow> P (cstr pb)"
  shows "translated P (script_whole pb r sv)"
  using assms by (auto simp: script_whole_def Let_def runnable_def intro!: set_script_pathname_translated split: option.split)

text \<open>The two steps that look for the translated extra path either go on or answer.\<close>

definition goes_on :: "int \<times> request \<times> server \<Rightarrow> bool" where
  "goes_on res \<longleftrightarrow> fst res = 1 \<or> (fst res = 0 \<and> answered (fst (snd res)))"

lemma goes_on_simps [simp]: "goes_on (1, r, sv)" "goes_on (0, r, sv) = answered r"
  by (simp_all add: goes_on_def)

lemma realias_goes_on: "goes_on (realias_loop as info r sv)"
  by (induction as info r sv rule: realias_loop.induct) (simp_all split: prod.split)

lemma path_default_goes_on: "goes_on (path_default info r sv)"
  by (simp add: path_default_def path_from_home_def path_from_root_def Let_def split: prod.split option.split)

lemma script_with_info_translated:
  assumes "P (cstr (pb[i := NUL]))"
  shows "translated P (script_with_info pb i r sv)"
proof -
  have split: "translated P (case (res :: int \<times> request \<times> server) of (v, r, sv) \<Rightarrow> if v = 0 then (0, r, sv) else f r sv)"
    if "goes_on res" and "\<And>r sv. translated P (f r sv)" for res f
    using that by (cases res) (auto simp: goes_on_def)
  obtain ok sv1 where alloc: "try_alloc (sv\<lparr>script_buf := pb\<rparr>) = (ok, sv1)" by fastforce
  show ?thesis
  proof (cases ok)
    case True
    then have neg: "(\<not> ok) = False" by simp
    show ?thesis
      unfolding script_with_info_def Let_def alloc prod.case neg if_False
      by (intro split realias_goes_on path_default_goes_on set_script_pathname_translated assms)
  qed (simp add: script_with_info_def alloc)
qed

lemma init_script_alias_translated:
  "translated (\<lambda>p. length p \<le> MAX_HEADER_LENGTH \<and> names_script sv (cstr (script_path r sv a)) (length (realname a)) p)
     (init_script_alias r a n sv)"
proof -
  let ?path = "script_path r sv a"
  let ?pb = "?path @ NUL # drop (Suc (length ?path)) (script_buf sv)"
  let ?P = "\<lambda>p. length p \<le> MAX_HEADER_LENGTH \<and> names_script sv (cstr ?path) (length (realname a)) p"
  show ?thesis
  proof (cases "length ?path + 1 > PATH_BUF")
    case True
    then show ?thesis by (simp add: init_script_alias_def)
  next
    case False
    have q: "cstr ?pb = cstr ?path" by (rule cstr_ended)
    have len: "prefix p (cstr ?path) \<Longrightarrow> length p \<le> MAX_HEADER_LENGTH" for p
      using False cstr_bound [of ?path] prefix_length_le [of p "cstr ?path"] by (simp add: PATH_BUF_def)
    have whole: "translated ?P (script_whole ?pb r' sv')"
      if "\<And>p. runnable sv' p = runnable sv p" and st: "script_loop sv ?pb (length (realname a)) = Stopped NUL i" for r' sv' i
      using scan_names_script(1) [OF st refl] len [of "cstr ?path"] that(1) unfolding q
      by (intro script_whole_translated) (simp only: q prefix_order.refl simp_thms)
    have info: "translated ?P (script_with_info ?pb i r' sv')"
      if st: "script_loop sv ?pb (length (realname a)) = Stopped c i" and "c \<noteq> NUL" for i r' sv' c
      using scan_names_script(2) [OF st that(2)] len unfolding q by (intro script_with_info_translated) blast
    obtain ok sv1 where alloc: "try_alloc (sv\<lparr>script_buf := ?pb\<rparr>) = (ok, sv1)" by fastforce
    have "\<And>p. runnable sv1 p = runnable sv p" using try_alloc_runnable [OF alloc] by simp
    then show ?thesis using False alloc
      by (auto simp: init_script_alias_def Let_def whole info split: script_scan.split)
  qed
qed

text \<open>
  The file the configuration names for the URI of a request: below the real name of its alias, in
  the directory of the user it names, below the root of its virtual host, or below the document root. A user's
  home directory is the one the table of home directories holds, or else that of the password data base.
\<close>

definition home_of :: "server \<Rightarrow> string \<Rightarrow> string option" where
  "home_of sv user =
     (case table_map (get_homedir_hash_value (hash_variant sv)) (passwd_hashtable sv) user of
        Some dir \<Rightarrow> Some dir
      | None \<Rightarrow> fs_getpwnam sv user)"

lemma lookup_home_of:
  assumes "lookup_home user sv = (Some dir, sv')"
  shows "home_of sv user = Some dir"
proof -
  obtain t al where g: "get_home_dir (hash_variant sv) (fs_getpwnam sv) user (passwd_hashtable sv) (alloc_script sv) = (Some dir, t, al)"
    using assms by (auto simp: lookup_home_def split: prod.splits)
  show ?thesis
  proof (cases "table_map (get_homedir_hash_value (hash_variant sv)) (passwd_hashtable sv) user")
    case None
    then have "\<exists>pw. fs_getpwnam sv user = Some pw \<and> (\<exists>e. fst (hash_insert (passwd_hashtable sv)
        (get_homedir_hash_value (hash_variant sv) user) (Some user) (Some pw) (alloc_script sv)) = Some e \<and> snd e = dir)"
      using g by (auto simp: get_home_dir_def Let_def hash_find_table_map split: option.splits prod.splits)
    then obtain pw e where pw: "fs_getpwnam sv user = Some pw" and
      e: "fst (hash_insert (passwd_hashtable sv) (get_homedir_hash_value (hash_variant sv) user) (Some user) (Some pw) (alloc_script sv)) = Some e" "snd e = dir"
      by blast
    have "e = (user, pw)"
      using e(1) None by (auto simp: hash_insert_def chain_find_map_of table_map_def Let_def split: option.splits prod.splits if_splits)
    then show ?thesis using pw e(2) None by (simp add: home_of_def)
  qed (use g in \<open>simp add: home_of_def get_home_dir_def Let_def hash_find_table_map\<close>)
qed

lemma strchr_split:
  "(case strchr s c of Some k \<Rightarrow> take k s | None \<Rightarrow> s) = takeWhile (\<lambda>x. x \<noteq> c) s"
  "(case strchr s c of Some k \<Rightarrow> drop k s | None \<Rightarrow> []) = dropWhile (\<lambda>x. x \<noteq> c) s"
  by (induction s) (auto split: option.splits)

definition names_file :: "server \<Rightarrow> request \<Rightarrow> string \<Rightarrow> bool" where
  "names_file sv r p \<longleftrightarrow>
     (let uri = request_uri r in
      case find_alias sv uri (length uri) of
        Some a \<Rightarrow>
          (if alias_type a = SCRIPTALIAS then names_script sv (cstr (script_path r sv a)) (length (realname a)) p
           else alias_type a = ALIAS \<and> p = realname a @ drop (length (fakename a)) uri)
      | None \<Rightarrow>
          if user_dir sv \<noteq> None \<and> char_at uri 1 = CHR ''~''
          then (\<exists>dir. home_of sv (takeWhile (\<lambda>c. c \<noteq> CHR ''/'') (drop 2 uri)) = Some dir \<and>
                  p = dir @ ''/'' @ the (user_dir sv) @ dropWhile (\<lambda>c. c \<noteq> CHR ''/'') (drop 2 uri))
          else if vhost_root sv \<noteq> None
          then p = the (vhost_root sv) @ ''/'' @ local_ip_addr r @ ''/'' @ host_name r @ ''/htdocs'' @ uri
          else document_root sv \<noteq> None \<and>
               p = the (document_root sv) @ (if virtualhost sv then ''/'' @ local_ip_addr r else []) @ uri)"

lemma translate_user_translated:
  "translated (\<lambda>p. length p \<le> MAX_HEADER_LENGTH \<and> (\<exists>dir. home_of sv (takeWhile (\<lambda>c. c \<noteq> CHR ''/'') (drop 2 (request_uri r))) = Some dir \<and>
       p = dir @ ''/'' @ udir @ dropWhile (\<lambda>c. c \<noteq> CHR ''/'') (drop 2 (request_uri r)))) (translate_user udir r sv)"
proof -
  let ?user = "takeWhile (\<lambda>c. c \<noteq> CHR ''/'') (drop 2 (request_uri r))" let ?rest = "dropWhile (\<lambda>c. c \<noteq> CHR ''/'') (drop 2 (request_uri r))"
  let ?P = "\<lambda>p. length p \<le> MAX_HEADER_LENGTH \<and> (\<exists>dir. home_of sv ?user = Some dir \<and> p = dir @ ''/'' @ udir @ ?rest)"
  obtain home sv1 where l: "lookup_home ?user sv = (home, sv1)" by fastforce
  have u: "translate_user udir r sv =
      (if char_at (request_uri r) 2 = NUL then bad_request r sv
       else case home of
              None \<Rightarrow> (0, send_r_not_found sv1 r, sv1)
            | Some dir \<Rightarrow>
                if length dir + 1 + length udir + length ?rest + 1 > PATH_BUF then bad_request r sv1
                else set_pathname (dir @ ''/'' @ udir @ ?rest) r sv1)"
    unfolding translate_user_def Let_def strchr_split l prod.case ..
  show ?thesis
  proof (cases home)
    case (Some dir)
    have "translated ?P (set_pathname (dir @ ''/'' @ udir @ ?rest) r sv1)" if "length dir + 1 + length udir + length ?rest + 1 \<le> PATH_BUF"
      using that lookup_home_of [of ?user sv dir sv1] l Some by (intro set_pathname_translated) (auto simp: PATH_BUF_def simp del: append_assoc)
    then show ?thesis unfolding u Some by simp
  qed (simp add: u)
qed

lemma translate_alias_translated:
  "length (fakename a) \<le> length (request_uri r) \<Longrightarrow>
   translated (\<lambda>p. length p \<le> MAX_HEADER_LENGTH \<and>
                (if alias_type a = SCRIPTALIAS then names_script sv (cstr (script_path r sv a)) (length (realname a)) p
                 else alias_type a = ALIAS \<and> p = realname a @ drop (length (fakename a)) (request_uri r)))
     (translate_alias a r sv)"
  using init_script_alias_translated [of sv r a "length (request_uri r)"]
  by (cases "alias_type a") (auto simp: translate_alias_def Let_def PATH_BUF_def split: prod.split)

text \<open>
  The bytes an earlier request left in the static array are visible to a later one: after a request
  for \<open>/run/a/b\<close>, the request \<open>/run\<close> of a script alias that names a file gets the path info \<open>/b\<close>,
  and its script name is cut to \<open>/r\<close>.
\<close>

definition run_server :: server where
  "run_server =
     example_server\<lparr>document_root := None,
       fs_stat := (\<lambda>p. if p = ''/bin/run'' then
         Some \<lparr>f_kind = Regular, f_dev = 1, f_ino = 2, f_mtime = 0, f_content = []\<rparr> else None),
       fs_access := (\<lambda>p. p = ''/bin/run''), script_buf := ''/bin/run'' @ [NUL] @ ''a/b'' @ [NUL]\<rparr>"

lemma script_path_info_stale:
  "let a = \<lparr>fakename = ''/run'', realname = ''/bin/run'', alias_type = SCRIPTALIAS\<rparr>;
       (v, r, sv) = init_script_alias (example_request\<lparr>request_uri := ''/run''\<rparr>) a 4 run_server
   in v = 1 \<and> path_info r = Some ''/b'' \<and> script_name r = Some ''/r''"
proof -
  let ?pb = "''/bin/run'' @ [NUL] @ ''a/b'' @ [NUL]"
  have "script_loop run_server ?pb (length ''/bin/run'') = Stopped (CHR ''/'') 10"
    by (subst script_loop.simps, simp add: char_at_def Let_def, subst script_loop.simps)
       (simp add: char_at_def run_server_def example_server_def)
  then show ?thesis
    by (simp add: init_script_alias_def script_path_def run_server_def example_server_def example_request_def
        try_alloc_def PATH_BUF_def MAX_HEADER_LENGTH_def script_with_info_def set_script_pathname_def
        path_default_def ALIAS_HASHTABLE_SIZE_def strncmp_eq_def Let_def)
qed

lemma translate_uri_translated:
  "translated (\<lambda>p. length p \<le> MAX_HEADER_LENGTH \<and> names_file sv r p) (translate_uri r sv)"
proof (cases "find_alias sv (request_uri r) (length (request_uri r))")
  case None
  note user = translate_user_translated [of sv r "the (user_dir sv)"]
  show ?thesis
    using None user
    by (auto simp: translate_uri_def names_file_def Let_def translate_vhost_def translate_root_def PATH_BUF_def
        intro!: set_pathname_translated)
next
  case (Some a)
  then have "length (fakename a) \<le> length (request_uri r)"
    by (auto simp: find_alias_eq find_Some_iff alias_matches_def Let_def)
  from translate_alias_translated [OF this, of sv] show ?thesis
    using Some by (simp add: translate_uri_def names_file_def Let_def)
qed

section \<open>Properties\<close>

text \<open>After the aliases of a configuration have been added to an empty table, looking up a URI
  finds an alias exactly when some configured alias matches it, and what it finds is a configured alias that
  matches: the hash of a URI always selects the chain of an alias that is a whole-segment prefix of
  it. The alias name \<open>/\<close> is excluded.\<close>

theorem find_alias_configured:
  assumes "alias_hashtable sv = replicate ALIAS_HASHTABLE_SIZE []"
    and "add_aliases cfg sv = Some sv'" and "\<forall>t \<in> set cfg. fst t \<noteq> ''/''" and "is_cstr uri"
  shows "(find_alias sv' uri (length uri) \<noteq> None \<longleftrightarrow> (\<exists>t \<in> set cfg. alias_matches uri (length uri) (alias_of t))) \<and>
         (\<forall>a. find_alias sv' uri (length uri) = Some a \<longrightarrow>
            a \<in> alias_of ` set cfg \<and> alias_matches uri (length uri) a)"
proof -
  have ok: "alias_table_ok (alias_hashtable sv)" and empty: "aliases (alias_hashtable sv) = {}"
    unfolding assms(1) by (simp_all add: alias_table_ok_def aliases_def)
  note table = add_aliases_table [OF assms(2) ok assms(3), unfolded empty]
  have same: "alias_matches uri n a = alias_matches uri n b" if "fakename a = fakename b" for a b n
    using that by (simp add: alias_matches_def)
  have fake: "fakename (alias_of t) = fst t" for t by (auto simp: alias_of_def split: prod.split)
  have "(\<exists>a \<in> aliases (alias_hashtable sv'). alias_matches uri (length uri) a) \<longleftrightarrow>
        (\<exists>t \<in> set cfg. alias_matches uri (length uri) (alias_of t))"
  proof
    assume "\<exists>t \<in> set cfg. alias_matches uri (length uri) (alias_of t)"
    then show "\<exists>a \<in> aliases (alias_hashtable sv'). alias_matches uri (length uri) a"
      using table same fake by metis
  qed (use table in blast)
  then show ?thesis
    using find_alias_None [of sv' uri] find_alias_Some [of sv' uri] table assms(4) by blast
qed

theorem find_alias_configured_witness:
  "\<exists>sv'. add_aliases [(''/docs'', ''/usr/doc'', ALIAS), (''/cgi-bin/'', ''/usr/cgi/'', SCRIPTALIAS)] example_server = Some sv' \<and>
     find_alias sv' ''/cgi-bin/x'' (length ''/cgi-bin/x'') \<noteq> None \<and>
     find_alias sv' ''/docs2/y'' (length ''/docs2/y'') = None"
proof -
  let ?cfg = "[(''/docs'', ''/usr/doc'', ALIAS), (''/cgi-bin/'', ''/usr/cgi/'', SCRIPTALIAS)]"
  have empty: "alias_hashtable example_server = replicate ALIAS_HASHTABLE_SIZE []"
    by (simp add: example_server_def ALIAS_HASHTABLE_SIZE_def)
  have "butlast (replicate n [] ! m) = [] \<or> m \<ge> n" for n m by (cases "m < n") auto
  then have "add_aliases ?cfg example_server \<noteq> None"
    by (auto simp: add_alias_def Let_def try_alloc_def example_server_def split: option.split)
  then obtain sv' where sv': "add_aliases ?cfg example_server = Some sv'" by blast
  have "\<forall>t \<in> set ?cfg. fst t \<noteq> ''/''" by simp
  note found = find_alias_configured [OF empty sv' this, THEN conjunct1]
  have "\<exists>t \<in> set ?cfg. alias_matches ''/cgi-bin/x'' (length ''/cgi-bin/x'') (alias_of t)"
    "\<not> (\<exists>t \<in> set ?cfg. alias_matches ''/docs2/y'' (length ''/docs2/y'') (alias_of t))"
    by (simp_all add: alias_of_def alias_matches_def char_at_def)
  then show ?thesis
    using found [of "''/cgi-bin/x''"] found [of "''/docs2/y''"] sv' by (simp del: list.size)
qed


end
