(* ===== verification/Cgi.thy ===== *)
theory Cgi
  imports Alias
begin

text \<open>
  Starting a CGI program (\<open>cgi.c\<close>): the common environment, the environment and the arguments of a
  request, and \<open>init_cgi\<close> on the side of the server. What the program writes is the input of the request's data
  channel; the process that becomes the program is in theory \<open>Cgi_Child\<close>.
\<close>

section \<open>The environment\<close>

definition CGI_ARGC_MAX :: nat where "CGI_ARGC_MAX = 128"
definition COMMON_CGI_COUNT :: nat where "COMMON_CGI_COUNT = 7"
definition DEFAULT_PATH :: string where "DEFAULT_PATH = ''/bin:/sbin:/usr/bin:/usr/sbin''"
definition DEFAULT_LD_LIBRARY_PATH :: string where "DEFAULT_LD_LIBRARY_PATH = ''/lib:/usr/lib''"
definition CGI_VERSION :: string where "CGI_VERSION = ''CGI/1.1''"

text \<open>
  \<open>key=value\<close> in fresh memory, or null; the extra bytes before the key are filled by the caller.
\<close>

definition env_gen_extra :: "string \<Rightarrow> string option \<Rightarrow> server \<Rightarrow> string option \<times> server" where
  "env_gen_extra key val sv =
     (case try_alloc sv of (ok, sv) \<Rightarrow>
        (if ok then Some (key @ ''='' @ (case val of Some v \<Rightarrow> v | None \<Rightarrow> [])) else None, sv))"

fun gen_all :: "(string \<times> string option) list \<Rightarrow> server \<Rightarrow> string option list \<times> server" where
  "gen_all [] sv = ([], sv)"
| "gen_all ((key, val) # kvs) sv =
     (case env_gen_extra key val sv of (e, sv) \<Rightarrow>
        case gen_all kvs sv of (es, sv) \<Rightarrow> (e # es, sv))"

text \<open>\<open>None\<close> is the fatal exit. The paths and the administrator are configuration strings.\<close>

definition create_common_env ::
  "string option \<Rightarrow> string option \<Rightarrow> string option \<Rightarrow> server \<Rightarrow> server option" where
  "create_common_env cgi_path ld_path admin sv =
     (case try_alloc sv of (ok, sv) \<Rightarrow>
      if \<not> ok then None
      else
        (case gen_all
           [(''PATH'', Some (case cgi_path of Some p \<Rightarrow> p | None \<Rightarrow> DEFAULT_PATH)),
            (''SERVER_SOFTWARE'', Some SERVER_VERSION),
            (''SERVER_NAME'', Some (server_name sv)),
            (''GATEWAY_INTERFACE'', Some CGI_VERSION),
            (''SERVER_PORT'', Some (simple_itoa (server_port sv))),
            (''LD_LIBRARY_PATH'', Some (case ld_path of Some p \<Rightarrow> p | None \<Rightarrow> DEFAULT_LD_LIBRARY_PATH)),
            (''SERVER_ADMIN'', admin)] sv of (es, sv) \<Rightarrow>
         if length es \<noteq> COMMON_CGI_COUNT then None
         else if None \<in> set es then None
         else Some (sv\<lparr>common_cgi_env := map the es\<rparr>)))"

definition add_to_common_env :: "string \<Rightarrow> string \<Rightarrow> server \<Rightarrow> server option" where
  "add_to_common_env key val sv =
     (case try_alloc sv of (ok, sv) \<Rightarrow>
      if \<not> ok then None
      else
        (case env_gen_extra key (Some val) sv of (e, sv) \<Rightarrow>
         case e of
           None \<Rightarrow> None
         | Some e \<Rightarrow>
             (let env = common_cgi_env sv @ [e] in
              if length env > CGI_ENV_MAX then None else Some (sv\<lparr>common_cgi_env := env\<rparr>))))"

text \<open>Storing a pointer in the environment array of the request; a gap below it holds no valid entry.\<close>

definition env_set :: "string list \<Rightarrow> nat \<Rightarrow> string \<Rightarrow> string list" where
  "env_set env i e = take i env @ replicate (i - length env) [] @ [e] @ drop (Suc i) env"

definition add_cgi_env :: "request \<Rightarrow> string \<Rightarrow> string option \<Rightarrow> bool \<Rightarrow> server \<Rightarrow> int \<times> request \<times> server" where
  "add_cgi_env r key val http_prefix sv =
     (if cgi_env_index r < CGI_ENV_MAX then
        (case env_gen_extra key val sv of (e, sv) \<Rightarrow>
         case e of
           None \<Rightarrow> (0, r, sv)
         | Some e \<Rightarrow>
             (let e = (if http_prefix then ''HTTP_'' @ e else e)
              in (1, r\<lparr>cgi_env := env_set (cgi_env r) (cgi_env_index r) e,
                       cgi_env_index := cgi_env_index r + 1\<rparr>, sv)))
      else (0, r, sv))"

fun method_name :: "http_method \<Rightarrow> string" where
  "method_name M_POST = ''POST''"
| "method_name M_HEAD = ''HEAD''"
| "method_name M_GET = ''GET''"
| "method_name _ = ''UNKNOWN''"

text \<open>The variables \<open>complete_env\<close> adds, in the order it adds them.\<close>

definition request_vars :: "server \<Rightarrow> request \<Rightarrow> (string \<times> string option) list" where
  "request_vars sv r =
     [(''REQUEST_METHOD'', Some (method_name (req_method r)))] @
     (if header_host r \<noteq> None then [(''HTTP_HOST'', header_host r)] else []) @
     [(''SERVER_ADDR'', Some (local_ip_addr r)),
      (''SERVER_PROTOCOL'', Some (http_ver_string (http_version r))),
      (''REQUEST_URI'', Some (request_uri r))] @
     (if path_info r \<noteq> None then [(''PATH_INFO'', path_info r)] else []) @
     (if path_translated r \<noteq> None then [(''PATH_TRANSLATED'', path_translated r)] else []) @
     [(''SCRIPT_NAME'', script_name r)] @
     (if query_string r \<noteq> None then [(''QUERY_STRING'', query_string r)] else []) @
     [(''REMOTE_ADDR'', Some (remote_ip_addr r)),
      (''REMOTE_PORT'', Some (simple_itoa (remote_port r)))] @
     (if req_method r = M_POST then
        [(''CONTENT_TYPE'', if content_type r \<noteq> None then content_type r else default_type sv)] @
        (if content_length r \<noteq> None then [(''CONTENT_LENGTH'', content_length r)] else [])
      else [])"

fun add_vars :: "(string \<times> string option) list \<Rightarrow> request \<Rightarrow> server \<Rightarrow> int \<times> request \<times> server" where
  "add_vars [] r sv = (1, r, sv)"
| "add_vars ((key, val) # kvs) r sv =
     (case add_cgi_env r key val False sv of (v, r, sv) \<Rightarrow> if v = 0 then (0, r, sv) else add_vars kvs r sv)"

text \<open>
  The loop copies the common variables to the front of the array. The final terminator is
  the end of the list.
\<close>

definition complete_env :: "request \<Rightarrow> server \<Rightarrow> int \<times> request \<times> server" where
  "complete_env r sv =
     (let r = r\<lparr>cgi_env := common_cgi_env sv @ drop (length (common_cgi_env sv)) (cgi_env r)\<rparr> in
      case add_vars (request_vars sv r) r sv of (v, r, sv) \<Rightarrow>
        if v = 0 then (0, r, sv)
        else if cgi_env_index r < CGI_ENV_MAX + 1
        then (1, r\<lparr>cgi_env := take (cgi_env_index r) (cgi_env r)\<rparr>, sv)
        else (0, r, sv))"

section \<open>The arguments\<close>

text \<open>The words of an index query, split at plus signs, those that decode, up to the limit.\<close>

function argv_loop :: "string option \<Rightarrow> nat \<Rightarrow> string list" where
  "argv_loop None aargc = []"
| "argv_loop (Some q) aargc =
     (if aargc < CGI_ARGC_MAX then
        (let p = strchr q (CHR ''+'');
             word = (case p of Some k \<Rightarrow> take k q | None \<Rightarrow> q);
             rest = (case p of Some k \<Rightarrow> Some (drop (Suc k) q) | None \<Rightarrow> None)
         in case unescape_uri False word of (ok, arg, _) \<Rightarrow>
              if ok then arg # argv_loop rest (aargc + 1) else argv_loop rest aargc)
      else [])"
  by pat_completeness auto
termination
proof (relation "measure (\<lambda>(q, _). case q of None \<Rightarrow> 0 | Some s \<Rightarrow> Suc (length s))", goal_cases)
  case 1
  then show ?case by simp
next
  case (2 q aargc p word rest)
  then show ?case by (auto split: option.split dest: strchr_Some)
next
  case (3 q aargc p word rest)
  then show ?case by (auto split: option.split dest: strchr_Some)
qed

declare argv_loop.simps(2) [simp del]

definition create_argv :: "string \<Rightarrow> string option \<Rightarrow> string list" where
  "create_argv path query =
     path # (case query of
               Some q \<Rightarrow> if strchr q (CHR ''='') = None then argv_loop (Some q) 1 else []
             | None \<Rightarrow> [])"

section \<open>Starting the program\<close>

definition ends_with_slash :: "string \<Rightarrow> bool" where
  "ends_with_slash path \<longleftrightarrow> path \<noteq> [] \<and> last path = CHR ''/''"

definition path_of :: "request \<Rightarrow> string" where
  "path_of r = (case pathname r of Some p \<Rightarrow> p | None \<Rightarrow> [])"

text \<open>The child changes to the directory of a script and calls it by \<open>./name\<close>. \<open>None\<close> is its failed exit.\<close>

definition child_path :: "request \<Rightarrow> server \<Rightarrow> (string option \<times> string \<times> server) option" where
  "child_path r sv =
     (if cgi_type r \<noteq> CGI_NONE then
        (case strrchr (path_of r) (CHR ''/'') of
           None \<Rightarrow> None
         | Some c \<Rightarrow>
             (let dir = take c (path_of r) in
              if fs_chdir sv dir \<noteq> None then None
              else (case try_alloc sv of (ok, sv) \<Rightarrow>
                      if \<not> ok then None
                      else Some (Some dir, ''./'' @ drop (Suc c) (path_of r), sv))))
      else Some (None, path_of r, sv))"

text \<open>CGI programs and the directory generator write to a pipe, all others to the socket.\<close>

definition use_pipes :: "request \<Rightarrow> bool" where
  "use_pipes r \<longleftrightarrow> cgi_type r = CGI \<or> (cgi_type r = CGI_NONE \<and> ends_with_slash (path_of r))"

text \<open>The server after a successful fork; \<open>rd\<close> and \<open>wrt\<close> are the ends of the pipe.\<close>

definition cgi_parent :: "nat \<Rightarrow> nat \<Rightarrow> request \<Rightarrow> server \<Rightarrow> int \<times> request \<times> server" where
  "cgi_parent rd wrt r sv =
     (let (r, sv) = (if req_method r = M_POST
                     then (r\<lparr>post_data_fd := 0\<rparr>, fd_close (post_data_fd r) sv) else (r, sv))
      in if \<not> use_pipes r then (0, r, sv)
         else
           (let sv = fd_close wrt sv;
                r = r\<lparr>data_fd := rd, status := PIPE_READ\<rparr>;
                r = (if cgi_type r = CGI
                     then r\<lparr>cgi_status := CGI_PARSE, header_line := Buf (BUFFER_SIZE div 2),
                            header_end := Buf (BUFFER_SIZE div 2)\<rparr>
                     else r\<lparr>cgi_status := CGI_BUFFER, header_line := Buf 0, header_end := Buf 0\<rparr>)
            in (1, r\<lparr>filepos := 0\<rparr>, sv)))"

definition cgi_fork :: "request \<Rightarrow> server \<Rightarrow> int \<times> request \<times> server" where
  "cgi_fork r sv =
     (if use_pipes r then
        (case try_sys sv of (ok, sv) \<Rightarrow>
         if \<not> ok then (0, r, sv)
         else
           (case fd_open sv of (rd, sv) \<Rightarrow>
            case fd_open sv of (wrt, sv) \<Rightarrow>
            case try_sys sv of (ok, sv) \<Rightarrow>
              if \<not> ok then (0, r, fd_close wrt (fd_close rd sv))
              else case try_sys sv of (ok, sv) \<Rightarrow>
                if \<not> ok then (0, boa_perror sv r, fd_close wrt (fd_close rd sv))
                else cgi_parent rd wrt r sv))
      else (case try_sys sv of (ok, sv) \<Rightarrow>
              if \<not> ok then (0, boa_perror sv r, sv) else cgi_parent 0 0 r sv))"

definition init_cgi :: "request \<Rightarrow> server \<Rightarrow> int \<times> request \<times> server" where
  "init_cgi r sv =
     (let r = SQUASH_KA r in
      if cgi_type r \<noteq> CGI_NONE then
        (case complete_env r sv of (v, r, sv) \<Rightarrow> if v = 0 then (0, r, sv) else cgi_fork r sv)
      else cgi_fork r sv)"

section \<open>The environment a program gets\<close>

definition env_entry :: "string \<times> string option \<Rightarrow> string" where
  "env_entry kv = fst kv @ ''='' @ (case snd kv of Some v \<Rightarrow> v | None \<Rightarrow> [])"

lemma env_set_take: "i \<le> length env \<Longrightarrow> take (Suc i) (env_set env i e) = take i env @ [e]"
  by (simp add: env_set_def)

lemma add_cgi_env_cases:
  assumes "add_cgi_env r key val pre sv = (v, r', sv')"
  shows "(v = 0 \<and> r' = r) \<or>
         (v = 1 \<and> cgi_env_index r < CGI_ENV_MAX \<and>
          r' = r\<lparr>cgi_env := env_set (cgi_env r) (cgi_env_index r) ((if pre then ''HTTP_'' else []) @ env_entry (key, val)),
                 cgi_env_index := cgi_env_index r + 1\<rparr>)"
  using assms
  by (auto simp: add_cgi_env_def env_gen_extra_def env_entry_def Let_def split: if_splits prod.splits)

lemma add_vars_result:
  assumes "add_vars kvs r sv = (v, r', sv')" and "v \<noteq> 0" and "cgi_env_index r \<le> length (cgi_env r)"
  shows "v = 1 \<and> cgi_env_index r' = cgi_env_index r + length kvs \<and> cgi_env_index r' \<le> length (cgi_env r') \<and>
         (kvs = [] \<or> cgi_env_index r' \<le> CGI_ENV_MAX) \<and>
         take (cgi_env_index r') (cgi_env r') = take (cgi_env_index r) (cgi_env r) @ map env_entry kvs \<and>
         r' = r\<lparr>cgi_env := cgi_env r', cgi_env_index := cgi_env_index r'\<rparr>"
  using assms
proof (induction kvs r sv rule: add_vars.induct)
  case (2 key val kvs r sv)
  obtain w r1 sv1 where add: "add_cgi_env r key val False sv = (w, r1, sv1)" by (metis prod_cases3)
  then have w: "w \<noteq> 0" "add_vars kvs r1 sv1 = (v, r', sv')" using 2(2,3) by (auto split: if_splits)
  then have r1: "r1 = r\<lparr>cgi_env := env_set (cgi_env r) (cgi_env_index r) (env_entry (key, val)),
                 cgi_env_index := cgi_env_index r + 1\<rparr>" and i: "cgi_env_index r < CGI_ENV_MAX"
    using add_cgi_env_cases [OF add] by auto
  have "cgi_env_index r1 \<le> length (cgi_env r1)" using 2(4) by (simp add: r1 env_set_def)
  from 2(1) [OF add [symmetric] refl w(1,2) 2(3) this] show ?case
    using i env_set_take [OF 2(4), of "env_entry (key, val)"] by (auto simp: r1)
qed simp

lemma complete_env_result:
  assumes "complete_env r sv = (1, r', sv')"
    and "length (common_cgi_env sv) \<le> cgi_env_index r" and "cgi_env_index r \<le> length (cgi_env r)"
  shows "cgi_env r' = common_cgi_env sv @ drop (length (common_cgi_env sv)) (take (cgi_env_index r) (cgi_env r)) @
           map env_entry (request_vars sv r) \<and> length (cgi_env r') \<le> CGI_ENV_MAX"
proof -
  let ?c = "common_cgi_env sv"
  let ?r = "r\<lparr>cgi_env := ?c @ drop (length ?c) (cgi_env r)\<rparr>"
  obtain v r1 sv1 where add: "add_vars (request_vars sv ?r) ?r sv = (v, r1, sv1)" by (metis prod_cases3)
  have v: "v \<noteq> 0" "r' = r1\<lparr>cgi_env := take (cgi_env_index r1) (cgi_env r1)\<rparr>"
    using assms(1) add by (auto simp: complete_env_def Let_def split: if_splits)
  have vars: "request_vars sv ?r = request_vars sv r" by (simp add: request_vars_def)
  have "request_vars sv r \<noteq> []" by (simp add: request_vars_def)
  then have max: "cgi_env_index r1 \<le> CGI_ENV_MAX"
    and env: "take (cgi_env_index r1) (cgi_env r1) = take (cgi_env_index ?r) (cgi_env ?r) @ map env_entry (request_vars sv r)"
    using add_vars_result [OF add v(1)] assms(2,3) unfolding vars by auto
  have "take (cgi_env_index ?r) (cgi_env ?r) = ?c @ drop (length ?c) (take (cgi_env_index r) (cgi_env r))"
    using assms(2) by (simp add: drop_take)
  moreover have "cgi_env r' = take (cgi_env_index r1) (cgi_env r1)" using v(2) by simp
  moreover have "length (cgi_env r') \<le> cgi_env_index r1" using v(2) by simp
  ultimately show ?thesis using max env by simp
qed

section \<open>The arguments a program gets\<close>

fun plus_join :: "string list \<Rightarrow> string" where
  "plus_join [] = []"
| "plus_join [w] = w"
| "plus_join (w # v # ws) = w @ ''+'' @ plus_join (v # ws)"

lemma strchr_absent: "c \<notin> set w \<Longrightarrow> strchr w c = None"
  by (simp add: strchr_None)

lemma argv_loop_words:
  assumes "ws \<noteq> []" and "\<forall>w \<in> set ws. CHR ''+'' \<notin> set (enc w) \<and> unescape_uri False (enc w) = (True, w, None)"
    and "n + length ws \<le> CGI_ARGC_MAX"
  shows "argv_loop (Some (plus_join (map enc ws))) n = ws"
  using assms
proof (induction ws arbitrary: n rule: plus_join.induct)
  case (2 w)
  then show ?case by (simp add: argv_loop.simps strchr_absent)
next
  case (3 w v ws)
  have "argv_loop (Some (plus_join (map enc (v # ws)))) (n + 1) = v # ws"
    using 3(3,4) by (intro 3(1)) auto
  then show ?case using 3(3,4) by (simp add: argv_loop.simps(2) [of "_ @ _"] strchr_append)
qed simp

lemma INT_TO_HEX_range: "x < 16 \<Longrightarrow> uchar (INT_TO_HEX x) \<in> {48..57} \<union> {97..102}"
  by (auto simp: INT_TO_HEX_def)

lemma escape_char_set:
  assumes "d \<in> {CHR ''+'', CHR ''=''}" and "d \<noteq> c"
  shows "d \<notin> set (escape_char c)"
proof -
  have "uchar d = 43 \<or> uchar d = 61" using assms(1) by (auto simp: uchar_def)
  then have hex: "d \<noteq> INT_TO_HEX x" if "x < 16" for x
    using INT_TO_HEX_range [OF that] by (auto simp del: uchar_inject)
  have "d \<noteq> CHR ''%''" using assms(1) by auto
  with hex [of "uchar c div 16 mod 16"] hex [of "uchar c mod 16"] assms(2) show ?thesis
    by (simp add: escape_char_def)
qed

lemma query_words_encoded:
  assumes "\<forall>c \<in> set w. printable c \<and> c \<notin> {CHR ''?'', CHR ''+'', CHR ''=''}"
  shows "CHR ''+'' \<notin> set (concat (map escape_char w)) \<and> CHR ''='' \<notin> set (concat (map escape_char w)) \<and>
         unescape_uri False (concat (map escape_char w)) = (True, w, None)"
proof -
  have "d \<notin> set (escape_char c)" if "c \<in> set w" "d \<in> {CHR ''+'', CHR ''=''}" for c d
    using assms that by (intro escape_char_set) auto
  then have "CHR ''+'' \<notin> set (concat (map escape_char w))" "CHR ''='' \<notin> set (concat (map escape_char w))"
    by auto
  moreover have "unescape_uri False (concat (map escape_char w)) = (True, w, None)"
    using assms by (intro unescape_escape_string) auto
  ultimately show ?thesis by blast
qed

lemma set_plus_join: "set (plus_join ws) \<subseteq> insert (CHR ''+'') (\<Union>w \<in> set ws. set w)"
  by (induction ws rule: plus_join.induct) auto

section \<open>Descriptors\<close>

text \<open>New descriptors get numbers above all open ones.\<close>

definition fds_ok :: "server \<Rightarrow> bool" where
  "fds_ok sv \<longleftrightarrow> (\<forall>n \<in> set (open_fds sv). n < next_fd sv)"

lemma try_sys_fds:
  "try_sys sv = (b, sv') \<Longrightarrow> open_fds sv' = open_fds sv \<and> next_fd sv' = next_fd sv"
  by (auto simp: try_sys_def split: list.splits)

lemma try_alloc_fds:
  "try_alloc sv = (b, sv') \<Longrightarrow> open_fds sv' = open_fds sv \<and> next_fd sv' = next_fd sv"
  by (auto simp: try_alloc_def split: prod.splits)

lemma add_vars_fds:
  "add_vars kvs r sv = (v, r', sv') \<Longrightarrow>
   open_fds sv' = open_fds sv \<and> next_fd sv' = next_fd sv \<and> post_data_fd r' = post_data_fd r \<and> req_method r' = req_method r"
proof (induction kvs r sv rule: add_vars.induct)
  case (2 key val kvs r sv)
  obtain w r1 sv1 where add: "add_cgi_env r key val False sv = (w, r1, sv1)" by (metis prod_cases3)
  then have "open_fds sv1 = open_fds sv \<and> next_fd sv1 = next_fd sv \<and> post_data_fd r1 = post_data_fd r \<and> req_method r1 = req_method r"
    by (auto simp: add_cgi_env_def env_gen_extra_def Let_def dest!: try_alloc_fds split: if_splits prod.splits)
  then show ?case using 2 add by (auto split: if_splits)
qed simp

lemma complete_env_fds:
  "complete_env r sv = (v, r', sv') \<Longrightarrow>
   open_fds sv' = open_fds sv \<and> next_fd sv' = next_fd sv \<and> post_data_fd r' = post_data_fd r \<and>
   req_method r' = req_method r \<and> v \<in> {0, 1}"
  by (auto simp: complete_env_def Let_def dest!: add_vars_fds split: prod.splits if_splits)

text \<open>The descriptors that are open when the program has been started or could not be started.\<close>

definition cgi_fds :: "request \<Rightarrow> server \<Rightarrow> int \<times> request \<times> server \<Rightarrow> bool" where
  "cgi_fds r sv res \<longleftrightarrow>
     (case res of (v, r', sv') \<Rightarrow>
        (v = 1 \<and> status r' = PIPE_READ \<and> data_fd r' \<notin> set (open_fds sv) \<and>
         set (open_fds sv') = insert (data_fd r')
           (if req_method r = M_POST then set (open_fds sv) - {post_data_fd r} else set (open_fds sv))) \<or>
        (v = 0 \<and> set (open_fds sv') \<subseteq> set (open_fds sv)))"

lemma fds_simps [simp]:
  "open_fds (fd_close n sv) = removeAll n (open_fds sv)" "next_fd (fd_close n sv) = next_fd sv"
  "fd_open sv = (next_fd sv, sv\<lparr>next_fd := next_fd sv + 1, open_fds := next_fd sv # open_fds sv\<rparr>)"
  by (simp_all add: fd_close_def fd_open_def)

lemma cgi_parent_result:
  "cgi_parent rd wrt r sv = (v, r', sv') \<Longrightarrow>
   (v = 1 \<and> use_pipes r \<and> status r' = PIPE_READ \<and> data_fd r' = rd \<and> post_data_fd r' = (if req_method r = M_POST then 0 else post_data_fd r) \<and>
    open_fds sv' = removeAll wrt (if req_method r = M_POST then removeAll (post_data_fd r) (open_fds sv) else open_fds sv)) \<or>
   (v = 0 \<and> \<not> use_pipes r \<and> open_fds sv' = (if req_method r = M_POST then removeAll (post_data_fd r) (open_fds sv) else open_fds sv))"
  by (auto simp: cgi_parent_def use_pipes_def path_of_def Let_def split: if_splits)

lemma cgi_fork_fds:
  assumes "fds_ok sv" and "post_data_fd r < next_fd sv"
  shows "cgi_fds r sv (cgi_fork r sv)"
proof -
  have new: "next_fd sv \<notin> set (open_fds sv)" "Suc (next_fd sv) \<notin> set (open_fds sv)"
    using assms(1) by (auto simp: fds_ok_def)
  obtain b1 sv1 where s1: "try_sys sv = (b1, sv1)" by fastforce
  note f1 = try_sys_fds [OF s1]
  let ?sv = "sv1\<lparr>next_fd := Suc (Suc (next_fd sv)), open_fds := Suc (next_fd sv) # next_fd sv # open_fds sv\<rparr>"
  obtain b2 sv2 where s2: "try_sys ?sv = (b2, sv2)" by fastforce
  note f2 = try_sys_fds [OF s2]
  obtain b3 sv3 where s3: "try_sys sv2 = (b3, sv3)" by fastforce
  note f3 = try_sys_fds [OF s3]
  show ?thesis
  proof (cases "use_pipes r")
    case True
    obtain v r' sv' where p: "cgi_parent (next_fd sv) (Suc (next_fd sv)) r sv3 = (v, r', sv')" by (metis prod_cases3)
    show ?thesis
      using True cgi_parent_result [OF p] new f1 f2 f3 assms(2)
      by (auto simp: cgi_fork_def cgi_fds_def s1 s2 s3 p)
  next
    case False
    obtain v r' sv' where p: "cgi_parent 0 0 r sv1 = (v, r', sv')" by (metis prod_cases3)
    show ?thesis
      using False cgi_parent_result [OF p] f1 by (auto simp: cgi_fork_def cgi_fds_def s1 p)
  qed
qed

lemma init_cgi_fds:
  assumes "fds_ok sv" and "post_data_fd r < next_fd sv"
  shows "cgi_fds r sv (init_cgi r sv)"
proof -
  let ?r = "SQUASH_KA r"
  have sq: "post_data_fd ?r = post_data_fd r" "req_method ?r = req_method r" by (simp_all add: SQUASH_KA_def)
  have same: "cgi_fds r1 sv1 = cgi_fds r sv" if "open_fds sv1 = open_fds sv"
      "post_data_fd r1 = post_data_fd r" "req_method r1 = req_method r" for r1 sv1
    by (rule ext) (simp only: cgi_fds_def that)
  obtain v r1 sv1 where c: "complete_env ?r sv = (v, r1, sv1)" by (metis prod_cases3)
  note f = complete_env_fds [OF c]
  show ?thesis
  proof (cases "cgi_type ?r = CGI_NONE")
    case True
    have "cgi_fds ?r sv (cgi_fork ?r sv)" using assms by (intro cgi_fork_fds) (simp_all add: sq)
    then show ?thesis using True unfolding same [OF refl sq] by (simp add: init_cgi_def)
  next
    case False
    have "cgi_fds r1 sv1 (cgi_fork r1 sv1)" using assms f sq by (intro cgi_fork_fds) (simp_all add: fds_ok_def)
    then have "cgi_fds r sv (cgi_fork r1 sv1)" using f sq same [of sv1 r1] by simp
    moreover have "cgi_fds r sv (0, r1, sv1)" using f by (simp add: cgi_fds_def)
    ultimately show ?thesis using False by (simp add: init_cgi_def c)
  qed
qed

section \<open>Properties\<close>

text \<open>C31: The environment of a CGI program: when \<open>complete_env\<close> succeeds, the program receives, in this
  order, the common variables, the variables of the request headers added before, and the
  variables that describe the request, and never more than the array of the request can hold.\<close>

theorem cgi_environment_complete:
  assumes "complete_env r sv = (1, r', sv')"
    and "length (common_cgi_env sv) \<le> cgi_env_index r" and "cgi_env_index r \<le> length (cgi_env r)"
  shows "cgi_env r' = common_cgi_env sv @ drop (length (common_cgi_env sv)) (take (cgi_env_index r) (cgi_env r)) @
           map env_entry (request_vars sv r) \<and> length (cgi_env r') \<le> CGI_ENV_MAX"
  using assms by (rule complete_env_result)

theorem cgi_environment_complete_witness:
  "let sv = example_server\<lparr>common_cgi_env := [''PATH=/bin'']\<rparr>;
       r = example_request\<lparr>cgi_env := [''x'', ''HTTP_REFERER=y''], cgi_env_index := 2, script_name := Some ''/cgi''\<rparr>;
       (v, r', sv') = complete_env r sv
   in v = 1 \<and> take 3 (cgi_env r') = [''PATH=/bin'', ''HTTP_REFERER=y'', ''REQUEST_METHOD=GET'']"
proof -
  let ?sv = "example_server\<lparr>common_cgi_env := [''PATH=/bin'']\<rparr>"
  let ?r = "example_request\<lparr>cgi_env := [''x'', ''HTTP_REFERER=y''], cgi_env_index := 2, script_name := Some ''/cgi''\<rparr>"
  obtain v r' sv' where c: "complete_env ?r ?sv = (v, r', sv')" by (metis prod_cases3)
  have "fst (complete_env ?r ?sv) = 1"
    by (simp add: complete_env_def request_vars_def add_cgi_env_def env_gen_extra_def try_alloc_def
        example_server_def example_request_def CGI_ENV_MAX_def Let_def)
  with c have c1: "complete_env ?r ?sv = (1, r', sv')" by simp
  then show ?thesis
    using cgi_environment_complete [OF c1] by (simp add: request_vars_def env_entry_def example_request_def)
qed

text \<open>The arguments of an index query: for up to 127 words of printable characters without question
  mark, plus or equals sign, percent-encoded and joined by plus signs, the program gets its own path
  and then exactly those words, decoded; a query string with an equals sign gives no arguments.\<close>

theorem create_argv_index_query:
  assumes "ws \<noteq> []" and "length ws < CGI_ARGC_MAX"
    and "\<forall>w \<in> set ws. \<forall>c \<in> set w. printable c \<and> c \<notin> {CHR ''?'', CHR ''+'', CHR ''=''}"
  shows "create_argv path (Some (plus_join (map (\<lambda>w. concat (map escape_char w)) ws))) = path # ws \<and>
         (CHR ''='' \<in> set q \<longrightarrow> create_argv path (Some q) = [path])"
proof -
  let ?enc = "\<lambda>w. concat (map escape_char w)"
  have words: "\<forall>w \<in> set ws. CHR ''+'' \<notin> set (?enc w) \<and> CHR ''='' \<notin> set (?enc w) \<and> unescape_uri False (?enc w) = (True, w, None)"
    by (intro ballI query_words_encoded bspec [OF assms(3)])
  have "argv_loop (Some (plus_join (map ?enc ws))) 1 = ws"
    using assms(1,2) words by (intro argv_loop_words) simp_all
  moreover have "CHR ''='' \<notin> set (plus_join (map ?enc ws))"
    using words set_plus_join [of "map ?enc ws"] by auto
  ultimately show ?thesis
    by (simp add: create_argv_def strchr_None)
qed

theorem create_argv_index_query_witness:
  "create_argv ''./find'' (Some ''a%20b+c'') = [''./find'', ''a b'', ''c'']"
proof -
  have "plus_join (map (\<lambda>w. concat (map escape_char w)) [''a b'', ''c'']) = ''a%20b+c''"
    by (simp add: escape_char_def needs_escape_iff special_chars_def uchar_def INT_TO_HEX_def char_of_def bit_Suc_0_iff)
  then show ?thesis
    using create_argv_index_query [of "[''a b'', ''c'']" "''./find''" "[]"]
    by (simp add: CGI_ARGC_MAX_def printable_def uchar_def)
qed

text \<open>Starting a CGI program leaks no descriptor. When \<open>init_cgi\<close> returns 1 the request reads from a new
  pipe end, which is the only descriptor opened, and the write end and the file with the body of a
  POST are closed; when it returns 0 no new descriptor is open.\<close>

theorem init_cgi_descriptors:
  assumes "fds_ok sv" and "post_data_fd r < next_fd sv"
  shows "cgi_fds r sv (init_cgi r sv)"
  using assms by (rule init_cgi_fds)

theorem init_cgi_descriptors_witness:
  "let r = example_request\<lparr>cgi_type := CGI, pathname := Some ''/bin/x'', req_method := M_POST, post_data_fd := 5\<rparr>;
       sv = example_server\<lparr>open_fds := [5]\<rparr>
   in cgi_fds r sv (init_cgi r sv) \<and> fds_ok sv"
proof -
  have "fds_ok (example_server\<lparr>open_fds := [5]\<rparr>)" by (simp add: fds_ok_def example_server_def)
  then show ?thesis
    using init_cgi_descriptors [of "example_server\<lparr>open_fds := [5]\<rparr>"
        "example_request\<lparr>cgi_type := CGI, pathname := Some ''/bin/x'', req_method := M_POST, post_data_fd := 5\<rparr>"]
    by (simp add: example_server_def)
qed

end
