(* ===== verification/Get.thy ===== *)
theory Get
  imports Ranges Access Cgi
begin

text \<open>
  Serving files (\<open>get.c\<close>): opening the file of a GET or HEAD request, directories and their generated
  indexes, and writing the mapped file to the socket. \<open>None\<close> is the fatal exit when no memory
  is left for a range. A file is what \<open>open\<close> and \<open>fstat\<close> tell of it; the map of a file holds
  its contents. Whether a SIGBUS interrupts a copy from a map is one of the scripted outcomes.
\<close>

definition MAX_PATH_LENGTH :: nat where "MAX_PATH_LENGTH = 4096"
definition MAX_FILE_MMAP :: nat where "MAX_FILE_MMAP = 100 * 1024"

section \<open>Opening files\<close>

definition sys_open :: "string \<Rightarrow> server \<Rightarrow> (errno + nat \<times> file_info) \<times> server" where
  "sys_open path sv =
     (case fs_open sv path of
        Inl e \<Rightarrow> (Inl e, sv)
      | Inr f \<Rightarrow> (case fd_open sv of (n, sv) \<Rightarrow> (Inr (n, f), sv)))"

definition sys_unlink :: "string \<Rightarrow> server \<Rightarrow> server" where
  "sys_unlink path sv = sv\<lparr>fs_open := (fs_open sv)(path := Inl ENOENT)\<rparr>"

section \<open>Directories\<close>

text \<open>The page \<open>index_directory\<close> writes; \<open>escape_string\<close> may fail for lack of memory.\<close>

fun index_entries :: "string list \<Rightarrow> server \<Rightarrow> string \<times> server" where
  "index_entries [] sv = ([], sv)"
| "index_entries (name # names) sv =
     (if name = ''.'' then index_entries names sv
      else if name = ''..'' then
        (case index_entries names sv of (t, sv) \<Rightarrow>
           ('' [DIR] <A HREF='' @ [DQUOTE] @ ''../'' @ [DQUOTE] @ ''>Parent Directory</A>'' @ [LF] @ t, sv))
      else
        (case try_alloc sv of (ok, sv) \<Rightarrow>
           case index_entries names sv of (t, sv) \<Rightarrow>
             (case escape_string ok name of
                Some esc \<Rightarrow> '' <A HREF='' @ [DQUOTE] @ esc @ [DQUOTE] @ ''>'' @ name @ ''</A>'' @ [LF] @ t
              | None \<Rightarrow> t, sv)))"

definition index_page :: "string \<Rightarrow> string \<Rightarrow> string" where
  "index_page uri entries =
     ''<HTML><HEAD>'' @ [LF] @ ''<TITLE>Index of '' @ uri @ ''</TITLE>'' @ [LF] @ ''</HEAD>'' @ [LF, LF] @
     ''<BODY>'' @ [LF, LF] @ ''<H2>Index of '' @ uri @ ''</H2>'' @ [LF, LF] @ ''<PRE>'' @ [LF] @
     entries @ ''</PRE>'' @ [LF, LF] @ ''</BODY>'' @ [LF] @ ''</HTML>'' @ [LF]"

text \<open>\<open>EPERM\<close> is among the errors the model calls \<open>EACCES\<close>. The directory and the new file are open while it is written.\<close>

definition index_directory :: "request \<Rightarrow> string \<Rightarrow> server \<Rightarrow> int \<times> request \<times> server" where
  "index_directory r dest sv =
     (case fs_chdir sv (path_of r) of
        Some e \<Rightarrow> (-1, if e = EACCES then send_r_forbidden sv r else send_r_bad_request sv r, sv)
      | None \<Rightarrow>
          (case fs_readdir sv (path_of r) of
             None \<Rightarrow> (-1, send_r_error sv r, sv)
           | Some names \<Rightarrow>
               (case fd_open sv of (request_dir, sv) \<Rightarrow>
                case index_entries names sv of (entries, sv') \<Rightarrow>
                let page = index_page (request_uri r) entries in
                case fs_create sv dest page of
                  Inl e \<Rightarrow> (-1, boa_perror sv r, fd_close request_dir sv)
                | Inr f \<Rightarrow>
                    (case fd_open sv' of (fdstream, sv') \<Rightarrow>
                     let sv' = fd_close request_dir sv';
                         sv' = fd_close fdstream (sv'\<lparr>fs_open := (fs_open sv')(dest := Inr f)\<rparr>)
                     in (0, r\<lparr>filesize := of_nat (length page)\<rparr>, sv')))))"

text \<open>A directory gives a result to return, or the descriptor and description of the file to serve.\<close>

datatype dir_result = Dir_ret int | Dir_file nat file_info

text \<open>The name \<open>strcpy\<close> copies to the request; the code must not come here without a \<open>DirectoryIndex\<close>.\<close>

definition index_name :: "server \<Rightarrow> string" where
  "index_name sv = (case directory_index sv of Some n \<Rightarrow> n | None \<Rightarrow> [])"

text \<open>A signed number in decimal, as \<open>printf\<close> writes it.\<close>

definition print_signed :: "int \<Rightarrow> string" where
  "print_signed i = (if i < 0 then CHR ''-'' # decimal (nat (- i)) else decimal (nat i))"

definition cache_name :: "server \<Rightarrow> file_info \<Rightarrow> string" where
  "cache_name sv f =
     take (MAX_PATH_LENGTH - 1)
       ((case cachedir sv of Some d \<Rightarrow> d | None \<Rightarrow> []) @ ''/dir.'' @
        print_signed (sint (of_nat (f_dev f) :: 32 word)) @ ''.'' @ print_signed (sint (of_nat (f_ino f) :: 64 word)))"

text \<open>The second half of \<open>get_cachedir_file\<close>: write the index and open it.\<close>

definition make_cachedir_file :: "request \<Rightarrow> file_info \<Rightarrow> server \<Rightarrow> dir_result \<times> request \<times> server" where
  "make_cachedir_file r f sv =
     (case index_directory r (cache_name sv f) sv of (v, r, sv) \<Rightarrow>
        if v = -1 then (Dir_ret (-1), r, sv)
        else (case sys_open (cache_name sv f) sv of (res, sv) \<Rightarrow>
                case res of
                  Inr (n, g) \<Rightarrow> (Dir_file n (g\<lparr>f_mtime := f_mtime f\<rparr>), r\<lparr>request_uri := index_name sv\<rparr>, sv)
                | Inl e \<Rightarrow> (Dir_ret (-1), boa_perror sv r, sv)))"

definition get_cachedir_file :: "request \<Rightarrow> file_info \<Rightarrow> server \<Rightarrow> dir_result \<times> request \<times> server" where
  "get_cachedir_file r f sv =
     (case sys_open (cache_name sv f) sv of (res, sv) \<Rightarrow>
        case res of
          Inr (n, g) \<Rightarrow>
            if f_mtime g > f_mtime f
            then (Dir_file n (g\<lparr>f_mtime := f_mtime f\<rparr>), r\<lparr>request_uri := index_name sv\<rparr>, sv)
            else make_cachedir_file r f (sys_unlink (cache_name sv f) (fd_close n sv))
        | Inl e \<Rightarrow> make_cachedir_file r f sv)"

text \<open>The headers of a response that a decompressing program or the indexer completes.\<close>

definition dir_ret :: "int \<times> request \<times> server \<Rightarrow> dir_result \<times> request \<times> server" where
  "dir_ret res = (case res of (v, r, sv) \<Rightarrow> (Dir_ret v, r, sv))"

definition gunzip_index :: "request \<Rightarrow> string \<Rightarrow> server \<Rightarrow> int \<times> request \<times> server" where
  "gunzip_index r path sv =
     (let r = SQUASH_KA (r\<lparr>response_status := R_REQUEST_OK\<rparr>) in
      case try_alloc sv of (ok, sv) \<Rightarrow>
        if \<not> ok then (0, boa_perror sv (r\<lparr>pathname := None\<rparr>), sv)
        else
          (let r = r\<lparr>pathname := Some path\<rparr>;
               r = (if http_version r \<noteq> HTTP09 then
                      flush (wr (CRLF @ CRLF) (wr (case mime_type sv (index_name sv) of Some t \<Rightarrow> t | None \<Rightarrow> [])
                        (wr ''Content-Type: '' (print_last_modified sv (print_http_headers sv
                          (wr ('' 200 OK-GUNZIP'' @ CRLF) (wr (http_ver_string (http_version r)) r)))))))
                    else r)
           in if req_method r = M_HEAD then (0, r, sv) else init_cgi r sv))"

definition make_index :: "request \<Rightarrow> server \<Rightarrow> int \<times> request \<times> server" where
  "make_index r sv =
     (let r = SQUASH_KA (r\<lparr>response_status := R_REQUEST_OK\<rparr>);
          r = (if http_version r \<noteq> HTTP09 then
                 flush (wr (''Content-Type: text/html'' @ CRLF @ CRLF) (print_last_modified sv (print_http_headers sv
                   (wr ('' 200 OK'' @ CRLF) (wr (http_ver_string (http_version r)) r)))))
               else r)
      in if req_method r = M_HEAD then (0, r, sv) else init_cgi r sv)"

text \<open>What is done with a directory that has no index file.\<close>

definition get_dir_default :: "request \<Rightarrow> file_info \<Rightarrow> server \<Rightarrow> dir_result \<times> request \<times> server" where
  "get_dir_default r f sv =
     (if dirmaker sv \<noteq> None then dir_ret (make_index r sv)
      else if cachedir sv \<noteq> None then get_cachedir_file r f sv
      else (Dir_ret (-1), send_r_forbidden sv r, sv))"

definition get_dir :: "request \<Rightarrow> file_info \<Rightarrow> server \<Rightarrow> dir_result \<times> request \<times> server" where
  "get_dir r f sv =
     (case directory_index sv of
        None \<Rightarrow> get_dir_default r f sv
      | Some index \<Rightarrow>
          (let path = path_of r @ index;
               room = (if build_gunzip sv then 3 else 0) in
           if length path + room + 1 > MAX_PATH_LENGTH then (Dir_ret (-1), boa_perror sv r, sv)
           else
             (case sys_open path sv of (res, sv) \<Rightarrow>
              case res of
                Inr (n, g) \<Rightarrow> (Dir_file n g, r\<lparr>request_uri := index\<rparr>, sv)
              | Inl e \<Rightarrow>
                  if e = EACCES then (Dir_ret (-1), send_r_forbidden sv r, sv)
                  else if e \<noteq> ENOENT then (Dir_ret (-1), send_r_not_found sv r, sv)
                  else if build_gunzip sv then
                    (case sys_open (path @ ''.gz'') sv of (gz, sv) \<Rightarrow>
                       case gz of
                         Inr (n, _) \<Rightarrow> dir_ret (gunzip_index r (path @ ''.gz'') (fd_close n sv))
                       | Inl _ \<Rightarrow> get_dir_default r f sv)
                  else get_dir_default r f sv)))"

section \<open>Starting a GET or HEAD request\<close>

text \<open>A compressed file in place of a missing one.\<close>

definition gunzip_file :: "request \<Rightarrow> server \<Rightarrow> int \<times> request \<times> server" where
  "gunzip_file r sv =
     (let path = path_of r @ ''.gz'';
          r = r\<lparr>response_status := R_REQUEST_OK\<rparr> in
      case try_alloc sv of (ok, sv) \<Rightarrow>
        if \<not> ok then (0, boa_perror sv (r\<lparr>pathname := None\<rparr>), sv)
        else
          (let r = r\<lparr>pathname := Some path\<rparr>;
               r = (if http_version r \<noteq> HTTP09 then
                      flush (wr CRLF (print_last_modified sv (print_content_type sv (print_http_headers sv
                        (wr ('' 200 OK-GUNZIP'' @ CRLF) (wr (http_ver_string (http_version r)) r))))))
                    else r)
           in if req_method r = M_HEAD then (0, r, sv) else init_cgi r sv))"

definition open_failed :: "errno \<Rightarrow> request \<Rightarrow> server \<Rightarrow> int \<times> request \<times> server" where
  "open_failed e r sv =
     (0, if e = ENOENT then send_r_not_found sv r
         else if e = EACCES then send_r_forbidden sv r
         else send_r_bad_request sv r, sv)"

text \<open>
  The redirection of a directory to its name with a slash. The two length tests leave no
  room for the terminator, which can fall one byte behind the array.
\<close>

definition dir_url :: "request \<Rightarrow> server \<Rightarrow> string" where
  "dir_url r sv =
     ''http://'' @ (case host r of Some h \<Rightarrow> h | None \<Rightarrow> server_name sv) @
     (if server_port sv \<noteq> 80 then '':'' @ simple_itoa (server_port sv) else []) @ request_uri r @ ''/''"

definition dir_redirect :: "request \<Rightarrow> server \<Rightarrow> int \<times> request \<times> server" where
  "dir_redirect r sv =
     (let (ok, sv) = (if server_port sv \<noteq> 80 then try_alloc sv else (True, sv)) in
      if \<not> ok then (0, boa_perror sv r, sv)
      else if length (dir_url r sv) > 3 * MAX_PATH_LENGTH + 128 then (0, boa_perror sv r, sv)
      else (0, send_r_moved_perm sv (dir_url r sv) r, sv))"

definition file_size :: "file_info \<Rightarrow> 64 word" where
  "file_size f = of_nat (length (f_content f))"

definition file_id :: "file_info \<Rightarrow> stat_id" where
  "file_id f = \<lparr>st_dev = f_dev f, st_ino = f_ino f, st_size = length (f_content f)\<rparr>"

text \<open>The file is mapped if it is small and the cache accepts it, and read from its descriptor otherwise.\<close>

definition attach_file :: "nat \<Rightarrow> file_info \<Rightarrow> request \<Rightarrow> server \<Rightarrow> request \<times> server" where
  "attach_file n f r sv =
     (if filesize r > of_nat MAX_FILE_MMAP then (r\<lparr>data_fd := n, data_file := f_content f, status := IOSHUFFLE\<rparr>, sv)
      else
        (case find_mmap (file_id f) (mmap_addr sv) (madvise_ok sv) (mmaps sv) of (e, ms) \<Rightarrow>
         let sv = sv\<lparr>mmaps := ms\<rparr>; r = r\<lparr>mmap_entry_var := e\<rparr> in
         case e of
           None \<Rightarrow> (r\<lparr>data_fd := n, data_file := f_content f, status := IOSHUFFLE\<rparr>, sv)
         | Some i \<Rightarrow> (r\<lparr>data_mem := Some (f_content f)\<rparr>, fd_close n sv)))"

text \<open>The whole file when no range was asked for, the ranges otherwise. \<open>None\<close> is the fatal exit.\<close>

definition send_file_headers :: "request \<Rightarrow> server \<Rightarrow> (bool \<times> request \<times> server) option" where
  "send_file_headers r sv =
     (if ranges r = [] then
        (case range_pool_pop sv of
           None \<Rightarrow> None
         | Some (x, sv) \<Rightarrow>
             (case ranges_fixup (r\<lparr>ranges := [x\<lparr>r_start := 0, r_stop := -1\<rparr>]\<rparr>) sv of (v, r, sv) \<Rightarrow>
                if v = 0 then Some (False, r, sv) else Some (True, send_r_request_ok sv r, sv)))
      else Some (True, send_r_partial_content sv r, sv))"

text \<open>
  The start of a mapped file goes to the output buffer with the headers, as far as it fits and if
  more than 256 bytes are free.
\<close>

definition buffer_start_of_file :: "request \<Rightarrow> server \<Rightarrow> int \<times> request \<times> server" where
  "buffer_start_of_file r sv =
     (let bytes_free = nat ((int BUFFER_SIZE - int (buffer_end r)) mod 2 ^ 32) in
      if data_mem r \<noteq> None \<and> bytes_free > 256 then
        (let x = hd (ranges r);
             want = unat (ucast (r_stop x - r_start x + 1) :: 32 word);
             k = (if bytes_free > want then want else bytes_free)
         in case try_sys sv of (ok, sv) \<Rightarrow>
              if \<not> ok then (0, send_r_error sv (reset_output_buffer r), sv)
              else
                (let r = r\<lparr>buffer := blit (buffer r) (buffer_end r)
                                     (take k (drop (unat (r_start x)) (the (data_mem r)))),
                           buffer_end := buffer_end r + k,
                           bytes_written := bytes_written r + of_nat k,
                           ranges := x\<lparr>r_start := r_start x + of_nat k\<rparr> # tl (ranges r)\<rparr>
                 in if k = want then complete_response r sv else (1, r, sv)))
      else (1, r, sv))"

definition serve_file :: "nat \<Rightarrow> file_info \<Rightarrow> request \<Rightarrow> server \<Rightarrow> (int \<times> request \<times> server) option" where
  "serve_file n f r sv =
     (let (r, sv) = attach_file n f r sv in
      case send_file_headers r sv of
        None \<Rightarrow> None
      | Some (ok, r, sv) \<Rightarrow>
          if \<not> ok then Some (0, r, sv)
          else if req_method r = M_HEAD then Some (complete_response r sv)
          else Some (buffer_start_of_file r sv))"

text \<open>The request once its file is open and described.\<close>

definition init_file :: "nat \<Rightarrow> file_info \<Rightarrow> request \<Rightarrow> server \<Rightarrow> (int \<times> request \<times> server) option" where
  "init_file n f r sv =
     (if f_kind f \<noteq> Regular then Some (0, send_r_bad_request sv r, fd_close n sv)
      else if (case if_modified_since r of Some d \<Rightarrow> modified_since (f_mtime f) d = 0 | None \<Rightarrow> False)
      then Some (0, send_r_not_modified sv r, fd_close n sv)
      else
        (let r = r\<lparr>filesize := file_size f, last_modified := f_mtime f, header_ifrange := None\<rparr> in
         if filesize r = 0 then
           Some (0, if http_version r \<noteq> HTTP11 then send_r_request_ok sv r else send_r_no_content sv r, fd_close n sv)
         else if ranges r \<noteq> [] then
           (case ranges_fixup r sv of (v, r, sv) \<Rightarrow>
              if v = 0 then Some (0, r, fd_close n sv) else serve_file n f r sv)
         else serve_file n f r sv))"

definition init_get :: "request \<Rightarrow> server \<Rightarrow> (int \<times> request \<times> server) option" where
  "init_get r sv =
     (let path = path_of r in
      case sys_open path sv of (res, sv) \<Rightarrow>
        case res of
          Inl e \<Rightarrow>
            if build_gunzip sv \<and> e = ENOENT then
              (if length path + 4 > MAX_PATH_LENGTH then Some (0, send_r_bad_request sv r, sv)
               else (case sys_open (path @ ''.gz'') sv of (gz, sv) \<Rightarrow>
                       case gz of
                         Inr (m, _) \<Rightarrow> Some (gunzip_file r (fd_close m sv))
                       | Inl _ \<Rightarrow> Some (open_failed e r sv)))
            else Some (open_failed e r sv)
        | Inr (n, f) \<Rightarrow>
            if build_access_control sv \<and> \<not> access_allow sv path then Some (0, send_r_forbidden sv r, sv)
            else if f_kind f = Directory then
              (let sv = fd_close n sv in
               if \<not> ends_with_slash path then Some (dir_redirect r sv)
               else (case get_dir r f sv of (d, r, sv) \<Rightarrow>
                       case d of
                         Dir_ret v \<Rightarrow> Some (if v < 0 then 0 else v, r, sv)
                       | Dir_file n f \<Rightarrow> init_file n f r sv))
            else init_file n f r sv)"

section \<open>Writing a mapped file\<close>

definition process_get :: "request \<Rightarrow> server \<Rightarrow> int \<times> request \<times> server" where
  "process_get r sv =
     (if req_method r = M_HEAD then complete_response r sv
      else
        (let x = hd (ranges r);
             want = unat (ucast (r_stop x - r_start x + 1) :: 32 word);
             k = (if want > system_bufsize sv then system_bufsize sv else want)
         in case try_sys sv of (ok, sv) \<Rightarrow>
              if \<not> ok then (0, r\<lparr>status := DEAD\<rparr>, sv)
              else
                (case sys_write (sock r) (take k (drop (unat (r_start x)) (the (data_mem r)))) of (res, ch) \<Rightarrow>
                 let r = r\<lparr>sock := ch\<rparr> in
                 case res of
                   Inl e \<Rightarrow> if e = EWOULDBLOCK \<or> e = EAGAIN then (-1, r, sv) else (0, r\<lparr>status := DEAD\<rparr>, sv)
                 | Inr m \<Rightarrow>
                     (let x = x\<lparr>r_start := r_start x + of_nat m\<rparr>;
                          r = r\<lparr>bytes_written := bytes_written r + of_nat m, ranges := x # tl (ranges r)\<rparr>
                      in if r_stop x + 1 - r_start x = 0 then complete_response r sv else (1, r, sv)))))"

section \<open>Ranges as bytes\<close>

lemma word_span:
  fixes a b :: "64 word"
  assumes "a \<le> b" and "unat b < 2 ^ 32 - 1"
  shows "unat (ucast (b - a + 1) :: 32 word) = Suc (unat b) - unat a"
proof -
  have le: "unat a \<le> unat b" using assms(1) by (simp add: word_le_nat_alt)
  have "b - a + 1 = of_nat (Suc (unat b) - unat a)" using le by (simp add: of_nat_diff Suc_diff_le)
  then have "unat (b - a + 1) = Suc (unat b) - unat a"
    using assms(2) le by (simp only: unat_of_nat) (simp add: take_bit_nat_eq_self)
  then show ?thesis using assms(2) le by (simp add: unsigned_ucast_eq take_bit_nat_eq_self)
qed

lemma word_advance:
  fixes a :: "64 word"
  assumes "unat a + m < 2 ^ 64"
  shows "unat (a + of_nat m) = unat a + m"
  using assms by (simp add: unat_word_ariths unat_of_nat take_bit_nat_eq_self)

lemma word_done:
  fixes a b :: "64 word"
  assumes "unat b < 2 ^ 64 - 1"
  shows "b + 1 - a = 0 \<longleftrightarrow> unat a = Suc (unat b)"
proof -
  have "unat (b + 1) = Suc (unat b)" using assms by (simp add: unat_word_ariths)
  then show ?thesis by (metis eq_iff_diff_eq_0 word_unat_eq_iff)
qed

text \<open>The bytes of a file that a range still has to deliver.\<close>

definition range_bytes :: "string \<Rightarrow> Range \<Rightarrow> string" where
  "range_bytes mem x = take (Suc (unat (r_stop x)) - unat (r_start x)) (drop (unat (r_start x)) mem)"

text \<open>A range inside a file.\<close>

definition range_of_file :: "string \<Rightarrow> Range \<Rightarrow> bool" where
  "range_of_file mem x \<longleftrightarrow> r_start x \<le> r_stop x \<and> unat (r_stop x) < length mem \<and> length mem < 2 ^ 31"

definition advance :: "nat \<Rightarrow> Range \<Rightarrow> Range" where
  "advance m x = x\<lparr>r_start := r_start x + of_nat m\<rparr>"

lemma range_of_file_bounds:
  assumes "range_of_file mem x"
  shows "unat (r_start x) \<le> unat (r_stop x)" "unat (r_stop x) < 2 ^ 32 - 1" "length (range_bytes mem x) = Suc (unat (r_stop x)) - unat (r_start x)"
    "unat (ucast (r_stop x - r_start x + 1) :: 32 word) = length (range_bytes mem x)"
proof -
  show le: "unat (r_start x) \<le> unat (r_stop x)" using assms by (simp add: range_of_file_def word_le_nat_alt)
  show lt: "unat (r_stop x) < 2 ^ 32 - 1" using assms by (simp add: range_of_file_def)
  show len: "length (range_bytes mem x) = Suc (unat (r_stop x)) - unat (r_start x)"
    using assms le by (auto simp: range_bytes_def range_of_file_def min_def)
  show "unat (ucast (r_stop x - r_start x + 1) :: 32 word) = length (range_bytes mem x)"
    using word_span [OF _ lt, of "r_start x"] assms len by (simp add: range_of_file_def)
qed

lemma advance_facts:
  assumes "range_of_file mem x" and "m \<le> length (range_bytes mem x)"
  shows "unat (r_start (advance m x)) = unat (r_start x) + m" "r_stop (advance m x) = r_stop x"
    "range_bytes mem (advance m x) = drop m (range_bytes mem x)"
    "r_stop x + 1 - r_start (advance m x) = 0 \<longleftrightarrow> m = length (range_bytes mem x)"
    "m < length (range_bytes mem x) \<Longrightarrow> range_of_file mem (advance m x)"
proof -
  note b = range_of_file_bounds [OF assms(1)]
  have "unat (r_start x) + m < 2 ^ 64" using b(1,2,3) assms(2) by simp
  then show a: "unat (r_start (advance m x)) = unat (r_start x) + m" by (simp add: advance_def word_advance)
  show s: "r_stop (advance m x) = r_stop x" by (simp add: advance_def)
  show "range_bytes mem (advance m x) = drop m (range_bytes mem x)"
    unfolding range_bytes_def a s by (simp add: drop_take add.commute)
  show "r_stop x + 1 - r_start (advance m x) = 0 \<longleftrightarrow> m = length (range_bytes mem x)"
    using word_done [of "r_stop x" "r_start (advance m x)"] b a by simp arith
  show "range_of_file mem (advance m x)" if "m < length (range_bytes mem x)"
    using that assms(1) a s b(3) by (simp add: range_of_file_def word_le_nat_alt)
qed

lemma range_chunk:
  assumes "range_of_file mem x" and "k \<le> length (range_bytes mem x)"
  shows "take k (drop (unat (r_start x)) mem) = take k (range_bytes mem x)"
  using assms range_of_file_bounds(3) [OF assms(1)] by (simp add: range_bytes_def min_def)

lemma sys_write_result:
  "sys_write ch bs = (Inr m, ch') \<Longrightarrow> m \<le> length bs \<and> ch_sent ch' = ch_sent ch @ take m bs"
  "sys_write ch bs = (Inl e, ch') \<Longrightarrow> ch_sent ch' = ch_sent ch"
  by (auto simp: sys_write_def Let_def split: list.splits write_result.splits)

text \<open>One call of \<open>process_get\<close> on a range of a mapped file.\<close>

definition after_write :: "chan \<Rightarrow> nat \<Rightarrow> request \<Rightarrow> request" where
  "after_write ch m r =
     r\<lparr>sock := ch, bytes_written := bytes_written r + of_nat m, ranges := advance m (hd (ranges r)) # tl (ranges r)\<rparr>"

lemma process_get_eq:
  assumes "req_method r \<noteq> M_HEAD" and "data_mem r = Some mem" and "ranges r = x # xs" and "range_of_file mem x"
  shows "process_get r sv =
      (case try_sys sv of (ok, sv) \<Rightarrow>
       if \<not> ok then (0, r\<lparr>status := DEAD\<rparr>, sv)
       else case sys_write (sock r) (take (min (system_bufsize sv) (length (range_bytes mem x))) (range_bytes mem x)) of
              (Inl e, ch) \<Rightarrow> if e = EWOULDBLOCK \<or> e = EAGAIN then (-1, r\<lparr>sock := ch\<rparr>, sv) else (0, r\<lparr>sock := ch, status := DEAD\<rparr>, sv)
            | (Inr m, ch) \<Rightarrow>
                if m = length (range_bytes mem x) then complete_response (after_write ch m r) sv else (1, after_write ch m r, sv))"
proof -
  note b = range_of_file_bounds [OF assms(4)]
  obtain ok sv1 where s: "try_sys sv = (ok, sv1)" by fastforce
  have buf: "system_bufsize sv1 = system_bufsize sv" using s by (auto simp: try_sys_def split: list.splits)
  let ?k = "min (system_bufsize sv) (length (range_bytes mem x))"
  have k: "(if length (range_bytes mem x) > system_bufsize sv then system_bufsize sv else length (range_bytes mem x)) = ?k"
    by simp
  have chunk: "take ?k (drop (unat (r_start x)) mem) = take ?k (range_bytes mem x)"
    using assms(4) by (rule range_chunk) simp
  obtain res ch where w: "sys_write (sock r) (take ?k (range_bytes mem x)) = (res, ch)" by fastforce
  have fin: "r_stop x + 1 - (r_start x + of_nat m) = 0 \<longleftrightarrow> m = length (range_bytes mem x)" if "res = Inr m" for m
    using sys_write_result(1) [OF w [unfolded that]] advance_facts(4) [OF assms(4), of m] by (simp add: advance_def)
  show ?thesis
    unfolding process_get_def Let_def assms(3) list.sel b(4) k assms(2) option.sel chunk s w buf prod.case
    using assms(1,3) fin
    by (cases res) (simp_all add: after_write_def advance_def)
qed

text \<open>The bytes the client has received and those the current range still has to deliver.\<close>

definition delivery :: "string \<Rightarrow> request \<Rightarrow> string" where
  "delivery mem r = ch_sent (sock r) @ (case ranges r of [] \<Rightarrow> [] | x # _ \<Rightarrow> range_bytes mem x)"

lemma after_write_delivery:
  assumes "ranges r = x # xs" and "range_of_file mem x"
    and "sys_write (sock r) (take k (range_bytes mem x)) = (Inr m, ch)"
  shows "delivery mem (after_write ch m r) = delivery mem r"
proof -
  have m: "m \<le> length (range_bytes mem x)" "ch_sent ch = ch_sent (sock r) @ take m (range_bytes mem x)"
    using sys_write_result(1) [OF assms(3)] by (auto simp: min_def split: if_splits)
  then show ?thesis
    using assms(1) advance_facts(3) [OF assms(2) m(1)] by (simp add: delivery_def after_write_def)
qed

text \<open>The scheduler calls \<open>process_get\<close> again as long as it returns 1.\<close>

fun get_loop :: "nat \<Rightarrow> request \<Rightarrow> server \<Rightarrow> int \<times> request \<times> server" where
  "get_loop 0 r sv = (1, r, sv)"
| "get_loop (Suc n) r sv =
     (case process_get r sv of (v, r, sv) \<Rightarrow> if v = 1 then get_loop n r sv else (v, r, sv))"

text \<open>A request for one range of a mapped file, and a socket that accepts at least one byte of each write.\<close>

definition serving :: "string \<Rightarrow> request \<Rightarrow> server \<Rightarrow> bool" where
  "serving mem r sv \<longleftrightarrow>
     req_method r \<noteq> M_HEAD \<and> data_mem r = Some mem \<and>
     (\<exists>x. ranges r = [x] \<and> range_of_file mem x \<and> length (range_bytes mem x) \<le> length (ch_writes (sock r))) \<and>
     (response_status r \<noteq> R_PARTIAL_CONTENT \<or> numranges r \<le> 1) \<and>
     list_all (\<lambda>w. case w of Wrote k \<Rightarrow> k > 0 | Write_error _ \<Rightarrow> False) (ch_writes (sock r)) \<and>
     system_bufsize sv > 0 \<and> sys_script sv = []"

lemma serving_step:
  assumes "serving mem r sv" and "ranges r = [x]"
  shows "(\<exists>ch. process_get r sv = (0, (after_write ch (length (range_bytes mem x)) r)\<lparr>ranges := [], status := DONE\<rparr>,
                   sv\<lparr>range_pool := range_pool sv + 1\<rparr>) \<and> ch_sent ch = delivery mem r) \<or>
         (\<exists>m ch. 0 < m \<and> m < length (range_bytes mem x) \<and> process_get r sv = (1, after_write ch m r, sv) \<and>
            serving mem (after_write ch m r) sv \<and> delivery mem (after_write ch m r) = delivery mem r)"
proof -
  have f: "req_method r \<noteq> M_HEAD" "data_mem r = Some mem" "range_of_file mem x" "system_bufsize sv > 0" "sys_script sv = []"
    "length (range_bytes mem x) \<le> length (ch_writes (sock r))" "response_status r \<noteq> R_PARTIAL_CONTENT \<or> numranges r \<le> 1"
    using assms by (auto simp: serving_def)
  have len: "0 < length (range_bytes mem x)" using range_of_file_bounds(1,3) [OF f(3)] by simp
  obtain k ws where ws: "ch_writes (sock r) = Wrote (Suc k) # ws"
    and all: "list_all (\<lambda>w. case w of Wrote k \<Rightarrow> k > 0 | Write_error _ \<Rightarrow> False) ws"
    using assms(1) f(6) len by (cases "ch_writes (sock r)") (auto simp: serving_def gr0_conv_Suc split: write_result.splits)
  let ?bs = "take (min (system_bufsize sv) (length (range_bytes mem x))) (range_bytes mem x)"
  let ?m = "min (Suc k) (length ?bs)"
  let ?ch = "(sock r)\<lparr>ch_writes := ws, ch_sent := ch_sent (sock r) @ take ?m ?bs\<rparr>"
  have w: "sys_write (sock r) ?bs = (Inr ?m, ?ch)" by (simp add: sys_write_def ws Let_def)
  have m: "0 < ?m" "?m \<le> length (range_bytes mem x)" using len f(4) by auto
  note deliv = after_write_delivery [OF assms(2) f(3) w]
  have sys: "try_sys sv = (True, sv)" using f(5) by (simp add: try_sys_def)
  show ?thesis
  proof (cases "?m = length (range_bytes mem x)")
    case True
    have "range_bytes mem (advance ?m x) = []" using advance_facts(3) [OF f(3) m(2)] True by simp
    then have "ch_sent ?ch = delivery mem r"
      using deliv assms(2) by (simp add: delivery_def after_write_def)
    then show ?thesis
      using process_get_eq [OF f(1,2) assms(2) f(3), of sv] True f(7)
      by (auto simp: sys w complete_response_def after_write_def assms(2) intro!: exI [of _ ?ch])
  next
    case False
    then have lt: "?m < length (range_bytes mem x)" using m(2) by simp
    have left: "length (range_bytes mem x) - j \<le> length ws" if "0 < j" for j using f(6) ws that by simp
    have "serving mem (after_write ?ch ?m r) sv"
      using assms f all left [OF m(1)] advance_facts(3,5) [OF f(3) m(2)] lt by (simp add: serving_def after_write_def)
    moreover have "process_get r sv = (1, after_write ?ch ?m r, sv)"
      unfolding process_get_eq [OF f(1,2) assms(2) f(3), of sv] sys prod.case w sum.case
      using False by (simp only: not_True_eq_False if_False)
    ultimately show ?thesis using m(1) lt deliv by blast
  qed
qed

lemma get_loop_delivers:
  assumes "serving mem r sv" and "ranges r = [x]" and "length (range_bytes mem x) \<le> n"
  shows "\<exists>r' sv'. get_loop n r sv = (0, r', sv') \<and> status r' = DONE \<and> ranges r' = [] \<and> ch_sent (sock r') = delivery mem r"
  using assms
proof (induction n arbitrary: r x)
  case 0
  then have "range_of_file mem x" by (auto simp: serving_def)
  then show ?case using range_of_file_bounds(1,3) [of mem x] 0(3) by simp
next
  case (Suc n)
  from serving_step [OF Suc(2,3)] show ?case
  proof (elim disjE exE conjE)
    fix ch assume "process_get r sv = (0, (after_write ch (length (range_bytes mem x)) r)\<lparr>ranges := [], status := DONE\<rparr>,
                   sv\<lparr>range_pool := range_pool sv + 1\<rparr>)" "ch_sent ch = delivery mem r"
    then show ?thesis by (simp add: after_write_def)
  next
    fix m ch
    assume st: "0 < m" "m < length (range_bytes mem x)" "process_get r sv = (1, after_write ch m r, sv)"
      "serving mem (after_write ch m r) sv" "delivery mem (after_write ch m r) = delivery mem r"
    have x: "range_of_file mem x" using Suc(2,3) by (auto simp: serving_def)
    have "ranges (after_write ch m r) = [advance m x]" using Suc(3) by (simp add: after_write_def)
    moreover have "length (range_bytes mem (advance m x)) \<le> n"
      using advance_facts(3) [OF x, of m] st(1,2) Suc(4) by simp
    ultimately show ?thesis using Suc(1) [OF st(4)] st(3,5) by simp
  qed
qed

section \<open>Handler results\<close>

text \<open>
  What the scheduler relies on: the result is one of the three values it knows, the output buffer stays
  inside its array, and every descriptor that is open now was open before or belongs to the request.
\<close>

definition result_ok :: "server \<Rightarrow> int \<times> request \<times> server \<Rightarrow> bool" where
  "result_ok sv res \<longleftrightarrow>
     (case res of (v, r', sv') \<Rightarrow>
        v \<in> {-1, 0, 1} \<and> buf_ok r' \<and> set (open_fds sv') \<subseteq> insert (data_fd r') (set (open_fds sv)))"

lemma result_okI:
  "v \<in> {-1, 0, 1} \<Longrightarrow> buf_ok r' \<Longrightarrow> set (open_fds sv') \<subseteq> insert (data_fd r') (set (open_fds sv)) \<Longrightarrow>
   result_ok sv (v, r', sv')"
  by (simp add: result_ok_def)

lemma result_ok_mono:
  "result_ok sv res \<Longrightarrow> set (open_fds sv) \<subseteq> set (open_fds sv0) \<Longrightarrow> result_ok sv0 res"
  unfolding result_ok_def by (cases res) auto

lemma complete_env_buf: "complete_env r sv = (v, r', sv') \<Longrightarrow> buf_ok r' = buf_ok r"
proof -
  have add: "add_vars kvs r sv = (v, r', sv') \<Longrightarrow> buf_ok r' = buf_ok r" for kvs r sv v r' sv'
  proof (induction kvs r sv rule: add_vars.induct)
    case (2 key val kvs r sv)
    obtain w r1 sv1 where a: "add_cgi_env r key val False sv = (w, r1, sv1)" by (metis prod_cases3)
    then have "buf_ok r1 = buf_ok r" using add_cgi_env_cases [OF a] by auto
    then show ?case using 2 a by (auto split: if_splits)
  qed simp
  assume "complete_env r sv = (v, r', sv')"
  then show ?thesis by (auto simp: complete_env_def Let_def dest!: add split: prod.splits if_splits)
qed

lemma cgi_fork_buf: "buf_ok r \<Longrightarrow> cgi_fork r sv = (v, r', sv') \<Longrightarrow> buf_ok r'"
  by (auto simp: cgi_fork_def cgi_parent_def boa_perror_def Let_def split: prod.splits if_splits)

lemma init_cgi_ok:
  assumes "buf_ok r" and "fds_ok sv" and "post_data_fd r < next_fd sv"
  shows "result_ok sv (init_cgi r sv)"
proof -
  obtain v r' sv' where i: "init_cgi r sv = (v, r', sv')" by (metis prod_cases3)
  have "buf_ok r'"
    using i assms(1)
    by (auto simp: init_cgi_def Let_def split: prod.splits if_splits dest!: complete_env_buf cgi_fork_buf [rotated])
  then show ?thesis
    using init_cgi_fds [OF assms(2,3)] i by (auto simp: cgi_fds_def result_ok_def split: if_splits)
qed

lemmas sends_frame [simp] = responds_all [THEN responds_fields(14)] responds_all [THEN responds_fields(18)]
  responds_all [THEN responds_fields(9)] responds_all [THEN responds_fields(13)]

lemma boa_perror_frame [simp]:
  "buf_ok r \<Longrightarrow> buf_ok (boa_perror sv r)" "data_fd (boa_perror sv r) = data_fd r"
  by (simp_all add: boa_perror_def)

lemma pool_fds [simp]:
  "open_fds (range_pool_push sv) = open_fds sv" "next_fd (range_pool_push sv) = next_fd sv"
  by (simp_all add: range_pool_push_def)

lemma ranges_fixup_frame:
  "buf_ok r \<Longrightarrow> ranges_fixup r sv = (v, r', sv') \<Longrightarrow>
   buf_ok r' \<and> data_fd r' = data_fd r \<and> open_fds sv' = open_fds sv"
  by (auto simp: ranges_fixup_def Let_def fixup_loop_eq fold_push split: if_splits)

lemma range_pool_pop_fds: "range_pool_pop sv = Some (x, sv') \<Longrightarrow> open_fds sv' = open_fds sv"
  by (auto simp: range_pool_pop_def dest!: try_alloc_fds split: if_splits prod.splits)

lemma send_file_headers_frame:
  assumes "send_file_headers r sv = Some (ok, r', sv')" and "buf_ok r"
  shows "buf_ok r' \<and> data_fd r' = data_fd r \<and> open_fds sv' = open_fds sv"
  using assms
  by (auto simp: send_file_headers_def dest!: range_pool_pop_fds split: if_splits option.splits prod.splits)
     (auto dest!: ranges_fixup_frame [rotated])

lemma blit_ok:
  assumes "buf_ok r" and "buffer_end r + length bs \<le> BUFFER_SIZE"
  shows "buf_ok (r\<lparr>buffer := blit (buffer r) (buffer_end r) bs, buffer_end := buffer_end r + length bs\<rparr>)"
  using assms by (auto simp: buf_ok_def length_blit)

lemma bytes_free_eq: "buf_ok r \<Longrightarrow> nat ((int BUFFER_SIZE - int (buffer_end r)) mod 2 ^ 32) = BUFFER_SIZE - buffer_end r"
  by (simp add: buf_ok_def BUFFER_SIZE_def nat_diff_distrib flip: of_nat_diff)

text \<open>The first range lies in the file if the file is mapped.\<close>

definition first_range_ok :: "request \<Rightarrow> bool" where
  "first_range_ok r \<longleftrightarrow>
     (case data_mem r of None \<Rightarrow> True | Some mem \<Rightarrow> ranges r \<noteq> [] \<and> range_of_file mem (hd (ranges r)))"

lemma buffer_start_of_file_ok:
  assumes "buf_ok r" and "first_range_ok r" and "buffer_start_of_file r sv = (v, r', sv')" and "buffer_start r = 0"
  shows "(v = 0 \<or> v = 1) \<and> buf_ok r' \<and> data_fd r' = data_fd r \<and> open_fds sv' = open_fds sv"
proof (cases "data_mem r \<noteq> None \<and> BUFFER_SIZE - buffer_end r > 256")
  case False
  then have "buffer_start_of_file r sv = (1, r, sv)"
    unfolding buffer_start_of_file_def Let_def bytes_free_eq [OF assms(1)] by (rule if_not_P)
  then show ?thesis using assms by simp
next
  case True
  then obtain mem x xs where mem: "data_mem r = Some mem" and x: "ranges r = x # xs" and ok: "range_of_file mem x"
    using assms(2) by (cases "ranges r") (auto simp: first_range_ok_def)
  let ?free = "BUFFER_SIZE - buffer_end r"
  let ?want = "length (range_bytes mem x)"
  let ?k = "if ?free > ?want then ?want else ?free"
  let ?bs = "take ?k (drop (unat (r_start x)) mem)"
  obtain b sv1 where s: "try_sys sv = (b, sv1)" by fastforce
  have bs: "?bs = take ?k (range_bytes mem x)" using ok by (rule range_chunk) simp
  then have len: "length ?bs = ?k" by simp
  define r1 where "r1 = r\<lparr>buffer := blit (buffer r) (buffer_end r) ?bs, buffer_end := buffer_end r + ?k,
     bytes_written := bytes_written r + of_nat ?k, ranges := x\<lparr>r_start := r_start x + of_nat ?k\<rparr> # xs\<rparr>"
  have "buf_ok (r\<lparr>buffer := blit (buffer r) (buffer_end r) ?bs, buffer_end := buffer_end r + ?k\<rparr>)"
  proof -
    have "buffer_end r + ?k \<le> BUFFER_SIZE" using assms(1) by (auto simp: buf_ok_def)
    then show ?thesis using blit_ok [OF assms(1), of ?bs, unfolded len] by blast
  qed
  then have r1: "buf_ok r1" "data_fd r1 = data_fd r" unfolding r1_def by simp_all
  have eq: "buffer_start_of_file r sv =
      (if \<not> b then (0, send_r_error sv1 (reset_output_buffer r), sv1)
       else if ?k = ?want then complete_response r1 sv1 else (1, r1, sv1))"
    unfolding buffer_start_of_file_def Let_def bytes_free_eq [OF assms(1)] mem x list.sel option.sel
      range_of_file_bounds(4) [OF ok] s prod.case r1_def
    using True mem x by simp
  have "buf_ok (reset_output_buffer r)" "data_fd (reset_output_buffer r) = data_fd r"
    using assms(1,4) by (simp_all add: reset_output_buffer_def buf_ok_def)
  then have err: "buf_ok (send_r_error sv1 (reset_output_buffer r))" "data_fd (send_r_error sv1 (reset_output_buffer r)) = data_fd r"
    by simp_all
  consider "(v, r', sv') = (0, send_r_error sv1 (reset_output_buffer r), sv1)" | "complete_response r1 sv1 = (v, r', sv')" | "(v, r', sv') = (1, r1, sv1)"
    using assms(3) unfolding eq by (metis (full_types))
  then show ?thesis
  proof cases
    case 2
    from complete_response_ok [OF r1(1) this] show ?thesis using r1(2) try_sys_fds [OF s] by auto
  qed (use err r1 try_sys_fds [OF s] in simp_all)
qed

lemma headers_buffer_start [simp]:
  "buffer_start (send_r_request_ok sv r) = buffer_start r" "buffer_start (send_r_partial_content sv r) = buffer_start r"
  by (simp_all add: send_r_request_ok_def send_r_partial_content_def printers Let_def)

lemma ranges_fixup_accepts:
  assumes "ranges_fixup r sv = (v, r', sv')" and "v \<noteq> 0"
  shows "\<exists>ys. r' = r\<lparr>ranges := ys\<rparr> \<and> ys \<noteq> [] \<and> (\<forall>x \<in> set ys. r_start x \<le> r_stop x \<and> r_stop x < filesize r)"
  using assms
  by (auto simp: ranges_fixup_def Let_def fixup_loop_eq set_map_filter_iff dest: fixup_range_in_file split: if_splits
      intro!: exI [of _ "List.map_filter (fixup_range (filesize r)) (ranges r)"])

lemma fixed_range_of_file:
  assumes "\<forall>x \<in> set (ranges r). r_start x \<le> r_stop x \<and> r_stop x < file_size f" and "ranges r \<noteq> []"
    and "length (f_content f) \<le> MAX_FILE_MMAP"
  shows "range_of_file (f_content f) (hd (ranges r))"
proof -
  have "unat (file_size f) = length (f_content f)"
    using assms(3) by (simp add: file_size_def unat_small MAX_FILE_MMAP_def)
  then show ?thesis using assms by (auto simp: range_of_file_def word_less_nat_alt MAX_FILE_MMAP_def)
qed

lemma attach_file_frame:
  assumes "attach_file n f r sv = (r', sv')" and "filesize r = file_size f" and "length (f_content f) < 2 ^ 64"
  shows "(data_mem r' = data_mem r \<and> data_fd r' = n \<and> open_fds sv' = open_fds sv \<or>
          data_mem r' = Some (f_content f) \<and> length (f_content f) \<le> MAX_FILE_MMAP \<and> data_fd r' = data_fd r \<and>
            open_fds sv' = removeAll n (open_fds sv)) \<and>
         buf_ok r' = buf_ok r \<and> buffer_start r' = buffer_start r \<and> ranges r' = ranges r \<and> filesize r' = filesize r"
  using assms of_nat_less [of MAX_FILE_MMAP "length (f_content f)"]
  by (auto simp: attach_file_def file_size_def MAX_FILE_MMAP_def Let_def split: if_splits prod.splits option.splits)

text \<open>The server after a file was opened under the descriptor \<open>n\<close>.\<close>

definition opened :: "nat \<Rightarrow> server \<Rightarrow> server \<Rightarrow> bool" where
  "opened n sv sv' \<longleftrightarrow> set (open_fds sv') \<subseteq> insert n (set (open_fds sv))"

lemma serve_file_ok:
  assumes "serve_file n f r sv' = Some (v, r', sv'')" and "opened n sv sv'" and "buf_ok r" and "buffer_start r = 0"
    and "data_mem r = None" and "filesize r = file_size f" and "0 < length (f_content f)" and "length (f_content f) < 2 ^ 63"
    and "\<forall>x \<in> set (ranges r). r_start x \<le> r_stop x \<and> r_stop x < file_size f"
  shows "result_ok sv (v, r', sv'')"
proof -
  obtain r1 sv1 where at: "attach_file n f r sv' = (r1, sv1)" by fastforce
  have f64: "length (f_content f) < 2 ^ 64" using assms(8) by simp
  note a = attach_file_frame [OF at assms(6) f64]
  obtain ok r2 sv2 where h: "send_file_headers r1 sv1 = Some (ok, r2, sv2)"
    using assms(1) at by (auto simp: serve_file_def split: option.splits)
  have b1: "buf_ok r1" using a assms(3) by simp
  note hf = send_file_headers_frame [OF h b1]
  have fds: "set (open_fds sv2) \<subseteq> insert (data_fd r2) (set (open_fds sv))"
    using a hf assms(2) by (auto simp: opened_def)
  have two: "buffer_start r2 = 0 \<and> first_range_ok r2" if good: ok
  proof (cases "ranges r1 = []")
    case False
    then have "r2 = send_r_partial_content sv1 r1" using h good by (auto simp: send_file_headers_def)
    then show ?thesis
      using a assms(4,5,9) False fixed_range_of_file [of r1 f] by (auto simp: first_range_ok_def split: option.splits)
  next
    case True
    obtain x sv3 r3 sv4 v3 where fx: "ranges_fixup (r1\<lparr>ranges := [x\<lparr>r_start := 0, r_stop := -1\<rparr>]\<rparr>) sv3 = (v3, r3, sv4)"
      and v3: "v3 \<noteq> 0" and r2: "r2 = send_r_request_ok sv4 r3"
      using h good True by (auto simp: send_file_headers_def split: option.splits prod.splits if_splits)
    obtain ys where r3: "r3 = r1\<lparr>ranges := ys\<rparr>" and ys: "ys \<noteq> []" "\<forall>x \<in> set ys. r_start x \<le> r_stop x \<and> r_stop x < file_size f"
      using ranges_fixup_accepts [OF fx v3] a assms(6) by auto
    then show ?thesis
      using a assms(4,5) r2 fixed_range_of_file [of r3 f] by (auto simp: first_range_ok_def split: option.splits)
  qed
  consider "(v, r', sv'') = (0, r2, sv2)" | "complete_response r2 sv2 = (v, r', sv'')"
    | "ok" "buffer_start_of_file r2 sv2 = (v, r', sv'')"
    using assms(1) at h by (auto simp: serve_file_def split: if_splits)
  then show ?thesis
  proof cases
    case 1
    then show ?thesis using hf fds by (simp add: result_ok_def)
  next
    case 2
    then show ?thesis using complete_response_ok [of r2 sv2 v r' sv''] hf fds by (auto simp: result_ok_def)
  next
    case 3
    then show ?thesis using buffer_start_of_file_ok [of r2 sv2 v r' sv''] two hf fds by (auto simp: result_ok_def)
  qed
qed

lemma init_file_eq:
  "init_file n f r sv =
     (let r1 = r\<lparr>filesize := file_size f, last_modified := f_mtime f, header_ifrange := None\<rparr> in
      if f_kind f \<noteq> Regular then Some (0, send_r_bad_request sv r, fd_close n sv)
      else if (case if_modified_since r of Some d \<Rightarrow> modified_since (f_mtime f) d = 0 | None \<Rightarrow> False)
      then Some (0, send_r_not_modified sv r, fd_close n sv)
      else if file_size f = 0 then
        Some (0, if http_version r \<noteq> HTTP11 then send_r_request_ok sv r1 else send_r_no_content sv r1, fd_close n sv)
      else if ranges r1 = [] then serve_file n f r1 sv
      else (case ranges_fixup r1 sv of (v, r2, sv2) \<Rightarrow>
              if v = 0 then Some (0, r2, fd_close n sv2) else serve_file n f r2 sv2))"
  unfolding init_file_def Let_def by (rule if_cong, rule refl, rule refl)+ simp

lemma error_result_ok:
  assumes "opened n sv sv'" and "buf_ok r"
  shows "result_ok sv (0, r, fd_close n sv')"
  using assms by (auto simp: result_ok_def opened_def)

lemma init_file_ok:
  assumes "init_file n f r sv' = Some (v, r', sv'')" and "opened n sv sv'" and "buf_ok r" and "buffer_start r = 0"
    and "data_mem r = None" and "length (f_content f) < 2 ^ 63"
  shows "result_ok sv (v, r', sv'')"
proof -
  define r1 where "r1 = r\<lparr>filesize := file_size f, last_modified := f_mtime f, header_ifrange := None\<rparr>"
  have r1: "buf_ok r1" "buffer_start r1 = 0" "data_mem r1 = None" "filesize r1 = file_size f"
    using assms(3-5) by (simp_all add: r1_def)
  note eq = assms(1) [unfolded init_file_eq Let_def, folded r1_def]
  note err = error_result_ok [OF assms(2)]
  show ?thesis
  proof (cases "f_kind f \<noteq> Regular \<or> (case if_modified_since r of Some d \<Rightarrow> modified_since (f_mtime f) d = 0 | None \<Rightarrow> False)
      \<or> file_size f = 0")
    case True
    then show ?thesis using eq err [of r'] assms(3) r1(1) by (auto split: if_splits)
  next
    case big: False
    then have pos: "0 < length (f_content f)" by (auto simp: file_size_def)
    obtain v2 r2 sv2 where fx: "ranges_fixup r1 sv' = (v2, r2, sv2)" by (metis surj_pair)
    note fr = ranges_fixup_frame [OF r1(1) fx]
    have op: "opened n sv sv2" using fr assms(2) by (simp add: opened_def)
    consider "ranges r1 = []" "serve_file n f r1 sv' = Some (v, r', sv'')"
      | "v2 = 0" "(v, r', sv'') = (0, r2, fd_close n sv2)" | "v2 \<noteq> 0" "serve_file n f r2 sv2 = Some (v, r', sv'')"
      using eq big fx by (cases "ranges r1 = []"; cases "v2 = 0") simp_all
    then show ?thesis
    proof cases
      case 1
      then show ?thesis using serve_file_ok [OF 1(2) assms(2) r1 pos assms(6)] by simp
    next
      case 2
      then show ?thesis using error_result_ok [OF op] fr by simp
    next
      case 3
      obtain ys where ys: "r2 = r1\<lparr>ranges := ys\<rparr>" "\<forall>x \<in> set ys. r_start x \<le> r_stop x \<and> r_stop x < file_size f"
        using ranges_fixup_accepts [OF fx 3(1)] r1(4) by auto
      then show ?thesis using serve_file_ok [OF 3(2) op _ _ _ _ pos assms(6)] r1 by simp
    qed
  qed
qed

section \<open>Directories and compressed files\<close>

text \<open>Every file the file system opens or creates has a size that fits the signed size type.\<close>

definition files_small :: "server \<Rightarrow> bool" where
  "files_small sv \<longleftrightarrow>
     (\<forall>p f. fs_open sv p = Inr f \<longrightarrow> length (f_content f) < 2 ^ 63) \<and>
     (\<forall>p c f. fs_create sv p c = Inr f \<longrightarrow> length (f_content f) < 2 ^ 63)"

lemma files_small_simps [simp]:
  "files_small (fd_close n sv) = files_small sv" "files_small sv \<Longrightarrow> files_small (sys_unlink p sv)"
  "open_fds (sys_unlink p sv) = open_fds sv"
  by (auto simp: files_small_def fd_close_def sys_unlink_def)

lemma sys_open_cases:
  assumes "sys_open p sv = (res, sv')" and "files_small sv"
  obtains e where "res = Inl e" "sv' = sv"
    | n f where "res = Inr (n, f)" "opened n sv sv'" "length (f_content f) < 2 ^ 63" "files_small sv'"
        "set (open_fds (fd_close n sv')) \<subseteq> set (open_fds sv)" "next_fd sv' = next_fd sv + 1"
  using assms by (cases "fs_open sv p") (auto simp: sys_open_def opened_def files_small_def)

lemma try_alloc_server: "try_alloc sv = (ok, sv') \<Longrightarrow> \<exists>al. sv' = sv\<lparr>alloc_script := al\<rparr>"
  by (auto simp: try_alloc_def split: prod.splits)

lemma index_entries_Cons:
  "snd (index_entries (name # names) sv) \<in> {snd (index_entries names sv), snd (index_entries names (snd (try_alloc sv)))}"
  by (simp split: prod.split option.split)

lemma index_entries_server: "\<exists>al. snd (index_entries names sv) = sv\<lparr>alloc_script := al\<rparr>"
proof (induction names arbitrary: sv)
  case Nil
  have "snd (index_entries [] sv) = sv\<lparr>alloc_script := alloc_script sv\<rparr>" by simp
  then show ?case by (rule exI)
next
  case (Cons name names)
  obtain al1 where sv1: "snd (try_alloc sv) = sv\<lparr>alloc_script := al1\<rparr>"
    using try_alloc_server [of sv] by (metis prod.collapse)
  obtain al2 where "snd (index_entries names (snd (try_alloc sv))) = sv\<lparr>alloc_script := al2\<rparr>"
    using Cons.IH [of "snd (try_alloc sv)"] unfolding sv1 by auto
  then show ?case using index_entries_Cons [of name names sv] Cons.IH [of sv] by auto
qed

text \<open>The result of the directory code: a handler result, or an open file and an untouched request.\<close>

definition dir_ok :: "server \<Rightarrow> dir_result \<times> request \<times> server \<Rightarrow> bool" where
  "dir_ok sv res \<longleftrightarrow>
     (case res of (d, r', sv') \<Rightarrow>
        case d of
          Dir_ret v \<Rightarrow> result_ok sv (v, r', sv')
        | Dir_file n f \<Rightarrow> opened n sv sv' \<and> length (f_content f) < 2 ^ 63 \<and>
            buf_ok r' \<and> buffer_start r' = 0 \<and> data_mem r' = None)"

definition fresh :: "request \<Rightarrow> server \<Rightarrow> bool" where
  "fresh r sv \<longleftrightarrow> buf_ok r \<and> buffer_start r = 0 \<and> data_mem r = None \<and> post_data_fd r < next_fd sv \<and>
     fds_ok sv \<and> files_small sv"

lemma fresh_close:
  assumes "fresh r sv" and "files_small sv'" and "set (open_fds (fd_close n sv')) \<subseteq> set (open_fds sv)"
    and "next_fd sv' = next_fd sv + 1"
  shows "fresh r (fd_close n sv')"
  using assms unfolding fresh_def fds_ok_def by force

lemma fresh_unlink [simp]: "fresh r sv \<Longrightarrow> fresh r (sys_unlink p sv)"
  unfolding fresh_def fds_ok_def by (simp, simp add: sys_unlink_def)

lemma plain_result_ok:
  "buf_ok r \<Longrightarrow> set (open_fds sv') \<subseteq> set (open_fds sv) \<Longrightarrow> v \<in> {-1, 0, 1} \<Longrightarrow> result_ok sv (v, r, sv')"
  by (auto simp: result_ok_def)

lemma dir_ok_mono:
  "dir_ok sv res \<Longrightarrow> set (open_fds sv) \<subseteq> set (open_fds sv0) \<Longrightarrow> dir_ok sv0 res"
  unfolding dir_ok_def opened_def by (auto split: prod.splits dir_result.splits dest: result_ok_mono)

text \<open>Opening a descriptor and closing it leaves the open descriptors as they were.\<close>

lemma fds_ok_unused: "fds_ok sv \<Longrightarrow> next_fd sv \<le> n \<Longrightarrow> n \<notin> set (open_fds sv)"
  unfolding fds_ok_def by auto

lemma index_directory_ok:
  assumes "index_directory r p sv = (v, r', sv')" and "buf_ok r" and "fds_ok sv" and "files_small sv"
  shows "v \<in> {-1, 0} \<and> buf_ok r' \<and> open_fds sv' = open_fds sv \<and>
     (v = 0 \<longrightarrow> files_small sv' \<and> buffer_start r' = buffer_start r \<and> data_mem r' = data_mem r)"
proof (cases "fs_chdir sv (path_of r) = None \<and> fs_readdir sv (path_of r) \<noteq> None")
  case False
  then show ?thesis using assms(1,2) by (auto simp: index_directory_def split: option.splits if_splits)
next
  case True
  then obtain names where n: "fs_chdir sv (path_of r) = None" "fs_readdir sv (path_of r) = Some names" by auto
  let ?sv = "snd (fd_open sv)"
  obtain t al where t: "index_entries names ?sv = (t, ?sv\<lparr>alloc_script := al\<rparr>)"
    using index_entries_server by (metis prod.collapse)
  have unused: "removeAll (next_fd sv) (open_fds sv) = open_fds sv" "removeAll (Suc (next_fd sv)) (open_fds sv) = open_fds sv"
    using fds_ok_unused [OF assms(3)] by simp_all
  show ?thesis
  proof (cases "fs_create ?sv p (index_page (request_uri r) t)")
    case (Inl e)
    then show ?thesis
      using assms(1,2) n t unused by (auto simp: index_directory_def Let_def fd_open_def fd_close_def)
  next
    case (Inr f)
    have "files_small (sv\<lparr>alloc_script := al, fs_open := (fs_open sv)(p := Inr f)\<rparr>)"
      using Inr assms(4) by (auto simp: files_small_def fd_open_def split: if_splits)
    then show ?thesis
      using assms(1,2) n t Inr unused
      by (auto simp: index_directory_def Let_def fd_open_def fd_close_def files_small_def)
  qed
qed

lemma make_cachedir_file_ok:
  assumes "fresh r sv"
  shows "dir_ok sv (make_cachedir_file r f sv)"
proof -
  obtain v r1 sv1 where i: "index_directory r (cache_name sv f) sv = (v, r1, sv1)" by (metis prod_cases3)
  have ok: "buf_ok r" "fds_ok sv" "files_small sv" using assms by (simp_all add: fresh_def)
  note d = index_directory_ok [OF i ok]
  show ?thesis
  proof (cases "v = -1")
    case True
    then show ?thesis using d i by (simp add: make_cachedir_file_def dir_ok_def plain_result_ok)
  next
    case False
    with d have s1: "files_small sv1" by auto
    obtain res sv2 where o: "sys_open (cache_name sv1 f) sv1 = (res, sv2)" by fastforce
    from o s1 show ?thesis
      by (rule sys_open_cases)
        (use d i o False assms in \<open>auto simp: make_cachedir_file_def dir_ok_def fresh_def opened_def intro!: plain_result_ok\<close>)
  qed
qed

lemma get_cachedir_file_ok:
  assumes "fresh r sv"
  shows "dir_ok sv (get_cachedir_file r f sv)"
proof -
  obtain res sv1 where o: "sys_open (cache_name sv f) sv = (res, sv1)" by fastforce
  have "files_small sv" using assms by (simp add: fresh_def)
  with o show ?thesis
  proof (cases rule: sys_open_cases)
    case (1 e)
    then show ?thesis using o make_cachedir_file_ok [OF assms] by (simp add: get_cachedir_file_def)
  next
    case (2 n g)
    let ?sv = "sys_unlink (cache_name sv1 f) (fd_close n sv1)"
    have fr: "fresh r ?sv" using fresh_close [OF assms 2(4,5,6)] by simp
    have "dir_ok sv (make_cachedir_file r f ?sv)"
      using 2(5) by (intro dir_ok_mono [OF make_cachedir_file_ok [OF fr]]) simp
    then show ?thesis using o 2 assms by (auto simp: get_cachedir_file_def dir_ok_def fresh_def)
  qed
qed

lemma frame_post_fd [simp]:
  "post_data_fd (SQUASH_KA r) = post_data_fd r" "data_mem (SQUASH_KA r) = data_mem r" "buf_ok (SQUASH_KA r) = buf_ok r"
  by (simp_all add: SQUASH_KA_def)

lemma fresh_alloc: "fresh r sv \<Longrightarrow> try_alloc sv = (ok, sv') \<Longrightarrow> fresh r sv' \<and> open_fds sv' = open_fds sv"
  by (auto simp: fresh_def fds_ok_def files_small_def dest!: try_alloc_server)

text \<open>The last step of the three cases that leave the answer to a program.\<close>

lemma program_result_ok:
  assumes "fresh r sv" and "buf_ok r1" and "post_data_fd r1 = post_data_fd r"
  shows "result_ok sv (if b then (0, r1, sv) else init_cgi r1 sv)"
  using assms init_cgi_ok [of r1 sv] by (simp add: fresh_def plain_result_ok)

lemma printers_post_fd [simp]:
  "post_data_fd (wr s r) = post_data_fd r" "post_data_fd (print_http_headers sv r) = post_data_fd r"
  "post_data_fd (print_content_type sv r) = post_data_fd r" "post_data_fd (print_last_modified sv r) = post_data_fd r"
  by (simp_all add: printers)

lemma gunzip_ok:
  assumes "fresh r sv"
  shows "result_ok sv (gunzip_file r sv)" "result_ok sv (gunzip_index r path sv)"
proof -
  obtain ok sv1 where a: "try_alloc sv = (ok, sv1)" by fastforce
  have fr: "fresh r sv1" "open_fds sv1 = open_fds sv" and buf: "buf_ok r"
    using fresh_alloc [OF assms a] assms by (simp_all add: fresh_def)
  note run = result_ok_mono [OF program_result_ok [OF fr(1)]]
  show "result_ok sv (gunzip_file r sv)"
    unfolding gunzip_file_def Let_def a prod.case
    by (cases ok, simp only: not_True_eq_False if_False, rule run) (simp_all add: buf fr plain_result_ok)
  show "result_ok sv (gunzip_index r path sv)"
    unfolding gunzip_index_def Let_def a prod.case
    by (cases ok, simp only: not_True_eq_False if_False, rule run) (simp_all add: buf fr plain_result_ok)
qed

lemma make_index_ok:
  assumes "fresh r sv"
  shows "result_ok sv (make_index r sv)"
  unfolding make_index_def Let_def
  using assms by (intro program_result_ok [OF assms]) (simp_all add: fresh_def)

lemma dir_ret_ok: "result_ok sv res \<Longrightarrow> dir_ok sv (dir_ret res)"
  by (auto simp: dir_ret_def dir_ok_def split: prod.splits)

lemma refused_dir_ok: "buf_ok r \<Longrightarrow> dir_ok sv (Dir_ret (-1), r, sv)"
  by (simp add: dir_ok_def plain_result_ok)

lemma get_dir_default_ok: "fresh r sv \<Longrightarrow> dir_ok sv (get_dir_default r f sv)"
  by (simp add: get_dir_default_def dir_ret_ok make_index_ok get_cachedir_file_ok refused_dir_ok)
     (simp add: fresh_def refused_dir_ok)

lemma get_dir_ok:
  assumes "fresh r sv"
  shows "dir_ok sv (get_dir r f sv)"
proof (cases "directory_index sv")
  case None
  then show ?thesis by (simp add: get_dir_def get_dir_default_ok [OF assms])
next
  case (Some index)
  obtain res sv1 where o: "sys_open (path_of r @ index) sv = (res, sv1)" by fastforce
  have fs: "buf_ok r" "files_small sv" using assms by (simp_all add: fresh_def)
  from o fs(2) show ?thesis
  proof (cases rule: sys_open_cases)
    case (1 e)
    have gz: "dir_ok sv (case sys_open p sv of (gz, sv) \<Rightarrow>
        case gz of Inr (n, _) \<Rightarrow> dir_ret (gunzip_index r q (fd_close n sv)) | Inl _ \<Rightarrow> get_dir_default r f sv)" for p q
    proof -
      obtain gz sv2 where g: "sys_open p sv = (gz, sv2)" by fastforce
      from g fs(2) show ?thesis
      proof (cases rule: sys_open_cases)
        case (1 e)
        then show ?thesis by (simp add: g get_dir_default_ok [OF assms])
      next
        case (2 m g)
        from dir_ret_ok [OF gunzip_ok(2) [OF fresh_close [OF assms 2(4,5,6)]]]
        have "dir_ok (fd_close m sv2) (dir_ret (gunzip_index r q (fd_close m sv2)))" .
        then show ?thesis using dir_ok_mono [OF _ 2(5)] by (simp add: \<open>sys_open p sv = (gz, sv2)\<close> 2)
      qed
    qed
    show ?thesis
      unfolding get_dir_def Some Let_def option.case o 1 prod.case sum.case
      by (simp only: refused_dir_ok gz get_dir_default_ok [OF assms] fs boa_perror_frame sends_buf_ok split: if_split) simp
  next
    case (2 n g)
    then show ?thesis
      using Some o assms by (simp add: get_dir_def Let_def refused_dir_ok fs) (simp add: dir_ok_def fresh_def)
  qed
qed

lemma dir_redirect_ok:
  assumes "fresh r sv"
  shows "result_ok sv (dir_redirect r sv)"
proof -
  obtain ok sv1 where a: "(if server_port sv \<noteq> 80 then try_alloc sv else (True, sv)) = (ok, sv1)" by fastforce
  have "open_fds sv1 = open_fds sv" "buf_ok r"
    using a fresh_alloc [OF assms] assms by (auto simp: fresh_def split: if_splits)
  then show ?thesis unfolding dir_redirect_def Let_def a prod.case by (simp add: plain_result_ok)
qed

text \<open>The path that forgets its descriptor: the file is open, and access control refuses it (get.c:122).\<close>

definition refused_open :: "request \<Rightarrow> server \<Rightarrow> bool" where
  "refused_open r sv \<longleftrightarrow>
     build_access_control sv \<and> \<not> access_allow sv (path_of r) \<and> (case fs_open sv (path_of r) of Inr _ \<Rightarrow> True | Inl _ \<Rightarrow> False)"

lemma forbidden_opened: "send_r_forbidden (sv\<lparr>next_fd := a, open_fds := b\<rparr>) r = send_r_forbidden sv r"
proof -
  have "print_http_headers (sv\<lparr>next_fd := a, open_fds := b\<rparr>) = print_http_headers sv"
    by (rule ext) (simp add: print_http_headers_def print_ka_phrase_def cong: if_cong)
  then show ?thesis by (simp only: send_r_forbidden_def)
qed

lemma init_get_refused:
  assumes "refused_open r sv"
  shows "init_get r sv = Some (0, send_r_forbidden (snd (fd_open sv)) r, snd (fd_open sv))"
  using assms
  by (auto simp: refused_open_def init_get_def Let_def sys_open_def fd_open_def access_allow_def split: sum.splits)

lemma init_get_ok:
  assumes "init_get r sv = Some (v, r', sv')" and "fresh r sv" and "\<not> refused_open r sv"
  shows "result_ok sv (v, r', sv')"
proof -
  obtain res sv1 where o: "sys_open (path_of r) sv = (res, sv1)" by fastforce
  have fs: "buf_ok r" "files_small sv" using assms(2) by (simp_all add: fresh_def)
  from o fs(2) show ?thesis
  proof (cases rule: sys_open_cases)
    case (1 e)
    have failed: "result_ok sv (open_failed e r sv)" by (simp add: open_failed_def plain_result_ok fs)
    moreover have "result_ok sv (v, r', sv')"
      if z: "(case sys_open p sv of (gz, sv) \<Rightarrow>
          case gz of Inr (m, _) \<Rightarrow> Some (gunzip_file r (fd_close m sv)) | Inl _ \<Rightarrow> Some (open_failed e r sv)) = Some (v, r', sv')" for p
    proof -
      obtain gz sv2 where g: "sys_open p sv = (gz, sv2)" by fastforce
      from g fs(2) show ?thesis
      proof (cases rule: sys_open_cases)
        case (1 e)
        then show ?thesis using z g failed by simp
      next
        case (2 m g)
        then show ?thesis
          using z \<open>sys_open p sv = (gz, sv2)\<close> result_ok_mono [OF gunzip_ok(1) [OF fresh_close [OF assms(2) 2(4,5,6)]] 2(5)] by simp
      qed
    qed
    ultimately show ?thesis
      using assms(1) fs by (auto simp: init_get_def Let_def o 1 plain_result_ok split: if_splits)
  next
    case (2 n f)
    have acc: "\<not> (build_access_control sv1 \<and> \<not> access_allow sv1 (path_of r))"
      using o 2(1) assms(3) by (auto simp: refused_open_def sys_open_def fd_open_def access_allow_def split: sum.splits)
    note fr = fresh_close [OF assms(2) 2(4,5,6)]
    show ?thesis
    proof (cases "f_kind f = Directory")
      case False
      then have "init_file n f r sv1 = Some (v, r', sv')" using assms(1) acc by (simp add: init_get_def Let_def o 2)
      from init_file_ok [OF this 2(2)] show ?thesis using assms(2) 2(3) by (simp add: fresh_def)
    next
      case True
      obtain d r2 sv2 where d: "get_dir r f (fd_close n sv1) = (d, r2, sv2)" by (metis prod_cases3)
      have dok: "dir_ok sv (d, r2, sv2)" using dir_ok_mono [OF get_dir_ok [OF fr] 2(5), of f] d by simp
      consider "dir_redirect r (fd_close n sv1) = (v, r', sv')"
        | w where "d = Dir_ret w" "(v, r', sv') = (if w < 0 then 0 else w, r2, sv2)"
        | m g where "d = Dir_file m g" "init_file m g r2 sv2 = Some (v, r', sv')"
        using assms(1) acc True d by (cases d) (auto simp: init_get_def Let_def o 2 split: if_splits)
      then show ?thesis
      proof cases
        case 1
        then show ?thesis using result_ok_mono [OF dir_redirect_ok [OF fr] 2(5)] by simp
      next
        case (2 w)
        then show ?thesis using dok by (auto simp: dir_ok_def result_ok_def split: if_splits)
      next
        case (3 m g)
        then show ?thesis using dok init_file_ok [OF 3(2), of sv] by (simp add: dir_ok_def)
      qed
    qed
  qed
qed

section \<open>Properties\<close>

text \<open>A file, and a request for the bytes 1 to 3 of it whose socket takes two bytes at a time.\<close>

definition example_file :: "string \<Rightarrow> file_info" where
  "example_file c = \<lparr>f_kind = Regular, f_dev = 1, f_ino = 2, f_mtime = 0, f_content = c\<rparr>"

definition example_range :: Range where
  "example_range = \<lparr>r_start = 1, r_stop = 3\<rparr>"

definition example_serving :: request where
  "example_serving = example_request\<lparr>data_mem := Some ''hello'', ranges := [example_range],
     sock := (sock example_request)\<lparr>ch_writes := [Wrote 2, Wrote 2, Wrote 2]\<rparr>\<rparr>"

lemma example_serving_ok:
  "req_method example_serving \<noteq> M_HEAD" "data_mem example_serving = Some ''hello''"
  "ranges example_serving = [example_range]" "range_of_file ''hello'' example_range"
  "response_status example_serving \<noteq> R_PARTIAL_CONTENT"
  "range_bytes ''hello'' example_range = ''ell''" "serving ''hello'' example_serving example_server"
  "ch_sent (sock example_serving) = []"
  by (simp_all add: example_serving_def example_request_def example_range_def range_of_file_def MAX_FILE_MMAP_def
      range_bytes_def serving_def example_server_def null_chan_def R_PARTIAL_CONTENT_def)

text \<open>C12: \<open>init_get\<close> on a request with an empty output buffer and no mapped file, whatever the file system
  holds and whichever allocations and system calls fail: the result is one of the three values the
  scheduler knows and the output buffer stays inside its array. On every path but one each descriptor open
  afterwards was open before or is the request's own \<open>data_fd\<close>: the probes for a compressed file, the directory
  and the index file that is written are closed. The one path is that of a file that opens but that access control
  refuses: there the request is answered with 403 and the descriptor of the file stays open, in no field of the request.
\<close>

theorem init_get_safe:
  assumes "buf_ok r" and "buffer_start r = 0" and "data_mem r = None" and "fds_ok sv" and "post_data_fd r < next_fd sv"
    and "files_small sv"
  shows "case init_get r sv of
           None \<Rightarrow> True
         | Some (v, r', sv') \<Rightarrow> v \<in> {-1, 0, 1} \<and> buf_ok r' \<and>
             (if refused_open r sv
              then r' = send_r_forbidden sv r \<and> v = 0 \<and> open_fds sv' = next_fd sv # open_fds sv
              else set (open_fds sv') \<subseteq> insert (data_fd r') (set (open_fds sv)))"
proof (cases "refused_open r sv")
  case True
  then show ?thesis using assms(1) init_get_refused [OF True] by (simp add: fd_open_def forbidden_opened)
next
  case False
  show ?thesis
  proof (cases "init_get r sv")
    case (Some res)
    obtain v r' sv' where res: "res = (v, r', sv')" by (metis prod_cases3)
    have "fresh r sv" using assms by (simp add: fresh_def)
    from init_get_ok [OF Some [unfolded res] this False] show ?thesis by (simp add: Some res result_ok_def False)
  qed simp
qed

text \<open>Serving a small file, and refusing it.\<close>

theorem init_get_safe_witness:
  "let sv = example_server\<lparr>fs_open := (\<lambda>p. Inr (example_file ''hello'')), open_fds := [5]\<rparr>; r = example_request\<lparr>pathname := Some ''/www/a''\<rparr>
   in case init_get r sv of None \<Rightarrow> True
      | Some (v, r', sv') \<Rightarrow> v \<in> {-1, 0, 1} \<and> buf_ok r' \<and>
          (if refused_open r sv
           then r' = send_r_forbidden sv r \<and> v = 0 \<and> open_fds sv' = next_fd sv # open_fds sv
           else set (open_fds sv') \<subseteq> insert (data_fd r') (set (open_fds sv)))"
proof -
  have "fds_ok (example_server\<lparr>fs_open := (\<lambda>p. Inr (example_file ''hello'')), open_fds := [5]\<rparr>)"
    "files_small (example_server\<lparr>fs_open := (\<lambda>p. Inr (example_file ''hello'')), open_fds := [5]\<rparr>)"
    by (simp_all add: fds_ok_def files_small_def example_server_def example_file_def)
  then show ?thesis
    unfolding Let_def
    by (intro init_get_safe) (simp_all add: buf_ok_def example_request_def example_server_def)
qed

text \<open>One call of \<open>process_get\<close> for a single range of a mapped file, whatever the socket does: bytes
  reach the client in the order of the file and only bytes of the range. When the call wants to be
  called again, what was sent and what is left still make up the range; when it is finished
  the whole range was sent, or the request is dead and a prefix of it was.
\<close>

theorem process_get_in_order:
  assumes "req_method r \<noteq> M_HEAD" and "data_mem r = Some mem" and "ranges r = [x]" and "range_of_file mem x"
    and "response_status r \<noteq> R_PARTIAL_CONTENT \<or> numranges r \<le> 1"
    and "process_get r sv = (v, r', sv')"
  shows "v \<in> {-1, 0, 1} \<and>
     (v \<noteq> 0 \<longrightarrow> delivery mem r' = delivery mem r \<and> (\<exists>x'. ranges r' = [x'] \<and> range_of_file mem x')) \<and>
     (v = 0 \<longrightarrow> status r' = DONE \<and> ch_sent (sock r') = delivery mem r \<or>
               status r' = DEAD \<and> ch_sent (sock r') = ch_sent (sock r))"
proof -
  obtain ok sv1 where t: "try_sys sv = (ok, sv1)" by fastforce
  let ?bs = "take (min (system_bufsize sv1) (length (range_bytes mem x))) (range_bytes mem x)"
  obtain res ch where w: "sys_write (sock r) ?bs = (res, ch)" by fastforce
  note eq = assms(6) [unfolded process_get_eq [OF assms(1-4)] t prod.case w]
  show ?thesis
  proof (cases "ok \<and> (\<exists>m. res = Inr m)")
    case False
    then show ?thesis
      using eq assms(3,4) sys_write_result(2) [of "sock r" ?bs _ ch] w
      by (cases res) (auto simp: delivery_def split: if_splits)
  next
    case True
    then obtain m where m: "res = Inr m" and ok by auto
    note d = after_write_delivery [OF assms(3,4) w [unfolded m]]
    have le: "m \<le> length (range_bytes mem x)" using sys_write_result(1) [OF w [unfolded m]] by simp
    have nil: "range_bytes mem (advance m x) = []" if "m = length (range_bytes mem x)"
      using advance_facts(3) [OF assms(4) le] that by simp
    show ?thesis
      using eq \<open>ok\<close> m d assms(3,5) nil advance_facts(5) [OF assms(4) le] le
      by (auto simp: complete_response_def after_write_def delivery_def split: if_splits)
  qed
qed

theorem process_get_in_order_witness:
  "let (v, r', sv') = process_get example_serving example_server in
   v \<in> {-1, 0, 1} \<and>
     (v \<noteq> 0 \<longrightarrow> delivery ''hello'' r' = ''ell'' \<and> (\<exists>x'. ranges r' = [x'] \<and> range_of_file ''hello'' x')) \<and>
     (v = 0 \<longrightarrow> status r' = DONE \<and> ch_sent (sock r') = ''ell'' \<or> status r' = DEAD \<and> ch_sent (sock r') = [])"
proof -
  obtain v r' sv' where p: "process_get example_serving example_server = (v, r', sv')" by (metis prod_cases3)
  have d: "delivery ''hello'' example_serving = ''ell''" by (simp add: delivery_def example_serving_ok)
  from process_get_in_order [OF example_serving_ok(1-4) disjI1 [OF example_serving_ok(5)] p]
  show ?thesis by (simp add: p d example_serving_ok)
qed

text \<open>C5: The scheduler's repeated calls of \<open>process_get\<close> end: as long as the socket accepts at least one
  byte per write, no more calls than the range has bytes are made, after which the client has
  received exactly the range and the request is done.
\<close>

theorem get_delivers_range:
  assumes "serving mem r sv" and "ranges r = [x]" and "length (range_bytes mem x) \<le> n"
  shows "\<exists>r' sv'. get_loop n r sv = (0, r', sv') \<and> status r' = DONE \<and>
     ch_sent (sock r') = ch_sent (sock r) @ range_bytes mem x"
  using get_loop_delivers [OF assms] assms(2) by (auto simp: delivery_def)

theorem get_delivers_range_witness:
  "\<exists>r' sv'. get_loop 3 example_serving example_server = (0, r', sv') \<and> status r' = DONE \<and> ch_sent (sock r') = ''ell''"
  using get_delivers_range [OF example_serving_ok(7,3), of 3] by (simp add: example_serving_ok)

end
