(* ===== verification/Header.thy ===== *)
theory Header
  imports Get
begin

text \<open>
  The request line, the header lines and the end of the headers (\<open>request.c\<close>). The pointers of the
  code into the stream of the client are strings here, since the bytes they point to are not written
  again before the request is finished; the terminators the code writes into the stream are written.
  \<open>None\<close> is the fatal exit when no memory is left for a range.
\<close>

section \<open>The request line\<close>

definition SERVER_METHOD :: string where "SERVER_METHOD = ''http''"
definition INT_MAX :: "64 word" where "INT_MAX = 2147483647"

definition line_method :: "string \<Rightarrow> http_method option" where
  "line_method line =
     (if prefix ''GET '' line then Some M_GET
      else if prefix ''HEAD '' line then Some M_HEAD
      else if prefix ''POST '' line then Some M_POST
      else None)"

text \<open>
  A conversion \<open>%u\<close> of \<open>sscanf\<close>: white space, a sign, digits; the C library reads an unsigned long
  that saturates, and the result keeps its low 32 bits.
\<close>

definition scan_u :: "string \<Rightarrow> (32 word \<times> string) option" where
  "scan_u s =
     (let s = dropWhile isspace s;
          neg = prefix ''-'' s;
          s = (if neg \<or> prefix ''+'' s then tl s else s);
          ds = takeWhile isdigit s;
          n = digits_value ds
      in if ds = [] then None
         else Some (if n \<ge> 2 ^ 64 then -1 else if neg then - of_nat n else of_nat n, drop (length ds) s))"

definition scan_version :: "string \<Rightarrow> (32 word \<times> 32 word) option" where
  "scan_version s =
     (if \<not> prefix ''HTTP/'' s then None
      else case scan_u (drop 5 s) of
        None \<Rightarrow> None
      | Some (p1, s) \<Rightarrow>
          if \<not> prefix ''.'' s then None
          else (case scan_u (tl s) of None \<Rightarrow> None | Some (p2, _) \<Rightarrow> Some (p1, p2)))"

text \<open>The version behind the URI; \<open>None\<close> is the jump to \<open>BAD_VERSION\<close>.\<close>

definition line_version :: "string \<Rightarrow> http_version option" where
  "line_version rest =
     (let s = dropWhile ((=) (CHR '' '')) rest in
      if s = [] then Some HTTP09
      else case scan_version s of
        None \<Rightarrow> None
      | Some (p1, p2) \<Rightarrow>
          if p1 = 0 \<and> p2 = 9 then Some HTTP09
          else if p1 = 1 \<and> p2 = 0 then Some HTTP10
          else if p1 = 1 \<and> p2 = 1 then Some HTTP11
          else None)"

text \<open>
  The URI: what is copied to the request, and for an absolute URI the host with the offset in the
  line where it is terminated. \<open>None\<close> is a bad request.
\<close>

definition line_uri :: "string \<Rightarrow> (string \<times> (string \<times> nat) option) option" where
  "line_uri url =
     (let pre = SERVER_METHOD @ ''://'';
          rest = drop (length pre) url;
          host = takeWhile (\<lambda>c. c \<noteq> CHR ''/'') rest;
          k = length pre + length host
      in if \<not> prefix pre url then Some (url, None)
         else if host = [] \<or> k \<ge> length url then None
         else Some (drop k url, Some (host, k)))"

text \<open>Storing them: the terminator of the host cuts the logged line too.\<close>

definition set_uri :: "string \<Rightarrow> nat \<Rightarrow> string \<Rightarrow> (string \<times> nat) option \<Rightarrow> request \<Rightarrow> request" where
  "set_uri line stop uri authority r =
     (case authority of
        None \<Rightarrow> r
      | Some (h, k) \<Rightarrow>
          r\<lparr>client_stream := (client_stream r)[stop + k := NUL],
            logline := Some (take (stop + k) line), header_host := Some h\<rparr>)\<lparr>request_uri := uri\<rparr>"

definition process_logline :: "request \<Rightarrow> server \<Rightarrow> int \<times> request \<times> server" where
  "process_logline r sv =
     (let line = cstr (client_stream r);
          r = r\<lparr>logline := Some line\<rparr> in
      if length line < 5 then (0, send_r_bad_request sv r, sv)
      else case line_method line of
        None \<Rightarrow> (0, send_r_not_implemented sv r, sv)
      | Some m \<Rightarrow>
          (let r = r\<lparr>req_method := m, http_version := HTTP10\<rparr>;
               i = (if line ! 3 = CHR '' '' then 3 else 4);
               rest = dropWhile ((=) (CHR '' '')) (drop (i + 1) line);
               stop = length line - length rest;
               url = takeWhile (\<lambda>c. c \<noteq> CHR '' '') rest
           in if length url > MAX_HEADER_LENGTH then (0, send_r_bad_request sv r, sv)
              else case line_uri url of
                None \<Rightarrow> (0, send_r_bad_request sv r, sv)
              | Some (uri, authority) \<Rightarrow>
                  (let r = set_uri line stop uri authority r
                   in case line_version (drop (length url) rest) of
                        None \<Rightarrow> (0, send_r_bad_request sv r, sv)
                      | Some v \<Rightarrow>
                          (let r = r\<lparr>http_version := v\<rparr>;
                               r = (if v = HTTP11 then r\<lparr>keepalive := KA_ACTIVE\<rparr> else r)
                           in if m = M_HEAD \<and> v = HTTP09 then (0, send_r_bad_request sv r, sv)
                              else (1, r\<lparr>cgi_env_index := length (common_cgi_env sv)\<rparr>, sv)))))"

section \<open>Header lines\<close>

definition bytes_at :: "request \<Rightarrow> ptr \<Rightarrow> string" where
  "bytes_at r p = (case p of Null \<Rightarrow> [] | Stream k \<Rightarrow> drop k (client_stream r) | Buf k \<Rightarrow> drop k (buffer r))"

definition poke :: "ptr \<Rightarrow> string \<Rightarrow> request \<Rightarrow> request" where
  "poke p bs r =
     (case p of
        Null \<Rightarrow> r
      | Stream k \<Rightarrow> r\<lparr>client_stream := blit (client_stream r) k bs\<rparr>
      | Buf k \<Rightarrow> r\<lparr>buffer := blit (buffer r) k bs\<rparr>)"

definition isblank :: "char \<Rightarrow> bool" where
  "isblank c \<longleftrightarrow> c = CHR '' '' \<or> c = HT"

text \<open>A variable of the environment for a header.\<close>

definition option_env :: "string \<Rightarrow> string \<Rightarrow> request \<Rightarrow> server \<Rightarrow> (int \<times> request \<times> server) option" where
  "option_env key val r sv = Some (add_cgi_env r key (Some val) True sv)"

definition option_range :: "string \<Rightarrow> request \<Rightarrow> server \<Rightarrow> (int \<times> request \<times> server) option" where
  "option_range val r sv =
     (if ranges r \<noteq> [] \<and> r_stop (hd (ranges r)) = INT_MAX then Some (1, r, sv)
      else case range_parse r val sv of
        None \<Rightarrow> None
      | Some (v, r, sv) \<Rightarrow>
          if v = 0 then Some (0, send_r_invalid_range sv r, sv) else option_env ''RANGE'' val r sv)"

definition option_value :: "string \<Rightarrow> string \<Rightarrow> request \<Rightarrow> server \<Rightarrow> (int \<times> request \<times> server) option" where
  "option_value key val r sv =
     (if key = ''ACCEPT'' then Some (1, r, sv)
      else if key = ''CONTENT_TYPE'' \<and> content_type r = None then Some (1, r\<lparr>content_type := Some val\<rparr>, sv)
      else if key = ''CONTENT_LENGTH'' \<and> content_length r = None then Some (1, r\<lparr>content_length := Some val\<rparr>, sv)
      else if key = ''CONNECTION'' \<and> ka_max sv \<noteq> 0 \<and> keepalive r \<noteq> KA_STOPPED then
        Some (1, r\<lparr>keepalive := (if strncasecmp val ''Keep-Alive'' 10 = 0 then KA_ACTIVE else KA_STOPPED)\<rparr>, sv)
      else if key = ''HOST'' \<and> header_host r = None then Some (1, r\<lparr>header_host := Some val\<rparr>, sv)
      else if key = ''IF_MODIFIED_SINCE'' \<and> if_modified_since r = None then
        Some (1, r\<lparr>if_modified_since := Some val\<rparr>, sv)
      else if key = ''REFERER'' then
        (case add_cgi_env (r\<lparr>header_referer := Some val\<rparr>) ''REFERER'' (Some val) True sv of (v, r, sv) \<Rightarrow>
           if v = 0 then Some (0, r, sv) else option_env key val r sv)
      else if key = ''RANGE'' then option_range val r sv
      else if key = ''USER_AGENT'' then option_env ''USER_AGENT'' val (r\<lparr>header_user_agent := Some val\<rparr>) sv
      else option_env key val r sv)"

definition process_option_line :: "request \<Rightarrow> server \<Rightarrow> (int \<times> request \<times> server) option" where
  "process_option_line r sv =
     (let line = cstr (bytes_at r (header_line r)) in
      case strchr line (CHR '':'') of
        None \<Rightarrow> Some (0, r, sv)
      | Some i \<Rightarrow>
          (let key = to_upper (take i line);
               val = dropWhile isblank (drop (Suc i) line);
               r = poke (header_line r) (key @ [NUL]) r
           in if val = [] then Some (1, r, sv) else option_value key val r sv))"

section \<open>The end of the headers\<close>

text \<open>
  A temporary file: its name is made by \<open>mkstemp\<close> from the template; \<open>None\<close> for \<open>storage\<close> and
  removal at once is the only use. The result 0 is failure.
\<close>

definition create_temporary_file :: "server \<Rightarrow> nat \<times> server" where
  "create_temporary_file sv =
     (case try_sys sv of (ok, sv) \<Rightarrow>
        if \<not> ok then (0, sv)
        else case fd_open sv of (n, sv) \<Rightarrow>
          case try_sys sv of (ok, sv) \<Rightarrow>
            if \<not> ok then (0, fd_close n sv) else (n, sv))"

definition set_host :: "request \<Rightarrow> server \<Rightarrow> int \<times> request \<times> server" where
  "set_host r sv =
     (case try_alloc sv of (ok, sv) \<Rightarrow>
        if \<not> ok then (0, send_r_error sv (r\<lparr>host := None\<rparr>), sv)
        else
          (let h = strlower (case header_host r of None \<Rightarrow> default_vhost sv | Some h \<Rightarrow> h);
               h = (case strchr h (CHR '':'') of Some k \<Rightarrow> take k h | None \<Rightarrow> h);
               r = r\<lparr>host := Some h\<rparr>
           in if check_host (Some h) < 1 then (0, send_r_bad_request sv r, sv) else (1, r, sv)))"

definition open_post :: "request \<Rightarrow> server \<Rightarrow> int \<times> request \<times> server" where
  "open_post r sv =
     (case create_temporary_file sv of (n, sv) \<Rightarrow>
      let r = r\<lparr>post_data_fd := n\<rparr> in
      if n = 0 then (0, send_r_error sv r, sv)
      else case try_sys sv of (ok, sv) \<Rightarrow>
        if \<not> ok then (0, (boa_perror sv r)\<lparr>post_data_fd := 0\<rparr>, fd_close n sv)
        else (1, r, sv))"

text \<open>What starts once the URI is translated.\<close>

definition start_request :: "request \<Rightarrow> server \<Rightarrow> (int \<times> request \<times> server) option" where
  "start_request r sv =
     (if build_access_control sv \<and> (case pathname r of Some p \<Rightarrow> \<not> access_allow sv p | None \<Rightarrow> False)
      then Some (0, send_r_forbidden sv r, sv)
      else if req_method r = M_POST then Some (open_post r sv)
      else if cgi_type r \<noteq> CGI_NONE then Some (init_cgi r sv)
      else init_get (r\<lparr>status := WRITE\<rparr>) sv)"

definition process_header_end :: "request \<Rightarrow> server \<Rightarrow> (int \<times> request \<times> server) option" where
  "process_header_end r sv =
     (if logline r = None then Some (0, send_r_error sv r, sv)
      else case unescape_uri True (request_uri r) of (ok, uri, query) \<Rightarrow>
        let r = r\<lparr>request_uri := uri, query_string := (case query of None \<Rightarrow> query_string r | q \<Rightarrow> q)\<rparr> in
        if \<not> ok then Some (0, send_r_bad_request sv r, sv)
        else
          (let r = r\<lparr>request_uri := clean_pathname uri\<rparr> in
           if char_at (request_uri r) 0 \<noteq> CHR ''/'' then Some (0, send_r_bad_request sv r, sv)
           else case (if vhost_root sv \<noteq> None then set_host r sv else (1, r, sv)) of (v, r, sv) \<Rightarrow>
             if v = 0 then Some (0, r, sv)
             else case translate_uri r sv of (v, r, sv) \<Rightarrow>
               if v = 0 then Some (0, SQUASH_KA r, sv) else start_request r sv))"

section \<open>What the steps leave alone\<close>

text \<open>
  The steps before a request is served neither move its stream nor touch a descriptor or the file
  system; a step that succeeds leaves the output buffer alone, one that fails has written an answer to it.
\<close>

definition server_core :: "server \<Rightarrow> nat list \<times> nat \<times> (string \<Rightarrow> errno + file_info) \<times> (string \<Rightarrow> string \<Rightarrow> errno + file_info)
    \<times> bool \<times> (string \<times> bool) list \<times> (string \<Rightarrow> string \<Rightarrow> bool)" where
  "server_core sv = (open_fds sv, next_fd sv, fs_open sv, fs_create sv, build_access_control sv, access_nodes sv, fs_fnmatch sv)"

definition conn :: "request \<Rightarrow> nat \<times> nat \<times> nat \<times> nat \<times> nat" where
  "conn r = (parse_pos r, client_stream_pos r, length (client_stream r), data_fd r, post_data_fd r)"

definition quiet :: "request \<Rightarrow> string \<times> nat \<times> nat \<times> string option \<times> chan \<times> ptr \<times> ptr \<times> req_status" where
  "quiet r = (buffer r, buffer_start r, buffer_end r, data_mem r, sock r, header_line r, header_end r, status r)"

definition keeps :: "request \<Rightarrow> server \<Rightarrow> int \<times> request \<times> server \<Rightarrow> bool" where
  "keeps r sv res \<longleftrightarrow>
     (case res of (v, r', sv') \<Rightarrow>
        server_core sv' = server_core sv \<and> conn r' = conn r \<and> (buf_ok r \<longrightarrow> buf_ok r') \<and>
        (v = 0 \<or> v = 1 \<and> quiet r' = quiet r))"

lemma conn_sends:
  assumes "responds c r r'"
  shows "conn r' = conn r"
  using responds_fields [OF assms] by (simp add: conn_def)

lemmas conn_all [simp] = responds_all [THEN conn_sends]

lemma conn_perror [simp]: "conn (boa_perror sv r) = conn r"
  by (simp add: boa_perror_def)

lemma keeps_0: "keeps r sv (0, r', sv) \<longleftrightarrow> conn r' = conn r \<and> (buf_ok r \<longrightarrow> buf_ok r')"
  by (simp add: keeps_def)

lemma keeps_1:
  "keeps r sv (1, r', sv) \<longleftrightarrow> conn r' = conn r \<and> quiet r' = quiet r"
  by (auto simp: keeps_def quiet_def buf_ok_def)

lemma keeps_from:
  assumes "keeps r1 sv1 res" and "server_core sv1 = server_core sv" and "conn r1 = conn r" and "quiet r1 = quiet r"
  shows "keeps r sv res"
proof -
  have "buf_ok r1 = buf_ok r" using assms(4) by (simp add: quiet_def buf_ok_def)
  then show ?thesis using assms by (auto simp: keeps_def split: prod.splits)
qed

lemma keeps_bind:
  assumes "keeps r sv res" and "\<And>r' sv'. res = (1, r', sv') \<Longrightarrow> keeps r' sv' (f r' sv')"
  shows "keeps r sv (case res of (v, r, sv) \<Rightarrow> if v = 0 then (0, r, sv) else f r sv)"
proof -
  obtain v r1 sv1 where res: "res = (v, r1, sv1)" by (metis prod_cases3)
  note k = assms(1) [unfolded keeps_def res prod.case]
  show ?thesis
  proof (cases "v = 0")
    case True
    then show ?thesis using assms(1) unfolding res prod.case by simp
  next
    case False
    then have v: "v = 1" using k by simp
    have "keeps r sv (f r1 sv1)" using k v by (intro keeps_from [OF assms(2) [OF res [unfolded v]]]) simp_all
    then show ?thesis unfolding res prod.case v by simp
  qed
qed

lemma alloc_core: "try_alloc sv = (ok, sv') \<Longrightarrow> server_core sv' = server_core sv"
  by (auto simp: server_core_def dest!: try_alloc_server)

lemma sys_core: "try_sys sv = (ok, sv') \<Longrightarrow> server_core sv' = server_core sv"
  by (auto simp: try_sys_def server_core_def split: list.splits)

lemma keeps_alloc:
  assumes "\<And>sv'. server_core sv' = server_core sv \<Longrightarrow> keeps r sv' (f sv')" "\<And>sv'. server_core sv' = server_core sv \<Longrightarrow> keeps r sv' (g sv')"
  shows "keeps r sv (case try_alloc sv of (ok, sv) \<Rightarrow> if \<not> ok then f sv else g sv)"
proof -
  obtain ok sv1 where a: "try_alloc sv = (ok, sv1)" by fastforce
  note core = alloc_core [OF a]
  have "keeps r sv1 (if \<not> ok then f sv1 else g sv1)" using assms core by simp
  then show ?thesis using core by (auto simp: a intro: keeps_from)
qed

lemma core_updates [simp]:
  "server_core (sv\<lparr>script_buf := pb\<rparr>) = server_core sv" "server_core (sv\<lparr>alloc_script := al\<rparr>) = server_core sv"
  "server_core (sv\<lparr>range_pool := n\<rparr>) = server_core sv" "server_core (sv\<lparr>passwd_hashtable := t\<rparr>) = server_core sv"
  by (simp_all add: server_core_def)

lemma conn_updates [simp]:
  "conn (r\<lparr>pathname := a\<rparr>) = conn r" "conn (r\<lparr>script_name := a\<rparr>) = conn r" "conn (r\<lparr>cgi_type := t\<rparr>) = conn r"
  "conn (r\<lparr>path_translated := a\<rparr>) = conn r" "conn (r\<lparr>path_info := a\<rparr>) = conn r" "conn (r\<lparr>host := a\<rparr>) = conn r"
  "conn (r\<lparr>logline := a\<rparr>) = conn r" "conn (r\<lparr>req_method := m\<rparr>) = conn r" "conn (r\<lparr>http_version := h\<rparr>) = conn r"
  "conn (r\<lparr>request_uri := u\<rparr>) = conn r" "conn (r\<lparr>header_host := a\<rparr>) = conn r" "conn (r\<lparr>keepalive := k\<rparr>) = conn r"
  "conn (r\<lparr>cgi_env_index := n\<rparr>) = conn r" "conn (r\<lparr>query_string := a\<rparr>) = conn r"
  by (simp_all add: conn_def)

lemma quiet_updates [simp]:
  "quiet (r\<lparr>pathname := a\<rparr>) = quiet r" "quiet (r\<lparr>script_name := a\<rparr>) = quiet r" "quiet (r\<lparr>cgi_type := t\<rparr>) = quiet r"
  "quiet (r\<lparr>path_translated := a\<rparr>) = quiet r" "quiet (r\<lparr>path_info := a\<rparr>) = quiet r" "quiet (r\<lparr>host := a\<rparr>) = quiet r"
  "quiet (r\<lparr>logline := a\<rparr>) = quiet r" "quiet (r\<lparr>req_method := m\<rparr>) = quiet r" "quiet (r\<lparr>http_version := h\<rparr>) = quiet r"
  "quiet (r\<lparr>request_uri := u\<rparr>) = quiet r" "quiet (r\<lparr>header_host := a\<rparr>) = quiet r" "quiet (r\<lparr>keepalive := k\<rparr>) = quiet r"
  "quiet (r\<lparr>cgi_env_index := n\<rparr>) = quiet r" "quiet (r\<lparr>query_string := a\<rparr>) = quiet r"
  by (simp_all add: quiet_def)

lemma realias_keeps: "keeps r sv (realias_loop as info r sv)"
proof (induction as arbitrary: r sv)
  case (Cons a as)
  have "keeps r sv' (realias_loop as info (r\<lparr>path_translated := x\<rparr>) sv')" for x sv'
    using Cons.IH [of "r\<lparr>path_translated := x\<rparr>" sv'] by (rule keeps_from) simp_all
  then show ?case using Cons.IH by (auto simp: keeps_1 keeps_0 intro!: keeps_alloc)
qed (simp add: keeps_1)

lemma lookup_home_core: "lookup_home name sv = (dir, sv') \<Longrightarrow> server_core sv' = server_core sv"
  by (auto simp: lookup_home_def split: prod.splits)

lemma path_default_keeps: "keeps r sv (path_default info r sv)"
proof -
  have home: "keeps r sv (path_from_home d info r sv)" for d
  proof -
    let ?rest = "drop 1 info"
    obtain h sv1 where l: "lookup_home (case strchr ?rest (CHR ''/'') of Some k \<Rightarrow> drop 1 (take k ?rest) | None \<Rightarrow> drop 1 ?rest) sv = (h, sv1)"
      by fastforce
    have "keeps r sv1 (path_from_home d info r sv)"
      unfolding path_from_home_def Let_def l prod.case
      by (cases h) (auto simp: keeps_0 keeps_1 intro!: keeps_alloc)
    then show ?thesis using lookup_home_core [OF l] by (auto intro: keeps_from)
  qed
  have "keeps r sv (path_from_root d info r sv)" for d
    unfolding path_from_root_def by (rule keeps_alloc) (simp_all add: keeps_0 keeps_1)
  then show ?thesis using home by (simp add: path_default_def keeps_1)
qed

lemma set_script_pathname_keeps: "keeps r sv (set_script_pathname pb r sv)"
proof -
  have "keeps r (sv\<lparr>script_buf := pb\<rparr>) (set_script_pathname pb r sv)"
    unfolding set_script_pathname_def Let_def by (rule keeps_alloc) (simp_all add: keeps_0 keeps_1)
  then show ?thesis by (rule keeps_from) simp_all
qed

lemma keeps_server: "keeps r sv' res \<Longrightarrow> server_core sv' = server_core sv \<Longrightarrow> keeps r sv res"
  by (erule keeps_from) simp_all

lemma script_whole_keeps: "keeps r sv (script_whole pb r sv)"
proof -
  have "keeps r (sv\<lparr>script_buf := pb\<rparr>) (script_whole pb r sv)"
    unfolding script_whole_def Let_def
    by (auto simp: keeps_0 intro: set_script_pathname_keeps split: option.splits)
  then show ?thesis by (rule keeps_server) simp
qed

lemma script_with_info_keeps: "keeps r sv (script_with_info pb i r sv)"
proof -
  have "keeps r (sv\<lparr>script_buf := pb\<rparr>) (script_with_info pb i r sv)"
    unfolding script_with_info_def Let_def
  proof (rule keeps_alloc)
    fix sv' assume "server_core sv' = server_core (sv\<lparr>script_buf := pb\<rparr>)"
    show "keeps r sv' (0, boa_perror sv' r, sv')" by (simp add: keeps_0)
    show "keeps r sv' (case realias_loop (alias_hashtable (sv'\<lparr>script_buf := pb[i := NUL]\<rparr>) ! get_alias_hash_value (cstr (drop i pb)))
              (cstr (drop i pb)) (r\<lparr>path_info := Some (cstr (drop i pb)), script_name := map_option f (script_name r)\<rparr>)
              (sv'\<lparr>script_buf := pb[i := NUL]\<rparr>)
         of (v, r, sv) \<Rightarrow> if v = 0 then (0, r, sv)
            else case path_default (cstr (drop i pb)) r sv of (v, r, sv) \<Rightarrow>
              if v = 0 then (0, r, sv) else set_script_pathname (pb[i := NUL]) r sv)" for f
      by (rule keeps_from, rule keeps_bind [OF realias_keeps], rule keeps_bind [OF path_default_keeps], rule set_script_pathname_keeps)
         simp_all
  qed
  then show ?thesis by (rule keeps_server) simp
qed

lemma init_script_alias_keeps: "keeps r sv (init_script_alias r a n sv)"
proof -
  let ?path = "script_path r sv a"
  let ?pb = "?path @ [NUL] @ drop (length ?path + 1) (script_buf sv)"
  have stopped: "keeps r sv
     (case try_alloc (sv\<lparr>script_buf := ?pb\<rparr>) of (ok, sv) \<Rightarrow>
        if \<not> ok then (0, boa_perror sv (r\<lparr>cgi_type := t\<rparr>), sv)
        else if c = NUL then script_whole ?pb (r\<lparr>cgi_type := t, script_name := s\<rparr>) sv
        else script_with_info ?pb i (r\<lparr>cgi_type := t, script_name := s\<rparr>) sv)" for c i t s
  proof -
    have "keeps r sv' (if c = NUL then script_whole ?pb (r\<lparr>cgi_type := t, script_name := s\<rparr>) sv'
        else script_with_info ?pb i (r\<lparr>cgi_type := t, script_name := s\<rparr>) sv')" for sv'
      by (rule keeps_from [of "r\<lparr>cgi_type := t, script_name := s\<rparr>" sv'])
         (simp_all add: script_whole_keeps script_with_info_keeps)
    then have "keeps r (sv\<lparr>script_buf := ?pb\<rparr>) (case try_alloc (sv\<lparr>script_buf := ?pb\<rparr>) of (ok, sv) \<Rightarrow>
        if \<not> ok then (0, boa_perror sv (r\<lparr>cgi_type := t\<rparr>), sv)
        else if c = NUL then script_whole ?pb (r\<lparr>cgi_type := t, script_name := s\<rparr>) sv
        else script_with_info ?pb i (r\<lparr>cgi_type := t, script_name := s\<rparr>) sv)"
      by (intro keeps_alloc) (simp_all add: keeps_0)
    then show ?thesis by (rule keeps_server) simp
  qed
  have answer: "keeps r sv (0, x, sv\<lparr>script_buf := b\<rparr>)" if "conn x = conn r" "buf_ok r \<longrightarrow> buf_ok x" for x b
    using that by (simp add: keeps_def)
  show ?thesis
  proof (cases "length ?path + 1 > PATH_BUF")
    case True
    then show ?thesis by (simp add: init_script_alias_def keeps_0)
  next
    case False
    then show ?thesis
      unfolding init_script_alias_def Let_def if_not_P [OF False]
      by (cases "script_loop sv ?pb (length (realname a))")
         (simp_all only: script_scan.case stopped, auto intro!: answer)
  qed
qed

lemma keeps_if: "keeps r sv a \<Longrightarrow> keeps r sv b \<Longrightarrow> keeps r sv (if c then a else b)"
  by simp

lemma set_pathname_keeps: "keeps r sv (set_pathname path r sv)"
  unfolding set_pathname_def Let_def bad_request_def
  by (rule keeps_alloc, simp add: keeps_0, intro keeps_if keeps_alloc) (simp_all add: keeps_0 keeps_1)

lemma translate_user_keeps: "keeps r sv (translate_user d r sv)"
proof -
  let ?name = "drop 2 (request_uri r)"
  obtain h sv1 where l: "lookup_home (case strchr ?name (CHR ''/'') of Some k \<Rightarrow> take k ?name | None \<Rightarrow> ?name) sv = (h, sv1)"
    by fastforce
  have *: "keeps r sv (case h of None \<Rightarrow> (0, send_r_not_found sv1 r, sv1)
     | Some dir \<Rightarrow> if c dir then (0, send_r_bad_request sv1 r, sv1) else set_pathname (p dir) r sv1)" for c p
    by (rule keeps_server [OF _ lookup_home_core [OF l]])
       (simp add: keeps_0 set_pathname_keeps split: option.split)
  show ?thesis
    unfolding translate_user_def Let_def l prod.case bad_request_def by (intro keeps_if *) (simp add: keeps_0)
qed

lemma translate_uri_keeps: "keeps r sv (translate_uri r sv)"
proof -
  have "keeps r sv (translate_alias a r sv)" for a
    unfolding translate_alias_def Let_def bad_request_def
    by (auto simp: keeps_0 keeps_1 init_script_alias_keeps intro!: keeps_alloc)
  moreover have "keeps r sv (translate_root d r sv)" "keeps r sv (translate_vhost d r sv)" for d
    by (simp_all add: translate_root_def translate_vhost_def Let_def bad_request_def set_pathname_keeps keeps_0)
  ultimately show ?thesis
    by (auto simp: translate_uri_def Let_def bad_request_def keeps_0 translate_user_keeps split: option.split)
qed

lemma set_host_keeps: "keeps r sv (set_host r sv)"
  unfolding set_host_def Let_def by (rule keeps_alloc) (simp_all add: keeps_0 keeps_1)

lemma set_uri_keeps [simp]:
  "conn (set_uri line stop uri au r) = conn r" "quiet (set_uri line stop uri au r) = quiet r"
  by (simp_all add: set_uri_def conn_def quiet_def split: option.split)

lemma keeps_case: "keeps r sv a \<Longrightarrow> (\<And>x. keeps r sv (f x)) \<Longrightarrow> keeps r sv (case z of None \<Rightarrow> a | Some x \<Rightarrow> f x)"
  by (cases z) simp_all

lemma quiet_buf_ok: "quiet r' = quiet r \<Longrightarrow> buf_ok r' = buf_ok r"
  by (simp add: quiet_def buf_ok_def)

lemma keeps_send:
  assumes "conn r' = conn r" and "quiet r' = quiet r"
  shows "keeps r sv (0, send_r_bad_request sv r', sv)" "keeps r sv (0, send_r_not_implemented sv r', sv)"
    "keeps r sv (0, send_r_invalid_range sv r', sv)" "keeps r sv (0, send_r_error sv r', sv)"
  using assms quiet_buf_ok [OF assms(2)] by (simp_all add: keeps_0)

lemma keeps_case_pair:
  "keeps r sv a \<Longrightarrow> (\<And>x y. keeps r sv (f x y)) \<Longrightarrow> keeps r sv (case z of None \<Rightarrow> a | Some (x, y) \<Rightarrow> f x y)"
  by (cases z) auto

lemma process_logline_keeps: "keeps r sv (process_logline r sv)"
  unfolding process_logline_def Let_def
  by (intro keeps_if keeps_case keeps_case_pair keeps_send) (simp_all add: keeps_1)

text \<open>The same for steps that may exit.\<close>

definition keeps_opt :: "request \<Rightarrow> server \<Rightarrow> (int \<times> request \<times> server) option \<Rightarrow> bool" where
  "keeps_opt r sv res \<longleftrightarrow> (case res of None \<Rightarrow> True | Some x \<Rightarrow> keeps r sv x)"

lemma keeps_opt_simps [simp]: "keeps_opt r sv None" "keeps_opt r sv (Some x) = keeps r sv x"
  by (simp_all add: keeps_opt_def)

lemma keeps_opt_from:
  assumes "keeps_opt r1 sv1 res" and "server_core sv1 = server_core sv" and "conn r1 = conn r" and "quiet r1 = quiet r"
  shows "keeps_opt r sv res"
  using assms by (cases res) (auto intro: keeps_from)

lemma more_updates [simp]:
  "conn (r\<lparr>ranges := x\<rparr>) = conn r" "conn (r\<lparr>numranges := n\<rparr>) = conn r" "quiet (r\<lparr>ranges := x\<rparr>) = quiet r" "quiet (r\<lparr>numranges := n\<rparr>) = quiet r"
  "conn (r\<lparr>cgi_env := e\<rparr>) = conn r" "quiet (r\<lparr>cgi_env := e\<rparr>) = quiet r"
  "conn (r\<lparr>content_type := a\<rparr>) = conn r" "quiet (r\<lparr>content_type := a\<rparr>) = quiet r"
  "conn (r\<lparr>content_length := a\<rparr>) = conn r" "quiet (r\<lparr>content_length := a\<rparr>) = quiet r"
  "conn (r\<lparr>if_modified_since := a\<rparr>) = conn r" "quiet (r\<lparr>if_modified_since := a\<rparr>) = quiet r"
  "conn (r\<lparr>header_referer := a\<rparr>) = conn r" "quiet (r\<lparr>header_referer := a\<rparr>) = quiet r"
  "conn (r\<lparr>header_user_agent := a\<rparr>) = conn r" "quiet (r\<lparr>header_user_agent := a\<rparr>) = quiet r"
  by (simp_all add: conn_def quiet_def)

text \<open>A request and a server after a step that changes only ranges, headers and memory.\<close>

definition kept :: "request \<Rightarrow> server \<Rightarrow> request \<times> server \<Rightarrow> bool" where
  "kept r sv x \<longleftrightarrow> server_core (snd x) = server_core sv \<and> conn (fst x) = conn r \<and> quiet (fst x) = quiet r"

lemma pool_core:
  "server_core (range_pool_push sv) = server_core sv" "range_pool_pop sv = Some (x, sv') \<Longrightarrow> server_core sv' = server_core sv"
  by (auto simp: range_pool_push_def range_pool_pop_def dest: alloc_core split: if_splits prod.splits)

lemma range_step_kept:
  "case range_step mode start stop c r sv of
     Fatal \<Rightarrow> True
   | Return v r' sv' \<Rightarrow> v = 0 \<and> kept r sv (r', sv')
   | Next _ _ _ r' sv' \<Rightarrow> kept r sv (r', sv')"
proof -
  have abort: "kept r sv (r', sv')" if "range_abort r sv = Some (r', sv')" for r' sv'
    using that by (auto simp: range_abort_def ranges_reset_def fold_push kept_def dest!: pool_core(2) split: option.splits)
  have add: "kept r sv (r', sv')" if "range_add r a b sv = Some (r', sv')" for r' sv' a b
    using that by (auto simp: range_add_def kept_def dest!: pool_core(2) split: option.splits)
  have refl: "kept r sv (r, sv)" by (simp add: kept_def)
  have abort': "case (case range_abort r sv of None \<Rightarrow> Fatal | Some (r, sv) \<Rightarrow> Return 0 r sv) of
     Fatal \<Rightarrow> True | Return v r' sv' \<Rightarrow> v = 0 \<and> kept r sv (r', sv') | Next _ _ _ r' sv' \<Rightarrow> kept r sv (r', sv')"
    by (auto split: option.split intro: abort)
  have add': "case (case range_add r a b sv of None \<Rightarrow> Fatal | Some (r, sv) \<Rightarrow> Next m 0 0 r sv) of
     Fatal \<Rightarrow> True | Return v r' sv' \<Rightarrow> v = 0 \<and> kept r sv (r', sv') | Next _ _ _ r' sv' \<Rightarrow> kept r sv (r', sv')" for a b m
    by (auto split: option.split intro: add)
  have "case (if A then case range_abort r sv of None \<Rightarrow> Fatal | Some (r, sv) \<Rightarrow> Return 0 r sv
       else if B then (if C then case range_abort r sv of None \<Rightarrow> Fatal | Some (r, sv) \<Rightarrow> Return 0 r sv
                       else case range_add r a b sv of None \<Rightarrow> Fatal | Some (r, sv) \<Rightarrow> Next m 0 0 r sv)
       else Next m a b r sv) of
     Fatal \<Rightarrow> True | Return v r' sv' \<Rightarrow> v = 0 \<and> kept r sv (r', sv') | Next _ _ _ r' sv' \<Rightarrow> kept r sv (r', sv')" for A B C a b m
    using abort' add' refl by simp
  then show ?thesis unfolding range_step_def Let_def .
qed

lemma range_loop_kept:
  "range_loop mode start stop cs r sv = Some (v, r', sv') \<Longrightarrow> v \<in> {0, 1} \<and> kept r sv (r', sv')"
proof (induction cs arbitrary: mode start stop r sv)
  case Nil
  then show ?case using range_step_kept [of r sv mode start stop NUL] by (auto split: range_outcome.splits)
next
  case (Cons c cs)
  show ?case
  proof (cases "range_step mode start stop c r sv")
    case (Next m a b r1 sv1)
    have k: "kept r sv (r1, sv1)" using range_step_kept [of r sv mode start stop c] Next by simp
    then show ?thesis
      using Cons.prems Cons.IH [of m a b r1 sv1] by (auto simp: Next kept_def split: if_splits)
  qed (use Cons.prems range_step_kept [of r sv mode start stop c] in auto)
qed

lemma range_parse_kept:
  "range_parse r str sv = Some (v, r', sv') \<Longrightarrow> v \<in> {0, 1} \<and> kept r sv (r', sv')"
  by (auto simp: range_parse_def kept_def dest!: range_loop_kept split: if_splits)

lemma add_cgi_env_keeps: "keeps r sv (add_cgi_env r key val pre sv)"
proof -
  obtain v r' sv' where a: "add_cgi_env r key val pre sv = (v, r', sv')" by (metis prod_cases3)
  have "server_core sv' = server_core sv"
    using a by (auto simp: add_cgi_env_def env_gen_extra_def Let_def dest!: alloc_core split: if_splits prod.splits)
  then show ?thesis using add_cgi_env_cases [OF a] by (auto simp: a keeps_def)
qed

lemma option_env_keeps: "conn r1 = conn r \<Longrightarrow> quiet r1 = quiet r \<Longrightarrow> keeps_opt r sv (option_env key val r1 sv)"
  using keeps_from [OF add_cgi_env_keeps [of r1 sv key "Some val" True], of sv r] by (simp add: option_env_def)

lemma option_range_keeps: "keeps_opt r sv (option_range val r sv)"
proof (cases "ranges r \<noteq> [] \<and> r_stop (hd (ranges r)) = INT_MAX")
  case True
  then show ?thesis by (simp add: option_range_def keeps_1)
next
  case False
  show ?thesis
  proof (cases "range_parse r val sv")
    case None
    then show ?thesis by (simp add: option_range_def keeps_1)
  next
    case (Some res)
    obtain v r1 sv1 where res: "res = (v, r1, sv1)" by (metis prod_cases3)
    have k: "kept r sv (r1, sv1)" using range_parse_kept Some res by blast
    have "keeps_opt r sv1 (option_env ''RANGE'' val r1 sv1)" using k by (intro option_env_keeps) (simp_all add: kept_def)
    moreover have "keeps r sv1 (0, send_r_invalid_range sv1 r1, sv1)" using k by (intro keeps_send) (simp_all add: kept_def)
    ultimately have "keeps_opt r sv1 (option_range val r sv)"
      unfolding option_range_def Some res if_not_P [OF False] by (cases "v = 0") simp_all
    then show ?thesis by (rule keeps_opt_from) (use k in \<open>simp_all add: kept_def\<close>)
  qed
qed

lemma keeps_opt_if: "keeps_opt r sv a \<Longrightarrow> keeps_opt r sv b \<Longrightarrow> keeps_opt r sv (if c then a else b)"
  by simp

lemma option_referer_keeps:
  "keeps_opt r sv (case add_cgi_env (r\<lparr>header_referer := x\<rparr>) k v True sv of (v, r, sv) \<Rightarrow>
     if v = 0 then Some (0, r, sv) else option_env key val r sv)"
proof -
  let ?r = "r\<lparr>header_referer := x\<rparr>"
  have "keeps ?r sv (case add_cgi_env ?r k v True sv of (v, r, sv) \<Rightarrow>
      if v = 0 then (0, r, sv) else add_cgi_env r key (Some val) True sv)"
    by (rule keeps_bind [OF add_cgi_env_keeps]) (rule add_cgi_env_keeps)
  then have "keeps r sv (case add_cgi_env ?r k v True sv of (v, r, sv) \<Rightarrow>
      if v = 0 then (0, r, sv) else add_cgi_env r key (Some val) True sv)"
    by (rule keeps_from) simp_all
  then show ?thesis by (auto simp: option_env_def split: prod.splits if_splits)
qed

lemma option_value_keeps: "keeps_opt r sv (option_value key val r sv)"
  unfolding option_value_def
  by (intro keeps_opt_if option_referer_keeps option_range_keeps option_env_keeps) (simp_all add: keeps_1)

lemma poke_stream:
  assumes "k + length bs \<le> length (client_stream r)"
  shows "conn (poke (Stream k) bs r) = conn r" "quiet (poke (Stream k) bs r) = quiet r"
  using assms by (simp_all add: poke_def conn_def quiet_def length_blit)

lemma length_cstr: "length (cstr s) \<le> length s"
  by (simp add: cstr_def length_takeWhile_le)

lemma process_option_line_keeps:
  assumes "header_line r = Stream k"
  shows "keeps_opt r sv (process_option_line r sv)"
proof -
  define line where "line = cstr (bytes_at r (Stream k))"
  have len: "length line \<le> length (client_stream r) - k"
    using length_cstr [of "drop k (client_stream r)"] assms by (simp add: line_def bytes_at_def)
  show ?thesis
  proof (cases "strchr line (CHR '':'')")
    case None
    then show ?thesis unfolding process_option_line_def assms Let_def line_def [symmetric] by (simp add: keeps_0)
  next
    case (Some i)
    then have i: "i < length line" using strchr_Some [of line] by blast
    let ?r = "poke (Stream k) (to_upper (take i line) @ [NUL]) r"
    have same: "conn ?r = conn r" "quiet ?r = quiet r" using i len by (intro poke_stream; simp add: to_upper_def)+
    have "keeps_opt r sv (option_value key val ?r sv)" for key val
      by (rule keeps_opt_from [OF option_value_keeps]) (simp_all add: same)
    then show ?thesis
      unfolding process_option_line_def assms Let_def line_def [symmetric] Some option.case using same by (simp add: keeps_1)
  qed
qed

section \<open>Serving does not move the stream\<close>

definition stream :: "request \<Rightarrow> nat \<times> nat \<times> string" where
  "stream r = (parse_pos r, client_stream_pos r, client_stream r)"

lemma stream_sends:
  assumes "responds c r r'"
  shows "stream r' = stream r" "req_method r' = req_method r"
  using responds_fields [OF assms] by (simp_all add: stream_def)

lemmas stream_all [simp] = responds_all [THEN stream_sends(1)]

lemma stream_frame [simp]:
  "stream (boa_perror sv r) = stream r" "stream (wr s r) = stream r" "stream (flush r) = stream r"
  "stream (print_http_headers sv r) = stream r" "stream (print_content_type sv r) = stream r"
  "stream (print_last_modified sv r) = stream r" "stream (SQUASH_KA r) = stream r"
  "stream (print_partial_content_continue sv r) = stream r" "stream (print_partial_content_done r) = stream r"
  by (simp_all add: boa_perror_def) (simp_all add: stream_def printers SQUASH_KA_def)

lemma stream_updates [simp]:
  "stream (r\<lparr>ranges := x\<rparr>) = stream r" "stream (r\<lparr>status := s\<rparr>) = stream r" "stream (r\<lparr>response_status := n\<rparr>) = stream r"
  "stream (r\<lparr>pathname := a\<rparr>) = stream r" "stream (r\<lparr>request_uri := u\<rparr>) = stream r" "stream (r\<lparr>filesize := w\<rparr>) = stream r"
  "stream (r\<lparr>filepos := w\<rparr>) = stream r" "stream (r\<lparr>last_modified := i\<rparr>) = stream r" "stream (r\<lparr>header_ifrange := a\<rparr>) = stream r"
  "stream (r\<lparr>data_fd := n\<rparr>) = stream r" "stream (r\<lparr>data_file := b\<rparr>) = stream r" "stream (r\<lparr>data_mem := a\<rparr>) = stream r" "stream (r\<lparr>mmap_entry_var := me\<rparr>) = stream r"
  "stream (r\<lparr>post_data_fd := n\<rparr>) = stream r" "stream (r\<lparr>cgi_status := c\<rparr>) = stream r" "stream (r\<lparr>header_line := p\<rparr>) = stream r"
  "stream (r\<lparr>header_end := p\<rparr>) = stream r" "stream (r\<lparr>cgi_env := e\<rparr>) = stream r" "stream (r\<lparr>cgi_env_index := n\<rparr>) = stream r"
  "stream (r\<lparr>buffer := b\<rparr>) = stream r" "stream (r\<lparr>buffer_end := n\<rparr>) = stream r" "stream (r\<lparr>bytes_written := w\<rparr>) = stream r"
  by (simp_all add: stream_def)

lemma complete_response_stream: "complete_response r sv = (v, r', sv') \<Longrightarrow> stream r' = stream r"
  by (auto simp: complete_response_def Let_def split: list.splits if_splits)

lemma add_vars_stream: "add_vars kvs r sv = (v, r', sv') \<Longrightarrow> stream r' = stream r"
proof (induction kvs r sv rule: add_vars.induct)
  case (2 key val kvs r sv)
  obtain w r1 sv1 where a: "add_cgi_env r key val False sv = (w, r1, sv1)" by (metis prod_cases3)
  then have "stream r1 = stream r" using add_cgi_env_cases [OF a] by auto
  then show ?case using 2 a by (auto split: if_splits)
qed simp

lemma cgi_fork_stream: "cgi_fork r sv = (v, r', sv') \<Longrightarrow> stream r' = stream r"
  by (auto simp: cgi_fork_def cgi_parent_def Let_def split: prod.splits if_splits)

lemma init_cgi_stream: "init_cgi r sv = (v, r', sv') \<Longrightarrow> stream r' = stream r"
  by (auto simp: init_cgi_def complete_env_def Let_def split: prod.splits if_splits dest!: cgi_fork_stream add_vars_stream)

lemma pool_stream: "ranges_fixup r sv = (v, r', sv') \<Longrightarrow> stream r' = stream r"
  by (auto simp: ranges_fixup_def Let_def fixup_loop_eq split: if_splits)

lemma send_file_headers_stream: "send_file_headers r sv = Some (ok, r', sv') \<Longrightarrow> stream r' = stream r"
  by (auto simp: send_file_headers_def dest!: pool_stream split: if_splits option.splits prod.splits)

lemma attach_file_stream: "attach_file n f r sv = (r', sv') \<Longrightarrow> stream r' = stream r"
  by (auto simp: attach_file_def Let_def split: if_splits option.splits prod.splits)

lemma reset_output_stream [simp]: "stream (reset_output_buffer r) = stream r"
  by (simp add: reset_output_buffer_def stream_def)

lemma buffer_start_stream: "buffer_start_of_file r sv = (v, r', sv') \<Longrightarrow> stream r' = stream r"
  unfolding buffer_start_of_file_def Let_def
  by (auto dest!: complete_response_stream split: prod.splits if_split_asm)

lemma serve_file_stream:
  assumes "serve_file n f r sv = Some (v, r', sv')"
  shows "stream r' = stream r"
proof -
  obtain r1 sv1 where a: "attach_file n f r sv = (r1, sv1)" by fastforce
  obtain ok r2 sv2 where h: "send_file_headers r1 sv1 = Some (ok, r2, sv2)"
    using assms a by (auto simp: serve_file_def split: option.splits)
  have "stream r' = stream r2"
    using assms a h by (auto simp: serve_file_def dest: complete_response_stream buffer_start_stream split: if_splits)
  then show ?thesis using attach_file_stream [OF a] send_file_headers_stream [OF h] by simp
qed

lemma init_file_stream:
  assumes "init_file n f r sv = Some (v, r', sv')"
  shows "stream r' = stream r"
proof -
  define r1 where "r1 = r\<lparr>filesize := file_size f, last_modified := f_mtime f, header_ifrange := None\<rparr>"
  have r1: "stream r1 = stream r" by (simp add: r1_def)
  obtain v2 r2 sv2 where fx: "ranges_fixup r1 sv = (v2, r2, sv2)" by (metis prod_cases3)
  show ?thesis
    using assms pool_stream [OF fx] r1 unfolding init_file_eq Let_def r1_def [symmetric] fx
    by (auto split: if_splits dest!: serve_file_stream)
qed

text \<open>Results whose request still has the stream of \<open>r\<close>.\<close>

definition on_stream :: "request \<Rightarrow> int \<times> request \<times> server \<Rightarrow> bool" where
  "on_stream r res \<longleftrightarrow> stream (fst (snd res)) = stream r"

definition dir_on_stream :: "request \<Rightarrow> dir_result \<times> request \<times> server \<Rightarrow> bool" where
  "dir_on_stream r res \<longleftrightarrow> stream (fst (snd res)) = stream r"

lemma on_stream_simps [simp]:
  "on_stream r (v, r', sv) \<longleftrightarrow> stream r' = stream r" "dir_on_stream r (d, r', sv) \<longleftrightarrow> stream r' = stream r"
  "dir_on_stream r (dir_ret res) \<longleftrightarrow> on_stream r res"
  by (simp_all add: on_stream_def dir_on_stream_def dir_ret_def split: prod.split)

lemma init_cgi_on_stream: "stream r1 = stream r \<Longrightarrow> on_stream r (init_cgi r1 sv)"
  by (cases "init_cgi r1 sv") (auto dest: init_cgi_stream)

lemma program_on_stream: "stream r1 = stream r \<Longrightarrow> on_stream r (if b then (0, r1, sv) else init_cgi r1 sv)"
  by (simp add: init_cgi_on_stream)

lemma gunzip_on_stream:
  "on_stream r (gunzip_file r sv)" "on_stream r (gunzip_index r p sv)" "on_stream r (make_index r sv)"
  unfolding gunzip_file_def gunzip_index_def make_index_def Let_def
  by (simp_all only: split: prod.split if_split, auto simp: init_cgi_on_stream)

lemma index_directory_stream: "index_directory r p sv = (v, r', sv') \<Longrightarrow> stream r' = stream r"
  by (auto simp: index_directory_def Let_def split: option.splits sum.splits prod.splits if_splits)

lemma make_cachedir_file_stream: "dir_on_stream r (make_cachedir_file r f sv)"
proof -
  obtain v r1 sv1 where i: "index_directory r (cache_name sv f) sv = (v, r1, sv1)" by (metis prod_cases3)
  show ?thesis
    using index_directory_stream [OF i] by (simp add: make_cachedir_file_def i split: prod.split sum.split)
qed

lemma get_dir_stream: "dir_on_stream r (get_dir r f sv)"
proof -
  have "dir_on_stream r (get_cachedir_file r f sv)" for sv
    by (simp add: get_cachedir_file_def make_cachedir_file_stream split: prod.split sum.split)
  then have "dir_on_stream r (get_dir_default r f sv)" for sv
    by (simp add: get_dir_default_def gunzip_on_stream)
  then show ?thesis
    by (simp add: get_dir_def Let_def gunzip_on_stream split: option.split prod.split sum.split)
qed

lemma init_get_stream:
  assumes "init_get r sv = Some (v, r', sv')"
  shows "stream r' = stream r"
proof -
  obtain res sv1 where o: "sys_open (path_of r) sv = (res, sv1)" by fastforce
  show ?thesis
  proof (cases res)
    case (Inl e)
    have failed: "stream r' = stream r" if "open_failed e' r sv = (v, r', sv')" for e' sv
      using that by (auto simp: open_failed_def)
    have gz: "stream r' = stream r" if "gunzip_file r sv = (v, r', sv')" for sv
      using that gunzip_on_stream(1) [of r sv] by simp
    show ?thesis
      using assms by (auto simp: init_get_def Let_def o Inl split: if_splits prod.splits sum.splits dest: failed gz)
  next
    case (Inr nf)
    obtain n f where nf: "nf = (n, f)" by fastforce
    obtain d r2 sv2 where d: "get_dir r f (fd_close n sv1) = (d, r2, sv2)" by (metis prod_cases3)
    have r2: "stream r2 = stream r" using get_dir_stream [of r f "fd_close n sv1"] d by simp
    have redir: "on_stream r (dir_redirect r sv)" for sv by (simp add: dir_redirect_def split: prod.split)
    show ?thesis
      using assms redir [of "fd_close n sv1"] r2 unfolding init_get_def Let_def o Inr nf prod.case sum.case d
      by (cases d) (auto dest!: init_file_stream split: if_splits)
  qed
qed

section \<open>Starting a request\<close>

text \<open>The part of the stream that was read lies inside the array and was parsed up to a position in it.\<close>

definition stream_ok :: "request \<Rightarrow> bool" where
  "stream_ok r \<longleftrightarrow>
     parse_pos r \<le> client_stream_pos r \<and> client_stream_pos r \<le> length (client_stream r) \<and>
     length (client_stream r) \<le> CLIENT_STREAM_SIZE"

text \<open>The result of a handler: its value, both arrays, and the owners of the open descriptors.\<close>

definition handled :: "server \<Rightarrow> int \<times> request \<times> server \<Rightarrow> bool" where
  "handled sv res \<longleftrightarrow>
     (case res of (v, r', sv') \<Rightarrow>
        v \<in> {-1, 0, 1} \<and> buf_ok r' \<and> stream_ok r' \<and>
        set (open_fds sv') \<subseteq> insert (data_fd r') (insert (post_data_fd r') (set (open_fds sv))))"

lemma stream_ok_conn: "conn r' = conn r \<Longrightarrow> stream_ok r' = stream_ok r"
  by (simp add: stream_ok_def conn_def)

lemma stream_ok_stream: "stream r' = stream r \<Longrightarrow> stream_ok r' = stream_ok r"
  by (simp add: stream_ok_def stream_def)

lemma fresh_core:
  assumes "fresh r sv" and "server_core sv' = server_core sv" and "conn r' = conn r" and "quiet r' = quiet r"
  shows "fresh r' sv'"
  using assms by (auto simp: fresh_def server_core_def conn_def quiet_def fds_ok_def files_small_def buf_ok_def)

lemma handled_core: "handled sv' res \<Longrightarrow> server_core sv' = server_core sv \<Longrightarrow> handled sv res"
  by (auto simp: handled_def server_core_def split: prod.splits)

lemma keeps_handled:
  assumes "keeps r sv res" and "buf_ok r" and "stream_ok r"
  shows "handled sv res"
proof -
  obtain v r' sv' where res: "res = (v, r', sv')" by (metis prod_cases3)
  have k: "server_core sv' = server_core sv" "conn r' = conn r" "buf_ok r'" "v = 0 \<or> v = 1"
    using assms(1,2) by (auto simp: keeps_def res)
  then have "open_fds sv' = open_fds sv" by (simp add: server_core_def)
  then show ?thesis using k assms(3) stream_ok_conn [OF k(2)] by (auto simp: handled_def res)
qed

lemma result_handled:
  assumes "result_ok sv (v, r', sv')" and "stream r' = stream r" and "stream_ok r"
  shows "handled sv (v, r', sv')"
  using assms stream_ok_stream [OF assms(2)] by (auto simp: handled_def result_ok_def)

lemma open_post_handled:
  assumes "fresh r sv" and "stream_ok r"
  shows "handled sv (open_post r sv)"
proof -
  obtain ok1 sv1 where s1: "try_sys sv = (ok1, sv1)" by fastforce
  define n where "n = next_fd sv1"
  define sv2 where "sv2 = sv1\<lparr>next_fd := n + 1, open_fds := n # open_fds sv1\<rparr>"
  obtain ok2 sv3 where s2: "try_sys sv2 = (ok2, sv3)" by fastforce
  obtain ok3 sv4 where s3: "try_sys sv3 = (ok3, sv4)" by fastforce
  obtain ok5 sv5 where s5: "try_sys (fd_close n sv3) = (ok5, sv5)" by fastforce
  have fds: "open_fds sv1 = open_fds sv" "open_fds sv3 = n # open_fds sv" "open_fds sv4 = n # open_fds sv"
    using try_sys_fds [OF s1] try_sys_fds [OF s2] try_sys_fds [OF s3] by (simp_all add: sv2_def)
  have tmp: "create_temporary_file sv = (if \<not> ok1 then (0, sv1) else if \<not> ok2 then (0, fd_close n sv3) else (n, sv3))"
  proof -
    have "fd_open sv1 = (n, sv2)" by (simp add: n_def sv2_def)
    then show ?thesis unfolding create_temporary_file_def s1 prod.case by (simp add: s2 del: fds_simps(3))
  qed
  have pos: "n > 0" using assms(1) try_sys_fds [OF s1] by (simp add: n_def fresh_def)
  have buf: "buf_ok r" using assms(1) by (simp add: fresh_def)
  have str: "stream_ok x" if "stream x = stream r" for x using stream_ok_stream [OF that] assms(2) by simp
  have fail: "handled sv (0, send_r_error s (r\<lparr>post_data_fd := 0\<rparr>), s)" if "set (open_fds s) \<subseteq> set (open_fds sv)" for s
    using that buf by (auto simp: handled_def intro: str)
  have "handled sv (0, (boa_perror sv4 (r\<lparr>post_data_fd := n\<rparr>))\<lparr>post_data_fd := 0\<rparr>, fd_close n sv4)"
    using buf fds by (auto simp: handled_def intro: str)
  moreover have "handled sv (1, r\<lparr>post_data_fd := n\<rparr>, sv4)" using buf fds by (auto simp: handled_def intro: str)
  ultimately show ?thesis
    unfolding open_post_def tmp Let_def
    by (cases ok1; cases ok2; cases ok3) (simp_all add: s3 fail fds pos [THEN gr_implies_not0])
qed

lemma start_request_handled:
  assumes "start_request r sv = Some (v, r', sv')" and "fresh r sv" and "stream_ok r" and "pathname r \<noteq> None"
  shows "handled sv (v, r', sv')"
proof -
  have buf: "buf_ok r" "fds_ok sv" "post_data_fd r < next_fd sv" using assms(2) by (simp_all add: fresh_def)
  obtain p where p: "pathname r = Some p" using assms(4) by blast
  have eq: "start_request r sv = (if build_access_control sv \<and> \<not> access_allow sv (path_of r) then Some (0, send_r_forbidden sv r, sv)
      else if req_method r = M_POST then Some (open_post r sv)
      else if cgi_type r \<noteq> CGI_NONE then Some (init_cgi r sv) else init_get (r\<lparr>status := WRITE\<rparr>) sv)"
    unfolding start_request_def path_of_def p option.case ..
  consider "(v, r', sv') = (0, send_r_forbidden sv r, sv)" | "open_post r sv = (v, r', sv')" | "init_cgi r sv = (v, r', sv')"
    | "init_get (r\<lparr>status := WRITE\<rparr>) sv = Some (v, r', sv')" "\<not> build_access_control sv \<or> access_allow sv (path_of r)"
    using assms(1) unfolding eq by (metis option.inject)
  then show ?thesis
  proof cases
    case 1
    have "keeps r sv (0, send_r_forbidden sv r, sv)" by (simp add: keeps_0)
    then show ?thesis unfolding 1 by (rule keeps_handled) (use buf assms(3) in simp_all)
  next
    case 2
    then show ?thesis using open_post_handled [OF assms(2,3)] by simp
  next
    case 3
    show ?thesis by (rule result_handled [OF _ init_cgi_stream [OF 3] assms(3)]) (use init_cgi_ok [OF buf] 3 in simp)
  next
    case 4
    have fr: "fresh (r\<lparr>status := WRITE\<rparr>) sv" using assms(2) by (simp add: fresh_def)
    have "result_ok sv (v, r', sv')" using 4(2) by (intro init_get_ok [OF 4(1) fr]) (auto simp: refused_open_def path_of_def)
    moreover have "stream r' = stream r" using init_get_stream [OF 4(1)] by simp
    ultimately show ?thesis using assms(3) by (rule result_handled)
  qed
qed

lemma translate_uri_pathname:
  assumes "translate_uri r sv = (v, r', sv')" and "v \<noteq> 0"
  shows "pathname r' \<noteq> None"
  using translate_uri_translated [of sv r] assms by (auto simp: translated_def)

text \<open>The two halves of \<open>process_header_end\<close>: up to the host, and from the translation on.\<close>

definition handled_opt :: "server \<Rightarrow> (int \<times> request \<times> server) option \<Rightarrow> bool" where
  "handled_opt sv res \<longleftrightarrow> (case res of None \<Rightarrow> True | Some x \<Rightarrow> handled sv x)"

lemma handled_opt_simps [simp]: "handled_opt sv None" "handled_opt sv (Some x) = handled sv x"
  by (simp_all add: handled_opt_def)

lemma handled_opt_core: "handled_opt sv' res \<Longrightarrow> server_core sv' = server_core sv \<Longrightarrow> handled_opt sv res"
  by (cases res) (auto intro: handled_core)

lemma handled_opt_if: "handled_opt sv a \<Longrightarrow> handled_opt sv b \<Longrightarrow> handled_opt sv (if c then a else b)"
  by simp

lemma translated_handled:
  assumes "fresh r sv" and "stream_ok r"
  shows "handled_opt sv (case translate_uri r sv of (v, r, sv) \<Rightarrow>
     if v = 0 then Some (0, SQUASH_KA r, sv) else start_request r sv)"
proof -
  obtain v r1 sv1 where t: "translate_uri r sv = (v, r1, sv1)" by (metis prod_cases3)
  have k: "keeps r sv (v, r1, sv1)" using translate_uri_keeps [of r sv] t by simp
  have buf: "buf_ok r" using assms(1) by (simp add: fresh_def)
  show ?thesis
  proof (cases "v = 0")
    case True
    have "handled sv (0, r1, sv1)" using keeps_handled [OF k buf assms(2)] True by simp
    then have "handled sv (0, SQUASH_KA r1, sv1)" by (simp add: handled_def stream_ok_def SQUASH_KA_def)
    then show ?thesis using True by (simp add: t)
  next
    case False
    then have c: "server_core sv1 = server_core sv" "conn r1 = conn r" "quiet r1 = quiet r" using k by (simp_all add: keeps_def)
    have "handled_opt sv1 (start_request r1 sv1)"
      using start_request_handled [OF _ fresh_core [OF assms(1) c]] stream_ok_conn [OF c(2)] assms(2)
        translate_uri_pathname [OF t False] by (cases "start_request r1 sv1") auto
    then have "handled_opt sv (start_request r1 sv1)" using c(1) by (rule handled_opt_core)
    then show ?thesis using False by (simp add: t)
  qed
qed

lemma hosted_handled:
  assumes "keeps r sv res" and "fresh r sv" and "stream_ok r"
  shows "handled_opt sv (case res of (v, r, sv) \<Rightarrow> if v = 0 then Some (0, r, sv)
     else case translate_uri r sv of (v, r, sv) \<Rightarrow> if v = 0 then Some (0, SQUASH_KA r, sv) else start_request r sv)"
proof -
  obtain v r1 sv1 where res: "res = (v, r1, sv1)" by (metis prod_cases3)
  have buf: "buf_ok r" using assms(2) by (simp add: fresh_def)
  note h = keeps_handled [OF assms(1) buf assms(3)]
  show ?thesis
  proof (cases "v = 0")
    case True
    then show ?thesis using h by (simp add: res)
  next
    case False
    then have c: "server_core sv1 = server_core sv" "conn r1 = conn r" "quiet r1 = quiet r"
      using assms(1) by (simp_all add: keeps_def res)
    have "stream_ok r1" using stream_ok_conn [OF c(2)] assms(3) by simp
    from handled_opt_core [OF translated_handled [OF fresh_core [OF assms(2) c] this] c(1)]
    show ?thesis unfolding res prod.case if_not_P [OF False] .
  qed
qed

lemma process_header_end_handled:
  assumes "fresh r sv" and "stream_ok r"
  shows "handled_opt sv (process_header_end r sv)"
proof -
  have buf: "buf_ok r" using assms(1) by (simp add: fresh_def)
  obtain ok uri query where u: "unescape_uri True (request_uri r) = (ok, uri, query)" by (metis prod_cases3)
  have early: "handled_opt sv (Some (0, send_r_error sv r, sv))"
    "conn r1 = conn r \<Longrightarrow> quiet r1 = quiet r \<Longrightarrow> handled_opt sv (Some (0, send_r_bad_request sv r1, sv))" for r1
    using keeps_handled [OF keeps_send(4) buf assms(2)] keeps_handled [OF keeps_send(1) buf assms(2)] by simp_all
  have host: "keeps r sv (if b then set_host r1 sv else (1, r1, sv))" if "conn r1 = conn r" "quiet r1 = quiet r" for r1 b
    using that by (intro keeps_if) (auto simp: keeps_1 intro: keeps_from [OF set_host_keeps])
  show ?thesis
    unfolding process_header_end_def Let_def u prod.case
    by (intro handled_opt_if early hosted_handled [OF host assms]) simp_all
qed

text \<open>
  A second \<open>process_header_end\<close> on the same request, which the empty line after a POST without a
  version causes, opens a second temporary file and forgets the first one, which stays open.
\<close>

lemma post_reopened:
  assumes "sys_script sv = []" and "fds_ok sv" and "next_fd sv > 0" and "post_data_fd r \<in> set (open_fds sv)"
  shows "\<exists>r' sv'. open_post r sv = (1, r', sv') \<and> post_data_fd r \<in> set (open_fds sv') \<and> post_data_fd r' \<noteq> post_data_fd r"
proof -
  have "post_data_fd r < next_fd sv" using assms(2,4) by (simp add: fds_ok_def)
  then show ?thesis using assms(1,3,4) by (simp add: open_post_def create_temporary_file_def try_sys_def Let_def)
qed

section \<open>Properties\<close>

text \<open>The request line a client sends for a URI, with an authority in front of it for an absolute URI.\<close>

definition target :: "string option \<Rightarrow> string \<Rightarrow> string" where
  "target h uri = (case h of None \<Rightarrow> uri | Some x \<Rightarrow> ''http://'' @ x @ uri)"

definition request_line :: "http_method \<Rightarrow> nat \<Rightarrow> string \<Rightarrow> nat \<Rightarrow> http_version \<Rightarrow> string" where
  "request_line m i url j v =
     method_name m @ replicate (Suc i) (CHR '' '') @ url @ replicate (Suc j) (CHR '' '') @ http_ver_string v"

lemma dropWhile_spaces: "dropWhile ((=) c) (replicate n c @ s) = dropWhile ((=) c) s"
  by (induction n) simp_all

lemma dropWhile_word: "s \<noteq> [] \<Longrightarrow> c \<notin> set s \<Longrightarrow> dropWhile ((=) c) (s @ t) = s @ t"
  by (cases s) auto

lemma line_versions:
  "line_version (replicate (Suc j) (CHR '' '') @ ''HTTP/1.0'') = Some HTTP10"
  "line_version (replicate (Suc j) (CHR '' '') @ ''HTTP/1.1'') = Some HTTP11"
proof -
  have "scan_version ''HTTP/1.0'' = Some (1, 0)" "scan_version ''HTTP/1.1'' = Some (1, 1)"
    by (simp_all add: scan_version_def scan_u_def ctype_simps digits_value_def Let_def)
  then show "line_version (replicate (Suc j) (CHR '' '') @ ''HTTP/1.0'') = Some HTTP10"
    "line_version (replicate (Suc j) (CHR '' '') @ ''HTTP/1.1'') = Some HTTP11"
    unfolding line_version_def Let_def dropWhile_spaces by simp_all
qed

lemma takeWhile_host: "CHR ''/'' \<notin> set h \<Longrightarrow> takeWhile (\<lambda>c. c \<noteq> CHR ''/'') (h @ CHR ''/'' # u) = h"
  by (induction h) auto

lemma line_uri_target:
  assumes "uri = CHR ''/'' # u" and "\<And>x. h = Some x \<Longrightarrow> x \<noteq> [] \<and> CHR ''/'' \<notin> set x"
  shows "line_uri (target h uri) = Some (uri, map_option (\<lambda>x. (x, 7 + length x)) h)"
proof (cases h)
  case None
  then show ?thesis using assms(1) by (simp add: line_uri_def target_def SERVER_METHOD_def Let_def)
next
  case (Some x)
  then show ?thesis
    using assms by (simp add: line_uri_def target_def SERVER_METHOD_def Let_def takeWhile_host)
qed

lemma target_facts:
  assumes "uri = CHR ''/'' # u" and "CHR '' '' \<notin> set uri" and "\<And>x. h = Some x \<Longrightarrow> CHR '' '' \<notin> set x"
  shows "target h uri \<noteq> []" "CHR '' '' \<notin> set (target h uri)"
  using assms by (auto simp: target_def split: option.splits)

lemma takeWhile_word: "c \<notin> set s \<Longrightarrow> takeWhile (\<lambda>x. x \<noteq> c) (s @ c # t) = s"
  by (induction s) auto

lemma method_line:
  assumes "m \<in> {M_GET, M_HEAD, M_POST}"
  shows "line_method (method_name m @ CHR '' '' # s) = Some m"
    "(if (method_name m @ CHR '' '' # s) ! 3 = CHR '' '' then 3 else 4) = length (method_name m)"
  using assms by (auto simp: line_method_def)

lemma process_logline_eq:
  assumes "m \<in> {M_GET, M_HEAD, M_POST}" and "cstr (client_stream r) = request_line m i url j v"
    and "url \<noteq> []" and "CHR '' '' \<notin> set url" and "length url \<le> MAX_HEADER_LENGTH"
    and "line_uri url = Some (uri, au)" and "v \<in> {HTTP10, HTTP11}"
  defines "stop \<equiv> length (method_name m) + Suc i"
  shows "process_logline r sv =
    (1, (set_uri (request_line m i url j v) stop uri au
           (r\<lparr>logline := Some (request_line m i url j v), req_method := m, http_version := HTTP10\<rparr>))
         \<lparr>http_version := v, keepalive := (if v = HTTP11 then KA_ACTIVE else keepalive r),
          cgi_env_index := length (common_cgi_env sv)\<rparr>, sv)"
proof -
  let ?sp = "CHR '' ''"
  let ?line = "request_line m i url j v"
  let ?tail = "replicate (Suc j) ?sp @ http_ver_string v"
  define after where "after = replicate i ?sp @ url @ ?tail"
  have line: "?line = method_name m @ ?sp # after" by (simp add: request_line_def after_def)
  have ml: "line_method ?line = Some m" "(if ?line ! 3 = ?sp then 3 else 4) = length (method_name m)"
    unfolding line by (rule method_line [OF assms(1)])+
  have drop: "drop (length (method_name m) + 1) ?line = after" by (simp add: line)
  have rest: "dropWhile ((=) ?sp) after = url @ ?tail"
    unfolding after_def dropWhile_spaces using assms(3,4) by (rule dropWhile_word)
  have word: "takeWhile (\<lambda>c. c \<noteq> ?sp) (url @ ?tail) = url" using takeWhile_word [OF assms(4)] by simp
  have stop: "length ?line - length (url @ ?tail) = stop" by (simp add: line after_def stop_def)
  have ver: "line_version (drop (length url) (url @ ?tail)) = Some v" using assms(7) line_versions by auto
  have len: "\<not> length ?line < 5" "\<not> length url > MAX_HEADER_LENGTH" using assms(1,5) by (auto simp: line after_def)
  have ka: "keepalive (set_uri l k uri au r') = keepalive r'" for l k r' by (simp add: set_uri_def split: option.split)
  show ?thesis
    unfolding process_logline_def Let_def assms(2) if_not_P [OF len(1)] ml option.case drop rest word if_not_P [OF len(2)]
      assms(6) prod.case ver stop
    using assms(7) ka by auto
qed

text \<open>C25: A request line is understood: for the three methods, any number of spaces between the parts, a
  path or an absolute URI, and HTTP/1.0 or 1.1, \<open>process_logline\<close> succeeds and the request has the
  method, the URI without its authority, the version, the host of an absolute URI, and
  a connection that is kept alive for HTTP/1.1.\<close>

theorem request_line_parsed:
  assumes "m \<in> {M_GET, M_HEAD, M_POST}" and "v \<in> {HTTP10, HTTP11}"
    and "uri = CHR ''/'' # u" and "is_cstr uri" and "CHR '' '' \<notin> set uri"
    and "\<And>x. h = Some x \<Longrightarrow> x \<noteq> [] \<and> is_cstr x \<and> CHR ''/'' \<notin> set x \<and> CHR '' '' \<notin> set x"
    and "length (target h uri) \<le> MAX_HEADER_LENGTH"
    and "client_stream r = request_line m i (target h uri) j v @ NUL # rest"
  shows "\<exists>r'. process_logline r sv = (1, r', sv) \<and> req_method r' = m \<and> request_uri r' = uri \<and> http_version r' = v \<and>
     header_host r' = (case h of None \<Rightarrow> header_host r | Some x \<Rightarrow> Some x) \<and>
     keepalive r' = (if v = HTTP11 then KA_ACTIVE else keepalive r)"
proof -
  have t: "target h uri \<noteq> []" "CHR '' '' \<notin> set (target h uri)" using target_facts [OF assms(3,5)] assms(6) by auto
  have "is_cstr (target h uri)" using assms(4,6) by (auto simp: target_def is_cstr_def split: option.split)
  then have "is_cstr (request_line m i (target h uri) j v)"
    using assms(1,2) by (auto simp: request_line_def is_cstr_def)
  then have c: "cstr (client_stream r) = request_line m i (target h uri) j v" using assms(8) by simp
  have lu: "line_uri (target h uri) = Some (uri, map_option (\<lambda>x. (x, 7 + length x)) h)"
    using line_uri_target [OF assms(3)] assms(6) by blast
  show ?thesis
    unfolding process_logline_eq [OF assms(1) c t assms(7) lu assms(2)]
    by (auto simp: set_uri_def split: option.split)
qed

theorem request_line_parsed_witness:
  "\<exists>r'. process_logline (example_request\<lparr>client_stream := ''GET  http://h/a HTTP/1.1'' @ [NUL]\<rparr>) example_server = (1, r', example_server) \<and>
     req_method r' = M_GET \<and> request_uri r' = ''/a'' \<and> http_version r' = HTTP11 \<and> header_host r' = Some ''h'' \<and> keepalive r' = KA_ACTIVE"
proof -
  have "request_line M_GET 1 (target (Some ''h'') ''/a'') 0 HTTP11 = ''GET  http://h/a HTTP/1.1''"
    by (simp add: request_line_def target_def)
  then show ?thesis
    using request_line_parsed [of M_GET HTTP11 "''/a''" "''a''" "Some ''h''"
        "example_request\<lparr>client_stream := ''GET  http://h/a HTTP/1.1'' @ [NUL]\<rparr>" 1 0 "[]" example_server]
    by (simp add: target_def MAX_HEADER_LENGTH_def)
qed

end
