(* ===== verification/Read.thy ===== *)
theory Read
  imports Header
begin

text \<open>
  Reading from the client (\<open>read.c\<close>): the state machine that finds the lines of the header in the
  stream of the client, whatever pieces the bytes arrive in, and the two steps that copy the body of a POST
  request to its temporary file. \<open>None\<close> is the fatal exit of the range pool.
\<close>

section \<open>The header\<close>

definition illegal_char :: "char \<Rightarrow> bool" where
  "illegal_char c \<longleftrightarrow> c \<noteq> CR \<and> c \<noteq> LF \<and> c \<noteq> HT \<and> (uchar c < 32 \<or> uchar c > 127)"

fun header_next :: "req_status \<Rightarrow> char \<Rightarrow> req_status" where
  "header_next READ_HEADER c = (if c = CR then ONE_CR else if c = LF then ONE_LF else READ_HEADER)"
| "header_next ONE_CR c = (if c = LF then ONE_LF else if c \<noteq> CR then READ_HEADER else ONE_CR)"
| "header_next ONE_LF c = (if c = CR then TWO_CR else if c = LF then BODY_READ else READ_HEADER)"
| "header_next TWO_CR c = (if c = LF then BODY_READ else if c \<noteq> CR then READ_HEADER else TWO_CR)"
| "header_next s c = s"

text \<open>One character: the status, the end of the line it may start, and the parse position.\<close>

definition header_char :: "char \<Rightarrow> request \<Rightarrow> request" where
  "header_char c r =
     r\<lparr>status := header_next (status r) c,
       header_end := (if status r = READ_HEADER \<and> (c = CR \<or> c = LF) then Stream (parse_pos r) else header_end r),
       parse_pos := parse_pos r + 1\<rparr>"

fun ptr_diff :: "ptr \<Rightarrow> ptr \<Rightarrow> int" where
  "ptr_diff (Stream b) (Stream a) = int b - int a"
| "ptr_diff (Buf b) (Buf a) = int b - int a"
| "ptr_diff _ _ = 0"

fun ptr_add :: "ptr \<Rightarrow> nat \<Rightarrow> ptr" where
  "ptr_add (Stream a) n = Stream (a + n)"
| "ptr_add (Buf a) n = Buf (a + n)"
| "ptr_add Null n = Null"

text \<open>A step of the loop falls through to the next character or returns a value.\<close>

type_synonym loop_result = "(int option \<times> request \<times> server) option"

definition returns :: "(int \<times> request \<times> server) option \<Rightarrow> loop_result" where
  "returns res = (case res of None \<Rightarrow> None | Some (v, r, sv) \<Rightarrow> Some (Some v, r, sv))"

definition end_of_line :: "request \<Rightarrow> server \<Rightarrow> loop_result" where
  "end_of_line r sv =
     (let r = poke (header_end r) [NUL] r in
      if ptr_diff (header_end r) (header_line r) \<ge> int MAX_HEADER_LENGTH
      then Some (Some 0, send_r_bad_request sv r, sv)
      else case (if logline r \<noteq> None then process_option_line r sv else Some (process_logline r sv)) of
        None \<Rightarrow> None
      | Some (v, r', sv) \<Rightarrow>
          if v = 0 then Some (Some 0, r', sv)
          else if logline r = None \<and> http_version r' = HTTP09 then returns (process_header_end r' sv)
          else Some (None, r'\<lparr>header_line := Stream (parse_pos r')\<rparr>, sv))"

text \<open>The body of a POST request: what of it is already in the stream, and its length.\<close>

definition start_body :: "request \<Rightarrow> server \<Rightarrow> int \<times> request \<times> server" where
  "start_body r sv =
     (let r = r\<lparr>header_line := Stream (parse_pos r), header_end := Stream (client_stream_pos r), status := BODY_WRITE\<rparr> in
      case content_length r of
        None \<Rightarrow> (0, send_r_bad_request sv r, sv)
      | Some s \<Rightarrow>
          (let n = boa_atoi s in
           if n < 0 then (0, send_r_bad_request sv r, sv)
           else if single_post_limit sv \<noteq> 0 \<and> n > single_post_limit sv then (0, send_r_bad_request sv r, sv)
           else
             (let r = r\<lparr>filesize := word_of_int n, filepos := 0\<rparr>;
                  r = (if (ucast (word_of_int (ptr_diff (header_end r) (header_line r)) :: 32 word) :: 64 word) > filesize r
                       then r\<lparr>header_end := ptr_add (header_line r) (unat (filesize r))\<rparr> else r)
              in (1, r, sv))))"

definition end_of_headers :: "request \<Rightarrow> server \<Rightarrow> (int \<times> request \<times> server) option" where
  "end_of_headers r sv =
     (case process_header_end r sv of
        None \<Rightarrow> None
      | Some (v, r, sv) \<Rightarrow>
          if v \<noteq> 0 \<and> req_method r = M_POST
          then (case start_body r sv of (v', r, sv) \<Rightarrow> Some (if v' = 0 then 0 else v, r, sv))
          else Some (v, r, sv))"

text \<open>The loop over the \<open>n\<close> characters between the parse position and the end of the stream.\<close>

fun read_loop :: "nat \<Rightarrow> request \<Rightarrow> server \<Rightarrow> loop_result" where
  "read_loop 0 r sv = Some (None, r, sv)"
| "read_loop (Suc n) r sv =
     (let c = char_at (client_stream r) (parse_pos r) in
      if illegal_char c then Some (Some 0, send_r_bad_request sv r, sv)
      else
        (let r = header_char c r in
         if status r = ONE_LF then
           (case end_of_line r sv of
              None \<Rightarrow> None
            | Some (None, r, sv) \<Rightarrow> read_loop n r sv
            | Some (Some v, r, sv) \<Rightarrow> Some (Some v, r, sv))
         else if status r = BODY_READ then returns (end_of_headers r sv)
         else read_loop n r sv))"

definition read_more :: "request \<Rightarrow> server \<Rightarrow> int \<times> request \<times> server" where
  "read_more r sv =
     (if status r < BODY_READ then
        (let left = nat ((int CLIENT_STREAM_SIZE - int (client_stream_pos r)) mod 2 ^ 32) in
         if left < 1 \<or> left > CLIENT_STREAM_SIZE then (0, r\<lparr>response_status := 400, status := DEAD\<rparr>, sv)
         else case sys_read (sock r) left of (res, ch) \<Rightarrow>
           let r = r\<lparr>sock := ch\<rparr> in
           case res of
             Inl e \<Rightarrow>
               if e = EINTR then (1, r, sv)
               else if e = EAGAIN \<or> e = EWOULDBLOCK then (-1, r, sv)
               else (0, r\<lparr>response_status := 400\<rparr>, sv)
           | Inr bs \<Rightarrow>
               if bs = [] then (0, r\<lparr>response_status := 400\<rparr>, sv)
               else (1, r\<lparr>client_stream := blit (client_stream r) (client_stream_pos r) bs,
                          client_stream_pos := client_stream_pos r + length bs\<rparr>, sv))
      else (1, r, sv))"

definition read_header :: "request \<Rightarrow> server \<Rightarrow> (int \<times> request \<times> server) option" where
  "read_header r sv =
     (case read_loop (client_stream_pos r - parse_pos r) r sv of
        None \<Rightarrow> None
      | Some (Some v, r, sv) \<Rightarrow> Some (v, r, sv)
      | Some (None, r, sv) \<Rightarrow> Some (read_more r sv))"

section \<open>The body\<close>

definition read_body :: "request \<Rightarrow> server \<Rightarrow> int \<times> request \<times> server" where
  "read_body r sv =
     (let free = nat ((int BUFFER_SIZE - ptr_diff (header_end r) (header_line r)) mod 2 ^ 32);
          want = unat (ucast (filesize r - filepos r) :: 32 word);
          k = (if want > free then free else want)
      in if k = 0 then (1, r\<lparr>status := BODY_WRITE\<rparr>, sv)
         else case sys_read (sock r) k of (res, ch) \<Rightarrow>
           let r = r\<lparr>sock := ch\<rparr> in
           case res of
             Inl e \<Rightarrow>
               if e = EWOULDBLOCK \<or> e = EAGAIN then (-1, r, sv)
               else (0, (boa_perror sv r)\<lparr>response_status := 400\<rparr>, sv)
           | Inr bs \<Rightarrow>
               if bs = [] then (0, send_r_bad_request sv r, sv)
               else (1, (poke (header_end r) bs r)
                          \<lparr>status := BODY_WRITE, header_end := ptr_add (header_end r) (length bs)\<rparr>, sv))"

definition write_body :: "request \<Rightarrow> server \<Rightarrow> int \<times> request \<times> server" where
  "write_body r sv =
     (let n = (word_of_int (ptr_diff (header_end r) (header_line r)) :: 32 word);
          n = (if filepos r + ucast n > filesize r then ucast (filesize r - filepos r) else n)
      in if n = 0 then
           (let r = r\<lparr>header_line := Buf 0, header_end := Buf 0\<rparr> in
            if filepos r \<ge> filesize r then init_cgi r sv else (1, r\<lparr>status := BODY_READ\<rparr>, sv))
         else case sys_write (post_ch r) (take (unat n) (bytes_at r (header_line r))) of (res, ch) \<Rightarrow>
           let r = r\<lparr>post_ch := ch\<rparr> in
           case res of
             Inl e \<Rightarrow>
               if e = EWOULDBLOCK \<or> e = EAGAIN then (-1, r, sv)
               else if e = EINTR then (1, r, sv)
               else (0, boa_perror sv r, sv)
           | Inr m \<Rightarrow> (1, r\<lparr>filepos := filepos r + of_nat m, header_line := ptr_add (header_line r) m\<rparr>, sv))"

section \<open>Copying the body\<close>

text \<open>The bytes of the body in memory that still have to be written, and those the socket will deliver.\<close>

definition body_pending :: "request \<Rightarrow> string" where
  "body_pending r = take (nat (ptr_diff (header_end r) (header_line r))) (bytes_at r (header_line r))"

definition read_bytes :: "read_result \<Rightarrow> string" where
  "read_bytes x = (case x of Got s \<Rightarrow> s | Read_error _ \<Rightarrow> [])"

definition ch_input :: "chan \<Rightarrow> string" where
  "ch_input ch = concat (map read_bytes (ch_reads ch))"

text \<open>
  The state in which the two steps are called: the pointers lie inside the stream or inside the buffer,
  which never grows beyond its size, and no more than the announced length is pending.
\<close>

definition body_ok :: "request \<Rightarrow> bool" where
  "body_ok r \<longleftrightarrow>
     (case (header_line r, header_end r) of
        (Stream a, Stream b) \<Rightarrow> a \<le> b \<and> b \<le> length (client_stream r) \<and> status r = BODY_WRITE
      | (Buf a, Buf b) \<Rightarrow> a \<le> b \<and> b \<le> length (buffer r) \<and> (status r = BODY_WRITE \<or> a = 0 \<and> b = 0)
      | _ \<Rightarrow> False) \<and>
     status r \<in> {BODY_READ, BODY_WRITE} \<and> length (buffer r) \<le> BUFFER_SIZE + 1 \<and>
     unat (filepos r) + length (body_pending r) \<le> unat (filesize r) \<and> unat (filesize r) < 2 ^ 31"

lemma body_ok_cases:
  assumes "body_ok r"
  obtains a b where "header_line r = Stream a" "header_end r = Stream b" "a \<le> b" "b \<le> length (client_stream r)" "status r = BODY_WRITE"
  | a b where "header_line r = Buf a" "header_end r = Buf b" "a \<le> b" "b \<le> length (buffer r)" "status r = BODY_WRITE"
  | "header_line r = Buf 0" "header_end r = Buf 0" "status r = BODY_READ"
  using assms by (auto simp: body_ok_def split: ptr.splits)

lemma body_ok_bounds:
  assumes "body_ok r"
  shows "length (buffer r) \<le> BUFFER_SIZE + 1" "unat (filepos r) + length (body_pending r) \<le> unat (filesize r)"
    "unat (filesize r) < 2 ^ 31" "ptr_diff (header_end r) (header_line r) = int (length (body_pending r))"
proof -
  show "length (buffer r) \<le> BUFFER_SIZE + 1" "unat (filepos r) + length (body_pending r) \<le> unat (filesize r)"
    "unat (filesize r) < 2 ^ 31"
    using assms by (simp_all add: body_ok_def)
  show "ptr_diff (header_end r) (header_line r) = int (length (body_pending r))"
    using assms by (rule body_ok_cases) (simp_all add: body_pending_def bytes_at_def)
qed

lemma sys_read_input:
  "sys_read ch n = (Inr bs, ch') \<Longrightarrow> length bs \<le> n \<and> ch_input ch = bs @ ch_input ch'"
  "sys_read ch n = (Inl e, ch') \<Longrightarrow> ch_input ch' = ch_input ch"
  by (auto simp: sys_read_def ch_input_def read_bytes_def split: list.splits read_result.splits)

lemma left_word:
  fixes a b :: "64 word"
  assumes "unat a \<le> unat b" and "unat b < 2 ^ 31"
  shows "unat (b - a) = unat b - unat a" "unat (ucast (b - a) :: 32 word) = unat b - unat a"
proof -
  show d: "unat (b - a) = unat b - unat a" using assms(1) by (simp add: unat_sub word_le_nat_alt)
  show "unat (ucast (b - a) :: 32 word) = unat b - unat a"
    using d assms(2) by (simp add: unsigned_ucast_eq take_bit_nat_eq_self)
qed

text \<open>The two steps in the state they are called in.\<close>

definition body_left :: "request \<Rightarrow> nat" where
  "body_left r = unat (filesize r) - unat (filepos r)"

lemma read_body_eq:
  assumes "body_ok r" and "status r = BODY_READ"
  shows "read_body r sv =
     (let k = min BUFFER_SIZE (body_left r) in
      if k = 0 then (1, r\<lparr>status := BODY_WRITE\<rparr>, sv)
      else case sys_read (sock r) k of
             (Inl e, ch) \<Rightarrow>
               if e = EWOULDBLOCK \<or> e = EAGAIN then (-1, r\<lparr>sock := ch\<rparr>, sv)
               else (0, (boa_perror sv (r\<lparr>sock := ch\<rparr>))\<lparr>response_status := 400\<rparr>, sv)
           | (Inr bs, ch) \<Rightarrow>
               if bs = [] then (0, send_r_bad_request sv (r\<lparr>sock := ch\<rparr>), sv)
               else (1, r\<lparr>sock := ch, buffer := blit (buffer r) 0 bs, status := BODY_WRITE, header_end := Buf (length bs)\<rparr>, sv))"
proof -
  have p: "header_line r = Buf 0" "header_end r = Buf 0" using assms by (auto elim: body_ok_cases)
  note b = body_ok_bounds [OF assms(1)]
  have w: "unat (ucast (filesize r - filepos r) :: 32 word) = body_left r"
    using left_word(2) [of "filepos r" "filesize r"] b by (simp add: body_left_def)
  have k: "(if body_left r > nat (int BUFFER_SIZE mod 2 ^ 32) then nat (int BUFFER_SIZE mod 2 ^ 32) else body_left r) = min BUFFER_SIZE (body_left r)"
    by (simp add: BUFFER_SIZE_def)
  obtain res ch where rd: "sys_read (sock r) (min BUFFER_SIZE (body_left r)) = (res, ch)" by fastforce
  show ?thesis
    unfolding read_body_def Let_def p ptr_diff.simps w diff_self diff_0_right of_nat_0 k rd
    by (rule if_cong [OF refl refl], cases res) (simp_all add: p poke_def)
qed

lemma write_body_eq:
  assumes "body_ok r" and "status r = BODY_WRITE"
  shows "write_body r sv =
     (if body_pending r = [] then
        (let r' = r\<lparr>header_line := Buf 0, header_end := Buf 0\<rparr> in
         if body_left r = 0 then init_cgi r' sv else (1, r'\<lparr>status := BODY_READ\<rparr>, sv))
      else case sys_write (post_ch r) (body_pending r) of
             (Inl e, ch) \<Rightarrow>
               if e = EWOULDBLOCK \<or> e = EAGAIN then (-1, r\<lparr>post_ch := ch\<rparr>, sv)
               else if e = EINTR then (1, r\<lparr>post_ch := ch\<rparr>, sv)
               else (0, boa_perror sv (r\<lparr>post_ch := ch\<rparr>), sv)
           | (Inr m, ch) \<Rightarrow>
               (1, r\<lparr>post_ch := ch, filepos := filepos r + of_nat m, header_line := ptr_add (header_line r) m\<rparr>, sv))"
proof -
  note b = body_ok_bounds [OF assms(1)]
  let ?n = "word_of_int (int (length (body_pending r))) :: 32 word"
  have n: "unat ?n = length (body_pending r)" using b(2,3) by (simp add: unat_of_nat take_bit_nat_eq_self)
  have u: "unat (ucast ?n :: 64 word) = length (body_pending r)"
    using n b(2,3) by (simp add: unsigned_ucast_eq take_bit_nat_eq_self)
  have "unat (filepos r + ucast ?n) = unat (filepos r) + length (body_pending r)"
    using b(2,3) u by (simp add: unat_word_ariths)
  then have fits: "\<not> filepos r + ucast ?n > filesize r" using b(2) by (simp add: word_less_nat_alt)
  have z: "?n = 0 \<longleftrightarrow> body_pending r = []" using n by (metis length_0_conv unat_eq_zero)
  have fin: "filepos r \<ge> filesize r \<longleftrightarrow> body_left r = 0" by (auto simp: body_left_def word_le_nat_alt)
  have bs: "take (length (body_pending r)) (bytes_at r (header_line r)) = body_pending r"
    using b(4) by (simp add: body_pending_def)
  show ?thesis
    unfolding write_body_def Let_def b(4) using fits
    by (simp only: if_False z n bs) (simp add: fin split: prod.split sum.split)
qed

text \<open>
  The step the scheduler calls, the state in which the next step starts the program, and the body as
  a whole: what is in the file, what is pending, and what the socket will deliver.
\<close>

definition body_step :: "request \<Rightarrow> server \<Rightarrow> int \<times> request \<times> server" where
  "body_step r sv = (if status r = BODY_READ then read_body r sv else write_body r sv)"

definition body_complete :: "request \<Rightarrow> bool" where
  "body_complete r \<longleftrightarrow> status r = BODY_WRITE \<and> body_pending r = [] \<and> body_left r = 0"

definition body_data :: "request \<Rightarrow> string" where
  "body_data r = ch_sent (post_ch r) @ body_pending r @ ch_input (sock r)"

definition body_kept :: "request \<Rightarrow> request \<Rightarrow> bool" where
  "body_kept r r' \<longleftrightarrow>
     body_ok r' \<and> body_data r' = body_data r \<and> filesize r' = filesize r \<and>
     length (ch_sent (post_ch r')) + body_left r' = length (ch_sent (post_ch r)) + body_left r"

lemma written_kept:
  assumes "body_ok r" and "status r = BODY_WRITE" and "sys_write (post_ch r) (body_pending r) = (Inr m, ch)"
  defines "r' \<equiv> r\<lparr>post_ch := ch, filepos := filepos r + of_nat m, header_line := ptr_add (header_line r) m\<rparr>"
  shows "body_kept r r'" "body_pending r' = drop m (body_pending r)" "body_left r' = body_left r - m"
    "m \<le> length (body_pending r)"
proof -
  note b = body_ok_bounds [OF assms(1)]
  show m: "m \<le> length (body_pending r)" using sys_write_result(1) [OF assms(3)] by simp
  have ch: "ch_sent ch = ch_sent (post_ch r) @ take m (body_pending r)" using sys_write_result(1) [OF assms(3)] by simp
  have pos: "unat (filepos r + of_nat m) = unat (filepos r) + m" using m b(2,3) by (intro word_advance) simp
  show pend: "body_pending r' = drop m (body_pending r)"
    using assms(1) by (rule body_ok_cases)
      (simp_all add: assms(2) r'_def body_pending_def bytes_at_def drop_take add.commute nat_diff_distrib' nat_int_add)
  show left: "body_left r' = body_left r - m" using pos by (simp add: r'_def body_left_def)
  have "body_ok r'"
    using assms(1)
  proof (rule body_ok_cases)
    fix c d assume "header_line r = Stream c" "header_end r = Stream d" "c \<le> d" "d \<le> length (client_stream r)"
    then show ?thesis using m b pend pos assms(2) by (auto simp: body_ok_def r'_def body_pending_def bytes_at_def)
  next
    fix c d assume "header_line r = Buf c" "header_end r = Buf d" "c \<le> d" "d \<le> length (buffer r)"
    then show ?thesis using m b pend pos assms(2) by (auto simp: body_ok_def r'_def body_pending_def bytes_at_def)
  qed (use assms(2) in simp)
  moreover have "body_data r' = body_data r" using pend ch by (simp add: body_data_def r'_def)
  ultimately show "body_kept r r'"
    using ch left m b(2) by (auto simp: body_kept_def r'_def body_left_def)
qed

lemma received_kept:
  assumes "body_ok r" and "status r = BODY_READ" and "sys_read (sock r) (min BUFFER_SIZE (body_left r)) = (Inr bs, ch)"
  defines "r' \<equiv> r\<lparr>sock := ch, buffer := blit (buffer r) 0 bs, status := BODY_WRITE, header_end := Buf (length bs)\<rparr>"
  shows "body_kept r r'" "body_pending r' = bs" "body_pending r = []"
proof -
  note b = body_ok_bounds [OF assms(1)]
  have p: "header_line r = Buf 0" "header_end r = Buf 0" using assms(1,2) by (auto elim: body_ok_cases)
  have len: "length bs \<le> BUFFER_SIZE" "length bs \<le> body_left r" and input: "ch_input (sock r) = bs @ ch_input ch"
    using sys_read_input(1) [OF assms(3)] by simp_all
  show nil: "body_pending r = []" using p by (simp add: body_pending_def)
  have "take (length bs) (blit (buffer r) 0 bs) = bs" using blit_exact [of 0 "buffer r" bs] by simp
  then show pend: "body_pending r' = bs" using p by (simp add: body_pending_def bytes_at_def r'_def)
  have "length bs \<le> length (blit (buffer r) 0 bs)" "length (blit (buffer r) 0 bs) \<le> BUFFER_SIZE + 1"
    using len(1) b(1) by (auto simp: length_blit)
  then have "body_ok r'" using p pend len(2) b(2,3) nil by (simp add: body_ok_def r'_def body_left_def)
  then show "body_kept r r'"
    using pend nil input by (simp add: body_kept_def body_data_def body_left_def r'_def)
qed

lemma body_kept_refl: "body_ok r \<Longrightarrow> body_kept r r"
  by (simp add: body_kept_def)

lemma body_step_kept:
  assumes "body_ok r" and "\<not> body_complete r" and "body_step r sv = (v, r', sv')"
  shows "v \<in> {-1, 0, 1} \<and> (v \<noteq> 0 \<longrightarrow> body_kept r r')"
proof (cases "status r = BODY_READ")
  case True
  obtain res ch where rd: "sys_read (sock r) (min BUFFER_SIZE (body_left r)) = (res, ch)" by fastforce
  have p: "header_line r = Buf 0" "header_end r = Buf 0" using assms(1) True by (auto elim: body_ok_cases)
  have skip: "body_kept r (r\<lparr>status := BODY_WRITE\<rparr>)"
    using assms(1) p by (auto simp: body_kept_def body_ok_def body_data_def body_pending_def body_left_def bytes_at_def)
  have again: "body_kept r (r\<lparr>sock := ch\<rparr>)" if "res = Inl e" for e
    using assms(1) p sys_read_input(2) [OF rd [unfolded that]]
    by (auto simp: body_kept_def body_ok_def body_data_def body_pending_def body_left_def bytes_at_def)
  have got: "body_kept r (r\<lparr>sock := ch, buffer := blit (buffer r) 0 bs, status := BODY_WRITE, header_end := Buf (length bs)\<rparr>)"
    if "res = Inr bs" for bs
    using received_kept(1) [OF assms(1) True rd [unfolded that]] .
  show ?thesis
    using assms(3) unfolding body_step_def if_P [OF True] read_body_eq [OF assms(1) True] Let_def rd
    by (cases res) (auto split: if_splits intro: skip again got)
next
  case False
  then have st: "status r = BODY_WRITE" using assms(1) by (auto elim: body_ok_cases)
  obtain res ch where w: "sys_write (post_ch r) (body_pending r) = (res, ch)" by fastforce
  have again: "body_kept r (r\<lparr>post_ch := ch\<rparr>)" if "res = Inl e" for e
    using assms(1) sys_write_result(2) [OF w [unfolded that]]
    by (auto simp: body_kept_def body_ok_def body_data_def body_pending_def body_left_def bytes_at_def split: ptr.splits)
  have more: "body_kept r (r\<lparr>header_line := Buf 0, header_end := Buf 0, status := BODY_READ\<rparr>)" if "body_pending r = []"
    using body_ok_bounds(1-3) [OF assms(1)] that
    by (simp add: body_kept_def body_ok_def body_data_def body_left_def) (simp add: body_pending_def)
  have wrote: "body_kept r (r\<lparr>post_ch := ch, filepos := filepos r + of_nat m, header_line := ptr_add (header_line r) m\<rparr>)"
    if "res = Inr m" for m
    using written_kept(1) [OF assms(1) st w [unfolded that]] .
  show ?thesis
    using assms(2,3) unfolding body_step_def if_not_P [OF False] write_body_eq [OF assms(1) st] Let_def w
    by (cases res) (auto simp: body_complete_def st split: if_splits intro: again more wrote)
qed

text \<open>
  The scheduler's repeated calls, for a client that sends the announced body and a file system that
  accepts at least one byte of each write.
\<close>

fun body_loop :: "nat \<Rightarrow> request \<Rightarrow> server \<Rightarrow> int \<times> request \<times> server" where
  "body_loop 0 r sv = (1, r, sv)"
| "body_loop (Suc n) r sv =
     (if body_complete r then (1, r, sv)
      else case body_step r sv of (v, r, sv) \<Rightarrow> if v = 1 then body_loop n r sv else (v, r, sv))"

definition accepts :: "write_result \<Rightarrow> bool" where
  "accepts w = (case w of Wrote k \<Rightarrow> k > 0 | Write_error _ \<Rightarrow> False)"

definition delivers :: "read_result \<Rightarrow> bool" where
  "delivers x = (case x of Got s \<Rightarrow> s \<noteq> [] | Read_error _ \<Rightarrow> False)"

definition posting :: "request \<Rightarrow> bool" where
  "posting r \<longleftrightarrow>
     body_ok r \<and> (status r = BODY_READ \<longrightarrow> body_left r > 0) \<and>
     list_all accepts (ch_writes (post_ch r)) \<and> body_left r \<le> length (ch_writes (post_ch r)) \<and>
     list_all delivers (ch_reads (sock r)) \<and> body_left r \<le> length (body_pending r) + length (ch_input (sock r))"

definition body_measure :: "request \<Rightarrow> nat" where
  "body_measure r = 3 * body_left r - (if body_pending r \<noteq> [] then 2 else if status r = BODY_READ then 1 else 0)"

definition body_progress :: "request \<Rightarrow> request \<Rightarrow> bool" where
  "body_progress r r' \<longleftrightarrow> body_kept r r' \<and> posting r' \<and> body_measure r' < body_measure r"

lemma posting_read:
  assumes "posting r" and "status r = BODY_READ"
  shows "\<exists>r'. read_body r sv = (1, r', sv) \<and> body_progress r r'"
proof -
  have ok: "body_ok r" and left: "body_left r > 0" using assms by (simp_all add: posting_def)
  have nil: "body_pending r = []" using ok assms(2) by (auto elim!: body_ok_cases simp: body_pending_def)
  let ?k = "min BUFFER_SIZE (body_left r)"
  have k: "?k > 0" using left by (simp add: BUFFER_SIZE_def)
  have "ch_input (sock r) \<noteq> []" using assms(1) nil left by (auto simp: posting_def)
  then obtain s q where q: "ch_reads (sock r) = Got s # q" "s \<noteq> []" and all: "list_all delivers q"
    using assms(1) by (cases "ch_reads (sock r)") (auto simp: posting_def delivers_def ch_input_def split: read_result.splits)
  let ?ch = "(sock r)\<lparr>ch_reads := (if length s > ?k then Got (drop ?k s) # q else q)\<rparr>"
  have rd: "sys_read (sock r) ?k = (Inr (take ?k s), ?ch)" by (simp add: sys_read_def q)
  note kept = received_kept [OF ok assms(2) rd]
  let ?r = "r\<lparr>sock := ?ch, buffer := blit (buffer r) 0 (take ?k s), status := BODY_WRITE, header_end := Buf (length (take ?k s))\<rparr>"
  have ne: "take ?k s \<noteq> []" using k q(2) by simp
  have "length (body_pending ?r) + length (ch_input ?ch) = length (ch_input (sock r))"
    using sys_read_input(1) [OF rd] kept(2) by simp
  then have "posting ?r"
    using assms(1) kept(1) nil all ne k by (auto simp: posting_def body_kept_def body_left_def delivers_def)
  moreover have "body_measure ?r < body_measure r"
  proof -
    have "body_left ?r = body_left r" by (simp add: body_left_def)
    then show ?thesis using kept(2) ne nil left assms(2) by (simp add: body_measure_def)
  qed
  moreover have "read_body r sv = (1, ?r, sv)" using read_body_eq [OF ok assms(2), of sv] rd k ne by (simp add: Let_def)
  ultimately show ?thesis using kept(1) unfolding body_progress_def by blast
qed

lemma posting_write:
  assumes "posting r" and "status r = BODY_WRITE" and "\<not> body_complete r"
  shows "\<exists>r'. write_body r sv = (1, r', sv) \<and> body_progress r r'"
proof (cases "body_pending r = []")
  case True
  have ok: "body_ok r" using assms(1) by (simp add: posting_def)
  have left: "body_left r > 0" using True assms(2,3) by (auto simp: body_complete_def)
  let ?r = "r\<lparr>header_line := Buf 0, header_end := Buf 0, status := BODY_READ\<rparr>"
  have w: "write_body r sv = (1, ?r, sv)" using write_body_eq [OF ok assms(2), of sv] True left by (simp add: Let_def)
  have nil: "body_pending ?r = []" by (simp add: body_pending_def)
  have kept: "body_kept r ?r" using body_step_kept [OF ok assms(3), of sv 1 ?r sv] w assms(2) by (simp add: body_step_def)
  then have "posting ?r" using assms(1) nil True left by (auto simp: posting_def body_kept_def body_left_def)
  moreover have "body_measure ?r < body_measure r"
    using nil True left assms(2) by (simp add: body_measure_def body_left_def)
  ultimately show ?thesis using kept w unfolding body_progress_def by blast
next
  case False
  have ok: "body_ok r" using assms(1) by (simp add: posting_def)
  have "body_left r > 0" using body_ok_bounds(2) [OF ok] False by (cases "body_pending r") (simp_all add: body_left_def)
  then obtain k ws where ws: "ch_writes (post_ch r) = Wrote (Suc k) # ws" and all: "list_all accepts ws"
    using assms(1) by (cases "ch_writes (post_ch r)") (auto simp: posting_def accepts_def gr0_conv_Suc split: write_result.splits)
  define m where "m = min (Suc k) (length (body_pending r))"
  define ch where "ch = (post_ch r)\<lparr>ch_writes := ws, ch_sent := ch_sent (post_ch r) @ take m (body_pending r)\<rparr>"
  have w: "sys_write (post_ch r) (body_pending r) = (Inr m, ch)" by (simp add: sys_write_def ws Let_def m_def ch_def)
  define r1 where "r1 = r\<lparr>post_ch := ch, filepos := filepos r + of_nat m, header_line := ptr_add (header_line r) m\<rparr>"
  note kept = written_kept [OF ok assms(2) w, folded r1_def]
  have m: "m > 0" "m \<le> body_left r" using False kept(4) body_ok_bounds(2) [OF ok] by (auto simp: body_left_def m_def)
  have r1: "status r1 = BODY_WRITE" "ch_writes (post_ch r1) = ws" "sock r1 = sock r"
    using assms(2) by (simp_all add: r1_def ch_def)
  have "body_left r - m \<le> length ws" "body_left r - m \<le> length (body_pending r1) + length (ch_input (sock r))"
    using assms(1) ws m kept(2,4) by (auto simp: posting_def)
  then have "posting r1" using assms(1) kept(1,3) all r1 by (simp add: posting_def body_kept_def)
  moreover have "body_measure r1 < body_measure r"
    using kept(3) m False by (simp add: body_measure_def)
  moreover have "write_body r sv = (1, r1, sv)" using write_body_eq [OF ok assms(2), of sv] w False by (simp add: r1_def)
  ultimately show ?thesis using kept(1) unfolding body_progress_def by blast
qed

lemma posting_step:
  assumes "posting r" and "\<not> body_complete r"
  shows "\<exists>r'. body_step r sv = (1, r', sv) \<and> body_progress r r'"
proof -
  have "status r = BODY_READ \<or> status r = BODY_WRITE" using assms(1) by (auto simp: posting_def elim: body_ok_cases)
  then show ?thesis using posting_read [OF assms(1)] posting_write [OF assms(1) _ assms(2)] by (auto simp: body_step_def)
qed

lemma body_kept_trans: "body_kept r r' \<Longrightarrow> body_kept r' r'' \<Longrightarrow> body_kept r r''"
  by (simp add: body_kept_def)

lemma body_loop_completes:
  assumes "posting r" and "body_measure r \<le> n"
  shows "\<exists>r'. body_loop n r sv = (1, r', sv) \<and> body_complete r' \<and> body_kept r r'"
  using assms
proof (induction n arbitrary: r)
  case 0
  then have "body_complete r" using posting_step [of r sv] by (auto simp: body_progress_def)
  then show ?case using 0 by (auto simp: posting_def intro: body_kept_refl)
next
  case (Suc n)
  show ?case
  proof (cases "body_complete r")
    case True
    then show ?thesis using Suc.prems by (auto simp: posting_def intro: body_kept_refl)
  next
    case False
    then obtain r1 where st: "body_step r sv = (1, r1, sv)" and p: "body_progress r r1"
      using posting_step [OF Suc.prems(1)] by blast
    then obtain r' where "body_loop n r1 sv = (1, r', sv)" "body_complete r'" "body_kept r1 r'"
      using Suc.IH [of r1] Suc.prems(2) by (auto simp: body_progress_def)
    then show ?thesis using False st p body_kept_trans unfolding body_progress_def by auto
  qed
qed

lemma body_complete_file:
  assumes "body_kept r r'" and "body_complete r'"
  shows "ch_sent (post_ch r') = ch_sent (post_ch r) @ take (body_left r) (body_pending r @ ch_input (sock r))"
proof -
  have len: "length (ch_sent (post_ch r')) = length (ch_sent (post_ch r)) + body_left r"
    using assms by (simp add: body_kept_def body_complete_def)
  have "ch_sent (post_ch r') @ ch_input (sock r') = ch_sent (post_ch r) @ body_pending r @ ch_input (sock r)"
    using assms by (simp add: body_kept_def body_data_def body_complete_def)
  then have "take (length (ch_sent (post_ch r'))) (ch_sent (post_ch r) @ body_pending r @ ch_input (sock r)) = ch_sent (post_ch r')"
    by (metis append_eq_conv_conj)
  then show ?thesis unfolding len by simp
qed

section \<open>Reading stays inside the arrays\<close>

text \<open>
  The state in which the header is read: both line pointers point into the part of the stream that was
  parsed, and nothing of the answer exists.
\<close>

definition reading :: "request \<Rightarrow> server \<Rightarrow> bool" where
  "reading r sv \<longleftrightarrow>
     fresh r sv \<and> stream_ok r \<and> (\<exists>a. header_line r = Stream a) \<and>
     (case header_end r of Stream b \<Rightarrow> b < parse_pos r | Buf _ \<Rightarrow> False | Null \<Rightarrow> True)"

lemma header_char_reading:
  assumes "reading r sv" and "parse_pos r < client_stream_pos r"
  shows "reading (header_char c r) sv"
  using assms by (auto simp: reading_def header_char_def fresh_def stream_ok_def split: ptr.splits)

lemma reading_core:
  assumes "reading r sv" and "server_core sv' = server_core sv" and "conn r' = conn r" and "quiet r' = quiet r"
  shows "reading r' sv'"
  using assms fresh_core [OF _ assms(2-4)] stream_ok_conn [OF assms(3)]
  by (auto simp: reading_def quiet_def conn_def split: ptr.splits)

text \<open>A step of the loop goes on reading or ends with the result of a handler.\<close>

definition loop_ok :: "request \<Rightarrow> server \<Rightarrow> loop_result \<Rightarrow> bool" where
  "loop_ok r sv res \<longleftrightarrow>
     (case res of
        None \<Rightarrow> True
      | Some (None, r', sv') \<Rightarrow> reading r' sv' \<and> server_core sv' = server_core sv \<and> client_stream_pos r' = client_stream_pos r
      | Some (Some v, r', sv') \<Rightarrow> handled sv (v, r', sv'))"

lemma loop_ok_returns: "handled_opt sv res \<Longrightarrow> loop_ok r sv (returns res)"
  by (cases res) (auto simp: loop_ok_def returns_def split: prod.splits)

lemma keeps_opt_handled: "keeps_opt r sv res \<Longrightarrow> buf_ok r \<Longrightarrow> stream_ok r \<Longrightarrow> handled_opt sv res"
  by (cases res) (auto intro: keeps_handled)

lemma poke_reading:
  assumes "reading r sv"
  shows "conn (poke (header_end r) [NUL] r) = conn r" "quiet (poke (header_end r) [NUL] r) = quiet r"
proof -
  have "conn (poke (header_end r) [NUL] r) = conn r \<and> quiet (poke (header_end r) [NUL] r) = quiet r"
  proof (cases "header_end r")
    case (Stream b)
    then have "b + length [NUL] \<le> length (client_stream r)" using assms by (auto simp: reading_def stream_ok_def)
    from poke_stream [OF this] show ?thesis by (simp add: Stream)
  qed (use assms in \<open>auto simp: poke_def reading_def\<close>)
  then show "conn (poke (header_end r) [NUL] r) = conn r" "quiet (poke (header_end r) [NUL] r) = quiet r" by simp_all
qed

lemma end_of_line_ok:
  assumes "reading r sv"
  shows "loop_ok r sv (end_of_line r sv) \<and>
    (\<forall>r' sv'. end_of_line r sv = Some (None, r', sv') \<longrightarrow> parse_pos r' = parse_pos r)"
proof -
  define r1 where "r1 = poke (header_end r) [NUL] r"
  have rd: "reading r1 sv" and p1: "conn r1 = conn r"
    using reading_core [OF assms refl, of r1] poke_reading [OF assms] by (simp_all add: r1_def)
  have base: "buf_ok r1" "stream_ok r1" using rd by (simp_all add: reading_def fresh_def)
  obtain k where k: "header_line r1 = Stream k" using rd by (auto simp: reading_def)
  define step where "step = (if logline r1 \<noteq> None then process_option_line r1 sv else Some (process_logline r1 sv))"
  have st: "keeps_opt r1 sv step"
    using process_option_line_keeps [OF k] process_logline_keeps [of r1 sv] by (simp add: step_def)
  have bad: "handled sv (0, send_r_bad_request sv r1, sv)"
    using keeps_handled [OF keeps_send(1) base, of r1] by simp
  show ?thesis
  proof (cases "ptr_diff (header_end r1) (header_line r1) \<ge> int MAX_HEADER_LENGTH")
    case True
    then have "end_of_line r sv = Some (Some 0, send_r_bad_request sv r1, sv)"
      unfolding end_of_line_def Let_def r1_def [symmetric] by (rule if_P)
    then show ?thesis using bad by (simp add: loop_ok_def)
  next
    case False
    note eq = end_of_line_def [of r sv, unfolded Let_def r1_def [symmetric] if_not_P [OF False] step_def [symmetric]]
    show ?thesis
    proof (cases step)
      case None
      then show ?thesis unfolding eq by (simp add: loop_ok_def)
    next
      case (Some res)
      obtain v r2 sv2 where res: "res = (v, r2, sv2)" by (metis prod_cases3)
      have kp: "keeps r1 sv (v, r2, sv2)" using st Some res by simp
      show ?thesis
      proof (cases "v = 0")
        case True
        then show ?thesis unfolding eq using keeps_handled [OF kp base] by (simp add: Some res loop_ok_def)
      next
        case False
        then have c: "server_core sv2 = server_core sv" "conn r2 = conn r1" "quiet r2 = quiet r1" using kp by (simp_all add: keeps_def)
        have rd2: "reading r2 sv2" using reading_core [OF rd c] .
        then have "handled_opt sv2 (process_header_end r2 sv2)" by (intro process_header_end_handled) (simp_all add: reading_def)
        then have fin: "loop_ok r sv (returns (process_header_end r2 sv2))"
          by (rule loop_ok_returns [OF handled_opt_core [OF _ c(1)]])
        have next_line: "reading (r2\<lparr>header_line := Stream (parse_pos r2)\<rparr>) sv2"
          using rd2 by (auto simp: reading_def fresh_def stream_ok_def split: ptr.splits)
        have pos: "client_stream_pos r2 = client_stream_pos r" "parse_pos r2 = parse_pos r" using c(2) p1 by (simp_all add: conn_def)
        have ret: "returns x \<noteq> Some (None, y)" for x y by (auto simp: returns_def split: option.splits prod.splits)
        have going: "loop_ok r sv (Some (None, r2\<lparr>header_line := Stream (parse_pos r2)\<rparr>, sv2))"
          using next_line c(1) pos by (simp add: loop_ok_def)
        have e: "end_of_line r sv = (if logline r1 = None \<and> http_version r2 = HTTP09 then returns (process_header_end r2 sv2)
            else Some (None, r2\<lparr>header_line := Stream (parse_pos r2)\<rparr>, sv2))"
          unfolding eq Some res option.case prod.case if_not_P [OF False] ..
        show ?thesis
        proof (cases "logline r1 = None \<and> http_version r2 = HTTP09")
          case True
          then show ?thesis unfolding e if_P [OF True] using fin ret by blast
        next
          case False
          show ?thesis unfolding e if_not_P [OF False] using going pos(2) by simp
        qed
      qed
    qed
  qed
qed

lemma start_body_handled:
  assumes "handled sv (w, r, sv1)"
  shows "handled sv (case start_body r sv1 of (v', r, sv) \<Rightarrow> (if v' = 0 then 0 else w, r, sv))"
proof -
  have same: "buf_ok x \<and> stream_ok x \<and> data_fd x = data_fd r \<and> post_data_fd x = post_data_fd r"
    if "stream x = stream r" "buf_ok x" "data_fd x = data_fd r" "post_data_fd x = post_data_fd r" for x
    using assms that stream_ok_stream [OF that(1)] by (simp add: handled_def)
  obtain v r' sv' where b: "start_body r sv1 = (v, r', sv')" by (metis prod_cases3)
  have "stream r' = stream r" "buf_ok r'" "data_fd r' = data_fd r" "post_data_fd r' = post_data_fd r" "sv' = sv1" "v \<in> {0, 1}"
    using b assms by (auto simp: start_body_def Let_def handled_def split: option.splits if_splits)
  with same [of r'] show ?thesis using assms by (auto simp: b handled_def)
qed

lemma end_of_headers_handled:
  assumes "reading r sv"
  shows "handled_opt sv (end_of_headers r sv)"
proof -
  have h: "handled_opt sv (process_header_end r sv)"
    using assms by (intro process_header_end_handled) (simp_all add: reading_def)
  show ?thesis
  proof (cases "process_header_end r sv")
    case None
    then show ?thesis by (simp add: end_of_headers_def)
  next
    case (Some res)
    obtain v r1 sv1 where res: "res = (v, r1, sv1)" by (metis prod_cases3)
    have hv: "handled sv (v, r1, sv1)" using h Some res by simp
    from start_body_handled [OF hv] hv show ?thesis
      by (cases "start_body r1 sv1") (auto simp: end_of_headers_def Some res)
  qed
qed

lemma read_loop_ok:
  assumes "reading r sv" and "parse_pos r + n \<le> client_stream_pos r"
  shows "loop_ok r sv (read_loop n r sv)"
  using assms
proof (induction n arbitrary: r sv)
  case 0
  then show ?case by (simp add: loop_ok_def)
next
  case (Suc n)
  define c where "c = char_at (client_stream r) (parse_pos r)"
  define r1 where "r1 = header_char c r"
  have rd: "reading r1 sv" using header_char_reading [OF Suc.prems(1)] Suc.prems(2) by (simp add: r1_def)
  have pos: "client_stream_pos r1 = client_stream_pos r" "parse_pos r1 = parse_pos r + 1" by (simp_all add: r1_def header_char_def)
  have base: "buf_ok r" "stream_ok r" using Suc.prems(1) by (simp_all add: reading_def fresh_def)
  have lift: "loop_ok r sv x" if "loop_ok r1 sv x" for x using that unfolding loop_ok_def pos .
  consider "illegal_char c" | "\<not> illegal_char c" "status r1 = ONE_LF" | "\<not> illegal_char c" "status r1 \<noteq> ONE_LF" "status r1 = BODY_READ"
    | "\<not> illegal_char c" "status r1 \<noteq> ONE_LF" "status r1 \<noteq> BODY_READ" by blast
  then show ?case
  proof cases
    case 1
    have "handled sv (0, send_r_bad_request sv r, sv)" using keeps_handled [OF keeps_send(1) base, of r] by simp
    then show ?thesis using 1 by (simp add: c_def loop_ok_def)
  next
    case 2
    note e = end_of_line_ok [OF rd]
    have eq: "read_loop (Suc n) r sv = (case end_of_line r1 sv of None \<Rightarrow> None
        | Some (None, r, sv) \<Rightarrow> read_loop n r sv | Some (Some v, r, sv) \<Rightarrow> Some (Some v, r, sv))"
      using 2 by (simp add: c_def [symmetric] r1_def [symmetric])
    show ?thesis
    proof (cases "end_of_line r1 sv")
      case None
      then show ?thesis unfolding eq by (simp add: loop_ok_def)
    next
      case (Some res)
      obtain w r2 sv2 where res: "res = (w, r2, sv2)" by (metis prod_cases3)
      show ?thesis
      proof (cases w)
        case None
        have rd2: "reading r2 sv2" "server_core sv2 = server_core sv" "client_stream_pos r2 = client_stream_pos r" "parse_pos r2 = parse_pos r + 1"
          using e Some res None pos by (auto simp: loop_ok_def)
        have "loop_ok r2 sv2 (read_loop n r2 sv2)" using Suc.IH [OF rd2(1)] rd2(3,4) Suc.prems(2) by simp
        then have "loop_ok r sv (read_loop n r2 sv2)"
          using rd2(2,3) handled_core by (auto simp: loop_ok_def split: option.splits prod.splits)
        then show ?thesis unfolding eq Some res by (simp add: None)
      next
        case (Some v)
        then show ?thesis using e res \<open>end_of_line r1 sv = _\<close> unfolding eq by (simp add: loop_ok_def)
      qed
    qed
  next
    case 3
    then show ?thesis using loop_ok_returns [OF end_of_headers_handled [OF rd], of r]
      by (simp add: c_def [symmetric] r1_def [symmetric])
  next
    case 4
    then show ?thesis using Suc.IH [OF rd] lift pos Suc.prems(2) by (simp add: c_def [symmetric] r1_def [symmetric])
  qed
qed

lemma read_more_handled:
  assumes "reading r sv"
  shows "handled sv (read_more r sv)"
proof -
  have f: "buf_ok r" "parse_pos r \<le> client_stream_pos r" "client_stream_pos r \<le> length (client_stream r)"
    "length (client_stream r) \<le> CLIENT_STREAM_SIZE"
    using assms by (simp_all add: reading_def fresh_def stream_ok_def)
  define left where "left = nat ((int CLIENT_STREAM_SIZE - int (client_stream_pos r)) mod 2 ^ 32)"
  have left: "left = CLIENT_STREAM_SIZE - client_stream_pos r"
    using f(3,4) by (simp add: left_def CLIENT_STREAM_SIZE_def nat_diff_distrib flip: of_nat_diff)
  obtain res ch where rd: "sys_read (sock r) left = (res, ch)" by fastforce
  have ok: "handled sv (v, r\<lparr>sock := ch\<rparr>, sv)" "handled sv (v, r\<lparr>sock := ch, response_status := n\<rparr>, sv)"
    "handled sv (v, r\<lparr>response_status := n, status := DEAD\<rparr>, sv)" "handled sv (v, r, sv)" if "v \<in> {-1, 0, 1}" for v n
    using that f by (auto simp: handled_def stream_ok_def)
  have got: "handled sv (1, r\<lparr>sock := ch, client_stream := blit (client_stream r) (client_stream_pos r) bs,
      client_stream_pos := client_stream_pos r + length bs\<rparr>, sv)" if "res = Inr bs" for bs
  proof -
    have "length bs \<le> CLIENT_STREAM_SIZE - client_stream_pos r" using sys_read_input(1) [of "sock r" left bs ch] rd that left by simp
    then show ?thesis using f by (auto simp: handled_def stream_ok_def length_blit)
  qed
  show ?thesis
    unfolding read_more_def Let_def left_def [symmetric] rd prod.case
    by (cases res) (simp_all add: ok got)
qed

section \<open>Where the header ends\<close>

text \<open>The status after a sequence of characters, and the empty line a header ends with.\<close>

definition header_run :: "string \<Rightarrow> req_status" where
  "header_run s = foldl header_next READ_HEADER s"

lemma foldl_body_read: "foldl header_next BODY_READ s = BODY_READ"
  by (induction s) simp_all

definition line_feed_tail :: "string \<Rightarrow> bool" where
  "line_feed_tail s \<longleftrightarrow> (\<exists>p k. s = p @ LF # replicate k CR)"

definition has_empty_line :: "string \<Rightarrow> bool" where
  "has_empty_line s \<longleftrightarrow> (\<exists>p k t. s = p @ LF # replicate k CR @ LF # t)"

lemma line_feed_tail_snoc:
  "line_feed_tail (s @ [c]) \<longleftrightarrow> c = LF \<or> c = CR \<and> line_feed_tail s"
proof
  assume "line_feed_tail (s @ [c])"
  then obtain p k where e: "s @ [c] = p @ LF # replicate k CR" by (auto simp: line_feed_tail_def)
  show "c = LF \<or> c = CR \<and> line_feed_tail s"
  proof (cases k)
    case (Suc j)
    then have "s @ [c] = (p @ LF # replicate j CR) @ [CR]" using e by (simp add: replicate_append_same)
    then show ?thesis unfolding line_feed_tail_def by blast
  qed (use e in simp)
next
  assume a: "c = LF \<or> c = CR \<and> line_feed_tail s"
  show "line_feed_tail (s @ [c])"
  proof (cases "c = LF")
    case True
    then have "s @ [c] = s @ LF # replicate 0 CR" by simp
    then show ?thesis unfolding line_feed_tail_def by blast
  next
    case False
    then obtain p k where "s = p @ LF # replicate k CR" "c = CR" using a by (auto simp: line_feed_tail_def)
    then have "s @ [c] = p @ LF # replicate (Suc k) CR" by (simp add: replicate_append_same)
    then show ?thesis unfolding line_feed_tail_def by blast
  qed
qed

lemma has_empty_line_snoc:
  "has_empty_line (s @ [c]) \<longleftrightarrow> has_empty_line s \<or> c = LF \<and> line_feed_tail s"
proof
  assume "has_empty_line (s @ [c])"
  then obtain p k t where e: "s @ [c] = p @ LF # replicate k CR @ LF # t" by (auto simp: has_empty_line_def)
  show "has_empty_line s \<or> c = LF \<and> line_feed_tail s"
  proof (cases t rule: rev_cases)
    case Nil
    then have "s @ [c] = (p @ LF # replicate k CR) @ [LF]" using e by simp
    then show ?thesis unfolding line_feed_tail_def by blast
  next
    case (snoc u d)
    then have "s @ [c] = (p @ LF # replicate k CR @ LF # u) @ [d]" using e by simp
    then show ?thesis unfolding has_empty_line_def by blast
  qed
next
  assume a: "has_empty_line s \<or> c = LF \<and> line_feed_tail s"
  then show "has_empty_line (s @ [c])"
  proof
    assume "has_empty_line s"
    then obtain p k t where "s = p @ LF # replicate k CR @ LF # t" by (auto simp: has_empty_line_def)
    then have "s @ [c] = p @ LF # replicate k CR @ LF # (t @ [c])" by simp
    then show ?thesis unfolding has_empty_line_def by blast
  next
    assume "c = LF \<and> line_feed_tail s"
    then obtain p k where "s @ [c] = p @ LF # replicate k CR @ LF # []" by (auto simp: line_feed_tail_def)
    then show ?thesis unfolding has_empty_line_def by blast
  qed
qed

lemma header_run_status:
  "(header_run s = BODY_READ \<longleftrightarrow> has_empty_line s) \<and>
   (header_run s \<in> {ONE_LF, TWO_CR} \<longleftrightarrow> line_feed_tail s \<and> \<not> has_empty_line s) \<and>
   header_run s \<in> {READ_HEADER, ONE_CR, ONE_LF, TWO_CR, BODY_READ}"
proof (induction s rule: rev_induct)
  case Nil
  show ?case by (simp add: header_run_def has_empty_line_def line_feed_tail_def)
next
  case (snoc c s)
  have step: "header_run (s @ [c]) = header_next (header_run s) c" by (simp add: header_run_def)
  have st: "header_run s = READ_HEADER \<or> header_run s = ONE_CR \<or> header_run s = ONE_LF \<or> header_run s = TWO_CR \<or> header_run s = BODY_READ"
    using snoc by blast
  have ne: "LF \<noteq> CR" by simp
  show ?case
    unfolding step has_empty_line_snoc line_feed_tail_snoc
    using snoc st ne by (elim disjE) auto
qed

section \<open>The start of the body\<close>

lemma start_body_posting:
  assumes "stream_ok r" and "length (buffer r) \<le> BUFFER_SIZE + 1" and "content_length r = Some (decimal n)" and "n < 2 ^ 31"
    and "single_post_limit sv = 0 \<or> int n \<le> single_post_limit sv"
    and "list_all accepts (ch_writes (post_ch r))" and "n \<le> length (ch_writes (post_ch r))"
    and "list_all delivers (ch_reads (sock r))"
    and "n \<le> client_stream_pos r - parse_pos r + length (ch_input (sock r))"
  shows "\<exists>r1. start_body r sv = (1, r1, sv) \<and> posting r1 \<and> body_left r1 = n \<and> post_ch r1 = post_ch r \<and> sock r1 = sock r \<and>
    body_pending r1 = take n (drop (parse_pos r) (take (client_stream_pos r) (client_stream r)))"
proof -
  let ?p = "parse_pos r" and ?q = "client_stream_pos r"
  have st: "?p \<le> ?q" "?q \<le> length (client_stream r)" "length (client_stream r) \<le> CLIENT_STREAM_SIZE"
    using assms(1) by (simp_all add: stream_ok_def)
  define e where "e = min ?q (?p + n)"
  define r1 where "r1 = r\<lparr>header_line := Stream ?p, header_end := Stream e, status := BODY_WRITE, filesize := of_nat n, filepos := 0\<rparr>"
  have n: "unat (of_nat n :: 64 word) = n" using assms(4) by (simp add: unat_small)
  have d: "?q - ?p < 2 ^ 32" using st by (simp add: CLIENT_STREAM_SIZE_def)
  have "unat (ucast (word_of_int (int (?q - ?p)) :: 32 word) :: 64 word) = ?q - ?p"
    using d by (simp add: unsigned_ucast_eq unat_of_nat take_bit_nat_eq_self)
  then have big: "(ucast (word_of_int (int ?q - int ?p) :: 32 word) :: 64 word) > of_nat n \<longleftrightarrow> ?q - ?p > n"
    using st(1) n by (simp add: word_less_nat_alt of_nat_diff)
  have "start_body r sv = (1, r1, sv)"
    unfolding start_body_def Let_def
    using assms(3,5) big st(1) n
    by (auto simp: boa_atoi_decimal [OF assms(4)] r1_def e_def)
  moreover have pend: "body_pending r1 = take n (drop ?p (take ?q (client_stream r)))"
  proof -
    have "nat (int e - int ?p) = min (?q - ?p) n" using st(1) by (auto simp: e_def)
    then show ?thesis by (simp add: body_pending_def bytes_at_def r1_def drop_take min.commute)
  qed
  moreover have left: "body_left r1 = n" using n by (simp add: body_left_def r1_def)
  moreover have "length (body_pending r1) = min n (?q - ?p)" using pend st(2) by simp
  moreover from this have "body_ok r1"
    using st assms(2,4) n by (simp add: body_ok_def r1_def e_def)
  ultimately show ?thesis
    using assms(6-9) by (auto simp: posting_def r1_def intro!: exI [of _ r1])
qed

section \<open>Properties\<close>

text \<open>C3: Reading a header, in whatever pieces it arrives and whatever it contains: \<open>read_header\<close> with all
  that it calls, up to serving the request, returns one of the three values the scheduler knows. It keeps the
  parse position behind the read position, the read position inside \<open>client_stream\<close> and the positions of the output inside
  \<open>buffer\<close>, the two arrays that outlive the call. Each descriptor that the call opens is closed again or is
  \<open>data_fd\<close> or \<open>post_data_fd\<close> of the request when the call returns. Two things are not said: the arrays local to a called
  function are the matter of other theorems (the redirection in \<open>dir_redirect\<close> can write one byte too many), and a
  body file the request held before the call may be given up without being closed, which \<open>post_reopened\<close> shows
  for a POST without a version.\<close>

theorem read_header_safe:
  assumes "reading r sv"
  shows "case read_header r sv of
           None \<Rightarrow> True
         | Some (v, r', sv') \<Rightarrow>
             v \<in> {-1, 0, 1} \<and> buf_ok r' \<and> parse_pos r' \<le> client_stream_pos r' \<and>
             client_stream_pos r' \<le> length (client_stream r') \<and> length (client_stream r') \<le> CLIENT_STREAM_SIZE \<and>
             set (open_fds sv') \<subseteq> insert (data_fd r') (insert (post_data_fd r') (set (open_fds sv)))"
proof -
  have "parse_pos r + (client_stream_pos r - parse_pos r) \<le> client_stream_pos r"
    using assms by (simp add: reading_def stream_ok_def)
  then have l: "loop_ok r sv (read_loop (client_stream_pos r - parse_pos r) r sv)" by (rule read_loop_ok [OF assms])
  have "handled_opt sv (read_header r sv)"
    using l by (auto simp: read_header_def loop_ok_def split: option.splits prod.splits intro: handled_core [OF read_more_handled])
  then show ?thesis by (auto simp: handled_opt_def handled_def stream_ok_def split: option.splits)
qed

text \<open>A connection that has sent the start of a request.\<close>

definition example_reading :: request where
  "example_reading = example_request\<lparr>client_stream := ''GET / HT'', client_stream_pos := 8\<rparr>"

theorem read_header_safe_witness:
  "case read_header example_reading example_server of
     None \<Rightarrow> True
   | Some (v, r', sv') \<Rightarrow>
       v \<in> {-1, 0, 1} \<and> buf_ok r' \<and> parse_pos r' \<le> client_stream_pos r' \<and>
       client_stream_pos r' \<le> length (client_stream r') \<and> length (client_stream r') \<le> CLIENT_STREAM_SIZE \<and>
       set (open_fds sv') \<subseteq> insert (data_fd r') (insert (post_data_fd r') (set (open_fds example_server)))"
proof (rule read_header_safe)
  show "reading example_reading example_server"
    by (simp add: reading_def fresh_def stream_ok_def fds_ok_def files_small_def buf_ok_def example_reading_def
        example_request_def example_server_def CLIENT_STREAM_SIZE_def)
qed

text \<open>C24: The state machine of the header agrees with its description as a language: it has reached the body
  exactly when the characters contain an empty line, that is a line feed, any number of carriage
  returns, and a line feed.\<close>

theorem header_end_recognised:
  "foldl header_next READ_HEADER s = BODY_READ \<longleftrightarrow> (\<exists>p k t. s = p @ [LF] @ replicate k CR @ [LF] @ t)"
  using header_run_status [of s] by (simp add: header_run_def has_empty_line_def)

text \<open>One step of copying the body of a POST request: unless the connection is given up, the bytes in the
  file, the bytes in memory and the bytes still to come from the socket make up the same body
  in the same order, the bytes written and the bytes left make up the same length, and the
  pointers stay inside the arrays.\<close>

theorem post_body_step:
  assumes "body_ok r" and "\<not> body_complete r"
    and "(if status r = BODY_READ then read_body r sv else write_body r sv) = (v, r', sv')"
  shows "v \<in> {-1, 0, 1} \<and>
     (v \<noteq> 0 \<longrightarrow> body_ok r' \<and>
        ch_sent (post_ch r') @ body_pending r' @ ch_input (sock r') = ch_sent (post_ch r) @ body_pending r @ ch_input (sock r) \<and>
        length (ch_sent (post_ch r')) + body_left r' = length (ch_sent (post_ch r)) + body_left r)"
  using body_step_kept [OF assms(1,2), of sv v r' sv'] assms(3)
  by (auto simp: body_step_def body_kept_def body_data_def)

text \<open>A request whose body of five bytes is half in the stream.\<close>

definition example_post :: request where
  "example_post = example_request\<lparr>req_method := M_POST, content_length := Some (decimal 5), client_stream := ''xhel'',
     client_stream_pos := 4, parse_pos := 1, sock := null_chan\<lparr>ch_reads := [Got ''lo!'']\<rparr>,
     post_ch := null_chan\<lparr>ch_writes := [Wrote 2, Wrote 2, Wrote 2, Wrote 2, Wrote 2]\<rparr>\<rparr>"

definition example_body :: request where
  "example_body = example_post\<lparr>header_line := Stream 1, header_end := Stream 4, status := BODY_WRITE, filesize := 5\<rparr>"

theorem post_body_step_witness:
  "case write_body example_body example_server of (v, r', sv') \<Rightarrow>
     v \<in> {-1, 0, 1} \<and>
     (v \<noteq> 0 \<longrightarrow> body_ok r' \<and> ch_sent (post_ch r') @ body_pending r' @ ch_input (sock r') = ''hello!'' \<and>
        length (ch_sent (post_ch r')) + body_left r' = 5)"
proof -
  have d: "body_pending example_body = ''hel''" "status example_body = BODY_WRITE" "ch_input (sock example_body) = ''lo!''"
    "ch_sent (post_ch example_body) = []" "body_left example_body = 5"
    by (simp_all add: body_pending_def bytes_at_def example_body_def example_post_def example_request_def null_chan_def
        ch_input_def read_bytes_def body_left_def)
  then have "body_ok example_body" "\<not> body_complete example_body"
    by (simp_all add: body_ok_def body_complete_def)
       (simp add: example_body_def example_post_def example_request_def BUFFER_SIZE_def)
  from post_body_step [OF this, of example_server] show ?thesis using d by (auto split: prod.split)
qed

text \<open>C6: A POST body arrives: when a client sends at least the \<open>n\<close> bytes it has announced, in whatever
  pieces, and the file accepts at least one byte of each write, then no more than \<open>3 * n\<close> steps bring
  the request to the point where the program is started, and the file holds exactly the first \<open>n\<close>
  bytes after the header.\<close>

theorem post_body_delivered:
  assumes "stream_ok r" and "length (buffer r) \<le> BUFFER_SIZE + 1" and "content_length r = Some (decimal n)" and "n < 2 ^ 31"
    and "single_post_limit sv = 0 \<or> int n \<le> single_post_limit sv"
    and "list_all accepts (ch_writes (post_ch r))" and "n \<le> length (ch_writes (post_ch r))"
    and "list_all delivers (ch_reads (sock r))"
    and "n \<le> client_stream_pos r - parse_pos r + length (ch_input (sock r))"
  shows "\<exists>r1 r'. start_body r sv = (1, r1, sv) \<and> body_loop (3 * n) r1 sv = (1, r', sv) \<and> body_complete r' \<and>
     ch_sent (post_ch r') =
       ch_sent (post_ch r) @ take n (drop (parse_pos r) (take (client_stream_pos r) (client_stream r)) @ ch_input (sock r))"
proof -
  obtain r1 where s: "start_body r sv = (1, r1, sv)" "posting r1" "body_left r1 = n" "post_ch r1 = post_ch r" "sock r1 = sock r"
    "body_pending r1 = take n (drop (parse_pos r) (take (client_stream_pos r) (client_stream r)))"
    using start_body_posting [OF assms] by blast
  have "body_measure r1 \<le> 3 * n" using s(3) by (simp add: body_measure_def)
  then obtain r' where l: "body_loop (3 * n) r1 sv = (1, r', sv)" "body_complete r'" "body_kept r1 r'"
    using body_loop_completes [OF s(2)] by blast
  have cut: "take n (take n x @ y) = take n (x @ y)" for x y :: string by (simp add: min_def)
  have "ch_sent (post_ch r') =
       ch_sent (post_ch r) @ take n (drop (parse_pos r) (take (client_stream_pos r) (client_stream r)) @ ch_input (sock r))"
    using body_complete_file [OF l(3,2)] unfolding s(3-6) cut .
  then show ?thesis using s(1) l(1,2) by blast
qed

theorem post_body_delivered_witness:
  "\<exists>r1 r'. start_body example_post example_server = (1, r1, example_server) \<and>
     body_loop 15 r1 example_server = (1, r', example_server) \<and> body_complete r' \<and> ch_sent (post_ch r') = ''hello''"
proof -
  note defs = example_post_def example_request_def null_chan_def
  have f: "stream_ok example_post" "length (buffer example_post) \<le> BUFFER_SIZE + 1" "content_length example_post = Some (decimal 5)"
    "list_all accepts (ch_writes (post_ch example_post))" "5 \<le> length (ch_writes (post_ch example_post))"
    "list_all delivers (ch_reads (sock example_post))"
    by (simp_all add: defs stream_ok_def CLIENT_STREAM_SIZE_def BUFFER_SIZE_def accepts_def delivers_def)
  have g: "ch_input (sock example_post) = ''lo!''" "client_stream_pos example_post = 4" "parse_pos example_post = 1"
    "client_stream example_post = ''xhel''" "ch_sent (post_ch example_post) = []"
    by (simp_all add: defs ch_input_def read_bytes_def)
  have "single_post_limit example_server = 0 \<or> int 5 \<le> single_post_limit example_server" by (simp add: example_server_def)
  from post_body_delivered [OF f(1-3) _ this f(4-6)] show ?thesis by (simp add: g)
qed

end
