(* ===== verification/Cgi_Header.thy ===== *)
theory Cgi_Header
  imports Header
begin

text \<open>
  The header a CGI program writes (\<open>cgi_header.c\<close>): removing what a program prints before its header,
  and turning the header into a response. A program's output lies in the second half of the output
  buffer of the request, between \<open>header_line\<close> and \<open>header_end\<close>.
\<close>

section \<open>Removing a prefix\<close>

definition cgi_strip_builtin :: "string list" where
  "cgi_strip_builtin =
     [''Status:'', ''Location:'', ''Content-Type:'', ''Set-Cookie:'', ''Content-Length:'', ''Cache-Control:'',
      ''Connection:'', ''WWW-Authenticate:'', ''Expires:'', ''Pragma:'', ''Content-Encoding:'', ''Content-Language:'',
      ''Content-Disposition:'', ''Last-Modified:'', ''ETag:'', ''Vary:'', ''Allow:'']"

text \<open>\<open>None\<close> is the exit when memory runs out.\<close>

definition cgi_strip_add_token :: "string \<Rightarrow> server \<Rightarrow> server option" where
  "cgi_strip_add_token token sv =
     (case try_alloc sv of (ok, sv) \<Rightarrow>
        if \<not> ok then None
        else case try_alloc sv of (ok, sv) \<Rightarrow>
          if \<not> ok then None else Some (sv\<lparr>cgi_strip_tokens := cgi_strip_tokens sv @ [token]\<rparr>))"

fun add_tokens :: "string list \<Rightarrow> server \<Rightarrow> server option" where
  "add_tokens [] sv = Some sv"
| "add_tokens (t # ts) sv = (case cgi_strip_add_token t sv of None \<Rightarrow> None | Some sv \<Rightarrow> add_tokens ts sv)"

definition cgi_strip_init :: "server \<Rightarrow> server option" where
  "cgi_strip_init sv = add_tokens cgi_strip_builtin sv"

definition cgi_strip_cleanup :: "server \<Rightarrow> server" where
  "cgi_strip_cleanup sv = sv\<lparr>cgi_strip_tokens := []\<rparr>"

definition matches_wildcard_pattern :: "string \<Rightarrow> bool" where
  "matches_wildcard_pattern line \<longleftrightarrow>
     (case line of
        [] \<Rightarrow> False
      | c # s \<Rightarrow>
          (isupper c \<or> islower c) \<and>
          (let p = dropWhile (\<lambda>c. isalnum c \<or> c = CHR ''-'') s
           in char_at p 0 = CHR '':'' \<and> char_at p 1 = CHR '' ''))"

text \<open>Positions are offsets into the string.\<close>

fun skip_eol :: "string \<Rightarrow> nat \<Rightarrow> nat" where
  "skip_eol buf 0 = 0"
| "skip_eol buf (Suc p) = (if char_at buf p = LF \<or> char_at buf p = CR then skip_eol buf p else Suc p)"

fun back_to_lf :: "string \<Rightarrow> nat \<Rightarrow> nat" where
  "back_to_lf buf 0 = 0"
| "back_to_lf buf (Suc p) = (if char_at buf (Suc p) \<noteq> LF then back_to_lf buf p else Suc p)"

definition find_line_start :: "string \<Rightarrow> nat \<Rightarrow> nat" where
  "find_line_start buf pos =
     (let p = skip_eol buf pos in
      if p = 0 then 0
      else (let q = back_to_lf buf (p - 1) in if char_at buf q = LF then q + 1 else 0))"

definition starts_header :: "string list \<Rightarrow> string \<Rightarrow> bool" where
  "starts_header toks line \<longleftrightarrow> list_ex (has_caseprefix line) toks \<or> matches_wildcard_pattern line"

text \<open>
  The scans of a line that does not start with a header: each token in turn, then the pattern; a
  later match replaces an earlier one.
\<close>

definition scan_token :: "string \<Rightarrow> nat \<Rightarrow> nat \<Rightarrow> string \<Rightarrow> nat option \<Rightarrow> nat option" where
  "scan_token buf start pos tok last_token =
     fold (\<lambda>i l. if i + length tok \<le> pos \<and> has_caseprefix (drop i buf) tok then Some i else l) [start..<Suc pos] last_token"

definition scan_pattern :: "string \<Rightarrow> nat \<Rightarrow> nat \<Rightarrow> nat option \<Rightarrow> nat option" where
  "scan_pattern buf start pos last_token =
     fold (\<lambda>i l. if i + 2 \<le> pos \<and> matches_wildcard_pattern (drop i buf) then Some i else l) [start..<Suc pos] last_token"

definition last_token :: "string list \<Rightarrow> string \<Rightarrow> nat \<Rightarrow> nat \<Rightarrow> nat option" where
  "last_token toks buf start pos = scan_pattern buf start pos (fold (scan_token buf start pos) toks None)"

lemma skip_eol_le: "skip_eol buf p \<le> p"
  by (induction buf p rule: skip_eol.induct) auto

lemma back_to_lf_le: "back_to_lf buf p \<le> p"
  by (induction buf p rule: back_to_lf.induct) auto

lemma skip_eol_last: "skip_eol buf p = Suc q \<Longrightarrow> char_at buf q \<noteq> LF"
  by (induction buf p rule: skip_eol.induct) (auto split: if_splits)

lemma back_to_lf_less: "char_at buf p \<noteq> LF \<Longrightarrow> char_at buf (back_to_lf buf p) = LF \<Longrightarrow> back_to_lf buf p < p"
  by (induction buf p rule: back_to_lf.induct) (auto simp: less_Suc_eq_le back_to_lf_le split: if_splits)

lemma find_line_start_less:
  assumes "find_line_start buf pos \<noteq> 0"
  shows "find_line_start buf pos < pos"
proof -
  obtain p where p: "skip_eol buf pos = Suc p" using assms by (cases "skip_eol buf pos") (auto simp: find_line_start_def)
  have lf: "char_at buf (back_to_lf buf p) = LF" using assms p by (auto simp: find_line_start_def Let_def split: if_splits)
  have "back_to_lf buf p < p" using back_to_lf_less [OF skip_eol_last [OF p] lf] .
  moreover have "Suc p \<le> pos" using skip_eol_le [of buf pos] p by simp
  ultimately show ?thesis using p lf by (simp add: find_line_start_def)
qed

function strip_loop :: "string list \<Rightarrow> string \<Rightarrow> nat \<Rightarrow> nat" where
  "strip_loop toks buf pos =
     (let start = find_line_start buf pos in
      if starts_header toks (drop start buf)
      then (if start = 0 then 0 else strip_loop toks buf start)
      else (case last_token toks buf start pos of Some i \<Rightarrow> i | None \<Rightarrow> pos))"
  by pat_completeness auto
termination
  by (relation "measure (\<lambda>(toks, buf, pos). pos)") (auto intro: find_line_start_less)

declare strip_loop.simps [simp del]

text \<open>The separator between header and body that the search starts from.\<close>

definition strip_anchor :: "string \<Rightarrow> nat option" where
  "strip_anchor buf =
     (let lfcrlf = strstr buf [LF, CR, LF];
          lflf = strstr buf [LF, LF];
          anchor = (case lfcrlf of
                      None \<Rightarrow> lflf
                    | Some a \<Rightarrow> (case lflf of Some p \<Rightarrow> if p < a then Some p else Some a | None \<Rightarrow> Some a))
      in if anchor = None then strstr buf [CR, LF, CR, LF] else anchor)"

definition strip_cgi_prefix :: "string \<Rightarrow> server \<Rightarrow> nat" where
  "strip_cgi_prefix buf sv =
     (if \<not> cgi_strip_prefix sv then 0
      else case strip_anchor buf of None \<Rightarrow> 0 | Some pos \<Rightarrow> strip_loop (cgi_strip_tokens sv) buf pos)"

section \<open>The header\<close>

text \<open>The end of the header: the line feed before the empty line.\<close>

definition cgi_header_end :: "string \<Rightarrow> nat option" where
  "cgi_header_end buf = (case strstr buf [LF, CR, LF] of Some c \<Rightarrow> Some c | None \<Rightarrow> strstr buf [LF, LF])"

fun ptr_offset :: "ptr \<Rightarrow> nat" where
  "ptr_offset (Buf a) = a"
| "ptr_offset (Stream a) = a"
| "ptr_offset Null = 0"

text \<open>
  A \<open>Location\<close> header at the offset \<open>a\<close> of the buffer: a URL is cut at the end of its line and sent
  with the headers after it.
\<close>

definition cgi_location :: "nat \<Rightarrow> request \<Rightarrow> server \<Rightarrow> request" where
  "cgi_location a r sv =
     (let loc = cstr (drop (a + 10) (buffer r)) in
      if char_at loc 0 = CHR ''/'' then send_r_bad_request sv r
      else if has_caseprefix loc ''http://'' \<or> has_caseprefix loc ''https://'' then
        (let n = (case strchr loc LF of Some n \<Rightarrow> n | None \<Rightarrow> length loc);
             url = rev (dropWhile ((=) CR) (rev (take n loc)));
             c2 = a + 10 + length url + 1;
             r = r\<lparr>buffer := (buffer r)[a + 10 + length url := NUL]\<rparr>;
             lines = take (ptr_offset (header_end r) - c2) (drop c2 (buffer r));
             c2 = c2 + length (takeWhile (\<lambda>c. c = LF \<or> c = CR) lines)
         in if c2 = ptr_offset (header_end r) then send_r_moved_temp sv url [] r
            else send_r_moved_temp sv url (cstr (drop c2 (buffer r))) r)
      else send_r_bad_request sv r)"

text \<open>Any other header: the response goes to the start of the buffer and the output is moved behind it.\<close>

definition cgi_merge :: "nat \<Rightarrow> request \<Rightarrow> server \<Rightarrow> int \<times> request \<times> server" where
  "cgi_merge body r sv =
     (let r = send_r_request_ok sv r;
          dest = buffer_end r;
          r = (if req_method r = M_HEAD then r\<lparr>header_end := Buf body, cgi_status := CGI_DONE\<rparr> else r);
          from = ptr_offset (header_line r);
          howmuch = nat ((int (ptr_offset (header_end r)) - int from) mod 2 ^ 32)
      in if dest + howmuch > BUFFER_SIZE
         then (0, send_r_error sv (r\<lparr>buffer_start := 0, buffer_end := 0\<rparr>), sv)
         else
           (let r = r\<lparr>buffer := blit (buffer r) dest (take howmuch (drop from (buffer r))),
                      buffer_end := dest + howmuch,
                      header_line := Buf (dest + howmuch), header_end := Buf (dest + howmuch)\<rparr>;
                r = flush r
            in (if req_method r = M_HEAD then 0 else 1, r, sv)))"

definition process_cgi_header :: "request \<Rightarrow> server \<Rightarrow> int \<times> request \<times> server" where
  "process_cgi_header r sv =
     (let r = (if cgi_status r \<noteq> CGI_DONE then r\<lparr>cgi_status := CGI_BUFFER\<rparr> else r);
          a = ptr_offset (header_line r);
          strip = (if build_strip sv \<and> cgi_strip_prefix sv \<and> cgi_type r \<noteq> NPH
                   then strip_cgi_prefix (cstr (drop a (buffer r))) sv else 0);
          a = a + strip;
          r = (if strip \<noteq> 0 then r\<lparr>header_line := Buf a\<rparr> else r);
          buf = cstr (drop a (buffer r))
      in case cgi_header_end buf of
           None \<Rightarrow> (0, send_r_bad_gateway sv r, sv)
         | Some c \<Rightarrow>
             (let body = a + c + (if char_at buf (c + 1) = CR then 2 else 1) in
              if http_version r = HTTP09 then (1, r\<lparr>header_line := Buf body\<rparr>, sv)
              else if has_caseprefix buf ''Status: '' then
                (1, r\<lparr>header_line := Buf (a - 1), buffer := blit (buffer r) (a - 1) ''HTTP/1.0 ''\<rparr>, sv)
              else if has_caseprefix buf ''Location: '' then (1, (cgi_location a r sv)\<lparr>status := DONE\<rparr>, sv)
              else cgi_merge body r sv))"

section \<open>What remains after the prefix\<close>

lemma fold_last: "fold (\<lambda>i l. if P i then Some i else l) is l = Some j \<Longrightarrow> l = Some j \<or> j \<in> set is \<and> P j"
  by (induction "is" arbitrary: l) (auto split: if_splits)

lemma scan_token_found:
  "scan_token buf start pos tok l = Some j \<Longrightarrow> l = Some j \<or> j \<le> pos \<and> has_caseprefix (drop j buf) tok"
  unfolding scan_token_def by (drule fold_last) auto

lemma scan_tokens_found:
  "fold (scan_token buf start pos) toks l = Some j \<Longrightarrow> l = Some j \<or> j \<le> pos \<and> list_ex (has_caseprefix (drop j buf)) toks"
  by (induction toks arbitrary: l) (auto dest!: scan_token_found)

lemma last_token_found:
  assumes "last_token toks buf start pos = Some j"
  shows "j \<le> pos \<and> starts_header toks (drop j buf)"
proof -
  have "fold (scan_token buf start pos) toks None = Some j \<or> j \<le> pos \<and> matches_wildcard_pattern (drop j buf)"
    using assms unfolding last_token_def scan_pattern_def by (auto dest!: fold_last)
  then show ?thesis using scan_tokens_found [of buf start pos toks None j] by (auto simp: starts_header_def)
qed

lemma strip_loop_header:
  "strip_loop toks buf pos \<le> pos \<and> (strip_loop toks buf pos = pos \<or> starts_header toks (drop (strip_loop toks buf pos) buf))"
proof (induction toks buf pos rule: strip_loop.induct)
  case (1 toks buf pos)
  let ?s = "find_line_start buf pos"
  show ?case
  proof (cases "starts_header toks (drop ?s buf) \<and> ?s \<noteq> 0")
    case True
    then have "strip_loop toks buf pos = strip_loop toks buf ?s" by (simp add: strip_loop.simps [of toks buf pos] Let_def)
    moreover have "?s < pos" using find_line_start_less True by blast
    ultimately show ?thesis using 1 [OF refl] True by auto
  next
    case False
    then show ?thesis
      using last_token_found [of toks buf ?s pos]
      by (cases "last_token toks buf ?s pos") (auto simp: strip_loop.simps [of toks buf pos] Let_def)
  qed
qed

text \<open>An offset where a line starts, and a text all of whose lines before an offset are headers.\<close>

definition line_start :: "string \<Rightarrow> nat \<Rightarrow> bool" where
  "line_start buf i \<longleftrightarrow> i = 0 \<or> char_at buf (i - 1) = LF"

definition header_lines :: "string list \<Rightarrow> string \<Rightarrow> nat \<Rightarrow> bool" where
  "header_lines toks buf pos \<longleftrightarrow> (\<forall>i \<le> pos. line_start buf i \<longrightarrow> starts_header toks (drop i buf))"

lemma find_line_start_starts: "line_start buf (find_line_start buf pos)"
  by (simp add: line_start_def find_line_start_def Let_def)

lemma strip_loop_headers: "header_lines toks buf pos \<Longrightarrow> strip_loop toks buf pos = 0"
proof (induction toks buf pos rule: strip_loop.induct)
  case (1 toks buf pos)
  let ?s = "find_line_start buf pos"
  have le: "?s \<le> pos" using find_line_start_less [of buf pos] by (cases "?s = 0") auto
  then have h: "starts_header toks (drop ?s buf)" using 1(2) find_line_start_starts by (simp add: header_lines_def)
  have "header_lines toks buf ?s" using 1(2) le by (simp add: header_lines_def)
  then show ?case using 1(1) [OF refl h] h by (auto simp: strip_loop.simps [of toks buf pos] Let_def)
qed

lemma strip_anchor_empty_line:
  assumes "strip_anchor buf = Some i"
  shows "prefix [LF, CR, LF] (drop i buf) \<or> prefix [LF, LF] (drop i buf)"
proof -
  have third: "prefix [LF, CR, LF] (drop (i + 1) buf)" if "strstr buf [CR, LF, CR, LF] = Some i" for i
    using strstr_Some [OF that] by (auto simp: first_occ_def prefix_def drop_Suc drop_tl)
  have "strstr buf [LF, CR, LF] \<noteq> None" if "strstr buf [CR, LF, CR, LF] = Some i" for i
  proof -
    have "sublist [LF, CR, LF] buf" using third [OF that] by (meson prefix_imp_sublist sublist_drop sublist_order.order_trans)
    then show ?thesis using strstr_None by simp
  qed
  then show ?thesis
    using assms strstr_Some [of buf _ i] by (auto simp: strip_anchor_def Let_def first_occ_def split: option.splits if_splits)
qed

text \<open>Whatever the output is, what is left starts at a header or at the empty line, or is the whole output.\<close>

lemma strip_prefix_sound:
  "(let i = strip_cgi_prefix buf sv in
     (i = 0 \<or> prefix [LF, CR, LF] (drop i buf) \<or> prefix [LF, LF] (drop i buf) \<or>
      starts_header (cgi_strip_tokens sv) (drop i buf)) \<and>
     (\<not> cgi_strip_prefix sv \<longrightarrow> i = 0) \<and>
     (\<forall>pos. strip_anchor buf = Some pos \<and> header_lines (cgi_strip_tokens sv) buf pos \<longrightarrow> i = 0))"
proof (cases "cgi_strip_prefix sv \<and> (\<exists>pos. strip_anchor buf = Some pos)")
  case True
  then obtain pos where pos: "strip_anchor buf = Some pos" by blast
  show ?thesis
    using True pos strip_loop_header [of "cgi_strip_tokens sv" buf pos] strip_anchor_empty_line [OF pos]
      strip_loop_headers [of "cgi_strip_tokens sv" buf pos]
    by (auto simp: strip_cgi_prefix_def Let_def)
next
  case False
  then show ?thesis by (auto simp: strip_cgi_prefix_def)
qed

section \<open>Lines\<close>

text \<open>Lines that are neither empty nor consist of carriage returns, each with its line feed.\<close>

definition line_text :: "string list \<Rightarrow> string" where
  "line_text ls = concat (map (\<lambda>l. l @ [LF]) ls)"

definition proper_line :: "string \<Rightarrow> bool" where
  "proper_line l \<longleftrightarrow> LF \<notin> set l \<and> \<not> set l \<subseteq> {CR}"

lemma line_text_simps [simp]:
  "line_text [] = []" "line_text (l # ls) = l @ LF # line_text ls" "line_text (ks @ ls) = line_text ks @ line_text ls"
  by (simp_all add: line_text_def)

lemma line_text_ends: "ls \<noteq> [] \<Longrightarrow> line_text ls \<noteq> [] \<and> last (line_text ls) = LF"
  by (cases ls rule: rev_cases) auto

lemma proper_line_next:
  assumes "proper_line l"
  shows "\<not> prefix [LF, LF] (LF # l @ LF # x)" "\<not> prefix [LF, CR, LF] (LF # l @ LF # x)"
proof -
  obtain c cs where l: "l = c # cs" "c \<noteq> LF" using assms by (cases l) (auto simp: proper_line_def)
  show "\<not> prefix [LF, LF] (LF # l @ LF # x)" using l by simp
  show "\<not> prefix [LF, CR, LF] (LF # l @ LF # x)" using l assms by (cases cs) (auto simp: proper_line_def)
qed

text \<open>No empty line lies inside the lines.\<close>

lemma no_separator_inside:
  assumes "\<forall>l \<in> set ls. proper_line l" and "i + 1 < length (line_text ls)"
  shows "\<not> prefix [LF, LF] (drop i (line_text ls @ x)) \<and> \<not> prefix [LF, CR, LF] (drop i (line_text ls @ x))"
  using assms
proof (induction ls arbitrary: i)
  case (Cons l ls)
  consider "i < length l" | "i = length l" | "i > length l" by linarith
  then show ?case
  proof cases
    case 1
    then have "drop i (line_text (l # ls) @ x) = l ! i # drop (Suc i) (l @ LF # line_text ls @ x)"
      using Cons_nth_drop_Suc [of i "l @ LF # line_text ls @ x"] by (simp add: nth_append)
    moreover have "l ! i \<noteq> LF" using 1 Cons.prems(1) by (metis list.set_intros(1) nth_mem proper_line_def)
    ultimately show ?thesis by simp
  next
    case 2
    then obtain k ks where ls: "ls = k # ks" using Cons.prems(2) by (cases ls) auto
    have "drop i (line_text (l # ls) @ x) = LF # k @ LF # line_text ks @ x" using 2 by (simp add: ls)
    then show ?thesis using proper_line_next [of k "line_text ks @ x"] Cons.prems(1) by (simp add: ls)
  next
    case 3
    then have "drop i (line_text (l # ls) @ x) = drop (i - length l - 1) (line_text ls @ x)" by (simp add: drop_Cons')
    then show ?thesis using Cons.IH [of "i - length l - 1"] Cons.prems 3 by simp
  qed
qed simp

lemma strip_anchor_lines:
  assumes "\<forall>l \<in> set ls. proper_line l" and "ls \<noteq> []" and "e = [LF] \<or> e = [CR, LF]"
  shows "strip_anchor (line_text ls @ e @ x) = Some (length (line_text ls) - 1)"
proof -
  let ?b = "line_text ls @ e @ x" let ?n = "length (line_text ls) - 1"
  have l: "line_text ls = butlast (line_text ls) @ [LF]" using line_text_ends [OF assms(2)] by (metis append_butlast_last_id)
  have d: "drop ?n ?b = LF # e @ x"
    by (subst l) (simp add: append_eq_conv_conj)
  have n: "\<not> prefix [LF, LF] (drop i ?b)" "\<not> prefix [LF, CR, LF] (drop i ?b)" if "i < ?n" for i
    using no_separator_inside [OF assms(1), of i "e @ x"] that by simp_all
  have before: "?n \<le> i" if "strstr ?b sep = Some i" "sep = [LF, LF] \<or> sep = [LF, CR, LF]" for i sep
    using strstr_Some [OF that(1)] n that(2) by (auto simp: first_occ_def not_less [symmetric])
  have at: "strstr ?b sep = Some ?n" if "prefix sep (LF # e @ x)" "sep = [LF, LF] \<or> sep = [LF, CR, LF]" for sep
  proof -
    have "sublist sep ?b" using that(1) d by (metis prefix_imp_sublist sublist_drop sublist_order.order_trans)
    then obtain i where i: "strstr ?b sep = Some i" using strstr_None by fastforce
    have "\<not> ?n < i" using strstr_Some [OF i] that(1) d by (auto simp: first_occ_def)
    then show ?thesis using i before [OF i that(2)] by simp
  qed
  from assms(3) show ?thesis
  proof
    assume "e = [LF]"
    then have "strstr ?b [LF, LF] = Some ?n" using at [of "[LF, LF]"] by simp
    then show ?thesis using before [of "[LF, CR, LF]"] by (auto simp: strip_anchor_def Let_def split: option.split)
  next
    assume "e = [CR, LF]"
    then have "strstr ?b [LF, CR, LF] = Some ?n" using at [of "[LF, CR, LF]"] by simp
    then show ?thesis using before [of "[LF, LF]"] by (auto simp: strip_anchor_def Let_def split: option.split)
  qed
qed

text \<open>The start of a line is found from its end and from the start of the next one.\<close>

lemma skip_eol_append: "p \<le> length b \<Longrightarrow> skip_eol (b @ x) p = skip_eol b p"
  by (induction b p rule: skip_eol.induct) (auto simp: char_at_def nth_append)

lemma skip_eol_crs: "c \<noteq> LF \<Longrightarrow> c \<noteq> CR \<Longrightarrow> set crs \<subseteq> {LF, CR} \<Longrightarrow> skip_eol (b @ c # crs) (length b + 1 + length crs) = length b + 1"
proof (induction crs rule: rev_induct)
  case Nil
  then show ?case by (simp add: char_at_def)
next
  case (snoc d crs)
  have "char_at (b @ c # crs @ [d]) (length b + 1 + length crs) = d" by (simp add: char_at_def nth_append)
  moreover have "skip_eol (b @ c # crs @ [d]) (length b + 1 + length crs) = skip_eol (b @ c # crs) (length b + 1 + length crs)"
    using skip_eol_append [of "length b + 1 + length crs" "b @ c # crs" "[d]"] by simp
  ultimately show ?case using snoc by auto
qed

lemma back_to_lf_line:
  "LF \<notin> set l \<Longrightarrow> m \<le> length l \<Longrightarrow> l \<noteq> [] \<Longrightarrow> x = [] \<or> last x = LF \<Longrightarrow> 0 < length x + m \<Longrightarrow>
   back_to_lf (x @ l @ y) (length x + m - 1) = length x - 1"
proof (induction m)
  case 0
  then have x: "x \<noteq> []" "last x = LF" by auto
  then obtain x' where x': "x = x' @ [LF]" by (metis append_butlast_last_id)
  show ?case unfolding x' by (cases x') (simp_all add: char_at_def nth_append)
next
  case (Suc m)
  then have "l ! m \<noteq> LF" by (metis Suc_le_eq nth_mem)
  then have c: "char_at (x @ l @ y) (length x + m) \<noteq> LF" using Suc.prems(2) by (simp add: char_at_def nth_append)
  show ?case
  proof (cases "length x + m")
    case 0
    then show ?thesis by simp
  next
    case (Suc k)
    then show ?thesis using c Suc.IH Suc.prems by simp
  qed
qed

lemma skip_eol_line:
  assumes "c \<noteq> LF" and "c \<noteq> CR" and "set q \<subseteq> {LF, CR}"
  shows "skip_eol (b @ c # q @ z) (length b + 1 + length q) = length b + 1"
  using skip_eol_append [of "length b + 1 + length q" "b @ c # q" z] skip_eol_crs [OF assms, of b] by simp

lemma find_line_start_line:
  assumes "proper_line l" and "x = [] \<or> last x = LF" and "d = 0 \<or> d = 1"
  shows "find_line_start (x @ l @ LF # y) (length x + length l + d) = length x"
proof -
  have "\<exists>c \<in> set l. c \<noteq> CR" using assms(1) unfolding proper_line_def by blast
  then obtain a c crs where l: "l = a @ c # crs" "c \<noteq> CR" and "\<forall>z \<in> set crs. \<not> z \<noteq> CR"
    by (rule split_list_last_propE)
  then have crs: "set crs \<subseteq> {LF, CR}" by blast
  have lf: "LF \<notin> set l" "c \<noteq> LF" using assms(1) l(1) by (auto simp: proper_line_def)
  have s: "skip_eol (x @ l @ LF # y) (length x + length l + d) = length x + length a + 1"
    using assms(3)
  proof
    assume "d = 0"
    then show ?thesis using skip_eol_line [OF lf(2) l(2) crs, of "x @ a" "LF # y"] unfolding l(1) by (simp add: add.assoc)
  next
    assume "d = 1"
    moreover have "set (crs @ [LF]) \<subseteq> {LF, CR}" using crs by simp
    ultimately show ?thesis using skip_eol_line [OF lf(2) l(2), of "crs @ [LF]" "x @ a" y] unfolding l(1) by (simp add: add.assoc)
  qed
  have "length a + 1 \<le> length l" "l \<noteq> []" using l(1) by simp_all
  then have b: "back_to_lf (x @ l @ LF # y) (length x + (length a + 1) - 1) = length x - 1"
    using back_to_lf_line [of l "length a + 1" x "LF # y"] lf(1) assms(2) by simp
  have "find_line_start (x @ l @ LF # y) (length x + length l + d) =
      (if char_at (x @ l @ LF # y) (length x - 1) = LF then length x - 1 + 1 else 0)"
    using b unfolding find_line_start_def s Let_def by simp
  also have "\<dots> = length x"
  proof (cases x rule: rev_cases)
    case Nil
    then show ?thesis using lf l(1) by (cases a) (auto simp: char_at_def)
  next
    case (snoc x' c')
    then show ?thesis using assms(2) by (simp add: char_at_def nth_append)
  qed
  finally show ?thesis .
qed

lemma wildcard_append:
  assumes "matches_wildcard_pattern h"
  shows "matches_wildcard_pattern (h @ x)"
proof -
  let ?P = "\<lambda>c. isalnum c \<or> c = CHR ''-''"
  obtain c s where h: "h = c # s" using assms by (cases h) (simp_all add: matches_wildcard_pattern_def)
  then have p: "isupper c \<or> islower c" "char_at (dropWhile ?P s) 0 = CHR '':''" "char_at (dropWhile ?P s) 1 = CHR '' ''"
    using assms by (simp_all add: matches_wildcard_pattern_def Let_def)
  have n: "length (dropWhile ?P s) > 1" using p(3) by (simp add: char_at_def split: if_splits)
  then have "dropWhile ?P s \<noteq> []" by (cases "dropWhile ?P s") simp_all
  then obtain d where "d \<in> set s" "\<not> ?P d" unfolding dropWhile_eq_Nil_conv by blast
  then have e: "dropWhile ?P (s @ x) = dropWhile ?P s @ x" by (rule dropWhile_append1)
  define q where "q = dropWhile ?P s"
  have "char_at (q @ x) 0 = CHR '':''" "char_at (q @ x) 1 = CHR '' ''"
    using p(2,3) n by (cases q; simp add: char_at_def nth_append flip: q_def)+
  then show ?thesis using h p(1) e unfolding matches_wildcard_pattern_def q_def by (simp only: append_Cons list.case Let_def)
qed

lemma starts_header_append:
  assumes "starts_header toks h" and "\<forall>t \<in> set toks. is_cstr t" and "is_cstr (h @ x)"
  shows "starts_header toks (h @ x)"
proof -
  have h: "is_cstr h" using assms(3) by (simp add: is_cstr_def)
  have "has_caseprefix (h @ x) t" if "t \<in> set toks" "has_caseprefix h t" for t
    using that assms(2) has_caseprefix_iff [OF h, of t] has_caseprefix_iff [OF assms(3), of t] by (auto simp: prefix_def)
  then show ?thesis using assms(1) wildcard_append by (auto simp: starts_header_def list_ex_iff)
qed

lemma last_token_none:
  assumes "\<forall>i. start \<le> i \<and> i < pos \<longrightarrow> \<not> starts_header toks (drop i buf)" and "start < pos"
  shows "last_token toks buf start pos = None"
proof -
  have n: "\<not> (i + length t \<le> pos \<and> has_caseprefix (drop i buf) t)" if "t \<in> set toks" "start \<le> i" for i t
  proof (cases "i < pos")
    case True
    then show ?thesis using assms(1) that by (auto simp: starts_header_def list_ex_iff)
  next
    case False
    have "t \<noteq> []" using assms(1) [rule_format, of start] assms(2) that(1) by (auto simp: starts_header_def list_ex_iff has_caseprefix_def)
    then show ?thesis using False by (cases t) auto
  qed
  have fold: "fold (\<lambda>i l. if P i then Some i else l) xs l = l" if "\<forall>i \<in> set xs. \<not> P i" for P xs and l :: "nat option"
    using that by (induction xs) simp_all
  have "scan_token buf start pos t l = l" if "t \<in> set toks" for t l
    unfolding scan_token_def by (rule fold) (use n that in auto)
  then have "fold (scan_token buf start pos) ts l = l" if "set ts \<subseteq> set toks" for ts l
    using that by (induction ts) simp_all
  moreover have "scan_pattern buf start pos l = l" for l
    unfolding scan_pattern_def by (rule fold) (use assms(1) in \<open>auto simp: starts_header_def\<close>)
  ultimately show ?thesis by (simp add: last_token_def)
qed

text \<open>The walk back over the header lines to the text before them.\<close>

lemma strip_loop_lines:
  assumes "\<forall>l \<in> set (gs @ hs). proper_line l" and "\<forall>h \<in> set hs. starts_header toks h" and "\<forall>t \<in> set toks. is_cstr t"
    and "gs = [] \<or> (\<forall>i \<le> length (last gs). \<not> starts_header toks (drop i (last gs) @ LF # line_text hs @ x))"
    and "is_cstr (line_text (gs @ hs) @ x)" and "hs \<noteq> [] \<or> gs \<noteq> []" and "d = 0 \<or> d = 1 \<and> hs \<noteq> []"
  shows "strip_loop toks (line_text (gs @ hs) @ x) (length (line_text (gs @ hs)) - d) = length (line_text gs)"
  using assms
proof (induction hs arbitrary: x d rule: rev_induct)
  case Nil
  then obtain gs' g where g: "gs = gs' @ [g]" by (cases gs rule: rev_cases) auto
  let ?b = "line_text gs @ x" let ?pos = "length (line_text gs)" let ?s = "length (line_text gs')"
  have s: "find_line_start ?b ?pos = ?s"
    using find_line_start_line [of g "line_text gs'" 1 x] line_text_ends [of gs'] Nil.prems(1) by (cases "gs' = []") (simp_all add: g)
  have n: "\<not> starts_header toks (drop i ?b)" if "?s \<le> i" "i < ?pos" for i
  proof -
    have "drop i ?b = drop (i - ?s) g @ LF # x" using that by (simp add: g)
    then show ?thesis using Nil.prems(4) that by (auto simp: g)
  qed
  have "?s < ?pos" by (simp add: g)
  then show ?case
    using n [of ?s] last_token_none [of ?s ?pos toks ?b] n Nil.prems(7) by (simp add: strip_loop.simps s Let_def)
next
  case (snoc h hs)
  let ?b = "line_text (gs @ hs @ [h]) @ x" let ?s = "length (line_text (gs @ hs))"
  have b: "?b = line_text (gs @ hs) @ h @ LF # x" by simp
  have p: "length (line_text (gs @ hs @ [h])) - d = ?s + length h + (1 - d)" using snoc.prems(7) by auto
  have s: "find_line_start ?b (?s + length h + (1 - d)) = ?s"
    unfolding b using find_line_start_line [of h "line_text (gs @ hs)" "1 - d" x] line_text_ends [of "gs @ hs"] snoc.prems(1,7)
    by (cases "gs @ hs = []") auto
  have "is_cstr (h @ LF # x)" using snoc.prems(5) by (simp add: is_cstr_def)
  then have h: "starts_header toks (drop ?s ?b)" using starts_header_append [of toks h "LF # x"] snoc.prems(2,3) by simp
  show ?case
  proof (cases "?s = 0")
    case True
    then have "gs = []" using line_text_ends [of "gs @ hs"] by auto
    then show ?thesis using True h s unfolding p by (subst strip_loop.simps) (simp add: Let_def)
  next
    case False
    then have ne: "hs \<noteq> [] \<or> gs \<noteq> []" by auto
    have "strip_loop toks (line_text (gs @ hs) @ h @ LF # x) (length (line_text (gs @ hs)) - 0) = length (line_text gs)"
      using snoc.prems by (intro snoc.IH) (use ne in auto)
    then show ?thesis using False h s unfolding p by (subst strip_loop.simps) (simp add: Let_def)
  qed
qed



text \<open>
  A line such as that of the test \<^verbatim>\<open>test/unit/test_cgi_strip_prefix.c\<close>, which expects it to be removed, has the form of a header and is kept.
\<close>

lemma debug_line_kept:
  "strip_cgi_prefix (''DEBUG: x'' @ [LF] @ ''Content-Type: text/html'' @ [LF, LF] @ ''body'')
     (example_server\<lparr>cgi_strip_prefix := True, cgi_strip_tokens := cgi_strip_builtin\<rparr>) = 0"
proof -
  let ?sv = "example_server\<lparr>cgi_strip_prefix := True, cgi_strip_tokens := cgi_strip_builtin\<rparr>"
  let ?hs = "[''DEBUG: x'', ''Content-Type: text/html'']"
  have a: "strip_anchor (line_text ?hs @ [LF] @ ''body'') = Some (length (line_text ([] @ ?hs)) - 1)"
    using strip_anchor_lines [of ?hs "[LF]" "''body''"] by (simp add: proper_line_def)
  have h: "\<forall>h \<in> set ?hs. starts_header cgi_strip_builtin h" by code_simp
  have "strip_loop cgi_strip_builtin (line_text ([] @ ?hs) @ [LF] @ ''body'') (length (line_text ([] @ ?hs)) - 1) = length (line_text [])"
    using h by (intro strip_loop_lines) (simp_all add: proper_line_def is_cstr_def cgi_strip_builtin_def)
  then show ?thesis using a by (simp add: strip_cgi_prefix_def)
qed

text \<open>
  The scan of a line takes the last match of the pattern, also one inside the name of a header: the
  first bytes of the name are then removed with the text before it.
\<close>

lemma strip_into_name:
  "strip_loop [''Vary:''] (''x Vary: y'' @ [LF, LF]) 9 = 5"
  by (subst strip_loop.simps) code_simp

end
