(* ===== verification/Pipe.thy ===== *)
theory Pipe
  imports Read Cgi_Header
begin

text \<open>
  Copying from a program or a file to the client (\<open>pipe.c\<close>). The output of a program passes through the
  buffer of the request, where \<open>header_line\<close> and \<open>header_end\<close> delimit what was read and
  not written; a file that is not mapped is read into the output buffer, or sent by the kernel. The jumps that
  repeat an interrupted call skip the interruptions in the script of the channel.
\<close>

section \<open>Programs\<close>

definition write_from_pipe :: "request \<Rightarrow> server \<Rightarrow> int \<times> request \<times> server" where
  "write_from_pipe r sv =
     (let n = nat (ptr_diff (header_end r) (header_line r) mod 2 ^ 64) in
      if n = 0 then
        (if cgi_status r = CGI_DONE then (0, r, sv)
         else (1, r\<lparr>status := PIPE_READ, header_line := Buf 0, header_end := Buf 0\<rparr>, sv))
      else case sys_write (sock r) (take n (bytes_at r (header_line r))) of (res, ch) \<Rightarrow>
        let r = r\<lparr>sock := ch\<rparr> in
        case res of
          Inl e \<Rightarrow>
            if e = EWOULDBLOCK \<or> e = EAGAIN then (-1, r, sv)
            else if e = EINTR then (1, r, sv)
            else (0, r\<lparr>status := DEAD\<rparr>, sv)
        | Inr m \<Rightarrow>
            (let r = r\<lparr>header_line := ptr_add (header_line r) m, bytes_written := bytes_written r + of_nat m\<rparr>
             in if m = n then (1, r\<lparr>status := PIPE_READ, header_line := Buf 0, header_end := Buf 0\<rparr>, sv)
                else (1, r, sv)))"

text \<open>The header of the program is complete, or no more of it will come.\<close>

definition header_complete :: "request \<Rightarrow> bool" where
  "header_complete r \<longleftrightarrow> cgi_header_end (cstr (bytes_at r (header_line r))) \<noteq> None"

definition read_from_pipe :: "request \<Rightarrow> server \<Rightarrow> int \<times> request \<times> server" where
  "read_from_pipe r sv =
     (let n = nat ((int BUFFER_SIZE - (int (ptr_offset (header_end r)) - 1)) mod 2 ^ 32) in
      if n = 0 then
        (if cgi_status r = CGI_PARSE
         then process_cgi_header (poke (header_end r) [NUL] (r\<lparr>cgi_status := CGI_BUFFER\<rparr>)) sv
         else (1, r\<lparr>status := PIPE_WRITE\<rparr>, sv))
      else case sys_read (data_ch r) n of (res, ch) \<Rightarrow>
        let r = r\<lparr>data_ch := ch\<rparr> in
        case res of
          Inl e \<Rightarrow>
            if e = EINTR then (1, r, sv)
            else if e = EWOULDBLOCK \<or> e = EAGAIN then (-1, r, sv)
            else (0, r\<lparr>status := DEAD\<rparr>, sv)
        | Inr bs \<Rightarrow>
            (let r = poke (header_end r) (bs @ [NUL]) r in
             if bs = [] then
               (let r = r\<lparr>status := PIPE_WRITE\<rparr> in
                if cgi_status r = CGI_PARSE
                then process_cgi_header (poke (header_end r) [NUL] (r\<lparr>cgi_status := CGI_DONE\<rparr>)) sv
                else (1, r\<lparr>cgi_status := CGI_DONE\<rparr>, sv))
             else
               (let r = r\<lparr>header_end := ptr_add (header_end r) (length bs)\<rparr> in
                if cgi_status r \<noteq> CGI_PARSE then write_from_pipe r sv
                else if \<not> header_complete r then (1, r, sv)
                else process_cgi_header (poke (header_end r) [NUL] (r\<lparr>cgi_status := CGI_DONE\<rparr>)) sv)))"

section \<open>Files\<close>

text \<open>
  A read of a file at an offset: an entry of the script that delivers bytes limits their number, an
  empty script delivers all. A repeated call passes over the interruptions.
\<close>

definition sys_pread :: "chan \<Rightarrow> string \<Rightarrow> nat \<Rightarrow> nat \<Rightarrow> (errno + string) \<times> chan" where
  "sys_pread ch file off n =
     (case dropWhile (\<lambda>x. x = Read_error EINTR) (ch_reads ch) of
        [] \<Rightarrow> (Inr (take n (drop off file)), ch\<lparr>ch_reads := []\<rparr>)
      | Read_error e # q \<Rightarrow> (Inl e, ch\<lparr>ch_reads := q\<rparr>)
      | Got s # q \<Rightarrow> (Inr (take (min n (length s)) (drop off file)), ch\<lparr>ch_reads := q\<rparr>))"

definition write_restarted :: "chan \<Rightarrow> string \<Rightarrow> (errno + nat) \<times> chan" where
  "write_restarted ch bs =
     sys_write (ch\<lparr>ch_writes := dropWhile (\<lambda>x. x = Write_error EINTR) (ch_writes ch)\<rparr>) bs"

text \<open>The second half of \<open>io_shuffle\<close>: what the buffer holds is written.\<close>

definition shuffle_write :: "request \<Rightarrow> server \<Rightarrow> int \<times> request \<times> server" where
  "shuffle_write r sv =
     (let n = buffer_end r - buffer_start r in
      if n = 0 then
        (if data_fd r = 0 then (0, r, sv) else (1, r\<lparr>buffer_end := 0, buffer_start := 0\<rparr>, sv))
      else case write_restarted (sock r) (take n (drop (buffer_start r) (buffer r))) of (res, ch) \<Rightarrow>
        let r = r\<lparr>sock := ch\<rparr> in
        case res of
          Inl e \<Rightarrow> if e = EWOULDBLOCK \<or> e = EAGAIN then (-1, r, sv) else (0, r\<lparr>status := DEAD\<rparr>, sv)
        | Inr m \<Rightarrow>
            (let r = r\<lparr>buffer_start := buffer_start r + m, bytes_written := bytes_written r + of_nat m\<rparr>
             in (1, if m = n then r\<lparr>buffer_end := 0, buffer_start := 0\<rparr> else r, sv)))"

definition io_shuffle :: "request \<Rightarrow> server \<Rightarrow> int \<times> request \<times> server" where
  "io_shuffle r sv =
     (if req_method r = M_HEAD then complete_response r sv
      else
        (let x = hd (ranges r);
             room = int BUFFER_SIZE - int (buffer_end r) - 256;
             want = sint (ucast (r_stop x - r_start x + 1) :: 32 word);
             k = (if room > want then want else room)
         in if k > 0 \<and> data_fd r \<noteq> 0 then
              (case try_sys sv of (ok, sv) \<Rightarrow>
                 if \<not> ok then (0, r\<lparr>status := DEAD\<rparr>, sv)
                 else case sys_pread (data_ch r) (data_file r) (unat (r_start x)) (nat k) of (res, ch) \<Rightarrow>
                   let r = r\<lparr>data_ch := ch\<rparr> in
                   case res of
                     Inl e \<Rightarrow>
                       if e = EWOULDBLOCK \<or> e = EAGAIN then
                         (if buffer_end r - buffer_start r = 0 then (-1, r, sv) else shuffle_write r sv)
                       else (0, r\<lparr>status := DEAD\<rparr>, sv)
                   | Inr bs \<Rightarrow>
                       if bs = [] then shuffle_write (r\<lparr>data_fd := 0\<rparr>) (fd_close (data_fd r) sv)
                       else
                         (let x = x\<lparr>r_start := r_start x + of_nat (length bs)\<rparr>;
                              r = r\<lparr>buffer := blit (buffer r) (buffer_end r) bs,
                                    buffer_end := buffer_end r + length bs, ranges := x # tl (ranges r)\<rparr>
                          in if r_stop x + 1 - r_start x = 0 then complete_response r sv else shuffle_write r sv))
            else shuffle_write r sv))"

text \<open>\<open>sendfile\<close> moves the start of the range itself.\<close>

definition io_shuffle_sendfile :: "request \<Rightarrow> server \<Rightarrow> int \<times> request \<times> server" where
  "io_shuffle_sendfile r sv =
     (if req_method r = M_HEAD then complete_response r sv
      else
        (let x = hd (ranges r);
             want = unat (r_stop x - r_start x + 1);
             k = (if want > system_bufsize sv then system_bufsize sv else want);
             finish = (\<lambda>m r. let r = r\<lparr>bytes_written := bytes_written r + of_nat m\<rparr>; x = hd (ranges r) in
                          if r_stop x + 1 \<le> r_start x then complete_response r sv else (1, r, sv))
         in if k = 0 then finish 0 r
            else if sint (r_start x) < 0 then (0, r\<lparr>status := DEAD\<rparr>, sv)
            else case write_restarted (sock r) (take k (drop (unat (r_start x)) (data_file r))) of (res, ch) \<Rightarrow>
              let r = r\<lparr>sock := ch\<rparr> in
              case res of
                Inl e \<Rightarrow> if e = EWOULDBLOCK \<or> e = EAGAIN then (-1, r, sv) else (0, r\<lparr>status := DEAD\<rparr>, sv)
              | Inr m \<Rightarrow>
                  (let x' = x\<lparr>r_start := r_start x + of_nat m\<rparr> in
                   if sint (r_start x') < 0 then (0, r\<lparr>status := DEAD\<rparr>, sv)
                   else if m = 0 then (-1, r, sv)
                   else finish m (r\<lparr>ranges := x' # tl (ranges r)\<rparr>))))"

section \<open>Copying the output of a program\<close>

text \<open>
  The state once the header is out of the way. The array has \<open>BUFFER_SIZE + 1\<close> bytes, and all of them are
  read into; the terminator written behind them can be one byte too far.
\<close>

definition pipe_ok :: "request \<Rightarrow> bool" where
  "pipe_ok r \<longleftrightarrow>
     (case (header_line r, header_end r) of
        (Buf a, Buf b) \<Rightarrow> a \<le> b \<and> b \<le> BUFFER_SIZE + 1 \<and> b \<le> length (buffer r)
      | _ \<Rightarrow> False) \<and>
     length (buffer r) \<le> BUFFER_SIZE + 2 \<and> cgi_status r \<noteq> CGI_PARSE"

definition pipe_data :: "request \<Rightarrow> string" where
  "pipe_data r = ch_sent (sock r) @ body_pending r @ ch_input (data_ch r)"

definition pipe_step :: "request \<Rightarrow> server \<Rightarrow> int \<times> request \<times> server" where
  "pipe_step r sv = (if status r = PIPE_READ then read_from_pipe r sv else write_from_pipe r sv)"

lemma pipe_ok_cases:
  assumes "pipe_ok r"
  obtains a b where "header_line r = Buf a" "header_end r = Buf b" "a \<le> b" "b \<le> BUFFER_SIZE + 1" "b \<le> length (buffer r)"
    "length (buffer r) \<le> BUFFER_SIZE + 2" "body_pending r = take (b - a) (drop a (buffer r))"
    "length (body_pending r) = b - a"
  using assms by (auto simp: pipe_ok_def body_pending_def bytes_at_def nat_diff_distrib split: ptr.splits)

lemma write_from_pipe_eq:
  assumes "pipe_ok r"
  shows "write_from_pipe r sv =
     (if body_pending r = [] then
        (if cgi_status r = CGI_DONE then (0, r, sv)
         else (1, r\<lparr>status := PIPE_READ, header_line := Buf 0, header_end := Buf 0\<rparr>, sv))
      else case sys_write (sock r) (body_pending r) of
          (Inl e, ch) \<Rightarrow>
            if e = EWOULDBLOCK \<or> e = EAGAIN then (-1, r\<lparr>sock := ch\<rparr>, sv)
            else if e = EINTR then (1, r\<lparr>sock := ch\<rparr>, sv) else (0, r\<lparr>sock := ch, status := DEAD\<rparr>, sv)
        | (Inr m, ch) \<Rightarrow>
            if m = length (body_pending r)
            then (1, r\<lparr>sock := ch, header_line := Buf 0, header_end := Buf 0, bytes_written := bytes_written r + of_nat m, status := PIPE_READ\<rparr>, sv)
            else (1, r\<lparr>sock := ch, header_line := ptr_add (header_line r) m, bytes_written := bytes_written r + of_nat m\<rparr>, sv))"
  using assms
proof (cases rule: pipe_ok_cases)
  case (1 a b)
  have n: "nat (ptr_diff (header_end r) (header_line r) mod 2 ^ 64) = length (body_pending r)"
    using 1 by (simp add: BUFFER_SIZE_def nat_diff_distrib flip: of_nat_diff)
  have bs: "take (length (body_pending r)) (bytes_at r (header_line r)) = body_pending r"
    using 1 by (simp add: bytes_at_def)
  obtain res ch where w: "sys_write (sock r) (body_pending r) = (res, ch)" by fastforce
  show ?thesis
    unfolding write_from_pipe_def Let_def n bs w prod.case length_0_conv
    by (rule if_cong [OF refl refl], cases res) simp_all
qed

definition pipe_kept :: "request \<Rightarrow> request \<Rightarrow> bool" where
  "pipe_kept r r' \<longleftrightarrow> pipe_ok r' \<and> pipe_data r' = pipe_data r"

lemma sent_kept:
  assumes "pipe_ok r" and "sys_write (sock r) (body_pending r) = (Inr m, ch)" and "m < length (body_pending r)"
  defines "r' \<equiv> r\<lparr>sock := ch, header_line := ptr_add (header_line r) m, bytes_written := bytes_written r + of_nat m\<rparr>"
  shows "pipe_kept r r'" "body_pending r' = drop m (body_pending r)"
proof -
  have ch: "ch_sent ch = ch_sent (sock r) @ take m (body_pending r)" using sys_write_result(1) [OF assms(2)] by simp
  have "pipe_ok r' \<and> body_pending r' = drop m (body_pending r)"
    using assms(1)
  proof (cases rule: pipe_ok_cases)
    case (1 a b)
    have m: "m < b - a" using assms(3) 1 by simp
    have "body_pending r' = take (b - (a + m)) (drop (a + m) (buffer r))"
      using 1 m by (simp add: r'_def body_pending_def bytes_at_def) (simp add: nat_diff_distrib' nat_int_add)
    then have "body_pending r' = drop m (body_pending r)" using 1 by (simp add: drop_take add.commute)
    moreover have "pipe_ok r'" using 1 m assms(1) by (auto simp: pipe_ok_def r'_def)
    ultimately show ?thesis by simp
  qed
  then show "pipe_kept r r'" "body_pending r' = drop m (body_pending r)"
    using ch by (simp_all add: pipe_kept_def pipe_data_def r'_def)
qed

lemma emptied_kept:
  assumes "pipe_ok r" and "sock r' = ch" and "ch_sent ch = ch_sent (sock r) @ body_pending r" and "data_ch r' = data_ch r"
    and "header_line r' = Buf 0" and "header_end r' = Buf 0" and "buffer r' = buffer r" and "cgi_status r' = cgi_status r"
  shows "pipe_kept r r'" "body_pending r' = []"
proof -
  show "body_pending r' = []" using assms(5,6) by (simp add: body_pending_def)
  then show "pipe_kept r r'" using assms by (simp add: pipe_kept_def pipe_data_def pipe_ok_def split: ptr.splits)
qed

lemma write_step_kept:
  assumes "pipe_ok r" and "write_from_pipe r sv = (v, r', sv')"
  shows "v \<in> {-1, 0, 1} \<and> (v \<noteq> 0 \<longrightarrow> pipe_kept r r') \<and>
    (v = 0 \<longrightarrow> status r' = DEAD \<or> r' = r \<and> body_pending r = [] \<and> cgi_status r = CGI_DONE)"
proof -
  obtain res ch where w: "sys_write (sock r) (body_pending r) = (res, ch)" by fastforce
  have err: "pipe_kept r (r\<lparr>sock := ch\<rparr>)" if "res = Inl e" for e
    using assms(1) sys_write_result(2) [OF w [unfolded that]]
    by (auto simp: pipe_kept_def pipe_ok_def pipe_data_def body_pending_def bytes_at_def split: ptr.splits)
  have restart: "pipe_kept r (r\<lparr>status := PIPE_READ, header_line := Buf 0, header_end := Buf 0\<rparr>)" if "body_pending r = []"
    using that by (intro emptied_kept(1) [OF assms(1)]) simp_all
  have full: "pipe_kept r (r\<lparr>sock := ch, header_line := Buf 0, header_end := Buf 0, bytes_written := n, status := PIPE_READ\<rparr>)"
    if "res = Inr (length (body_pending r))" for n
    using sys_write_result(1) [OF w [unfolded that]] by (intro emptied_kept(1) [OF assms(1)]) simp_all
  have part: "pipe_kept r (r\<lparr>sock := ch, header_line := ptr_add (header_line r) m, bytes_written := bytes_written r + of_nat m\<rparr>)"
    if "res = Inr m" "m \<noteq> length (body_pending r)" for m
    using sys_write_result(1) [OF w [unfolded that(1)]] sent_kept(1) [OF assms(1) w [unfolded that(1)]] that(2) by simp
  show ?thesis
    using assms(2) unfolding write_from_pipe_eq [OF assms(1)] w
    by (cases res) (auto split: if_splits intro: err restart full part)
qed

definition received :: "nat \<Rightarrow> chan \<Rightarrow> string \<Rightarrow> request \<Rightarrow> request" where
  "received b ch bs r =
     r\<lparr>data_ch := ch, buffer := blit (buffer r) b (bs @ [NUL]), header_end := Buf (b + length bs)\<rparr>"

lemma read_from_pipe_eq:
  assumes "pipe_ok r" and "header_end r = Buf b"
  shows "read_from_pipe r sv =
     (if b = BUFFER_SIZE + 1 then (1, r\<lparr>status := PIPE_WRITE\<rparr>, sv)
      else case sys_read (data_ch r) (BUFFER_SIZE + 1 - b) of
          (Inl e, ch) \<Rightarrow>
            if e = EINTR then (1, r\<lparr>data_ch := ch\<rparr>, sv)
            else if e = EWOULDBLOCK \<or> e = EAGAIN then (-1, r\<lparr>data_ch := ch\<rparr>, sv)
            else (0, r\<lparr>data_ch := ch, status := DEAD\<rparr>, sv)
        | (Inr bs, ch) \<Rightarrow>
            if bs = [] then (1, (received b ch [] r)\<lparr>status := PIPE_WRITE, cgi_status := CGI_DONE\<rparr>, sv)
            else write_from_pipe (received b ch bs r) sv)"
proof -
  have b: "b \<le> BUFFER_SIZE + 1" and st: "cgi_status r \<noteq> CGI_PARSE"
    using assms by (auto simp: pipe_ok_def split: ptr.splits)
  have n: "nat ((int BUFFER_SIZE - (int (ptr_offset (header_end r)) - 1)) mod 2 ^ 32) = BUFFER_SIZE + 1 - b"
    using b assms(2) by (simp add: BUFFER_SIZE_def)
  have z: "BUFFER_SIZE + 1 - b = 0 \<longleftrightarrow> b = BUFFER_SIZE + 1" using b by auto
  obtain res ch where rd: "sys_read (data_ch r) (BUFFER_SIZE + 1 - b) = (res, ch)" by fastforce
  show ?thesis
    unfolding read_from_pipe_def Let_def n rd prod.case z
  proof (rule if_cong [OF refl])
    show "(if cgi_status r = CGI_PARSE then process_cgi_header (poke (header_end r) [NUL] (r\<lparr>cgi_status := CGI_BUFFER\<rparr>)) sv
        else (1, r\<lparr>status := PIPE_WRITE\<rparr>, sv)) = (1, r\<lparr>status := PIPE_WRITE\<rparr>, sv)"
      using st by (rule if_not_P)
  qed (cases res; use assms(2) st in \<open>simp add: poke_def received_def\<close>)
qed

lemma received_kept_pipe:
  assumes "pipe_ok r" and "header_end r = Buf b" and "sys_read (data_ch r) (BUFFER_SIZE + 1 - b) = (Inr bs, ch)"
  shows "pipe_kept r (received b ch bs r)" "body_pending (received b ch bs r) = body_pending r @ bs"
proof -
  have in_: "length bs \<le> BUFFER_SIZE + 1 - b" "ch_input (data_ch r) = bs @ ch_input ch" using sys_read_input(1) [OF assms(3)] by simp_all
  have "pipe_ok (received b ch bs r) \<and> body_pending (received b ch bs r) = body_pending r @ bs"
    using assms(1)
  proof (cases rule: pipe_ok_cases)
    case (1 a b')
    then have b: "b' = b" using assms(2) by simp
    let ?buf = "blit (buffer r) b (bs @ [NUL])"
    have len: "length ?buf \<le> BUFFER_SIZE + 2" "b + length bs \<le> length ?buf" using 1 b in_(1) by (auto simp: length_blit)
    have "take (b + length (bs @ [NUL])) ?buf = take b (buffer r) @ bs @ [NUL]" using 1 b by (intro blit_exact) simp
    then have "take (b + length bs) (take (b + length (bs @ [NUL])) ?buf) = take b (buffer r) @ bs" using 1 b by simp
    then have "take (b + length bs) ?buf = take b (buffer r) @ bs" by (simp add: min_def)
    then have "drop a (take (b + length bs) ?buf) = drop a (take b (buffer r)) @ bs" using 1 b by simp
    then have "body_pending (received b ch bs r) = body_pending r @ bs"
      using 1 b by (simp add: body_pending_def received_def bytes_at_def drop_take nat_diff_distrib' nat_int_add)
    moreover have "pipe_ok (received b ch bs r)" using 1 b len in_(1) assms(1) by (auto simp: pipe_ok_def received_def)
    ultimately show ?thesis by simp
  qed
  then show "pipe_kept r (received b ch bs r)" "body_pending (received b ch bs r) = body_pending r @ bs"
    using in_(2) by (auto simp: pipe_kept_def pipe_data_def received_def)
qed

lemma pipe_kept_trans: "pipe_kept r r' \<Longrightarrow> pipe_kept r' r'' \<Longrightarrow> pipe_kept r r''"
  by (simp add: pipe_kept_def)

lemma pipe_ok_updates:
  "pipe_ok r \<Longrightarrow> pipe_kept r (r\<lparr>status := s\<rparr>)"
  "pipe_kept r r' \<Longrightarrow> pipe_kept r (r'\<lparr>status := s, cgi_status := CGI_DONE\<rparr>)"
  by (auto simp: pipe_kept_def pipe_ok_def pipe_data_def body_pending_def bytes_at_def split: ptr.splits)

lemma read_step_kept:
  assumes "pipe_ok r" and "read_from_pipe r sv = (v, r', sv')"
  shows "v \<in> {-1, 0, 1} \<and> (v \<noteq> 0 \<longrightarrow> pipe_kept r r') \<and> (v = 0 \<longrightarrow> status r' = DEAD)"
proof -
  obtain b where b: "header_end r = Buf b" using assms(1) by (auto simp: pipe_ok_def split: ptr.splits)
  obtain res ch where rd: "sys_read (data_ch r) (BUFFER_SIZE + 1 - b) = (res, ch)" by fastforce
  have err: "pipe_kept r (r\<lparr>data_ch := ch\<rparr>)" if "res = Inl e" for e
    using assms(1) sys_read_input(2) [OF rd [unfolded that]]
    by (auto simp: pipe_kept_def pipe_ok_def pipe_data_def body_pending_def bytes_at_def split: ptr.splits)
  note eq = assms(2) [unfolded read_from_pipe_eq [OF assms(1) b] rd]
  show ?thesis
  proof (cases "b = BUFFER_SIZE + 1")
    case True
    then show ?thesis using eq pipe_ok_updates(1) [OF assms(1)] by auto
  next
    case False
    show ?thesis
    proof (cases res)
      case (Inl e)
      then show ?thesis using eq False err by (auto split: if_splits)
    next
      case (Inr bs)
      note k = received_kept_pipe [OF assms(1) b rd [unfolded Inr]]
      show ?thesis
      proof (cases "bs = []")
        case True
        then show ?thesis using eq False Inr k(1) pipe_ok_updates(2) by auto
      next
        case ne: False
        then have w: "write_from_pipe (received b ch bs r) sv = (v, r', sv')" using eq False Inr by simp
        have "pipe_ok (received b ch bs r)" using k(1) by (simp add: pipe_kept_def)
        from write_step_kept [OF this w] k ne pipe_kept_trans show ?thesis by auto
      qed
    qed
  qed
qed

text \<open>
  A read that fills the array makes the terminator fall on the byte behind it, the first byte of the next
  member of the structure.
\<close>

lemma pipe_overrun:
  assumes "pipe_ok r" and "header_end r = Buf 0" and "length (buffer r) \<le> BUFFER_SIZE + 1"
    and "ch_reads (data_ch r) = [Got s]" and "length s > BUFFER_SIZE"
  shows "length (buffer (fst (snd (read_from_pipe r sv)))) = BUFFER_SIZE + 2"
proof -
  let ?bs = "take (BUFFER_SIZE + 1) s"
  obtain ch where rd: "sys_read (data_ch r) (BUFFER_SIZE + 1 - 0) = (Inr ?bs, ch)"
    by (simp add: sys_read_def assms(4))
  have ne: "?bs \<noteq> []" using assms(5) by (auto simp: BUFFER_SIZE_def)
  have buf: "length (buffer (received 0 ch ?bs r)) = BUFFER_SIZE + 2"
    using assms(3,5) by (simp add: received_def length_blit)
  have ok: "pipe_ok (received 0 ch ?bs r)" using received_kept_pipe(1) [OF assms(1,2) rd] by (simp add: pipe_kept_def)
  have "read_from_pipe r sv = write_from_pipe (received 0 ch ?bs r) sv"
    unfolding read_from_pipe_eq [OF assms(1,2)] rd using ne by (simp add: BUFFER_SIZE_def)
  moreover have "buffer (fst (snd (write_from_pipe x sv))) = buffer x" if "pipe_ok x" for x
    unfolding write_from_pipe_eq [OF that] by (simp split: prod.split sum.split)
  ultimately show ?thesis using ok buf by simp
qed

section \<open>All output arrives\<close>

fun pipe_loop :: "nat \<Rightarrow> request \<Rightarrow> server \<Rightarrow> int \<times> request \<times> server" where
  "pipe_loop 0 r sv = (1, r, sv)"
| "pipe_loop (Suc n) r sv =
     (case pipe_step r sv of (v, r, sv) \<Rightarrow> if v = 1 then pipe_loop n r sv else (v, r, sv))"

text \<open>
  A program that writes and then closes its output, which a reader sees again and again, and a client
  that accepts at least one byte of each write.
\<close>

definition ends_needed :: "request \<Rightarrow> nat" where
  "ends_needed r =
     (if body_pending r = [] then (if status r = PIPE_WRITE then 0 else if ch_input (data_ch r) = [] then 1 else 2)
      else if status r = PIPE_WRITE \<and> ch_input (data_ch r) = [] then 1 else 2)"

definition script_ends :: "nat \<Rightarrow> chan \<Rightarrow> bool" where
  "script_ends n ch \<longleftrightarrow> (\<exists>ss k. ch_reads ch = map Got ss @ replicate k (Got []) \<and> [] \<notin> set ss \<and> n \<le> k)"

definition pipe_left :: "request \<Rightarrow> nat" where
  "pipe_left r = length (body_pending r) + length (ch_input (data_ch r))"

definition piping :: "request \<Rightarrow> bool" where
  "piping r \<longleftrightarrow>
     pipe_ok r \<and> status r \<in> {PIPE_READ, PIPE_WRITE} \<and> list_all accepts (ch_writes (sock r)) \<and>
     pipe_left r \<le> length (ch_writes (sock r)) \<and> script_ends (ends_needed r) (data_ch r) \<and>
     (header_end r = Buf (BUFFER_SIZE + 1) \<longrightarrow> body_pending r \<noteq> []) \<and>
     (status r = PIPE_WRITE \<and> body_pending r = [] \<longrightarrow> cgi_status r = CGI_DONE \<and> ch_input (data_ch r) = [])"

definition pipe_measure :: "request \<Rightarrow> nat" where
  "pipe_measure r = 2 * pipe_left r + (if status r = PIPE_READ then 1 else 0)"

definition pipe_progress :: "request \<Rightarrow> request \<Rightarrow> bool" where
  "pipe_progress r r' \<longleftrightarrow> pipe_kept r r' \<and> piping r' \<and> pipe_measure r' < pipe_measure r"

lemma script_ends_mono: "script_ends n ch \<Longrightarrow> m \<le> n \<Longrightarrow> script_ends m ch"
  unfolding script_ends_def by (meson le_trans)

text \<open>A write of at least one byte, after which the state is again one of \<open>piping\<close>.\<close>

lemma write_progress:
  assumes "pipe_ok r" and "body_pending r \<noteq> []" and "list_all accepts (ch_writes (sock r))"
    and "pipe_left r \<le> length (ch_writes (sock r))" and "script_ends n (data_ch r)" and "status r \<in> {PIPE_READ, PIPE_WRITE}"
    and "n = (if status r = PIPE_WRITE \<and> ch_input (data_ch r) = [] then 1 else 2)"
  shows "\<exists>r'. write_from_pipe r sv = (1, r', sv) \<and> pipe_kept r r' \<and> piping r' \<and> pipe_left r' < pipe_left r"
proof -
  have "pipe_left r > 0" using assms(2) by (simp add: pipe_left_def)
  then obtain k ws where ws: "ch_writes (sock r) = Wrote (Suc k) # ws" and all: "list_all accepts ws"
    using assms(3,4) by (cases "ch_writes (sock r)") (auto simp: accepts_def gr0_conv_Suc split: write_result.splits)
  define m where "m = min (Suc k) (length (body_pending r))"
  define ch where "ch = (sock r)\<lparr>ch_writes := ws, ch_sent := ch_sent (sock r) @ take m (body_pending r)\<rparr>"
  have w: "sys_write (sock r) (body_pending r) = (Inr m, ch)" by (simp add: sys_write_def ws Let_def m_def ch_def)
  have m: "0 < m" "m \<le> length (body_pending r)" using assms(2) by (auto simp: m_def)
  show ?thesis
  proof (cases "m = length (body_pending r)")
    case True
    define r1 where "r1 = r\<lparr>sock := ch, header_line := Buf 0, header_end := Buf 0, bytes_written := bytes_written r + of_nat m, status := PIPE_READ\<rparr>"
    have e: "pipe_kept r r1" "body_pending r1 = []"
      using emptied_kept [OF assms(1), of r1 ch] True by (simp_all add: r1_def ch_def)
    have left: "pipe_left r1 < pipe_left r" "pipe_left r1 + m \<le> pipe_left r" using e(2) m True by (simp_all add: pipe_left_def r1_def)
    have "ends_needed r1 \<le> n" using e(2) assms(7) by (auto simp: ends_needed_def r1_def)
    then have "script_ends (ends_needed r1) (data_ch r1)" using script_ends_mono [OF assms(5)] by (simp add: r1_def)
    then have "piping r1"
      using e all left assms(4) ws m by (simp add: piping_def pipe_kept_def) (simp add: r1_def ch_def BUFFER_SIZE_def)
    moreover have "write_from_pipe r sv = (1, r1, sv)"
      unfolding write_from_pipe_eq [OF assms(1)] using assms(2) w True by (simp add: r1_def)
    ultimately show ?thesis using e(1) left(1) by blast
  next
    case False
    then have lt: "m < length (body_pending r)" using m by simp
    define r1 where "r1 = r\<lparr>sock := ch, header_line := ptr_add (header_line r) m, bytes_written := bytes_written r + of_nat m\<rparr>"
    note e = sent_kept [OF assms(1) w lt, folded r1_def]
    have ne: "body_pending r1 \<noteq> []" using e(2) lt by simp
    have left: "pipe_left r1 < pipe_left r" "pipe_left r1 + m \<le> pipe_left r"
      using e(2) m lt by (simp_all add: pipe_left_def) (simp_all add: r1_def)
    have "ends_needed r1 = n" using ne assms(7) by (simp add: ends_needed_def) (simp add: r1_def)
    then have "script_ends (ends_needed r1) (data_ch r1)" using assms(5) by (simp add: r1_def)
    then have "piping r1"
      using e(1) ne all left assms(4,6) ws m by (simp add: piping_def pipe_kept_def) (simp add: r1_def ch_def)
    moreover have "write_from_pipe r sv = (1, r1, sv)"
      unfolding write_from_pipe_eq [OF assms(1)] using assms(2) w False by (simp add: r1_def)
    ultimately show ?thesis using e(1) left(1) by blast
  qed
qed

lemma read_end_progress:
  assumes "piping r" and "status r = PIPE_READ" and "header_end r = Buf b" and "b \<noteq> BUFFER_SIZE + 1"
    and "ch_reads (data_ch r) = replicate (Suc k) (Got [])" and "ends_needed r \<le> Suc k"
  shows "\<exists>r'. read_from_pipe r sv = (1, r', sv) \<and> pipe_progress r r'"
proof -
  have ok: "pipe_ok r" using assms(1) by (simp add: piping_def)
  define ch where "ch = (data_ch r)\<lparr>ch_reads := replicate k (Got [])\<rparr>"
  have rd: "sys_read (data_ch r) (BUFFER_SIZE + 1 - b) = (Inr [], ch)" by (simp add: sys_read_def assms(5) ch_def)
  note rec = received_kept_pipe [OF ok assms(3) rd]
  define r1 where "r1 = (received b ch [] r)\<lparr>status := PIPE_WRITE, cgi_status := CGI_DONE\<rparr>"
  have kept: "pipe_kept r r1" using pipe_ok_updates(2) [OF rec(1)] by (simp add: r1_def)
  have pend: "body_pending r1 = body_pending r" using rec(2) by (simp add: r1_def body_pending_def bytes_at_def split: ptr.splits)
  have input: "ch_input (data_ch r) = []" "ch_input ch = []" using assms(5) by (simp_all add: ch_input_def read_bytes_def ch_def)
  have left: "pipe_left r1 = pipe_left r" using pend input by (simp add: pipe_left_def) (simp add: r1_def received_def)
  have "ends_needed r1 \<le> k"
    using assms(2,6) pend input by (auto simp: ends_needed_def) (simp_all add: r1_def received_def)
  then have "script_ends (ends_needed r1) ch" unfolding script_ends_def by (intro exI [of _ "[]"] exI [of _ k]) (simp add: ch_def)
  moreover have f: "status r1 = PIPE_WRITE" "cgi_status r1 = CGI_DONE" "data_ch r1 = ch" "sock r1 = sock r" "header_end r1 = Buf b"
    by (simp_all add: r1_def received_def)
  ultimately have "piping r1"
    using assms(1,4) kept left input f by (simp add: piping_def pipe_kept_def)
  moreover have "pipe_measure r1 < pipe_measure r" using left assms(2) f by (simp add: pipe_measure_def)
  moreover have "read_from_pipe r sv = (1, r1, sv)"
    unfolding read_from_pipe_eq [OF ok assms(3)] rd using assms(4) by (simp add: r1_def)
  ultimately show ?thesis using kept unfolding pipe_progress_def by blast
qed

lemma read_data_progress:
  assumes "piping r" and "status r = PIPE_READ" and "header_end r = Buf b" and "b \<noteq> BUFFER_SIZE + 1"
    and "ch_reads (data_ch r) = Got s # map Got ss @ replicate k (Got [])" and "[] \<notin> set (s # ss)" and "ends_needed r \<le> k"
  shows "\<exists>r'. read_from_pipe r sv = (1, r', sv) \<and> pipe_progress r r'"
proof -
  have ok: "pipe_ok r" using assms(1) by (simp add: piping_def)
  have b: "b \<le> BUFFER_SIZE" using ok assms(3,4) by (auto simp: pipe_ok_def split: ptr.splits)
  let ?n = "BUFFER_SIZE + 1 - b"
  define q where "q = (if length s > ?n then drop ?n s # ss else ss)"
  define ch where "ch = (data_ch r)\<lparr>ch_reads := map Got q @ replicate k (Got [])\<rparr>"
  have rd: "sys_read (data_ch r) ?n = (Inr (take ?n s), ch)" by (simp add: sys_read_def assms(5) ch_def q_def)
  note rec = received_kept_pipe [OF ok assms(3) rd]
  define r1 where "r1 = received b ch (take ?n s) r"
  have ne: "take ?n s \<noteq> []" using assms(6) b by auto
  have pend: "body_pending r1 = body_pending r @ take ?n s" using rec(2) by (simp add: r1_def)
  have input: "ch_input (data_ch r) = take ?n s @ ch_input ch" using sys_read_input(1) [OF rd] by simp
  have f: "status r1 = PIPE_READ" "sock r1 = sock r" "data_ch r1 = ch" using assms(2) by (simp_all add: r1_def received_def)
  have left: "pipe_left r1 = pipe_left r" using pend input f(3) by (simp add: pipe_left_def)
  have "2 \<le> k" using assms(2,7) input ne by (auto simp: ends_needed_def split: if_splits)
  moreover have "[] \<notin> set q" using assms(6) by (auto simp: q_def)
  ultimately have se: "script_ends 2 (data_ch r1)" unfolding script_ends_def f(3) by (auto simp: ch_def)
  have ok1: "pipe_ok r1" using rec(1) by (simp add: pipe_kept_def r1_def)
  have "\<exists>r'. write_from_pipe r1 sv = (1, r', sv) \<and> pipe_kept r1 r' \<and> piping r' \<and> pipe_left r' < pipe_left r1"
    using assms(1) ne by (intro write_progress [OF ok1 _ _ _ se]) (simp_all add: pend f left piping_def)
  then obtain r' where w: "write_from_pipe r1 sv = (1, r', sv)" "pipe_kept r1 r'" "piping r'" "pipe_left r' < pipe_left r"
    using left by auto
  have "pipe_measure r' < pipe_measure r" using w(4) assms(2) by (simp add: pipe_measure_def)
  moreover have "pipe_kept r r'" using rec(1) w(2) pipe_kept_trans by (simp add: r1_def)
  moreover have "read_from_pipe r sv = (1, r', sv)"
    unfolding read_from_pipe_eq [OF ok assms(3)] rd using assms(4) ne w(1) by (simp add: r1_def)
  ultimately show ?thesis using w(3) unfolding pipe_progress_def by blast
qed

lemma pipe_full_progress:
  assumes "piping r" and "status r = PIPE_READ" and "header_end r = Buf (BUFFER_SIZE + 1)"
  shows "\<exists>r'. read_from_pipe r sv = (1, r', sv) \<and> pipe_progress r r'"
proof -
  have ok: "pipe_ok r" and ne: "body_pending r \<noteq> []" using assms by (simp_all add: piping_def)
  let ?r = "r\<lparr>status := PIPE_WRITE\<rparr>"
  have p: "body_pending ?r = body_pending r" by (simp add: body_pending_def bytes_at_def split: ptr.splits)
  have "ends_needed ?r \<le> ends_needed r" using ne p assms(2) by (simp add: ends_needed_def)
  then have "script_ends (ends_needed ?r) (data_ch r)" using assms(1) script_ends_mono by (auto simp: piping_def)
  moreover have "pipe_ok ?r" using pipe_ok_updates(1) [OF ok] by (simp add: pipe_kept_def)
  ultimately have "piping ?r" using assms(1) ne p by (simp add: piping_def pipe_left_def)
  moreover have "pipe_measure ?r < pipe_measure r" using p assms(2) by (simp add: pipe_measure_def pipe_left_def)
  moreover have "read_from_pipe r sv = (1, ?r, sv)" unfolding read_from_pipe_eq [OF ok assms(3)] by simp
  ultimately show ?thesis using pipe_ok_updates(1) [OF ok] unfolding pipe_progress_def by blast
qed

lemma piping_step:
  assumes "piping r"
  shows "(\<exists>r'. pipe_step r sv = (1, r', sv) \<and> pipe_progress r r') \<or>
    (pipe_step r sv = (0, r, sv) \<and> body_pending r = [] \<and> ch_input (data_ch r) = [])"
proof (cases "status r = PIPE_READ")
  case True
  obtain b where b: "header_end r = Buf b" using assms by (auto simp: piping_def pipe_ok_def split: ptr.splits)
  obtain ss k where s: "ch_reads (data_ch r) = map Got ss @ replicate k (Got [])" "[] \<notin> set ss" "ends_needed r \<le> k"
    using assms by (auto simp: piping_def script_ends_def)
  have pos: "ends_needed r > 0" using True by (simp add: ends_needed_def)
  have "\<exists>r'. read_from_pipe r sv = (1, r', sv) \<and> pipe_progress r r'"
  proof (cases "b = BUFFER_SIZE + 1")
    case full: True
    then show ?thesis using pipe_full_progress [OF assms True] b by simp
  next
    case False
    show ?thesis
    proof (cases ss)
      case Nil
      then show ?thesis using read_end_progress [OF assms True b False, of "k - 1"] s pos by simp
    next
      case (Cons x xs)
      then show ?thesis using read_data_progress [OF assms True b False, of x xs k] s by simp
    qed
  qed
  then show ?thesis using True by (simp add: pipe_step_def)
next
  case False
  then have st: "status r = PIPE_WRITE" using assms by (auto simp: piping_def)
  have ok: "pipe_ok r" using assms by (simp add: piping_def)
  show ?thesis
  proof (cases "body_pending r = []")
    case True
    then show ?thesis using assms st write_from_pipe_eq [OF ok, of sv] by (simp add: pipe_step_def piping_def)
  next
    case ne: False
    have "\<exists>r'. write_from_pipe r sv = (1, r', sv) \<and> pipe_kept r r' \<and> piping r' \<and> pipe_left r' < pipe_left r"
      using assms ne st by (intro write_progress [OF ok ne, of "ends_needed r"]) (simp_all add: piping_def ends_needed_def)
    then show ?thesis using st by (auto simp: pipe_step_def pipe_progress_def pipe_measure_def)
  qed
qed

lemma pipe_loop_delivers:
  assumes "piping r" and "pipe_measure r < n"
  shows "\<exists>r'. pipe_loop n r sv = (0, r', sv) \<and> ch_sent (sock r') = pipe_data r"
  using assms
proof (induction n arbitrary: r)
  case (Suc n)
  from piping_step [OF Suc.prems(1), of sv] show ?case
  proof
    assume "\<exists>r'. pipe_step r sv = (1, r', sv) \<and> pipe_progress r r'"
    then obtain r1 where st: "pipe_step r sv = (1, r1, sv)" and p: "pipe_progress r r1" by blast
    then obtain r' where "pipe_loop n r1 sv = (0, r', sv)" "ch_sent (sock r') = pipe_data r1"
      using Suc.IH [of r1] Suc.prems(2) by (auto simp: pipe_progress_def)
    then show ?thesis using st p by (auto simp: pipe_progress_def pipe_kept_def)
  next
    assume "pipe_step r sv = (0, r, sv) \<and> body_pending r = [] \<and> ch_input (data_ch r) = []"
    then show ?thesis by (simp add: pipe_data_def)
  qed
qed simp

section \<open>Copying a file\<close>

lemma write_restarted_result:
  "write_restarted ch bs = (Inr m, ch') \<Longrightarrow> m \<le> length bs \<and> ch_sent ch' = ch_sent ch @ take m bs"
  "write_restarted ch bs = (Inl e, ch') \<Longrightarrow> ch_sent ch' = ch_sent ch"
  unfolding write_restarted_def by (auto dest: sys_write_result)

lemma sys_pread_result:
  assumes "sys_pread ch file off n = (res, ch')" and "Got [] \<notin> set (ch_reads ch)"
  shows "Got [] \<notin> set (ch_reads ch')" "res = Inr bs \<Longrightarrow> \<exists>k \<le> n. bs = take k (drop off file) \<and> (n > 0 \<longrightarrow> k > 0)"
proof -
  let ?q = "dropWhile (\<lambda>x. x = Read_error EINTR) (ch_reads ch)"
  have q: "Got [] \<notin> set ?q" using assms(2) set_dropWhileD by metis
  show "Got [] \<notin> set (ch_reads ch')"
    using assms(1) q by (auto simp: sys_pread_def split: list.splits read_result.splits)
  assume "res = Inr bs"
  then show "\<exists>k \<le> n. bs = take k (drop off file) \<and> (n > 0 \<longrightarrow> k > 0)"
    using assms(1) q unfolding sys_pread_def
    by (fastforce split: list.splits read_result.splits intro: exI [of _ "min n m" for m])
qed

text \<open>What a step leaves alone of a request for a file.\<close>

definition file_request :: "request \<Rightarrow> string \<times> nat \<times> http_method \<times> nat \<times> nat \<times> chan" where
  "file_request r = (data_file r, data_fd r, req_method r, response_status r, numranges r, data_ch r)"

definition shuffled :: "request \<Rightarrow> request \<Rightarrow> bool" where
  "shuffled r r' \<longleftrightarrow> buf_ok r' \<and> req_output r' = req_output r \<and> file_request r' = file_request r \<and> ranges r' = ranges r"

lemma shuffle_write_kept:
  assumes "buf_ok r" and "data_fd r \<noteq> 0" and "shuffle_write r sv = (v, r', sv')"
  shows "v \<in> {-1, 0, 1} \<and> sv' = sv \<and> (v \<noteq> 0 \<longrightarrow> shuffled r r') \<and> (v = 0 \<longrightarrow> status r' = DEAD)"
proof -
  let ?n = "buffer_end r - buffer_start r"
  have p: "take ?n (drop (buffer_start r) (buffer r)) = pending r" "length (pending r) = ?n"
    using assms(1) length_pending by (simp_all add: pending_def)
  obtain res ch where w: "write_restarted (sock r) (pending r) = (res, ch)" by fastforce
  have empty: "shuffled r (r\<lparr>buffer_end := 0, buffer_start := 0\<rparr>)" if "?n = 0"
    using that assms(1) by (auto simp: shuffled_def buf_ok_def req_output_def pending_def file_request_def)
  have err: "shuffled r (r\<lparr>sock := ch\<rparr>)" if "res = Inl e" for e
    using assms(1) write_restarted_result(2) [OF w [unfolded that]]
    by (auto simp: shuffled_def buf_ok_def req_output_def pending_def file_request_def)
  have sent: "shuffled r (if m = ?n then r1\<lparr>buffer_end := 0, buffer_start := 0\<rparr> else r1)"
    if "res = Inr m" "r1 = r\<lparr>sock := ch, buffer_start := buffer_start r + m, bytes_written := bytes_written r + of_nat m\<rparr>" for m r1
  proof -
    have m: "m \<le> ?n" "ch_sent ch = ch_sent (sock r) @ take m (pending r)"
      using write_restarted_result(1) [OF w [unfolded that(1)]] p by simp_all
    have ok: "buf_ok r1" "buf_ok (r1\<lparr>buffer_end := 0, buffer_start := 0\<rparr>)" using assms(1) m(1) by (auto simp: that(2) buf_ok_def)
    have "pending r1 = drop m (pending r)"
      using m(1) assms(1) by (simp add: pending_drop [OF ok(1)] pending_drop [OF assms(1)]) (simp add: that(2) add.commute)
    then have "req_output r1 = req_output r" using m(2) by (simp add: req_output_def) (simp add: that(2))
    moreover have "req_output (r1\<lparr>buffer_end := 0, buffer_start := 0\<rparr>) = req_output r" if "m = ?n"
      using m(2) that p(2) by (simp add: req_output_def pending_def) (simp add: \<open>r1 = _\<close>)
    ultimately show ?thesis using ok by (auto simp: shuffled_def file_request_def that(2))
  qed
  show ?thesis
  proof (cases "?n \<noteq> 0 \<and> (\<exists>m. res = Inr m)")
    case True
    then obtain m where m: "res = Inr m" and n: "?n \<noteq> 0" by auto
    have "v = 1 \<and> sv' = sv \<and> shuffled r r'"
      using assms(3) sent [OF m refl] unfolding shuffle_write_def Let_def p(1) w prod.case if_not_P [OF n] m by auto
    then show ?thesis by simp
  next
    case False
    then show ?thesis
      using assms(2,3) empty err unfolding shuffle_write_def Let_def p(1) w prod.case
      by (cases res) (auto split: if_splits)
  qed
qed

text \<open>
  A request for one range of a file that is not mapped (a read before the end of the file
  gives at least a byte), and what the client gets: the bytes sent, those in the
  buffer, and the rest of the range.
\<close>

definition shuffle_ok :: "request \<Rightarrow> bool" where
  "shuffle_ok r \<longleftrightarrow>
     req_method r \<noteq> M_HEAD \<and> buf_ok r \<and> data_fd r \<noteq> 0 \<and> Got [] \<notin> set (ch_reads (data_ch r)) \<and>
     (\<exists>x. ranges r = [x] \<and> range_of_file (data_file r) x) \<and>
     (response_status r \<noteq> R_PARTIAL_CONTENT \<or> numranges r \<le> 1)"

definition shuffle_data :: "request \<Rightarrow> string" where
  "shuffle_data r = req_output r @ (case ranges r of [] \<Rightarrow> [] | x # _ \<Rightarrow> range_bytes (data_file r) x)"

lemma shuffled_ok: "shuffled r r' \<Longrightarrow> shuffle_ok r \<Longrightarrow> shuffle_ok r' \<and> shuffle_data r' = shuffle_data r"
  by (auto simp: shuffled_def shuffle_ok_def shuffle_data_def file_request_def)

lemma want_eq:
  assumes "range_of_file mem x"
  shows "sint (ucast (r_stop x - r_start x + 1) :: 32 word) = int (length (range_bytes mem x))"
proof -
  note b = range_of_file_bounds [OF assms]
  have "length (range_bytes mem x) < 2 ^ 31" using b(3) assms by (simp add: range_of_file_def) linarith
  moreover have "word_of_int (int (length (range_bytes mem x))) = (ucast (r_stop x - r_start x + 1) :: 32 word)"
    unfolding b(4) [symmetric] by simp
  ultimately show ?thesis using sint_word_of_small [of "int (length (range_bytes mem x))"] by simp
qed

text \<open>Reading \<open>bs\<close> of the range into the buffer.\<close>

lemma loaded_kept:
  assumes "shuffle_ok r" and "ranges r = [x]" and "bs = take k (range_bytes (data_file r) x)"
    and "k \<le> length (range_bytes (data_file r) x)" and "buffer_end r + k \<le> BUFFER_SIZE"
  defines "r' \<equiv> r\<lparr>buffer := blit (buffer r) (buffer_end r) bs, buffer_end := buffer_end r + length bs, ranges := [advance k x]\<rparr>"
  shows "shuffle_data r' = shuffle_data r" "buf_ok r'" "k < length (range_bytes (data_file r) x) \<Longrightarrow> shuffle_ok r'"
proof -
  have x: "range_of_file (data_file r) x" and ok: "buf_ok r" using assms(1,2) by (auto simp: shuffle_ok_def)
  have len: "length bs = k" using assms(3,4) by simp
  have fit: "buffer_end r + length bs \<le> BUFFER_SIZE" using assms(5) len by simp
  define r1 where "r1 = r\<lparr>buffer := blit (buffer r) (buffer_end r) bs, buffer_end := buffer_end r + length bs, status := status r\<rparr>"
  have "buf_ok r1 \<and> pending r1 = pending r @ bs" using append_bytes [OF ok fit r1_def] .
  then have b: "buf_ok r'" and p: "pending r' = pending r @ bs"
    by (auto simp: r1_def r'_def buf_ok_def pending_def)
  then show "buf_ok r'" by simp
  note adv = advance_facts [OF x assms(4)]
  show "shuffle_data r' = shuffle_data r"
    using p adv(3) assms(2,3) by (simp add: shuffle_data_def req_output_def) (simp add: r'_def)
  show "shuffle_ok r'" if "k < length (range_bytes (data_file r) x)"
    using assms(1) b adv(5) [OF that] by (simp add: shuffle_ok_def) (simp add: r'_def)
qed

lemma io_shuffle_eq:
  assumes "shuffle_ok r" and "ranges r = [x]"
  shows "io_shuffle r sv =
    (let k = min (BUFFER_SIZE - buffer_end r - 256) (length (range_bytes (data_file r) x)) in
     if k = 0 then shuffle_write r sv
     else case try_sys sv of (ok, sv) \<Rightarrow>
       if \<not> ok then (0, r\<lparr>status := DEAD\<rparr>, sv)
       else case sys_pread (data_ch r) (data_file r) (unat (r_start x)) k of (res, ch) \<Rightarrow>
         let r = r\<lparr>data_ch := ch\<rparr> in
         case res of
           Inl e \<Rightarrow>
             if e = EWOULDBLOCK \<or> e = EAGAIN then
               (if buffer_end r - buffer_start r = 0 then (-1, r, sv) else shuffle_write r sv)
             else (0, r\<lparr>status := DEAD\<rparr>, sv)
         | Inr bs \<Rightarrow>
             if bs = [] then shuffle_write (r\<lparr>data_fd := 0\<rparr>) (fd_close (data_fd r) sv)
             else
               (let r' = r\<lparr>buffer := blit (buffer r) (buffer_end r) bs, buffer_end := buffer_end r + length bs,
                           ranges := [advance (length bs) x]\<rparr>
                in if r_stop x + 1 - r_start (advance (length bs) x) = 0 then complete_response r' sv else shuffle_write r' sv))"
proof -
  have f: "req_method r \<noteq> M_HEAD" "data_fd r \<noteq> 0" "range_of_file (data_file r) x" using assms by (auto simp: shuffle_ok_def)
  define m where "m = min (BUFFER_SIZE - buffer_end r - 256) (length (range_bytes (data_file r) x))"
  define k where "k = (if int BUFFER_SIZE - int (buffer_end r) - 256 > int (length (range_bytes (data_file r) x))
    then int (length (range_bytes (data_file r) x)) else int BUFFER_SIZE - int (buffer_end r) - 256)"
  have k: "nat k = m" "k > 0 \<longleftrightarrow> m \<noteq> 0" by (auto simp: k_def m_def min_def)
  obtain ok sv1 where t: "try_sys sv = (ok, sv1)" by fastforce
  obtain res ch where rd: "sys_pread (data_ch r) (data_file r) (unat (r_start x)) m = (res, ch)" by fastforce
  show ?thesis
    unfolding io_shuffle_def Let_def assms(2) list.sel want_eq [OF f(3)] k_def [symmetric] m_def [symmetric] k t rd prod.case
    using f(1,2) assms(2) by (cases res) (simp_all add: advance_def)
qed

text \<open>The outcome of a step, as for \<open>process_get\<close>.\<close>

definition shuffle_outcome :: "request \<Rightarrow> int \<Rightarrow> request \<Rightarrow> bool" where
  "shuffle_outcome r v r' \<longleftrightarrow> v \<in> {-1, 0, 1} \<and>
     (v \<noteq> 0 \<longrightarrow> shuffle_ok r' \<and> shuffle_data r' = shuffle_data r) \<and>
     (v = 0 \<longrightarrow> status r' = DEAD \<or> status r' = DONE \<and> buf_ok r' \<and> req_output r' = shuffle_data r)"

lemma shuffle_write_outcome:
  assumes "shuffle_ok r" and "shuffle_data r = shuffle_data r0" and "shuffle_write r sv = (v, r', sv')"
  shows "shuffle_outcome r0 v r'"
  using shuffle_write_kept [OF _ _ assms(3)] shuffled_ok [of r r'] assms(1,2)
  by (auto simp: shuffle_outcome_def) (auto simp: shuffle_ok_def)

lemma pread_chunk:
  assumes "shuffle_ok r" and "ranges r = [x]" and "k \<noteq> 0" and "k \<le> length (range_bytes (data_file r) x)"
    and "sys_pread (data_ch r) (data_file r) (unat (r_start x)) k = (Inr bs, ch)"
  shows "bs \<noteq> [] \<and> length bs \<le> k \<and> bs = take (length bs) (range_bytes (data_file r) x)"
proof -
  have x: "range_of_file (data_file r) x" and g: "Got [] \<notin> set (ch_reads (data_ch r))" using assms(1,2) by (auto simp: shuffle_ok_def)
  obtain j where j: "j \<le> k" "bs = take j (drop (unat (r_start x)) (data_file r))" "j > 0"
    using sys_pread_result(2) [OF assms(5) g refl] assms(3) by auto
  then have "bs = take j (range_bytes (data_file r) x)" using range_chunk [OF x, of j] assms(4) by simp
  then show ?thesis using j assms(3,4) by auto
qed

lemma io_shuffle_outcome:
  assumes "shuffle_ok r" and "io_shuffle r sv = (v, r', sv')"
  shows "shuffle_outcome r v r'"
proof -
  obtain x where x: "ranges r = [x]" and rx: "range_of_file (data_file r) x" and g: "Got [] \<notin> set (ch_reads (data_ch r))"
    using assms(1) by (auto simp: shuffle_ok_def)
  define k where "k = min (BUFFER_SIZE - buffer_end r - 256) (length (range_bytes (data_file r) x))"
  obtain ok sv1 where t: "try_sys sv = (ok, sv1)" by fastforce
  obtain res ch where rd: "sys_pread (data_ch r) (data_file r) (unat (r_start x)) k = (res, ch)" by fastforce
  note eq = assms(2) [unfolded io_shuffle_eq [OF assms(1) x] Let_def k_def [symmetric] t rd prod.case]
  let ?r = "r\<lparr>data_ch := ch\<rparr>"
  have ok1: "shuffle_ok ?r" "shuffle_data ?r = shuffle_data r"
    using assms(1) sys_pread_result(1) [OF rd g]
    by (auto simp: shuffle_ok_def shuffle_data_def buf_ok_def req_output_def pending_def)
  show ?thesis
  proof (cases "k = 0 \<or> \<not> ok \<or> (\<exists>e. res = Inl e)")
    case True
    then show ?thesis
      using eq shuffle_write_outcome [OF assms(1) refl] shuffle_write_outcome [OF ok1] ok1
      by (auto simp: shuffle_outcome_def split: if_splits)
  next
    case False
    then obtain bs where bs: "res = Inr bs" and k: "k \<noteq> 0" and ok by (cases res) auto
    have ch: "bs \<noteq> []" "length bs \<le> k" "bs = take (length bs) (range_bytes (data_file r) x)"
      using pread_chunk [OF assms(1) x k _ rd [unfolded bs]] by (auto simp: k_def)
    define r1 where "r1 = ?r\<lparr>buffer := blit (buffer ?r) (buffer_end ?r) bs, buffer_end := buffer_end ?r + length bs,
                           ranges := [advance (length bs) x]\<rparr>"
    have len: "length bs \<le> length (range_bytes (data_file ?r) x)" "buffer_end ?r + length bs \<le> BUFFER_SIZE"
      using ch(2) k by (auto simp: k_def)
    note l = loaded_kept [OF ok1(1) _ _ len, of bs, folded r1_def]
    have fin: "r_stop x + 1 - r_start (advance (length bs) x) = 0 \<longleftrightarrow> length bs = length (range_bytes (data_file r) x)"
      using advance_facts(4) [OF rx] len(1) by simp
    have e: "(if length bs = length (range_bytes (data_file r) x) then complete_response r1 sv1 else shuffle_write r1 sv1) = (v, r', sv')"
      using eq \<open>ok\<close> k ch(1) bs fin unfolding r1_def by simp
    show ?thesis
    proof (cases "length bs = length (range_bytes (data_file r) x)")
      case True
      have "range_bytes (data_file r) (advance (length bs) x) = []" using advance_facts(3) [OF rx, of "length bs"] True by simp
      then have "req_output r1 = shuffle_data r1" by (simp add: shuffle_data_def) (simp add: r1_def)
      moreover have "response_status r1 \<noteq> R_PARTIAL_CONTENT \<or> numranges r1 \<le> 1" using assms(1) by (simp add: r1_def shuffle_ok_def)
      moreover have "ranges r1 = [advance (length bs) x]" by (simp add: r1_def)
      ultimately show ?thesis
        using e True l(1,2) x ch(3) ok1(2)
        by (auto simp: complete_response_def shuffle_outcome_def buf_ok_def req_output_def pending_def)
    next
      case False
      then show ?thesis using e len(1) l(1,3) x ch(3) ok1(2) shuffle_write_outcome [of r1 r sv1] by simp
    qed
  qed
qed

text \<open>
  The number of bytes left is kept in an \<open>int\<close>. When bit 31 of it is set (a range of 2 to 4 GiB) nothing
  is read, and with an empty buffer the call asks to be called again without having done anything.
\<close>

lemma shuffle_stuck:
  assumes "req_method r \<noteq> M_HEAD" and "data_fd r \<noteq> 0" and "buffer_start r = 0" and "buffer_end r = 0"
    and "ranges r = x # xs" and "bit (r_stop x - r_start x + 1) 31"
  shows "io_shuffle r sv = (1, r, sv)"
proof -
  have "sint (ucast (r_stop x - r_start x + 1) :: 32 word) < 0"
    using assms(6) bit_last_iff [of "ucast (r_stop x - r_start x + 1) :: 32 word"] by (simp add: bit_ucast_iff)
  moreover have "r\<lparr>buffer_end := 0, buffer_start := 0\<rparr> = r" using assms(3,4) by simp
  ultimately show ?thesis using assms(1-5) by (simp add: io_shuffle_def Let_def shuffle_write_def BUFFER_SIZE_def)
qed

section \<open>Properties\<close>

definition example_pipe :: request where
  "example_pipe = example_request\<lparr>status := PIPE_READ, cgi_status := CGI_BUFFER, header_line := Buf 0, header_end := Buf 0,
     data_ch := null_chan\<lparr>ch_reads := [Got ''he'', Got ''llo'', Got [], Got []]\<rparr>,
     sock := null_chan\<lparr>ch_writes := replicate 5 (Wrote 2)\<rparr>\<rparr>"

definition example_file :: request where
  "example_file = example_request\<lparr>data_file := ''hello'', data_fd := 5, ranges := [example_range], status := IOSHUFFLE,
     sock := null_chan\<lparr>ch_writes := [Wrote 2]\<rparr>, data_ch := null_chan\<lparr>ch_reads := [Got ''xx'']\<rparr>\<rparr>"

text \<open>C26: One step of copying the output of a program after its header, whatever the program and the socket do:
  the result is one of the three values the scheduler knows; unless it is finished, the bytes sent,
  those in the buffer and those still to come from the program are the same, in the same
  order, and the pointers stay inside the buffer. A step that finishes has failed and marked the
  request dead, or nothing was left.
\<close>

theorem pipe_step_safe:
  assumes "pipe_ok r" and "pipe_step r sv = (v, r', sv')"
  shows "v \<in> {-1, 0, 1} \<and>
     (v \<noteq> 0 \<longrightarrow> pipe_ok r' \<and>
        ch_sent (sock r') @ body_pending r' @ ch_input (data_ch r') = ch_sent (sock r) @ body_pending r @ ch_input (data_ch r)) \<and>
     (v = 0 \<longrightarrow> status r' = DEAD \<or> r' = r \<and> body_pending r = [] \<and> cgi_status r = CGI_DONE)"
  using assms read_step_kept [OF assms(1)] write_step_kept [OF assms(1)]
  unfolding pipe_step_def pipe_kept_def pipe_data_def by (auto split: if_splits)

theorem pipe_step_safe_witness:
  "case pipe_step example_pipe example_server of (v, r', sv') \<Rightarrow>
     v \<in> {-1, 0, 1} \<and> (v \<noteq> 0 \<longrightarrow> pipe_ok r' \<and> ch_sent (sock r') @ body_pending r' @ ch_input (data_ch r') = ''hello'')"
proof -
  have "pipe_ok example_pipe" by (simp add: pipe_ok_def example_pipe_def example_request_def BUFFER_SIZE_def)
  moreover have "ch_sent (sock example_pipe) @ body_pending example_pipe @ ch_input (data_ch example_pipe) = ''hello''"
    by (simp add: example_pipe_def null_chan_def body_pending_def ch_input_def read_bytes_def)
  ultimately show ?thesis using pipe_step_safe [of example_pipe example_server] by (auto split: prod.split)
qed

text \<open>C7: The output of a program arrives: when the program writes its output in whatever pieces and closes it, and
  the client accepts at least one byte of each write, then the repeated calls of the scheduler end with the
  value 0, after at most two calls for each byte and one for the end, and the client has
  got exactly the output, in order, after what had been sent before.
\<close>

theorem cgi_output_delivered:
  assumes "status r = PIPE_READ" and "cgi_status r \<noteq> CGI_PARSE" and "header_line r = Buf 0" and "header_end r = Buf 0"
    and "length (buffer r) \<le> BUFFER_SIZE + 1"
    and "ch_reads (data_ch r) = map Got ss @ [Got [], Got []]" and "[] \<notin> set ss"
    and "list_all accepts (ch_writes (sock r))" and "length (concat ss) \<le> length (ch_writes (sock r))"
  shows "\<exists>r'. pipe_loop (2 * length (concat ss) + 2) r sv = (0, r', sv) \<and> ch_sent (sock r') = ch_sent (sock r) @ concat ss"
proof -
  have "map read_bytes (map Got ss) = ss" by (simp add: comp_def read_bytes_def)
  then have input: "ch_input (data_ch r) = concat ss" using assms(6) by (simp add: ch_input_def read_bytes_def)
  have p: "body_pending r = []" using assms(3,4) by (simp add: body_pending_def)
  have "script_ends (ends_needed r) (data_ch r)"
    unfolding script_ends_def using assms(6,7) by (intro exI [of _ ss] exI [of _ 2]) (simp add: ends_needed_def p numeral_2_eq_2)
  then have "piping r"
    using assms input p by (simp add: piping_def pipe_ok_def pipe_left_def)
  moreover have "pipe_measure r < 2 * length (concat ss) + 2" using input p by (simp add: pipe_measure_def pipe_left_def)
  ultimately have "\<exists>r'. pipe_loop (2 * length (concat ss) + 2) r sv = (0, r', sv) \<and> ch_sent (sock r') = pipe_data r"
    by (rule pipe_loop_delivers)
  then show ?thesis unfolding pipe_data_def input p by simp
qed

theorem cgi_output_delivered_witness:
  "\<exists>r'. pipe_loop 12 example_pipe example_server = (0, r', example_server) \<and> ch_sent (sock r') = ''hello''"
proof -
  note defs = example_pipe_def example_request_def null_chan_def
  have f: "status example_pipe = PIPE_READ" "cgi_status example_pipe \<noteq> CGI_PARSE" "header_line example_pipe = Buf 0"
    "header_end example_pipe = Buf 0" "length (buffer example_pipe) \<le> BUFFER_SIZE + 1"
    "ch_reads (data_ch example_pipe) = map Got [''he'', ''llo''] @ [Got [], Got []]" "[] \<notin> set [''he'', ''llo'']"
    "list_all accepts (ch_writes (sock example_pipe))"
    "length (concat [''he'', ''llo'']) \<le> length (ch_writes (sock example_pipe))"
    by (simp_all add: defs accepts_def numeral_eq_Suc)
  have "ch_sent (sock example_pipe) = []" by (simp add: defs)
  then show ?thesis using cgi_output_delivered [OF f, of example_server] by simp
qed

text \<open>C27: One call of \<open>io_shuffle\<close> for a single range of a file that is not mapped, whatever the file and the socket
  do: the output buffer stays inside its array; when the call wants to be called again, what was sent,
  what is in the buffer and what is left still make up the range in the order of the file; when it is
  finished, all of the range was sent or is in the buffer, or the request is dead.
\<close>

theorem io_shuffle_in_order:
  assumes "shuffle_ok r" and "io_shuffle r sv = (v, r', sv')"
  shows "v \<in> {-1, 0, 1} \<and>
     (v \<noteq> 0 \<longrightarrow> shuffle_ok r' \<and> shuffle_data r' = shuffle_data r) \<and>
     (v = 0 \<longrightarrow> status r' = DEAD \<or> status r' = DONE \<and> buf_ok r' \<and> req_output r' = shuffle_data r)"
  using io_shuffle_outcome [OF assms] by (simp add: shuffle_outcome_def)

theorem io_shuffle_in_order_witness:
  "case io_shuffle example_file example_server of (v, r', sv') \<Rightarrow>
     v \<in> {-1, 0, 1} \<and> (v \<noteq> 0 \<longrightarrow> shuffle_ok r' \<and> shuffle_data r' = ''ell'') \<and>
     (v = 0 \<longrightarrow> status r' = DEAD \<or> status r' = DONE \<and> buf_ok r' \<and> req_output r' = ''ell'')"
proof -
  note defs = example_file_def example_request_def null_chan_def
  have "shuffle_ok example_file"
    using example_serving_ok(4) by (simp add: shuffle_ok_def defs buf_ok_def R_PARTIAL_CONTENT_def)
  moreover have "shuffle_data example_file = ''ell''"
    using example_serving_ok(6) by (simp add: shuffle_data_def defs req_output_def pending_def)
  ultimately show ?thesis using io_shuffle_in_order [of example_file example_server] by (auto split: prod.split)
qed

text \<open>C28: A program that starts its header with \<open>Status\<close>: the line becomes the status line of the response in place,
  so that the client gets \<open>HTTP/1.0\<close>, the status the program gave and the rest of its output
  unchanged. The byte before the header is overwritten, nothing else of the buffer.
\<close>

theorem cgi_status_line:
  assumes "header_line r = Buf (Suc a)" and "header_end r = Buf b" and "a + 9 \<le> b" and "b \<le> length (buffer r)"
    and "\<not> cgi_strip_prefix sv \<or> cgi_type r = NPH" and "http_version r \<noteq> HTTP09"
    and "has_caseprefix (cstr (drop (Suc a) (buffer r))) ''Status: ''" and "header_complete r"
  shows "\<exists>r'. process_cgi_header r sv = (1, r', sv) \<and> body_pending r' = ''HTTP/1.0 '' @ drop 8 (body_pending r) \<and>
     take a (buffer r') = take a (buffer r) \<and> drop b (buffer r') = drop b (buffer r)"
proof -
  obtain c where c: "cgi_header_end (cstr (drop (Suc a) (buffer r))) = Some c"
    using assms(1,8) by (auto simp: header_complete_def bytes_at_def)
  define r' where "r' = (if cgi_status r \<noteq> CGI_DONE then r\<lparr>cgi_status := CGI_BUFFER\<rparr> else r)
    \<lparr>header_line := Buf a, buffer := blit (buffer r) a ''HTTP/1.0 ''\<rparr>"
  have p: "process_cgi_header r sv = (1, r', sv)"
    using assms(1,5,6,7) c by (auto simp: process_cgi_header_def Let_def r'_def)
  have buf: "buffer r' = take a (buffer r) @ ''HTTP/1.0 '' @ drop (a + 9) (buffer r)"
    using assms(3,4) by (simp add: r'_def blit_def numeral_eq_Suc)
  have e: "header_line r' = Buf a" "header_end r' = Buf b" using assms(2) by (simp_all add: r'_def)
  have la: "length (take a (buffer r)) = a" using assms(3,4) by simp
  have "body_pending r' = take (b - a) (''HTTP/1.0 '' @ drop (a + 9) (buffer r))"
    using assms(3) la by (simp add: body_pending_def e bytes_at_def buf nat_diff_distrib')
  moreover have "body_pending r = take (b - Suc a) (drop (Suc a) (buffer r))"
    using assms(1,2,3) by (simp add: body_pending_def bytes_at_def flip: of_nat_diff of_nat_Suc)
  ultimately have "body_pending r' = ''HTTP/1.0 '' @ drop 8 (body_pending r)"
    using assms(3) by (simp add: take_Cons' drop_take add.commute eval_nat_numeral)
  moreover have "take a (buffer r') = take a (buffer r)" using la by (simp add: buf)
  moreover have "drop b (buffer r') = drop b (buffer r)" using assms(3,4) la by (simp add: buf drop_append drop_Cons')
  ultimately show ?thesis using p by blast
qed

definition example_status :: request where
  "example_status = example_request\<lparr>cgi_status := CGI_PARSE, cgi_type := CGI, header_line := Buf 1, header_end := Buf 14,
     buffer := ''xStatus: 404'' @ [LF, LF]\<rparr>"

theorem cgi_status_line_witness:
  "\<exists>r'. process_cgi_header example_status example_server = (1, r', example_server) \<and> body_pending r' = ''HTTP/1.0 404'' @ [LF, LF]"
proof -
  note defs = example_status_def example_request_def example_server_def
  have f: "header_line example_status = Buf (Suc 0)" "header_end example_status = Buf 14" "(0::nat) + 9 \<le> 14"
    "14 \<le> length (buffer example_status)" "\<not> cgi_strip_prefix example_server \<or> cgi_type example_status = NPH"
    "http_version example_status \<noteq> HTTP09"
    by (simp_all add: defs)
  have buf: "drop (Suc 0) (buffer example_status) = ''Status: 404'' @ [LF, LF]" by (simp add: defs)
  have cs: "cstr (''Status: 404'' @ [LF, LF]) = ''Status: 404'' @ [LF, LF]" by code_simp
  have h: "has_caseprefix (cstr (drop (Suc 0) (buffer example_status))) ''Status: ''" unfolding buf cs by code_simp
  have "cgi_header_end (''Status: 404'' @ [LF, LF]) \<noteq> None" by code_simp
  then have "header_complete example_status" unfolding header_complete_def bytes_at_def f ptr.case buf cs .
  moreover have "body_pending example_status = ''Status: 404'' @ [LF, LF]"
    by (simp add: body_pending_def bytes_at_def f(1,2) buf numeral_eq_Suc)
  ultimately show ?thesis using cgi_status_line [OF f h] by auto
qed

end
