(* ===== verification/Log.thy ===== *)
theory Log
  imports Uri Buffer
begin

text \<open>
  What the server writes to its logs (\<open>log.c\<close> and \<open>get_commonlog_time\<close> of \<open>util.c\<close>). The outputs of
  \<open>printf\<close> are strings here. \<open>sanitize_log_string\<close> returns a static buffer, and the arguments of one
  \<open>printf\<close> that call it are all pointers to that buffer: what is printed for each of them is the
  text the last of the calls left there. The time of day is the argument \<open>now\<close>. C does not say which call is the last; it is the
  parameter \<open>last_arg\<close>, counted from the left.
\<close>

section \<open>Definitions\<close>

text \<open>The conversions \<open>%d\<close>, \<open>%4d\<close> and \<open>%02d\<close>.\<close>

definition int_text :: "int \<Rightarrow> string" where
  "int_text i = (if i < 0 then CHR ''-'' # decimal (nat (- i)) else decimal (nat i))"

definition pad :: "char \<Rightarrow> nat \<Rightarrow> string \<Rightarrow> string" where
  "pad c n s = replicate (n - length s) c @ s"

definition int_02 :: "int \<Rightarrow> string" where
  "int_02 i = (if i < 0 then CHR ''-'' # decimal (nat (- i)) else pad CHR ''0'' 2 (decimal (nat i)))"

text \<open>
  The part of the configuration the logs depend on, and what the environment decides: the conversion to local
  time, whether time stamps are coloured (a build option, and the error log is a terminal).
\<close>

record log_config =
  access_log_name :: "string option"
  use_localtime :: bool
  localtime :: "int \<Rightarrow> tm"
  log_color :: bool
  last_arg :: nat

definition wday_tab :: "string list" where
  "wday_tab = [''Sun'', ''Mon'', ''Tue'', ''Wed'', ''Thu'', ''Fri'', ''Sat'']"

definition sgr :: "string \<Rightarrow> string" where
  "sgr s = CHR 0x1B # CHR ''['' # s @ ''m''"

definition get_commonlog_time :: "log_config \<Rightarrow> int \<Rightarrow> string" where
  "get_commonlog_time cfg cur =
     (let lc = (if use_localtime cfg then localtime cfg cur else gmtime cur);
          date = pad CHR '' '' 4 (int_text (tm_year lc + 1900)) @ ''-'' @ int_02 (tm_mon lc + 1) @ ''-'' @ int_02 (tm_mday lc);
          day_time = int_02 (tm_hour lc) @ '':'' @ int_02 (tm_min lc) @ '':'' @ int_02 (tm_sec lc);
          wday = wday_tab ! nat (tm_wday lc)
      in if log_color cfg
         then ''['' @ sgr ''36'' @ date @ '' '' @ sgr ''32'' @ day_time @ '' '' @ sgr ''34'' @ wday @ sgr ''0'' @ ''] ''
         else ''['' @ date @ '' '' @ day_time @ '' '' @ wday @ ''] '')"

text \<open>What the arguments of one call of \<open>printf\<close> print.\<close>

definition sanitized_args :: "nat \<Rightarrow> string list \<Rightarrow> string list" where
  "sanitized_args k args = replicate (length args) (sanitize_log_string (Some (args ! k)))"

definition or_text :: "string option \<Rightarrow> string \<Rightarrow> string" where
  "or_text s d = (case s of Some s \<Rightarrow> s | None \<Rightarrow> d)"

text \<open>The name of the host in front of a line.\<close>

definition log_host :: "server \<Rightarrow> request \<Rightarrow> string" where
  "log_host sv r =
     (if virtualhost sv then local_ip_addr r @ '' ''
      else if vhost_root sv \<noteq> None then sanitize_log_string (Some (or_text (host r) ''(null)'')) @ '' ''
      else [])"

definition log_access :: "log_config \<Rightarrow> int \<Rightarrow> server \<Rightarrow> request \<Rightarrow> string" where
  "log_access cfg now sv r =
     (if access_log_name cfg = None then []
      else
        (let args = sanitized_args (last_arg cfg)
               [or_text (logline r) ''-'', or_text (header_referer r) ''-'', or_text (header_user_agent r) ''-''];
             quoted = (\<lambda>s. [DQUOTE] @ s @ [DQUOTE])
         in log_host sv r @ remote_ip_addr r @ '' - - '' @ get_commonlog_time cfg now @
            quoted (args ! 0) @ '' '' @ int_text (int (response_status r)) @ '' '' @ int_text (sint (bytes_written r)) @ '' '' @
            quoted (args ! 1) @ '' '' @ quoted (args ! 2) @ [LF]))"

definition log_error_doc :: "log_config \<Rightarrow> int \<Rightarrow> server \<Rightarrow> request \<Rightarrow> string" where
  "log_error_doc cfg now sv r =
     (let quoted = (\<lambda>s. [DQUOTE] @ s @ [DQUOTE]);
          name = or_text (logline r) ''(null)'';
          path = or_text (pathname r) ''(null)''
      in log_host sv r @ remote_ip_addr r @ '' - - '' @ get_commonlog_time cfg now @
         (if vhost_root sv \<noteq> None
          then (let args = sanitized_args (last_arg cfg) [or_text (header_host r) ''(null)'', name, path]
                in ''request ['' @ args ! 0 @ ''] '' @ quoted (args ! 1) @ '' ('' @ quoted (args ! 2) @ ''): '')
          else (let args = sanitized_args (last_arg cfg) [name, path]
                in ''request '' @ quoted (args ! 0) @ '' ('' @ quoted (args ! 1) @ ''): '')))"

text \<open>
  The other entries of the error log. \<open>perror\<close> adds the text of the error and ends the line; \<open>log_error_mesg_fatal\<close> prints the
  same and then ends the process.
\<close>

definition log_error_time :: "log_config \<Rightarrow> int \<Rightarrow> string" where
  "log_error_time cfg now = get_commonlog_time cfg now"

definition log_error :: "log_config \<Rightarrow> int \<Rightarrow> string \<Rightarrow> string" where
  "log_error cfg now mesg = get_commonlog_time cfg now @ mesg"

definition perror :: "string \<Rightarrow> string \<Rightarrow> string" where
  "perror strerror mesg = (if mesg = [] then [] else mesg @ '': '') @ strerror @ [LF]"

definition log_error_mesg :: "log_config \<Rightarrow> int \<Rightarrow> string \<Rightarrow> string \<Rightarrow> nat \<Rightarrow> string \<Rightarrow> string \<Rightarrow> string" where
  "log_error_mesg cfg now strerror file_name line func mesg =
     get_commonlog_time cfg now @ file_name @ '':'' @ int_text (int line) @ '' ('' @ func @ '') - '' @ perror strerror mesg"

definition boa_perror_entry :: "log_config \<Rightarrow> int \<Rightarrow> server \<Rightarrow> string \<Rightarrow> request \<Rightarrow> string \<Rightarrow> string" where
  "boa_perror_entry cfg now sv strerror r mesg = log_error_doc cfg now sv r @ perror strerror mesg"

section \<open>Lengths and characters\<close>

text \<open>The characters of a line of a log: no line end, and no control character but the escape of a colour.\<close>

definition printable :: "char \<Rightarrow> bool" where
  "printable c \<longleftrightarrow> c = HT \<or> uchar c \<ge> 32 \<and> uchar c \<noteq> 127"

definition log_safe :: "string \<Rightarrow> bool" where
  "log_safe s \<longleftrightarrow> list_all (\<lambda>c. printable c \<or> c = CHR 0x1B) s"

lemma log_safe_simps [simp]:
  "log_safe []" "log_safe (c # s) \<longleftrightarrow> (printable c \<or> c = CHR 0x1B) \<and> log_safe s"
  "log_safe (s @ t) \<longleftrightarrow> log_safe s \<and> log_safe t"
  by (simp_all add: log_safe_def)

lemma log_safe_LF: "log_safe s \<Longrightarrow> LF \<notin> set s"
proof -
  assume "log_safe s"
  moreover have "\<not> (printable LF \<or> LF = CHR 0x1B)" by (simp add: printable_def uchar_def)
  ultimately show ?thesis unfolding log_safe_def list_all_iff by blast
qed

lemma log_safe_decimal [simp]: "log_safe (decimal n)"
proof -
  have "printable c" if "isdigit c" for c using that by (simp add: printable_def isdigit_def)
  then show ?thesis using decimal_digits [of n] by (auto simp: log_safe_def list_all_iff)
qed

lemma log_safe_replicate [simp]: "log_safe (replicate n c) \<longleftrightarrow> n = 0 \<or> log_safe [c]"
  by (auto simp: log_safe_def list_all_iff)

lemma log_safe_pad [simp]: "printable c \<Longrightarrow> log_safe s \<Longrightarrow> log_safe (pad c n s)"
  by (simp add: pad_def)

lemma log_safe_sanitized [simp]: "log_safe (sanitize_log_string (Some s))"
proof -
  have "printable (sanitize_char c)" for c using sanitize_char_safe [of c] by (auto simp: printable_def)
  then show ?thesis by (auto simp: sanitize_log_string_eq log_safe_def list_all_iff printable_def uchar_def)
qed

lemma log_safe_numbers [simp]: "log_safe (int_text i)" "log_safe (int_02 i)"
  by (simp_all add: int_text_def int_02_def printable_def uchar_def)

lemma log_safe_wday: "0 \<le> i \<Longrightarrow> i \<le> 6 \<Longrightarrow> log_safe (wday_tab ! nat i) \<and> length (wday_tab ! nat i) = 3"
proof -
  assume "0 \<le> i" "i \<le> 6"
  then have "i \<in> {0, 1, 2, 3, 4, 5, 6}" by auto
  then show ?thesis by (auto simp: wday_tab_def printable_def uchar_def)
qed

text \<open>The time that is printed.\<close>

definition log_tm :: "log_config \<Rightarrow> int \<Rightarrow> tm" where
  "log_tm cfg cur = (if use_localtime cfg then localtime cfg cur else gmtime cur)"

lemma log_safe_time:
  assumes "tm_valid (log_tm cfg cur)"
  shows "log_safe (get_commonlog_time cfg cur)"
  using assms log_safe_wday [of "tm_wday (log_tm cfg cur)"]
  by (simp add: get_commonlog_time_def Let_def flip: log_tm_def) (simp add: tm_valid_def sgr_def printable_def uchar_def)

lemma length_int_02: "0 \<le> i \<Longrightarrow> i < 100 \<Longrightarrow> length (int_02 i) = 2"
  using length_decimal [of "nat i" 2] by (simp add: int_02_def pad_def nat_less_iff)

lemma length_year: "-1000 < y \<Longrightarrow> y < 10000 \<Longrightarrow> length (pad CHR '' '' 4 (int_text y)) = 4"
  using length_decimal [of "nat y" 4] length_decimal [of "nat (- y)" 3] by (auto simp: int_text_def pad_def)

lemma length_commonlog_time:
  assumes "tm_valid (log_tm cfg cur)" and "-1000 < tm_year (log_tm cfg cur) + 1900" and "tm_year (log_tm cfg cur) + 1900 < 10000"
  shows "length (get_commonlog_time cfg cur) = (if log_color cfg then 45 else 26)"
  using assms log_safe_wday [of "tm_wday (log_tm cfg cur)"]
  by (simp add: get_commonlog_time_def Let_def flip: log_tm_def) (simp add: tm_valid_def sgr_def length_year length_int_02)

lemma sanitized_args_nth: "i < length args \<Longrightarrow> sanitized_args k args ! i = sanitize_log_string (Some (args ! k))"
  by (simp add: sanitized_args_def)

lemma log_safe_host: "log_safe (local_ip_addr r) \<Longrightarrow> log_safe (log_host sv r)"
  by (simp add: log_host_def printable_def uchar_def)

text \<open>Nothing a client sends can forge an entry of the error log either: what describes the request has no line end, and the entry is one line.\<close>

lemma log_error_doc_safe:
  assumes "log_safe (local_ip_addr r)" and "log_safe (remote_ip_addr r)" and "tm_valid (log_tm cfg now)" and "last_arg cfg < 2"
  shows "log_safe (log_error_doc cfg now sv r)"
  using assms log_safe_host [of r sv] log_safe_time [of cfg now]
  by (simp add: log_error_doc_def Let_def sanitized_args_nth) (simp add: printable_def uchar_def)

lemma boa_perror_one_line:
  assumes "log_safe (local_ip_addr r)" and "log_safe (remote_ip_addr r)" and "tm_valid (log_tm cfg now)" and "last_arg cfg < 2"
    and "log_safe mesg" and "log_safe strerror"
  shows "\<exists>l. boa_perror_entry cfg now sv strerror r mesg = l @ [LF] \<and> log_safe l"
  using log_error_doc_safe [OF assms(1-4), of sv] assms(5,6)
  by (simp add: boa_perror_entry_def perror_def) (simp add: printable_def uchar_def)

lemma log_error_mesg_one_line:
  assumes "tm_valid (log_tm cfg now)" and "log_safe file_name" "log_safe func" "log_safe mesg" "log_safe strerror"
  shows "\<exists>l. log_error_mesg cfg now strerror file_name line func mesg = l @ [LF] \<and> log_safe l"
  using assms log_safe_time [of cfg now] by (simp add: log_error_mesg_def perror_def) (simp add: printable_def uchar_def)

text \<open>
  The three quoted fields of a line, the request, the referer and the user agent, always show the same text:
  that of the argument evaluated last.
\<close>

lemma log_fields_shared:
  fixes r :: request
  assumes "access_log_name cfg \<noteq> None"
  defines "s \<equiv> [DQUOTE] @ sanitize_log_string (Some ([or_text (logline r) ''-'', or_text (header_referer r) ''-'',
      or_text (header_user_agent r) ''-''] ! last_arg cfg)) @ [DQUOTE]"
  shows "log_access cfg now sv r =
     (log_host sv r @ remote_ip_addr r @ '' - - '' @ get_commonlog_time cfg now @ s @ '' '' @
      int_text (int (response_status r)) @ '' '' @ int_text (sint (bytes_written r)) @ '' '' @ s @ '' '' @ s) @ [LF]"
  using assms(1) by (simp add: log_access_def Let_def sanitized_args_nth s_def)

section \<open>Properties\<close>

text \<open>C33: Nothing a client sends can forge a line of the access log: a request adds no line, when there is no access log, or
  exactly one, in which the only line end is the last byte and no other control character
  occurs but the escapes of a coloured time stamp. The addresses are texts the server makes itself.
\<close>

theorem log_access_one_line:
  assumes "log_safe (local_ip_addr r)" and "log_safe (remote_ip_addr r)" and "tm_valid (log_tm cfg now)"
  shows "if access_log_name cfg = None then log_access cfg now sv r = []
     else \<exists>l. log_access cfg now sv r = l @ [LF] \<and> log_safe l \<and> LF \<notin> set l"
proof (cases "access_log_name cfg = None")
  case True
  then show ?thesis by (simp add: log_access_def)
next
  case False
  have q: "printable DQUOTE" "printable CHR '' ''" "printable CHR ''-''" by (simp_all add: printable_def uchar_def)
  note line = log_fields_shared [OF False, of now sv r]
  show ?thesis
    unfolding line if_not_P [OF False]
    by (rule exI, rule conjI, rule refl)
       (use assms(1,2) log_safe_time [OF assms(3)] log_safe_LF q in \<open>simp add: log_safe_host\<close>)
qed

definition example_log :: log_config where
  "example_log = \<lparr>access_log_name = Some ''access_log'', use_localtime = False, localtime = gmtime, log_color = False, last_arg = 0\<rparr>"

theorem log_access_one_line_witness:
  "\<exists>l. log_access example_log 0 example_server (example_request\<lparr>logline := Some [CHR ''x'', LF]\<rparr>) = l @ [LF] \<and> LF \<notin> set l"
proof -
  let ?r = "example_request\<lparr>logline := Some [CHR ''x'', LF]\<rparr>"
  have "log_safe (local_ip_addr ?r)" "log_safe (remote_ip_addr ?r)"
    by (simp_all add: example_request_def printable_def uchar_def)
  moreover have "tm_valid (log_tm example_log 0)"
    using gmtime_valid by (simp add: log_tm_def example_log_def)
  ultimately show ?thesis using log_access_one_line [of ?r example_log 0 example_server] by (auto simp: example_log_def)
qed

text \<open>The time stamp fits the static array of 60 bytes with its terminator, coloured or not, in the years -999 to 9999.\<close>

theorem commonlog_time_fits:
  assumes "tm_valid (log_tm cfg cur)" and "-1000 < tm_year (log_tm cfg cur) + 1900" and "tm_year (log_tm cfg cur) + 1900 < 10000"
  shows "length (get_commonlog_time cfg cur) + 1 \<le> 60"
  using length_commonlog_time [OF assms] by simp

theorem commonlog_time_fits_witness: "length (get_commonlog_time example_log 0) + 1 \<le> 60"
proof -
  have t: "log_tm example_log 0 = gmtime 0" by (simp add: log_tm_def example_log_def)
  have "tm_year (gmtime 0) = 70" by code_simp
  then show ?thesis using commonlog_time_fits [of example_log 0] gmtime_valid [of 0] by (simp add: t)
qed

end
