(* ===== verification/Index_Dir.thy ===== *)
theory Index_Dir
  imports Escape Log
begin

text \<open>
  The program that lists a directory (\<open>index_dir.c\<close>), which the server starts when \<open>DirectoryMaker\<close> names it. It escapes names into
  arrays of fixed size on its stack; \<open>None\<close> is a write behind the end of one of them. The names come from \<open>scandir\<close> of the C
  library in the order it sorts them. Escaping into a given array cannot fail, so the error message for that is never sent.
\<close>

section \<open>Definitions\<close>

definition MAXNAMLEN :: nat where "MAXNAMLEN = 255"

record file_stat =
  st_dir :: bool
  st_mtime :: int
  st_size :: int

type_synonym dir_entry = "string \<times> file_stat option"

definition send_error :: "int \<Rightarrow> string" where
  "send_error error =
     (let the_error =
        (if error = 1 then ''Not enough arguments were passed to the indexer.''
         else if error = 2 then ''The Directory Sorter ran out of Memory''
         else if error = 3 then ''The was a problem changing to the appropriate directory.''
         else if error = 4 \<or> error = 5 then ''Too many arguments were passed to the indexer.''
         else if error = 6 then ''No files in this directory.''
         else ''An unknown error occurred producing the directory.'')
      in ''<html>'' @ [LF] @ ''<head>'' @ [LF] @ ''<title>'' @ [LF] @ the_error @ [LF] @ ''</title>'' @ [LF] @ ''<body>'' @ [LF] @
         the_error @ [LF] @ ''</body>'' @ [LF] @ ''</html>'' @ [LF])"

definition select_files :: "string \<Rightarrow> bool" where
  "select_files d_name \<longleftrightarrow> char_at d_name 0 \<noteq> CHR ''.''"

text \<open>A string stored with its terminator in an array of \<open>n\<close> bytes.\<close>

definition store :: "nat \<Rightarrow> string \<Rightarrow> string option" where
  "store n s = (if length s + 1 > n then None else Some s)"

text \<open>\<open>asctime\<close> of the C library, and \<open>ctime\<close> with the conversion to local time as an argument.\<close>

definition asctime :: "tm \<Rightarrow> string" where
  "asctime t =
     (if 0 \<le> tm_wday t \<and> tm_wday t < 7 then wday_tab ! nat (tm_wday t) else ''???'') @ '' '' @
     (if 0 \<le> tm_mon t \<and> tm_mon t < 12 then take 3 (drop (4 * nat (tm_mon t)) month_tab) else ''???'') @
     pad CHR '' '' 3 (int_text (tm_mday t)) @ '' '' @ int_02 (tm_hour t) @ '':'' @ int_02 (tm_min t) @ '':'' @ int_02 (tm_sec t) @
     '' '' @ int_text (1900 + tm_year t) @ [LF]"

text \<open>The texts that are printed, around their arguments.\<close>

definition stat_text :: "string \<Rightarrow> string \<Rightarrow> string" where
  "stat_text time len =
     ''<td align=right>'' @ time @ ''</td><td align=right>'' @ len @ '' bytes</td></tr>'' @ [LF]"

definition link_text :: "string \<Rightarrow> string \<Rightarrow> string" where
  "link_text href name = ''<a href='' @ [DQUOTE] @ href @ [DQUOTE] @ ''>'' @ name @ ''</a>''"

definition row_text :: "string \<Rightarrow> string \<Rightarrow> string \<Rightarrow> string" where
  "row_text links time len =
     ''<tr><td width='' @ [DQUOTE] @ ''40%'' @ [DQUOTE] @ ''>'' @ links @ ''</td>'' @ stat_text time len"

definition page_head :: "string \<Rightarrow> bool \<Rightarrow> string" where
  "page_head title root =
     ''<html>'' @ [LF] @ ''<head>'' @ [LF] @ ''<title>Index of '' @ title @ ''</title>'' @ [LF] @ ''</head>'' @ [LF, LF] @
     ''<body bgcolor='' @ [DQUOTE] @ ''#ffffff'' @ [DQUOTE] @ ''>'' @ [LF] @ ''<H2>Index of '' @ title @ ''</H2>'' @ [LF] @ ''<table>'' @ [LF] @
     (if root then []
      else ''<tr><td colspan=3><h3>Directories</h3></td></tr><tr><td colspan=3>'' @
           link_text ''../'' ''Parent Directory'' @ ''</td></tr>'' @ [LF])"

definition files_head :: string where
  "files_head = ''<tr><td colspan=3>&nbsp;</td></tr>'' @ [LF] @ ''<tr><td colspan=3><h3>Files</h3></td></tr>'' @ [LF]"

text \<open>The row of a directory.\<close>

definition dir_row :: "(int \<Rightarrow> tm) \<Rightarrow> string \<Rightarrow> file_stat \<Rightarrow> string option" where
  "dir_row lt d_name st =
     Option.bind (store (MAXNAMLEN * 6) (html_escape_string d_name)) (\<lambda>html.
     Option.bind (store (MAXNAMLEN * 3) (http_escape_string d_name)) (\<lambda>http.
     Option.bind (store (MAXNAMLEN * 18) (html_escape_string http)) (\<lambda>escaped.
       Some (row_text (link_text (escaped @ ''/'') (html @ ''/'')) (asctime (lt (st_mtime st))) (int_text (st_size st))))))"

text \<open>The row of a file. A build with decompression offers a packed file under both names.\<close>

definition is_gz :: "bool \<Rightarrow> string \<Rightarrow> bool" where
  "is_gz gunzip http \<longleftrightarrow> gunzip \<and> length http > 3 \<and> drop (length http - 3) http = ''.gz''"

definition file_row :: "bool \<Rightarrow> (int \<Rightarrow> tm) \<Rightarrow> string \<Rightarrow> file_stat \<Rightarrow> string option" where
  "file_row gunzip lt d_name st =
     Option.bind (store (MAXNAMLEN * 6) (html_escape_string d_name)) (\<lambda>html.
     Option.bind (store (MAXNAMLEN * 3) (http_escape_string d_name)) (\<lambda>http.
       if is_gz gunzip http then
         (let http = take (length http - 3) http; html = take (length html - 3) html in
          Option.bind (store (MAXNAMLEN * 18) (html_escape_string http)) (\<lambda>escaped.
            Some (row_text (link_text escaped html @ '' '' @ link_text (http @ ''.gz'') ''(.gz)'')
                    (asctime (lt (st_mtime st))) (int_text (st_size st)))))
       else
         Option.bind (store (MAXNAMLEN * 18) (html_escape_string http)) (\<lambda>escaped.
           Some (row_text (link_text escaped html) (asctime (lt (st_mtime st))) (int_text (st_size st))))))"

text \<open>The loops over the names: those \<open>stat\<close> knows, of the wanted kind.\<close>

fun rows :: "bool \<Rightarrow> (string \<Rightarrow> file_stat \<Rightarrow> string option) \<Rightarrow> dir_entry list \<Rightarrow> string option" where
  "rows dirs row [] = Some []"
| "rows dirs row ((d_name, st) # es) =
     (case st of
        None \<Rightarrow> rows dirs row es
      | Some st \<Rightarrow>
          if st_dir st \<noteq> dirs then rows dirs row es
          else Option.bind (row d_name st) (\<lambda>r. Option.bind (rows dirs row es) (\<lambda>rs. Some (r @ rs))))"

definition list_directory :: "bool \<Rightarrow> (int \<Rightarrow> tm) \<Rightarrow> string \<Rightarrow> dir_entry list \<Rightarrow> (int \<times> string) option" where
  "list_directory gunzip lt title array =
     Option.bind (store (MAXNAMLEN * 6) (html_escape_string title)) (\<lambda>html.
     Option.bind (rows True (dir_row lt) array) (\<lambda>ds.
     Option.bind (rows False (file_row gunzip lt) array) (\<lambda>fs.
       Some (0, page_head html (title = ''/'') @ ds @ files_head @ fs))))"

text \<open>\<open>chdir_ok\<close> is the outcome of \<open>chdir\<close>; the result of \<open>scandir\<close> is a negative number or the names it found.\<close>

definition dirmaker_index :: "bool \<Rightarrow> (int \<Rightarrow> tm) \<Rightarrow> bool \<Rightarrow> int + dir_entry list \<Rightarrow> string \<Rightarrow> (int \<times> string) option" where
  "dirmaker_index gunzip lt chdir_ok scan title =
     (if \<not> chdir_ok then Some (-1, send_error 3)
      else case scan of
             Inl numdir \<Rightarrow>
               if numdir = -1 then Some (-1, send_error 2)
               else if numdir = -2 then Some (-1, send_error 6)
               else list_directory gunzip lt title []
           | Inr es \<Rightarrow> list_directory gunzip lt title (filter (\<lambda>e. select_files (fst e)) es))"

definition dirmaker_main :: "bool \<Rightarrow> (int \<Rightarrow> tm) \<Rightarrow> bool \<Rightarrow> int + dir_entry list \<Rightarrow> int \<Rightarrow> bool \<Rightarrow> string list \<Rightarrow> (int \<times> string) option" where
  "dirmaker_main gunzip lt chdir_ok scan timep strdup_ok argv =
     (if length argv < 3 then Some (-1, send_error 1)
      else if length argv > 3 then Some (-1, send_error 5)
      else if build_needs_escape = None then Some (1, [])
      else Option.bind (dirmaker_index gunzip lt chdir_ok scan (argv ! 2)) (\<lambda>(v, out).
        if \<not> strdup_ok then Some (-1, out)
        else Some (0, out @ ''</table>'' @ [LF] @ ''<hr noshade>'' @ [LF] @ ''Index generated '' @ butlast (asctime (gmtime timep)) @ '' UTC'' @ [LF] @
               ''<!-- This program is part of the YABWF project -->'' @ [LF] @ ''</body>'' @ [LF] @ ''</html>'' @ [LF])))"

section \<open>Markup\<close>

text \<open>The characters of a text that HTML gives a meaning between tags and in quoted attributes.\<close>

definition markup :: "string \<Rightarrow> string" where
  "markup s = filter (\<lambda>c. c \<in> {CHR ''<'', CHR ''>'', DQUOTE}) s"

lemma markup_append [simp]: "markup (s @ t) = markup s @ markup t"
  by (simp add: markup_def)

lemma markup_simps [simp]:
  "markup [] = []" "markup (c # s) = (if c = CHR ''<'' \<or> c = CHR ''>'' \<or> c = DQUOTE then c # markup s else markup s)"
  by (simp_all add: markup_def)

lemma markup_none: "{CHR ''<'', CHR ''>'', DQUOTE} \<inter> set s = {} \<Longrightarrow> markup s = []"
  by (auto simp: markup_def filter_empty_conv)

lemma markup_html [simp]: "markup (html_escape_string s) = []"
  using html_escape_no_markup by (rule markup_none)

lemma markup_take: "markup s = [] \<Longrightarrow> markup (take n s) = []"
  by (auto simp: markup_def filter_empty_conv dest: in_set_takeD)

lemma markup_digits: "list_all isdigit s \<Longrightarrow> markup s = []"
  by (rule markup_none) (auto simp: list_all_iff isdigit_def uchar_def)

lemma markup_numbers [simp]: "markup (decimal n) = []" "markup (int_text i) = []" "markup (int_02 i) = []"
proof -
  show d: "markup (decimal n) = []" for n using decimal_digits by (rule markup_digits)
  have p: "markup (replicate k CHR ''0'') = []" for k by (simp add: markup_def)
  have c: "markup (CHR ''-'' # s) = markup s" for s by (simp add: markup_def)
  show "markup (int_text i) = []" "markup (int_02 i) = []" by (simp_all add: int_text_def int_02_def pad_def d p c)
qed

lemma markup_pad [simp]: "markup (pad CHR '' '' n s) = markup s"
  by (simp add: pad_def) (simp add: markup_def)

lemma markup_escape_upper: "markup (escape_char_upper c) = []"
proof -
  have n: "needs_escape CHR ''<''" "needs_escape CHR ''>''" "needs_escape DQUOTE" by (simp_all add: needs_escape_iff special_chars_def)
  have "\<forall>x \<in> set [0..<16]. markup [INT_TO_HEX_UPPER x] = []" by code_simp
  then have h: "markup [INT_TO_HEX_UPPER x] = []" if "x < 16" for x using that by simp
  show ?thesis
  proof (cases "needs_escape c \<or> c = CHR ''?''")
    case True
    then show ?thesis
      using h [of "uchar c div 16 mod 16"] h [of "uchar c mod 16"] by (simp add: escape_char_upper_def split: if_splits)
  next
    case False
    then have "c \<noteq> CHR ''<''" "c \<noteq> CHR ''>''" "c \<noteq> DQUOTE" using n by auto
    then show ?thesis using False by (simp add: escape_char_upper_def markup_def)
  qed
qed

lemma markup_http [simp]: "markup (http_escape_string s) = []"
proof -
  have "markup (concat (map escape_char_upper s)) = []" by (induction s) (simp_all add: markup_escape_upper)
  moreover have "markup ''./'' = []" by (simp add: markup_def)
  ultimately show ?thesis by (simp add: http_escape_string_eq)
qed

lemma markup_asctime [simp]: "markup (asctime t) = []"
proof -
  have "\<forall>i \<in> set [0..<7]. markup (wday_tab ! i) = []" by code_simp
  then have w: "markup (wday_tab ! nat i) = []" if "0 \<le> i" "i < 7" for i using that by simp
  have "markup month_tab = []" by code_simp
  then have m: "markup (take 3 (drop k month_tab)) = []" for k
    by (intro markup_take) (auto simp: markup_def filter_empty_conv dest: in_set_dropD)
  have s: "markup '' '' = []" "markup '':'' = []" "markup ''???'' = []" "markup [LF] = []" by (simp_all add: markup_def)
  have c: "markup (CHR '' '' # t) = markup t" "markup (CHR '':'' # t) = markup t" for t by (simp_all add: markup_def)
  show ?thesis using w m by (simp add: asctime_def s c)
qed

section \<open>Sizes\<close>

lemma length_html: "length (html_escape_string s) \<le> 6 * length s"
  by (induction s) (auto simp: html_escape_string_def html_escape_char_def)

lemma names_fit:
  assumes "length s < MAXNAMLEN"
  shows "store (MAXNAMLEN * 6) (html_escape_string s) = Some (html_escape_string s)"
    "store (MAXNAMLEN * 3) (http_escape_string s) = Some (http_escape_string s)"
    "store (MAXNAMLEN * 18) (html_escape_string (take n (http_escape_string s))) = Some (html_escape_string (take n (http_escape_string s)))"
proof -
  show "store (MAXNAMLEN * 6) (html_escape_string s) = Some (html_escape_string s)"
    using assms length_html [of s] by (simp add: store_def MAXNAMLEN_def)
  show "store (MAXNAMLEN * 3) (http_escape_string s) = Some (http_escape_string s)"
    using assms length_http_escape_string [of s] by (simp add: store_def MAXNAMLEN_def)
  have "length (take n (http_escape_string s)) \<le> 3 * length s + 2" using length_http_escape_string [of s] by simp
  then show "store (MAXNAMLEN * 18) (html_escape_string (take n (http_escape_string s))) = Some (html_escape_string (take n (http_escape_string s)))"
    using assms length_html [of "take n (http_escape_string s)"] by (simp add: store_def MAXNAMLEN_def)
qed

text \<open>The rows with nothing in them.\<close>

definition dir_frame :: string where
  "dir_frame = row_text (link_text [] []) [] []"

definition file_frame :: "bool \<Rightarrow> string \<Rightarrow> string" where
  "file_frame gunzip d_name =
     row_text (link_text [] [] @ (if is_gz gunzip (http_escape_string d_name) then link_text [] [] else [])) [] []"

lemma dir_row_ok:
  assumes "length d_name < MAXNAMLEN"
  shows "\<exists>r. dir_row lt d_name st = Some r \<and> markup r = markup dir_frame"
proof -
  have "take (length (http_escape_string d_name)) (http_escape_string d_name) = http_escape_string d_name" by simp
  then have f: "store (MAXNAMLEN * 18) (html_escape_string (http_escape_string d_name)) = Some (html_escape_string (http_escape_string d_name))"
    using names_fit(3) [OF assms, of "length (http_escape_string d_name)"] by simp
  have "markup ''/'' = []" by (simp add: markup_def)
  then show ?thesis
    using names_fit(1,2) [OF assms] f by (simp add: dir_row_def dir_frame_def row_text_def link_text_def stat_text_def)
qed

lemma file_row_ok:
  assumes "length d_name < MAXNAMLEN"
  shows "\<exists>r. file_row gunzip lt d_name st = Some r \<and> markup r = markup (file_frame gunzip d_name)"
proof -
  let ?http = "http_escape_string d_name"
  have f: "store (MAXNAMLEN * 18) (html_escape_string ?http) = Some (html_escape_string ?http)"
    using names_fit(3) [OF assms, of "length ?http"] by simp
  have m: "markup '' '' = []" "markup ''(.gz)'' = []" "markup ''.gz'' = []" by (simp_all add: markup_def)
  show ?thesis
    using names_fit [OF assms] f m markup_take [OF markup_http] markup_take [OF markup_html]
    by (simp add: file_row_def file_frame_def row_text_def link_text_def stat_text_def Let_def)
qed

lemma rows_ok:
  assumes "\<And>d_name st. (d_name, Some st) \<in> set es \<Longrightarrow> \<exists>r. row d_name st = Some r \<and> markup r = markup (frame d_name)"
  shows "\<exists>out. rows dirs row es = Some out \<and>
    markup out = markup (concat (map (\<lambda>e. frame (fst e)) (filter (\<lambda>e. \<exists>st. snd e = Some st \<and> st_dir st = dirs) es)))"
  using assms
proof (induction es)
  case (Cons e es)
  obtain d_name st where e: "e = (d_name, st)" by (cases e) auto
  obtain out where out: "rows dirs row es = Some out"
      "markup out = markup (concat (map (\<lambda>e. frame (fst e)) (filter (\<lambda>e. \<exists>st. snd e = Some st \<and> st_dir st = dirs) es)))"
    using Cons.IH Cons.prems by (meson list.set_intros(2))
  show ?case
  proof (cases "\<exists>x. st = Some x \<and> st_dir x = dirs")
    case True
    then obtain x where x: "st = Some x" "st_dir x = dirs" by blast
    obtain r where "row d_name x = Some r" "markup r = markup (frame d_name)" using Cons.prems [of d_name x] e x(1) by auto
    then show ?thesis using out e x by simp
  next
    case False
    then show ?thesis using out e by (cases st) auto
  qed
qed simp

section \<open>Properties\<close>

text \<open>C40: A listing of a directory is complete and cannot be forged, provided that each of its names, and the title,
  is shorter than the longest name: then no array is
  overrun, and the brackets and quotes of the page, in their order, are those of the rows for the directories and files that are listed,
  whatever characters the names and the title consist of. The condition is needed: \<open>longest_name_overruns\<close> shows
  that a legal name or a title of the greatest length, or a longer title, can overrun an array.
\<close>

theorem listing_safe:
  assumes "length title < MAXNAMLEN" and "\<forall>e \<in> set es. length (fst e) < MAXNAMLEN"
  shows "\<exists>out. dirmaker_index gunzip lt True (Inr es) title = Some (0, out) \<and>
     (let listed = filter (\<lambda>e. select_files (fst e)) es;
          dirs = filter (\<lambda>e. \<exists>st. snd e = Some st \<and> st_dir st) listed;
          files = filter (\<lambda>e. \<exists>st. snd e = Some st \<and> \<not> st_dir st) listed
      in markup out = markup (page_head [] (title = ''/'') @ concat (map (\<lambda>e. dir_frame) dirs) @ files_head @
                              concat (map (\<lambda>e. file_frame gunzip (fst e)) files)))"
proof -
  let ?l = "filter (\<lambda>e. select_files (fst e)) es"
  have n: "length d_name < MAXNAMLEN" if "(d_name, st) \<in> set ?l" for d_name st using assms(2) that by auto
  obtain ds where ds: "rows True (dir_row lt) ?l = Some ds"
    "markup ds = markup (concat (map (\<lambda>e. dir_frame) (filter (\<lambda>e. \<exists>st. snd e = Some st \<and> st_dir st = True) ?l)))"
    using rows_ok [of ?l "dir_row lt" "\<lambda>_. dir_frame" True] dir_row_ok n by blast
  obtain fs where fs: "rows False (file_row gunzip lt) ?l = Some fs"
    "markup fs = markup (concat (map (\<lambda>e. file_frame gunzip (fst e)) (filter (\<lambda>e. \<exists>st. snd e = Some st \<and> st_dir st = False) ?l)))"
    using rows_ok [of ?l "file_row gunzip lt" "file_frame gunzip" False] file_row_ok n by blast
  have h: "markup (page_head (html_escape_string title) root) = markup (page_head [] root)" for root by (simp add: page_head_def)
  show ?thesis
    using ds fs names_fit(1) [OF assms(1)] h by (simp add: dirmaker_index_def list_directory_def Let_def)
qed

definition example_listing :: "dir_entry list" where
  "example_listing = [(''.hidden'', None), (''<b>'', Some \<lparr>st_dir = True, st_mtime = 0, st_size = 0\<rparr>),
     (''a.gz'', Some \<lparr>st_dir = False, st_mtime = 0, st_size = 12\<rparr>)]"

theorem listing_safe_witness:
  "\<exists>out. dirmaker_index False gmtime True (Inr example_listing) ''/x/'' = Some (0, out) \<and>
     markup out = markup (page_head [] False @ dir_frame @ files_head @ file_frame False ''a.gz'')"
proof -
  have "length ''/x/'' < MAXNAMLEN" "\<forall>e \<in> set example_listing. length (fst e) < MAXNAMLEN"
    by (simp_all add: MAXNAMLEN_def example_listing_def)
  from listing_safe [OF this, of False gmtime] show ?thesis
    by (simp add: Let_def example_listing_def select_files_def char_at_def)
qed

text \<open>
  The arrays have no room for the terminator: a name of the greatest length that consists of quotes does not fit. The title
  is a path from a request, which can be longer than any name.
\<close>

lemma longest_name_overruns:
  assumes "n \<ge> MAXNAMLEN"
  shows "list_directory gunzip lt (replicate n DQUOTE) es = None"
proof -
  have "length (html_escape_string (replicate n DQUOTE)) = 6 * n" by (induction n) (simp_all add: html_escape_string_def html_escape_char_def)
  then show ?thesis using assms by (simp add: list_directory_def store_def)
qed

text \<open>The message for a failed escape is that for too many arguments.\<close>

lemma error_four_is_five: "send_error 4 = send_error 5"
  by (simp add: send_error_def)

end
