(* ===== verification/Scandir.thy ===== *)
theory Scandir
  imports Index_Dir "HOL-Library.Sublist"
begin

text \<open>
  The replacement for \<open>scandir\<close> and \<open>alphasort\<close> of the C library (\<^verbatim>\<open>src/extras\<close>), which \<open>Index_Dir\<close> calls where the library lacks them. The
  directory is read twice: to count its entries, and to copy them. What the two readings find are two arguments, since another process can
  change the directory between them; the outcomes of the allocations are arguments as well.
\<close>

section \<open>Definitions\<close>

text \<open>The sign of the result is what C promises of \<open>strcmp\<close>.\<close>

fun strcmp_sign :: "string \<Rightarrow> string \<Rightarrow> int" where
  "strcmp_sign [] [] = 0"
| "strcmp_sign [] (y # ys) = -1"
| "strcmp_sign (x # xs) [] = 1"
| "strcmp_sign (x # xs) (y # ys) = (if x = y then strcmp_sign xs ys else if uchar x < uchar y then -1 else 1)"

definition alphasort :: "string \<Rightarrow> string \<Rightarrow> int" where
  "alphasort a b = strcmp_sign a b"

text \<open>A failure, a write behind the end of the array of names, or the number returned and the array, which is null when it cannot be made smaller.\<close>

datatype scan_result = Scan_failed | Scan_overrun | Scanned nat "string list option"

text \<open>The loop that copies: \<open>room\<close> is the size of the array, \<open>oks\<close> are the outcomes of the allocations, \<open>names\<close> the entries copied so far.\<close>

fun copy_entries :: "nat \<Rightarrow> (string \<Rightarrow> bool) option \<Rightarrow> bool list \<Rightarrow> string list \<Rightarrow> string list \<Rightarrow> string list option" where
  "copy_entries room select oks [] names = Some names"
| "copy_entries room select oks (current # es) names =
     (if select = None \<or> the select current then
        (if oks \<noteq> [] \<and> \<not> hd oks then copy_entries room select (tl oks) es names
         else if length names < room then copy_entries room select (tl oks) es (names @ [current])
         else None)
      else copy_entries room select oks es names)"

definition scandir :: "string list option \<Rightarrow> bool \<Rightarrow> string list option \<Rightarrow> (string \<Rightarrow> bool) option \<Rightarrow> bool list \<Rightarrow> bool \<Rightarrow> scan_result" where
  "scandir counted alloc_ok copied select oks realloc_ok =
     (case counted of
        None \<Rightarrow> Scan_failed
      | Some xs \<Rightarrow>
          if \<not> alloc_ok then Scan_failed
          else case copied of
                 None \<Rightarrow> Scan_failed
               | Some es \<Rightarrow>
                   (case copy_entries (length xs) select oks es [] of
                      None \<Rightarrow> Scan_overrun
                    | Some names \<Rightarrow>
                        Scanned (length names) (if length names \<noteq> length xs \<and> \<not> realloc_ok then None else Some names)))"

section \<open>The order of names\<close>

lemma strcmp_sign_eq: "strcmp_sign a b = 0 \<longleftrightarrow> a = b"
  by (induction a b rule: strcmp_sign.induct) auto

lemma strcmp_sign_swap: "strcmp_sign b a = - strcmp_sign a b"
  by (induction a b rule: strcmp_sign.induct) (auto simp: not_less_iff_gr_or_eq)

lemma strcmp_sign_trans: "strcmp_sign a b \<le> 0 \<Longrightarrow> strcmp_sign b c \<le> 0 \<Longrightarrow> strcmp_sign a c \<le> 0"
proof (induction a b arbitrary: c rule: strcmp_sign.induct)
  case (4 x xs y ys)
  then show ?case by (cases c) (auto split: if_splits)
next
  case (2 y ys)
  then show ?case by (cases c) simp_all
qed simp_all

text \<open>\<open>alphasort\<close> is a linear order on names, as the sorting it is passed to needs.\<close>

lemma alphasort_linear:
  "alphasort a a = 0" "alphasort a b \<le> 0 \<Longrightarrow> alphasort b a \<le> 0 \<Longrightarrow> a = b"
  "alphasort a b \<le> 0 \<Longrightarrow> alphasort b c \<le> 0 \<Longrightarrow> alphasort a c \<le> 0" "alphasort a b \<le> 0 \<or> alphasort b a \<le> 0"
  using strcmp_sign_eq [of a b] strcmp_sign_eq [of a a] strcmp_sign_swap [of b a] strcmp_sign_trans [of a b c]
  by (auto simp: alphasort_def)

section \<open>The entries\<close>

lemma copy_entries_fits:
  "length names + length (filter (\<lambda>e. select = None \<or> the select e) es) \<le> room \<Longrightarrow>
   \<exists>more. copy_entries room select oks es names = Some (names @ more) \<and> subseq more (filter (\<lambda>e. select = None \<or> the select e) es)"
proof (induction room select oks es names rule: copy_entries.induct)
  case (2 room select oks current es names)
  show ?case
  proof (cases "select = None \<or> the select current")
    case chosen: True
    show ?thesis
    proof (cases "oks \<noteq> [] \<and> \<not> hd oks")
      case True
      then show ?thesis using 2 chosen by (auto intro: list_emb_Cons)
    next
      case False
      have "length names < room" using 2(4) chosen by simp
      from 2(2) [OF chosen False this] 2(4) chosen obtain more where
        m: "copy_entries room select (tl oks) es (names @ [current]) = Some ((names @ [current]) @ more)"
          "subseq more (filter (\<lambda>e. select = None \<or> the select e) es)" by auto
      then have "copy_entries room select oks (current # es) names = Some (names @ current # more)"
        using chosen False \<open>length names < room\<close> by auto
      then show ?thesis using m(2) chosen by (intro exI [of _ "current # more"]) auto
    qed
  qed (use 2 in auto)
qed simp

lemma copy_entries_overrun:
  "length names + length (filter (\<lambda>e. select = None \<or> the select e) es) > room \<Longrightarrow> length names \<le> room \<Longrightarrow>
   copy_entries room select [] es names = None"
  by (induction es arbitrary: names) auto

text \<open>
  A directory that does not grow between the two readings is read without an overrun: the result has entries of the second reading that were
  asked for, in the order of the directory, and all of them when memory suffices.
\<close>

lemma scandir_stable:
  assumes "length (filter (\<lambda>e. select = None \<or> the select e) es) \<le> length xs"
  shows "\<exists>names. scandir (Some xs) True (Some es) select oks True = Scanned (length names) (Some names) \<and>
     subseq names (filter (\<lambda>e. select = None \<or> the select e) es)"
  using copy_entries_fits [of "[]" select es "length xs" oks] assms by (auto simp: scandir_def)

text \<open>The array has the size of the first reading and is filled in the second, with no check: a directory that grew between them overruns it.\<close>

lemma scandir_overrun:
  assumes "length (filter (\<lambda>e. select = None \<or> the select e) es) > length xs"
  shows "scandir (Some xs) True (Some es) select [] realloc_ok = Scan_overrun"
  using copy_entries_overrun [of "length xs" "[]" select es] assms by (simp add: scandir_def)

end
