(* ===== verification/Scheduler.thy ===== *)
theory Scheduler
  imports Queue Pipe Log "HOL-Library.While_Combinator"
begin

text \<open>
  The life of connections (\<open>request.c\<close>, \<open>queue.c\<close>): accepting them, calling the handler of each ready
  request, putting requests aside that would block, and releasing those that are finished. A request is a
  number, its address; the requests themselves, the links of the queues and the global variables
  make up the \<open>world\<close>. The sets of descriptors are those of the \<open>select\<close> variant of the build. \<open>TUNE_SNDBUF\<close> is defined, as \<open>request.c\<close> does;
  \<open>USE_TCPNODELAY\<close> and \<open>NO_RATE_LIMIT\<close> are not, since their definitions stand inside a comment, so a connection above the limit is answered
  with 503.

  \<open>None\<close> in place of a world is the exit of the process, in \<open>DIE\<close>. Freeing memory is not modelled; every pointer
  that is freed is set to null before it can be read again.
\<close>

section \<open>The world\<close>

text \<open>What the kernel tells of a connection: the outcome of \<open>accept\<close> and the values of the calls on it.\<close>

record connection =
  a_fd :: nat
  a_local :: string
  a_remote :: string
  a_port :: "32 word"
  a_sndbuf :: nat
  a_chan :: chan

datatype accept_result = Accepted connection | Accept_error errno

text \<open>The outcome of \<open>select\<close>: the descriptors that are ready for reading and for writing, or an error.\<close>

datatype select_result = Selected "nat list" "nat list" | Select_EINTR | Select_EBADF | Select_failed

text \<open>\<open>unav_len_set\<close> says that the static pointer \<open>body_len\<close> of \<open>send_r_service_unavailable\<close> is set.\<close>

record world =
  srv :: server
  log_cfg :: log_config
  reqs :: "nat \<Rightarrow> request"
  q_links :: links
  request_ready :: "nat option"
  request_block :: "nat option"
  request_free :: "nat option"
  next_request :: nat
  total_connections :: "32 word"
  pending_requests :: bool
  sigterm_flag :: nat
  status_requests :: int
  status_errors :: int
  unav_len_set :: bool
  read_set :: "nat list"
  write_set :: "nat list"
  max_fd :: int
  server_s :: "nat option"
  accept_script :: "accept_result list"
  select_script :: "select_result list"
  clock :: "int list"
  access_log :: string

text \<open>The time of day, a system call, and the change of one request.\<close>

definition wall_clock :: "world \<Rightarrow> int \<times> world" where
  "wall_clock w = (case clock w of [] \<Rightarrow> (current_time (srv w), w) | t # q \<Rightarrow> (t, w\<lparr>clock := q\<rparr>))"

definition time_now :: "world \<Rightarrow> world" where
  "time_now w = (case wall_clock w of (t, w) \<Rightarrow> w\<lparr>srv := (srv w)\<lparr>current_time := t\<rparr>\<rparr>)"

definition sys_call :: "world \<Rightarrow> bool \<times> world" where
  "sys_call w = (case try_sys (srv w) of (ok, sv) \<Rightarrow> (ok, w\<lparr>srv := sv\<rparr>))"

definition close_fd :: "nat \<Rightarrow> world \<Rightarrow> world" where
  "close_fd n w = w\<lparr>srv := fd_close n (srv w)\<rparr>"

definition set_req :: "nat \<Rightarrow> request \<Rightarrow> world \<Rightarrow> world" where
  "set_req i r w = w\<lparr>reqs := (reqs w)(i := r)\<rparr>"

section \<open>Queues\<close>

definition enqueue_ready :: "nat \<Rightarrow> world \<Rightarrow> world" where
  "enqueue_ready i w = (case enqueue (request_ready w) i (q_links w) of (q, h) \<Rightarrow> w\<lparr>request_ready := q, q_links := h\<rparr>)"

definition enqueue_block :: "nat \<Rightarrow> world \<Rightarrow> world" where
  "enqueue_block i w = (case enqueue (request_block w) i (q_links w) of (q, h) \<Rightarrow> w\<lparr>request_block := q, q_links := h\<rparr>)"

definition enqueue_free :: "nat \<Rightarrow> world \<Rightarrow> world" where
  "enqueue_free i w = (case enqueue (request_free w) i (q_links w) of (q, h) \<Rightarrow> w\<lparr>request_free := q, q_links := h\<rparr>)"

definition dequeue_ready :: "nat \<Rightarrow> world \<Rightarrow> world" where
  "dequeue_ready i w = (case dequeue (request_ready w) i (q_links w) of (q, h) \<Rightarrow> w\<lparr>request_ready := q, q_links := h\<rparr>)"

definition dequeue_block :: "nat \<Rightarrow> world \<Rightarrow> world" where
  "dequeue_block i w = (case dequeue (request_block w) i (q_links w) of (q, h) \<Rightarrow> w\<lparr>request_block := q, q_links := h\<rparr>)"

definition dequeue_free :: "nat \<Rightarrow> world \<Rightarrow> world" where
  "dequeue_free i w = (case dequeue (request_free w) i (q_links w) of (q, h) \<Rightarrow> w\<lparr>request_free := q, q_links := h\<rparr>)"

datatype direction = BOA_READ | BOA_WRITE

fun BOA_FD_SET :: "nat \<Rightarrow> direction \<Rightarrow> world \<Rightarrow> world" where
  "BOA_FD_SET n BOA_READ w = w\<lparr>read_set := List.insert n (read_set w), max_fd := max (max_fd w) (int n)\<rparr>"
| "BOA_FD_SET n BOA_WRITE w = w\<lparr>write_set := List.insert n (write_set w), max_fd := max (max_fd w) (int n)\<rparr>"

fun BOA_FD_CLR :: "nat \<Rightarrow> direction \<Rightarrow> world \<Rightarrow> world" where
  "BOA_FD_CLR n BOA_READ w = w\<lparr>read_set := removeAll n (read_set w)\<rparr>"
| "BOA_FD_CLR n BOA_WRITE w = w\<lparr>write_set := removeAll n (write_set w)\<rparr>"

text \<open>What a request that cannot go on waits for: the same cases in \<open>block_request\<close> and \<open>ready_request\<close>.\<close>

definition awaited :: "server \<Rightarrow> request \<Rightarrow> nat \<times> direction" where
  "awaited sv r =
     (if buffer_end r \<noteq> 0 then (fd r, BOA_WRITE)
      else case status r of
        IOSHUFFLE \<Rightarrow>
          if \<not> build_sendfile sv \<and> buffer_end r = buffer_start r then (data_fd r, BOA_READ) else (fd r, BOA_WRITE)
      | WRITE \<Rightarrow> (fd r, BOA_WRITE)
      | PIPE_WRITE \<Rightarrow> (fd r, BOA_WRITE)
      | DONE \<Rightarrow> (fd r, BOA_WRITE)
      | PIPE_READ \<Rightarrow> (data_fd r, BOA_READ)
      | BODY_WRITE \<Rightarrow> (post_data_fd r, BOA_WRITE)
      | _ \<Rightarrow> (fd r, BOA_READ))"

definition block_request :: "nat \<Rightarrow> world \<Rightarrow> world" where
  "block_request i w =
     (let w = enqueue_block i (dequeue_ready i w); (n, d) = awaited (srv w) (reqs w i) in BOA_FD_SET n d w)"

definition ready_request :: "nat \<Rightarrow> world \<Rightarrow> world" where
  "ready_request i w =
     (let w = enqueue_ready i (dequeue_block i w); (n, d) = awaited (srv w) (reqs w i) in BOA_FD_CLR n d w)"

section \<open>New requests\<close>

text \<open>Everything before \<open>fd\<close> in the structure becomes zero.\<close>

definition zero_request :: "request \<Rightarrow> request" where
  "zero_request r = r\<lparr>
     status := READ_HEADER, keepalive := KA_INACTIVE, http_version := HTTP_NONE, req_method := M_NONE,
     response_status := 0, cgi_type := CGI_NONE, cgi_status := CGI_PARSE, pathname := None, ranges := [], numranges := 0,
     data_fd := 0, filesize := 0, filepos := 0, bytes_written := 0, data_mem := None, logline := None,
     header_line := Null, header_end := Null, parse_pos := 0, buffer_start := 0, buffer_end := 0,
     if_modified_since := None, last_modified := 0, cgi_env_index := 0, header_host := None,
     header_user_agent := None, header_referer := None, header_ifrange := None, host := None, post_data_fd := 0,
     path_info := None, path_translated := None, script_name := None, query_string := None, content_type := None,
     content_length := None, mmap_entry_var := None\<rparr>"

definition sanitize_request :: "bool \<Rightarrow> server \<Rightarrow> request \<Rightarrow> request" where
  "sanitize_request new_req sv r =
     (let r = (if new_req then r\<lparr>kacount := ka_max sv, time_last := current_time sv, client_stream_pos := 0\<rparr>
               else
                 (let n = nat ((int (client_stream_pos r) - int (parse_pos r)) mod 2 ^ 32) in
                  r\<lparr>client_stream := blit (client_stream r) 0 (take n (drop (parse_pos r) (client_stream r))),
                    client_stream_pos := n\<rparr>))
      in (zero_request r)\<lparr>status := READ_HEADER, header_line := Stream 0\<rparr>)"

text \<open>The address of the request, or nothing when memory runs out.\<close>

definition new_request :: "world \<Rightarrow> nat option \<times> world" where
  "new_request w =
     (case request_free w of
        Some i \<Rightarrow>
          (let w = dequeue_free i w in (Some i, set_req i (sanitize_request True (srv w) (reqs w i)) w))
      | None \<Rightarrow>
          (case try_alloc (srv w) of (ok, sv) \<Rightarrow>
             let w = w\<lparr>srv := sv\<rparr>; i = next_request w in
             if \<not> ok then (None, w)
             else (Some i, set_req i (sanitize_request True sv (reqs w i)) (w\<lparr>next_request := i + 1\<rparr>))))"

definition BOA_NI_MAXHOST :: nat where "BOA_NI_MAXHOST = 20"
definition SOCKETBUF_SIZE :: nat where "SOCKETBUF_SIZE = 32768"

text \<open>An address as text, when it fits the array with its terminator.\<close>

definition ascii_sockaddr :: "string \<Rightarrow> nat \<Rightarrow> string option" where
  "ascii_sockaddr buf len = (if length buf + 1 > len then None else Some buf)"

text \<open>Giving up a connection whose request was already taken.\<close>

definition drop_connection :: "nat \<Rightarrow> nat \<Rightarrow> world \<Rightarrow> world" where
  "drop_connection n i w = enqueue_free i (close_fd n w)"

text \<open>
  The size of the socket's buffer is asked for once. A failure to enlarge it is only reported.
\<close>

definition tune_sndbuf :: "connection \<Rightarrow> world \<Rightarrow> world" where
  "tune_sndbuf c w =
     (let w = (if system_bufsize (srv w) = 0
               then (case sys_call w of (ok, w) \<Rightarrow>
                       w\<lparr>srv := (srv w)\<lparr>system_bufsize := (if ok then a_sndbuf c else 1)\<rparr>\<rparr>)
               else w)
      in if system_bufsize (srv w) < SOCKETBUF_SIZE then snd (sys_call w) else w)"

text \<open>A connection above the limit gets the answer 503 at once. The length of its body is made into text once, when memory allows.\<close>

definition refuse :: "nat \<Rightarrow> world \<Rightarrow> world" where
  "refuse i w =
     (let w = (if unav_len_set w then w else case try_alloc (srv w) of (ok, sv) \<Rightarrow> w\<lparr>srv := sv, unav_len_set := ok\<rparr>);
          r = send_r_service_unavailable (srv w) (unav_len_set w) ((reqs w i)\<lparr>http_version := HTTP10, req_method := M_GET\<rparr>)
      in set_req i (r\<lparr>status := DONE\<rparr>) w)"

text \<open>The last steps for a connection that is set up.\<close>

definition admit :: "connection \<Rightarrow> nat \<Rightarrow> world \<Rightarrow> world" where
  "admit c i w =
     (case ascii_sockaddr (a_remote c) BOA_NI_MAXHOST of
        None \<Rightarrow> drop_connection (a_fd c) i w
      | Some addr \<Rightarrow>
          (let w = set_req i ((reqs w i)\<lparr>remote_ip_addr := addr, remote_port := a_port c\<rparr>) w;
               w = w\<lparr>status_requests := status_requests w + 1\<rparr>;
               w = w\<lparr>total_connections := total_connections w + 1\<rparr>;
               w = (if unat (total_connections w) > max_connections (srv w) then refuse i (w\<lparr>pending_requests := False\<rparr>) else w)
           in enqueue_ready i w))"

definition setup_connection :: "connection \<Rightarrow> nat \<Rightarrow> world \<Rightarrow> world" where
  "setup_connection c i w =
     (let w = set_req i ((reqs w i)\<lparr>fd := a_fd c, status := READ_HEADER, header_line := Stream 0,
                         time_last := current_time (srv w), kacount := ka_max (srv w), sock := a_chan c\<rparr>) w
      in case ascii_sockaddr (a_local c) BOA_NI_MAXHOST of
           None \<Rightarrow> drop_connection (a_fd c) i w
         | Some addr \<Rightarrow>
             (let w = set_req i ((reqs w i)\<lparr>local_ip_addr := addr\<rparr>) w in
              case sys_call w of (nonblock, w) \<Rightarrow>
                if \<not> nonblock then drop_connection (a_fd c) i w
                else case sys_call w of (cloexec, w) \<Rightarrow>
                  if \<not> cloexec then drop_connection (a_fd c) i w
                  else admit c i (tune_sndbuf c w)))"

definition get_request :: "world \<Rightarrow> world" where
  "get_request w =
     (case accept_script w of
        [] \<Rightarrow> w\<lparr>pending_requests := False\<rparr>
      | Accept_error e # q \<Rightarrow> w\<lparr>accept_script := q, pending_requests := False\<rparr>
      | Accepted c # q \<Rightarrow>
          (let w = w\<lparr>accept_script := q, srv := (srv w)\<lparr>open_fds := a_fd c # open_fds (srv w)\<rparr>\<rparr> in
           if a_fd c \<ge> FD_SETSIZE then close_fd (a_fd c) w
           else case sys_call w of (named, w) \<Rightarrow>
             if \<not> named then close_fd (a_fd c) w
             else case new_request w of
               (None, w) \<Rightarrow> close_fd (a_fd c) w
             | (Some i, w) \<Rightarrow> setup_connection c i w))"

section \<open>Finished requests\<close>

text \<open>Everything a request holds but its connection is given back.\<close>

definition release_resources :: "nat \<Rightarrow> world \<Rightarrow> world" where
  "release_resources i w =
     (let r = reqs w i;
          w = (if mmap_entry_var r \<noteq> None then w\<lparr>srv := (srv w)\<lparr>mmaps := release_mmap (mmap_entry_var r) (mmaps (srv w))\<rparr>\<rparr> else w);
          w = (if data_fd r \<noteq> 0 then BOA_FD_CLR (data_fd r) BOA_READ (close_fd (data_fd r) w) else w);
          w = (if post_data_fd r \<noteq> 0 then BOA_FD_CLR (post_data_fd r) BOA_WRITE (close_fd (post_data_fd r) w) else w);
          w = (if response_status r \<ge> 400 then w\<lparr>status_errors := status_errors w + 1\<rparr> else w)
      in if ranges r \<noteq> [] then (case ranges_reset r (srv w) of (r, sv) \<Rightarrow> set_req i r (w\<lparr>srv := sv\<rparr>)) else w)"

definition log_request :: "nat \<Rightarrow> world \<Rightarrow> world" where
  "log_request i w =
     (let r = reqs w i in
      if kacount r < ka_max (srv w) \<and> logline r = None \<and> client_stream_pos r = 0 then w
      else case wall_clock w of (now, w) \<Rightarrow> w\<lparr>access_log := access_log w @ log_access (log_cfg w) now (srv w) r\<rparr>)"

definition keeps_alive :: "request \<Rightarrow> bool" where
  "keeps_alive r \<longleftrightarrow> status r < TIMED_OUT \<and> keepalive r = KA_ACTIVE \<and>
     response_status r < 500 \<and> response_status r \<noteq> 0 \<and> kacount r > 0"

definition next_on_connection :: "nat \<Rightarrow> world \<Rightarrow> world" where
  "next_on_connection i w =
     (let r = sanitize_request False (srv w) (reqs w i);
          w = set_req i (r\<lparr>kacount := kacount r - 1\<rparr>) w;
          w = enqueue_block i (w\<lparr>status_requests := status_requests w + 1\<rparr>)
      in BOA_FD_CLR (fd r) BOA_WRITE (BOA_FD_SET (fd r) BOA_READ w))"

definition close_connection :: "nat \<Rightarrow> world \<Rightarrow> world" where
  "close_connection i w =
     (let r = reqs w i;
          w = (if req_method r = M_POST then set_req i (r\<lparr>sock := snd (sys_read (sock r) 32768)\<rparr>) w else w);
          w = BOA_FD_CLR (fd r) BOA_WRITE (BOA_FD_CLR (fd r) BOA_READ (close_fd (fd r) w))
      in enqueue_free i (w\<lparr>total_connections := total_connections w - 1\<rparr>))"

definition free_request :: "nat \<Rightarrow> world \<Rightarrow> world" where
  "free_request i w =
     (let r = reqs w i;
          (v, r) = (if buffer_end r \<noteq> 0 \<and> status r < TIMED_OUT then req_flush (r\<lparr>status := DONE\<rparr>) else (0, r));
          r = (if v = -2 then r\<lparr>status := DEAD\<rparr> else r);
          w = set_req i r w
      in if v > 0 then w
         else
           (let w = dequeue_ready i w;
                r = (if status r = TIMED_OUT \<and> response_status r = 0 then r\<lparr>response_status := 408\<rparr> else r);
                w = release_resources i (log_request i (set_req i r w))
            in if keeps_alive (reqs w i) then next_on_connection i w else close_connection i w))"

section \<open>The ready requests\<close>

text \<open>The handler of a state. \<open>read_header\<close> can end the process.\<close>

definition handler :: "request \<Rightarrow> server \<Rightarrow> (int \<times> request \<times> server) option" where
  "handler r sv =
     (case status r of
        READ_HEADER \<Rightarrow> read_header r sv
      | ONE_CR \<Rightarrow> read_header r sv
      | ONE_LF \<Rightarrow> read_header r sv
      | TWO_CR \<Rightarrow> read_header r sv
      | BODY_READ \<Rightarrow> Some (read_body r sv)
      | BODY_WRITE \<Rightarrow> Some (write_body r sv)
      | WRITE \<Rightarrow> Some (process_get r sv)
      | PIPE_READ \<Rightarrow> Some (read_from_pipe r sv)
      | PIPE_WRITE \<Rightarrow> Some (write_from_pipe r sv)
      | IOSHUFFLE \<Rightarrow> Some (if build_sendfile sv then io_shuffle_sendfile r sv else io_shuffle r sv)
      | DONE \<Rightarrow>
          Some (case req_flush r of (v, r) \<Rightarrow>
                  if v = -2 then (0, r\<lparr>status := DEAD\<rparr>, sv) else if v > 0 then (1, r, sv) else (v, r, sv))
      | TIMED_OUT \<Rightarrow> Some (0, SQUASH_KA (r\<lparr>buffer_end := 0\<rparr>), sv)
      | DEAD \<Rightarrow> Some (0, SQUASH_KA (r\<lparr>buffer_end := 0\<rparr>), sv))"

text \<open>The output in the buffer is sent before the handler is called.\<close>

definition serve :: "request \<Rightarrow> server \<Rightarrow> (int \<times> request \<times> server) option" where
  "serve r sv =
     (case (if buffer_end r \<noteq> 0 \<and> status r < TIMED_OUT
            then (case req_flush r of (v, r) \<Rightarrow>
                    if v = -2 then (0, r\<lparr>status := DEAD\<rparr>) else if v \<ge> 0 then (1, r) else (v, r))
            else (1, r)) of
        (v, r) \<Rightarrow> if v = 1 then handler r sv else Some (v, r, sv))"

text \<open>One round of the loop: the request to go on with, and the world.\<close>

definition process_step :: "nat \<Rightarrow> world \<Rightarrow> (nat option \<times> world) option" where
  "process_step i w =
     (let w = time_now w in
      case serve (reqs w i) (srv w) of
        None \<Rightarrow> None
      | Some (v, r, sv) \<Rightarrow>
          (let r = (if sigterm_flag w \<noteq> 0 then SQUASH_KA r else r);
               w = set_req i r (w\<lparr>srv := sv\<rparr>);
               w = (if pending_requests w then get_request w else w);
               current = q_next (q_links w) i;
               now = current_time (srv w)
           in if v = -1 then Some (current, block_request i w)
              else if v = 0 then Some (current, free_request i (set_req i ((reqs w i)\<lparr>time_last := now\<rparr>) w))
              else if v = 1 then Some (current, set_req i ((reqs w i)\<lparr>time_last := now\<rparr>) w)
              else Some (current, set_req i ((reqs w i)\<lparr>status := DEAD\<rparr>) w)))"

text \<open>
  The outer \<open>None\<close> of the result is a loop that does not end, the inner one the exit of the process.
\<close>

definition process_requests :: "world \<Rightarrow> world option option" where
  "process_requests w =
     (let w = (if pending_requests w then get_request w else w)
      in map_option (map_option snd)
           (while_option
              (\<lambda>s. case s of Some (Some i, w) \<Rightarrow> True | _ \<Rightarrow> False)
              (\<lambda>s. case s of Some (Some i, w) \<Rightarrow> process_step i w | _ \<Rightarrow> s)
              (Some (request_ready w, w))))"

section \<open>The queues as lists\<close>

text \<open>
  The queues of a world hold the lists \<open>rd\<close>, \<open>bl\<close> and \<open>fr\<close>, no request is in two of them, and no address is
  given out twice. The counter of connections counts the requests that are ready or blocked.
\<close>

definition queues :: "world \<Rightarrow> nat list \<Rightarrow> nat list \<Rightarrow> nat list \<Rightarrow> bool" where
  "queues w rd bl fr \<longleftrightarrow>
     dlist (q_links w) (request_ready w) rd \<and> dlist (q_links w) (request_block w) bl \<and> dlist (q_links w) (request_free w) fr \<and>
     set rd \<inter> set bl = {} \<and> set rd \<inter> set fr = {} \<and> set bl \<inter> set fr = {} \<and>
     (\<forall>i \<in> set rd \<union> set bl \<union> set fr. i < next_request w)"

definition world_ok :: "world \<Rightarrow> nat list \<Rightarrow> nat list \<Rightarrow> nat list \<Rightarrow> bool" where
  "world_ok w rd bl fr \<longleftrightarrow> queues w rd bl fr \<and> total_connections w = of_nat (length rd + length bl)"

text \<open>A request that is in no queue.\<close>

definition loose :: "nat \<Rightarrow> world \<Rightarrow> nat list \<Rightarrow> nat list \<Rightarrow> nat list \<Rightarrow> bool" where
  "loose i w rd bl fr \<longleftrightarrow> queues w rd bl fr \<and> i \<notin> set rd \<union> set bl \<union> set fr \<and> i < next_request w"

definition qview :: "world \<Rightarrow> links \<times> nat option \<times> nat option \<times> nat option \<times> nat \<times> 32 word" where
  "qview w = (q_links w, request_ready w, request_block w, request_free w, next_request w, total_connections w)"

lemma queues_frame:
  assumes "qview w' = qview w"
  shows "queues w' rd bl fr = queues w rd bl fr" "world_ok w' rd bl fr = world_ok w rd bl fr" "loose i w' rd bl fr = loose i w rd bl fr"
    "total_connections w' = total_connections w" "next_request w' = next_request w"
  using assms by (simp_all add: queues_def world_ok_def loose_def qview_def)

text \<open>One queue changes, two others stand by.\<close>

lemma enqueue_among:
  assumes "dlist h a as" and "dlist h b bs" and "dlist h c cs" and "set as \<inter> set bs = {}" and "set as \<inter> set cs = {}"
    and "i \<notin> set as" and "i \<notin> set bs" and "i \<notin> set cs" and "enqueue a i h = (a', h')"
  shows "dlist h' a' (i # as) \<and> dlist h' b bs \<and> dlist h' c cs"
  using enqueue_dlist [OF assms(1,6,9)] boa_queue.enq_other [OF assms(1,6,9) assms(2)]
    boa_queue.enq_other [OF assms(1,6,9) assms(3)] assms(4,5,7,8) by blast

lemma dequeue_among:
  assumes "dlist h a as" and "dlist h b bs" and "dlist h c cs" and "set as \<inter> set bs = {}" and "set as \<inter> set cs = {}"
    and "i \<in> set as" and "dequeue a i h = (a', h')"
  shows "dlist h' a' (remove1 i as) \<and> dlist h' b bs \<and> dlist h' c cs"
  using dequeue_dlist [OF assms(1,6,7)] boa_queue.deq_other [OF assms(1,6,7) assms(2)]
    boa_queue.deq_other [OF assms(1,6,7) assms(3)] assms(4,5) by blast

lemma enqueue_total [simp]:
  "total_connections (enqueue_ready i w) = total_connections w" "total_connections (enqueue_block i w) = total_connections w"
  "total_connections (enqueue_free i w) = total_connections w"
  by (simp_all add: enqueue_ready_def enqueue_block_def enqueue_free_def split: prod.split)

lemma dequeue_total [simp]:
  "total_connections (dequeue_ready i w) = total_connections w" "total_connections (dequeue_block i w) = total_connections w"
  "total_connections (dequeue_free i w) = total_connections w"
  by (simp_all add: dequeue_ready_def dequeue_block_def dequeue_free_def split: prod.split)

lemma enqueue_keeps:
  assumes "loose i w rd bl fr"
  shows "queues (enqueue_ready i w) (i # rd) bl fr" "queues (enqueue_block i w) rd (i # bl) fr" "queues (enqueue_free i w) rd bl (i # fr)"
proof -
  have q: "dlist (q_links w) (request_ready w) rd" "dlist (q_links w) (request_block w) bl" "dlist (q_links w) (request_free w) fr"
    "set rd \<inter> set bl = {}" "set rd \<inter> set fr = {}" "set bl \<inter> set fr = {}" "\<forall>i \<in> set rd \<union> set bl \<union> set fr. i < next_request w"
    and i: "i \<notin> set rd" "i \<notin> set bl" "i \<notin> set fr" "i < next_request w"
    using assms by (auto simp: loose_def queues_def)
  have d: "set bl \<inter> set rd = {}" "set fr \<inter> set rd = {}" "set fr \<inter> set bl = {}" using q(4-6) by blast+
  show "queues (enqueue_ready i w) (i # rd) bl fr"
    using enqueue_among [OF q(1,2,3,4,5) i(1-3)] q i by (simp add: queues_def enqueue_ready_def split: prod.split)
  show "queues (enqueue_block i w) rd (i # bl) fr"
    using enqueue_among [OF q(2,1,3) d(1) q(6) i(2,1,3)] q i by (simp add: queues_def enqueue_block_def split: prod.split)
  show "queues (enqueue_free i w) rd bl (i # fr)"
    using enqueue_among [OF q(3,1,2) d(2,3) i(3,1,2)] q i by (simp add: queues_def enqueue_free_def split: prod.split)
qed

lemma dequeue_keeps:
  assumes "queues w rd bl fr"
  shows "i \<in> set rd \<Longrightarrow> loose i (dequeue_ready i w) (remove1 i rd) bl fr"
    "i \<in> set bl \<Longrightarrow> loose i (dequeue_block i w) rd (remove1 i bl) fr"
    "i \<in> set fr \<Longrightarrow> loose i (dequeue_free i w) rd bl (remove1 i fr)"
proof -
  have q: "dlist (q_links w) (request_ready w) rd" "dlist (q_links w) (request_block w) bl" "dlist (q_links w) (request_free w) fr"
    "set rd \<inter> set bl = {}" "set rd \<inter> set fr = {}" "set bl \<inter> set fr = {}" "\<forall>i \<in> set rd \<union> set bl \<union> set fr. i < next_request w"
    using assms by (auto simp: queues_def)
  have d: "set bl \<inter> set rd = {}" "set fr \<inter> set rd = {}" "set fr \<inter> set bl = {}" using q(4-6) by blast+
  have di: "distinct rd" "distinct bl" "distinct fr" using q(1-3) boa_queue.members_distinct by blast+
  then have s: "set (remove1 i rd) = set rd - {i}" "set (remove1 i bl) = set bl - {i}" "set (remove1 i fr) = set fr - {i}"
    by simp_all
  show "loose i (dequeue_ready i w) (remove1 i rd) bl fr" if "i \<in> set rd"
    unfolding loose_def queues_def s using dequeue_among [OF q(1,2,3,4,5) that] q(4-7) that
    by (auto simp: dequeue_ready_def split: prod.split)
  show "loose i (dequeue_block i w) rd (remove1 i bl) fr" if "i \<in> set bl"
    unfolding loose_def queues_def s using dequeue_among [OF q(2,1,3) d(1) q(6) that] q(4-7) that
    by (auto simp: dequeue_block_def split: prod.split)
  show "loose i (dequeue_free i w) rd bl (remove1 i fr)" if "i \<in> set fr"
    unfolding loose_def queues_def s using dequeue_among [OF q(3,1,2) d(2,3) that] q(4-7) that
    by (auto simp: dequeue_free_def split: prod.split)
qed

section \<open>Every operation keeps the queues\<close>

lemma qview_simps [simp]:
  "qview (w\<lparr>srv := x1\<rparr>) = qview w" "qview (w\<lparr>clock := x2\<rparr>) = qview w" "qview (w\<lparr>reqs := x3\<rparr>) = qview w"
  "qview (w\<lparr>status_requests := x4\<rparr>) = qview w" "qview (w\<lparr>status_errors := x5\<rparr>) = qview w"
  "qview (w\<lparr>access_log := x6\<rparr>) = qview w" "qview (w\<lparr>pending_requests := x7\<rparr>) = qview w"
  "qview (w\<lparr>accept_script := x8\<rparr>) = qview w" "qview (w\<lparr>read_set := x9, max_fd := x10\<rparr>) = qview w"
  "qview (w\<lparr>write_set := x9, max_fd := x10\<rparr>) = qview w" "qview (w\<lparr>read_set := x9\<rparr>) = qview w" "qview (w\<lparr>write_set := x9\<rparr>) = qview w"
  "qview (w\<lparr>max_fd := x10\<rparr>) = qview w" "qview (w\<lparr>unav_len_set := x11\<rparr>) = qview w"
  by (simp_all add: qview_def)

lemma qview_ops [simp]:
  "qview (time_now w) = qview w" "qview (snd (wall_clock w)) = qview w" "qview (snd (sys_call w)) = qview w"
  "qview (close_fd n w) = qview w" "qview (set_req i r w) = qview w"
  by (auto simp: time_now_def wall_clock_def sys_call_def close_fd_def set_req_def split: list.split prod.split)

lemma qview_fd_sets [simp]: "qview (BOA_FD_SET n d w) = qview w" "qview (BOA_FD_CLR n d w) = qview w"
  by (cases d; simp)+

lemma sys_call_qview: "sys_call w = (ok, w') \<Longrightarrow> qview w' = qview w"
  using qview_ops(3) [of w] by simp

lemma qview_more [simp]:
  "qview (release_resources i w) = qview w" "qview (log_request i w) = qview w" "qview (tune_sndbuf c w) = qview w"
  "qview (refuse i w) = qview w"
proof -
  show "qview (release_resources i w) = qview w"
    by (simp add: release_resources_def Let_def split: prod.split)
  show "qview (log_request i w) = qview w"
    using qview_ops(2) [of w] by (auto simp: log_request_def Let_def split: prod.split simp del: qview_ops)
  show "qview (tune_sndbuf c w) = qview w"
    by (auto simp: tune_sndbuf_def Let_def dest: sys_call_qview split: prod.split)
  show "qview (refuse i w) = qview w"
    by (simp add: refuse_def Let_def split: prod.split)
qed

lemma queues_update [simp]:
  "queues (w\<lparr>total_connections := n\<rparr>) rd bl fr = queues w rd bl fr" "loose i (w\<lparr>total_connections := n\<rparr>) rd bl fr = loose i w rd bl fr"
  by (simp_all add: queues_def loose_def)

lemma new_request_keeps:
  assumes "queues w rd bl fr" and "new_request w = (i, w')"
  shows "total_connections w' = total_connections w \<and>
    (case i of None \<Rightarrow> queues w' rd bl fr | Some i \<Rightarrow> \<exists>fr'. loose i w' rd bl fr')"
proof (cases "request_free w")
  case None
  obtain ok sv where t: "try_alloc (srv w) = (ok, sv)" by fastforce
  have "\<forall>x \<in> set rd \<union> set bl \<union> set fr. x < next_request w" using assms(1) by (simp add: queues_def)
  then have "\<forall>x \<in> set rd \<union> set bl \<union> set fr. x < Suc (next_request w)" "next_request w \<notin> set rd \<union> set bl \<union> set fr"
    by (meson less_SucI, meson less_irrefl)
  then have "loose (next_request w) (set_req j r (w\<lparr>srv := sv, next_request := next_request w + 1\<rparr>)) rd bl fr" for j r
    using assms(1) by (simp add: queues_def loose_def set_req_def)
  then show ?thesis
    using assms None t queues_frame(1) [of "w\<lparr>srv := sv\<rparr>" w]
    by (auto simp: new_request_def Let_def set_req_def split: if_splits intro!: exI [of _ fr])
next
  case (Some j)
  have "dlist (q_links w) (Some j) fr" using assms(1) Some by (simp add: queues_def)
  then have "j \<in> set fr" using dlist_head by blast
  note l = dequeue_keeps(3) [OF assms(1) this]
  have i: "i = Some j" and q: "qview w' = qview (dequeue_free j w)"
    using assms(2) Some by (auto simp: new_request_def Let_def)
  show ?thesis using l queues_frame(3,4) [OF q] i by auto
qed

lemma drop_connection_keeps:
  assumes "loose i w rd bl fr"
  shows "queues (drop_connection n i w) rd bl (i # fr)" "total_connections (drop_connection n i w) = total_connections w"
proof -
  have "loose i (close_fd n w) rd bl fr" using assms queues_frame(3) [of "close_fd n w" w] by simp
  then show "queues (drop_connection n i w) rd bl (i # fr)" by (simp add: drop_connection_def enqueue_keeps)
  show "total_connections (drop_connection n i w) = total_connections w" by (simp add: drop_connection_def close_fd_def)
qed

text \<open>What accepting a connection does to the queues: nothing, or a new request at the head of the ready ones.\<close>

definition admitted :: "world \<Rightarrow> nat list \<Rightarrow> nat list \<Rightarrow> bool" where
  "admitted w rd bl \<longleftrightarrow> (\<exists>rd' fr'. world_ok w rd' bl fr' \<and> (rd' = rd \<or> (\<exists>i. rd' = i # rd)))"

lemma admit_keeps:
  assumes "loose i w rd bl fr" and "total_connections w = of_nat (length rd + length bl)"
  shows "admitted (admit c i w) rd bl"
proof (cases "ascii_sockaddr (a_remote c) BOA_NI_MAXHOST")
  case None
  then show ?thesis using assms drop_connection_keeps [OF assms(1)] by (auto simp: admit_def admitted_def world_ok_def)
next
  case (Some addr)
  define w1 where "w1 = (let w = set_req i ((reqs w i)\<lparr>remote_ip_addr := addr, remote_port := a_port c\<rparr>) w in w\<lparr>status_requests := status_requests w + 1\<rparr>)"
  define w2 where "w2 = w1\<lparr>total_connections := total_connections w1 + 1\<rparr>"
  define w3 where "w3 = (if unat (total_connections w2) > max_connections (srv w2) then refuse i (w2\<lparr>pending_requests := False\<rparr>) else w2)"
  have q1: "qview w1 = qview w" by (simp add: w1_def Let_def)
  have q3: "qview w3 = qview w2" by (simp add: w3_def)
  have e: "admit c i w = enqueue_ready i w3" using Some by (simp add: admit_def Let_def w1_def w2_def w3_def)
  have "loose i w3 rd bl fr"
    using assms(1) queues_frame(3) [OF q1] queues_frame(3) [OF q3] by (simp add: w2_def)
  then have "queues (admit c i w) (i # rd) bl fr" by (simp add: e enqueue_keeps)
  moreover have "total_connections (admit c i w) = of_nat (length (i # rd) + length bl)"
    using assms(2) queues_frame(4) [OF q1] queues_frame(4) [OF q3] by (simp add: e w2_def)
  ultimately show ?thesis by (auto simp: admitted_def world_ok_def)
qed

lemma setup_connection_keeps:
  assumes "loose i w rd bl fr" and "total_connections w = of_nat (length rd + length bl)"
  shows "admitted (setup_connection c i w) rd bl"
proof -
  have dropped: "admitted (drop_connection n i v) rd bl" if "qview v = qview w" for n v
    using that assms(2) drop_connection_keeps [of i v rd bl fr n] assms(1) queues_frame(3,4) [OF that]
    by (auto simp: admitted_def world_ok_def)
  have admit: "admitted (admit c i v) rd bl" if "qview v = qview w" for v
    using assms(1,2) admit_keeps [of i v rd bl fr c] queues_frame(3,4) [OF that] by simp
  define w1 where "w1 = set_req i ((reqs w i)\<lparr>fd := a_fd c, status := READ_HEADER, header_line := Stream 0,
                         time_last := current_time (srv w), kacount := ka_max (srv w), sock := a_chan c\<rparr>) w"
  have q1: "qview w1 = qview w" by (simp add: w1_def)
  show ?thesis
  proof (cases "ascii_sockaddr (a_local c) BOA_NI_MAXHOST")
    case None
    then show ?thesis using dropped [OF q1, of "a_fd c"] by (simp add: setup_connection_def Let_def flip: w1_def)
  next
    case (Some addr)
    define w2 where "w2 = set_req i ((reqs w1 i)\<lparr>local_ip_addr := addr\<rparr>) w1"
    obtain nb w3 where s3: "sys_call w2 = (nb, w3)" by fastforce
    obtain ce w4 where s4: "sys_call w3 = (ce, w4)" by fastforce
    have q: "qview w3 = qview w" "qview w4 = qview w"
      using sys_call_qview [OF s3] sys_call_qview [OF s4] q1 by (simp_all add: w2_def)
    have "setup_connection c i w = (if \<not> nb then drop_connection (a_fd c) i w3
        else if \<not> ce then drop_connection (a_fd c) i w4 else admit c i (tune_sndbuf c w4))"
      using Some s3 s4 by (simp add: setup_connection_def Let_def flip: w1_def) (simp flip: w2_def)
    then show ?thesis using dropped [OF q(1)] dropped [OF q(2)] admit [of "tune_sndbuf c w4"] q(2) by auto
  qed
qed

lemma get_request_keeps:
  assumes "world_ok w rd bl fr"
  shows "admitted (get_request w) rd bl"
proof -
  have same: "admitted v rd bl" if "qview v = qview w" for v
    using assms queues_frame(2) [OF that] by (auto simp: admitted_def)
  show ?thesis
  proof (cases "\<exists>c q. accept_script w = Accepted c # q")
    case False
    then show ?thesis using same by (auto simp: get_request_def split: list.splits accept_result.splits)
  next
    case True
    then obtain c q where a: "accept_script w = Accepted c # q" by blast
    define w1 where "w1 = w\<lparr>accept_script := q, srv := (srv w)\<lparr>open_fds := a_fd c # open_fds (srv w)\<rparr>\<rparr>"
    have q1: "qview w1 = qview w" by (simp add: w1_def)
    obtain named w2 where s: "sys_call w1 = (named, w2)" by fastforce
    have q2: "qview w2 = qview w" using sys_call_qview [OF s] q1 by simp
    obtain i w3 where n: "new_request w2 = (i, w3)" by fastforce
    have "queues w2 rd bl fr" and t: "total_connections w2 = of_nat (length rd + length bl)"
      using assms(1) queues_frame(1,4) [OF q2] by (auto simp: world_ok_def)
    note k = new_request_keeps [OF this(1) n]
    have e: "get_request w = (if a_fd c \<ge> FD_SETSIZE then close_fd (a_fd c) w1
        else if \<not> named then close_fd (a_fd c) w2
        else case i of None \<Rightarrow> close_fd (a_fd c) w3 | Some i \<Rightarrow> setup_connection c i w3)"
      using a s n by (auto simp: get_request_def w1_def Let_def split: option.split)
    show ?thesis
    proof (cases i)
      case None
      have "world_ok (close_fd (a_fd c) w3) rd bl fr"
        using k None t queues_frame(1,4) [of "close_fd (a_fd c) w3" w3] by (auto simp: world_ok_def)
      then show ?thesis using e None same q1 q2 by (auto simp: admitted_def)
    next
      case (Some j)
      then show ?thesis
        using e same q1 q2 k t setup_connection_keeps [of j w3 rd bl _ c] by auto
    qed
  qed
qed

lemma length_remove1_in: "i \<in> set xs \<Longrightarrow> length xs = Suc (length (remove1 i xs))"
  using length_pos_if_in_set [of i xs] by (simp add: length_remove1)

lemma block_request_keeps:
  assumes "world_ok w rd bl fr" and "i \<in> set rd"
  shows "world_ok (block_request i w) (remove1 i rd) (i # bl) fr"
proof -
  let ?w = "enqueue_block i (dequeue_ready i w)"
  have l: "loose i (dequeue_ready i w) (remove1 i rd) bl fr"
    using assms by (intro dequeue_keeps) (simp_all add: world_ok_def)
  have q: "qview (block_request i w) = qview ?w" by (simp add: block_request_def Let_def split: prod.split)
  have n: "length (remove1 i rd) + length (i # bl) = length rd + length bl" using length_remove1_in [OF assms(2)] by simp
  have "world_ok ?w (remove1 i rd) (i # bl) fr"
    unfolding world_ok_def n using enqueue_keeps(2) [OF l] assms(1) by (simp add: world_ok_def)
  then show ?thesis using queues_frame(2) [OF q] by simp
qed

lemma ready_request_keeps:
  assumes "world_ok w rd bl fr" and "i \<in> set bl"
  shows "world_ok (ready_request i w) (i # rd) (remove1 i bl) fr"
proof -
  let ?w = "enqueue_ready i (dequeue_block i w)"
  have l: "loose i (dequeue_block i w) rd (remove1 i bl) fr"
    using assms by (intro dequeue_keeps) (simp_all add: world_ok_def)
  have q: "qview (ready_request i w) = qview ?w" by (simp add: ready_request_def Let_def split: prod.split)
  have n: "length (i # rd) + length (remove1 i bl) = length rd + length bl" using length_remove1_in [OF assms(2)] by simp
  have "world_ok ?w (i # rd) (remove1 i bl) fr"
    unfolding world_ok_def n using enqueue_keeps(1) [OF l] assms(1) by (simp add: world_ok_def)
  then show ?thesis using queues_frame(2) [OF q] by simp
qed

text \<open>A finished request stays where it is, waits for the next request of its client, or is free.\<close>

definition released :: "nat \<Rightarrow> world \<Rightarrow> nat list \<Rightarrow> nat list \<Rightarrow> nat list \<Rightarrow> bool" where
  "released i w rd bl fr \<longleftrightarrow>
     world_ok w rd bl fr \<or> world_ok w (remove1 i rd) (i # bl) fr \<or> world_ok w (remove1 i rd) bl (i # fr)"

lemma next_on_connection_keeps:
  assumes "loose i w rd bl fr"
  shows "queues (next_on_connection i w) rd (i # bl) fr" "total_connections (next_on_connection i w) = total_connections w"
proof -
  let ?r = "sanitize_request False (srv w) (reqs w i)"
  let ?w = "(set_req i (?r\<lparr>kacount := kacount ?r - 1\<rparr>) w)\<lparr>status_requests := status_requests (set_req i (?r\<lparr>kacount := kacount ?r - 1\<rparr>) w) + 1\<rparr>"
  have q: "qview ?w = qview w" by simp
  have "qview (next_on_connection i w) = qview (enqueue_block i ?w)" by (simp add: next_on_connection_def Let_def)
  then show "queues (next_on_connection i w) rd (i # bl) fr" "total_connections (next_on_connection i w) = total_connections w"
    using enqueue_keeps(2) [of i ?w rd bl fr] assms queues_frame(3,4) [OF q] queues_frame(1,4) [of "next_on_connection i w" "enqueue_block i ?w"]
    by simp_all
qed

lemma close_connection_keeps:
  assumes "loose i w rd bl fr"
  shows "queues (close_connection i w) rd bl (i # fr)" "total_connections (close_connection i w) = total_connections w - 1"
proof -
  define v where "v = (let r = reqs w i;
          w = (if req_method r = M_POST then set_req i (r\<lparr>sock := snd (sys_read (sock r) 32768)\<rparr>) w else w)
      in BOA_FD_CLR (fd r) BOA_WRITE (BOA_FD_CLR (fd r) BOA_READ (close_fd (fd r) w)))"
  have q: "qview v = qview w" by (simp add: v_def Let_def)
  have e: "close_connection i w = enqueue_free i (v\<lparr>total_connections := total_connections v - 1\<rparr>)"
    by (simp add: close_connection_def v_def Let_def)
  show "queues (close_connection i w) rd bl (i # fr)" "total_connections (close_connection i w) = total_connections w - 1"
    using assms queues_frame(3,4) [OF q] by (simp_all add: e enqueue_keeps)
qed

lemma free_request_keeps:
  assumes "world_ok w rd bl fr" and "i \<in> set rd"
  shows "released i (free_request i w) rd bl fr"
proof -
  obtain v r where f: "(if buffer_end (reqs w i) \<noteq> 0 \<and> status (reqs w i) < TIMED_OUT then req_flush ((reqs w i)\<lparr>status := DONE\<rparr>)
      else (0, reqs w i)) = (v, r)" by fastforce
  define w1 where "w1 = set_req i (if v = -2 then r\<lparr>status := DEAD\<rparr> else r) w"
  have q1: "qview w1 = qview w" by (simp add: w1_def)
  show ?thesis
  proof (cases "v > 0")
    case True
    then have "free_request i w = w1" using f by (simp add: free_request_def Let_def w1_def)
    then show ?thesis using assms(1) queues_frame(2) [OF q1] by (simp add: released_def)
  next
    case False
    define w2 where "w2 = release_resources i (log_request i (set_req i
      (let r = (if v = -2 then r\<lparr>status := DEAD\<rparr> else r)
       in if status r = TIMED_OUT \<and> response_status r = 0 then r\<lparr>response_status := 408\<rparr> else r) (dequeue_ready i w1)))"
    have e: "free_request i w = (if keeps_alive (reqs w2 i) then next_on_connection i w2 else close_connection i w2)"
      using f False by (simp add: free_request_def Let_def w1_def w2_def)
    have "queues w1 rd bl fr" and t: "total_connections w1 = of_nat (length rd + length bl)"
      using assms(1) queues_frame(1,4) [OF q1] by (auto simp: world_ok_def)
    then have "loose i (dequeue_ready i w1) (remove1 i rd) bl fr" using assms(2) by (intro dequeue_keeps)
    moreover have q2: "qview w2 = qview (dequeue_ready i w1)" by (simp add: w2_def)
    ultimately have l: "loose i w2 (remove1 i rd) bl fr" and t2: "total_connections w2 = of_nat (length rd + length bl)"
      using queues_frame(3,4) [OF q2] t by simp_all
    have len: "length rd = Suc (length (remove1 i rd))" using assms(2) by (rule length_remove1_in)
    show ?thesis
      using e next_on_connection_keeps [OF l] close_connection_keeps [OF l] t2 len by (auto simp: released_def world_ok_def)
  qed
qed

text \<open>The pointer to go on with is the next request of the queue.\<close>

lemma dlist_next: "dlist h q (pre @ i # post) \<Longrightarrow> q_next h i = (case post of [] \<Rightarrow> None | x # _ \<Rightarrow> Some x)"
  by (cases post) (auto simp: dlist_def dseg_append)

lemma dseg_unique: "dseg h p q xs p1 None \<Longrightarrow> dseg h p q ys p2 None \<Longrightarrow> xs = ys"
proof (induction xs arbitrary: ys p q)
  case Nil
  then show ?case by (cases ys) auto
next
  case (Cons x xs)
  then show ?case by (cases ys) auto
qed

lemma dlist_unique: "dlist h q xs \<Longrightarrow> dlist h q ys \<Longrightarrow> xs = ys"
  unfolding dlist_def using dseg_unique by blast

definition first_of :: "nat list \<Rightarrow> nat option" where
  "first_of xs = (case xs of [] \<Rightarrow> None | x # _ \<Rightarrow> Some x)"

lemma dlist_first: "dlist h q xs \<Longrightarrow> q = first_of xs"
  by (cases xs) (auto simp: dlist_def first_of_def)

lemma process_step_keeps:
  assumes "world_ok w (pre @ i # post) bl fr" and "process_step i w = Some (cur, w')"
  shows "cur = first_of post \<and> (\<exists>pre' bl' fr'. world_ok w' (pre' @ post) bl' fr')"
proof -
  obtain v r sv where sv: "serve (reqs (time_now w) i) (srv (time_now w)) = Some (v, r, sv)"
    using assms(2) by (auto simp: process_step_def Let_def split: option.splits)
  define w1 where "w1 = set_req i (if sigterm_flag (time_now w) \<noteq> 0 then SQUASH_KA r else r) ((time_now w)\<lparr>srv := sv\<rparr>)"
  note step = assms(2) [unfolded process_step_def Let_def sv option.case prod.case w1_def [symmetric]]
  define w2 where "w2 = (if pending_requests w1 then get_request w1 else w1)"
  let ?now = "set_req i ((reqs w2 i)\<lparr>time_last := current_time (srv w2)\<rparr>) w2"
  have e: "(cur, w') = (q_next (q_links w2) i,
      if v = -1 then block_request i w2 else if v = 0 then free_request i ?now
      else if v = 1 then ?now else set_req i ((reqs w2 i)\<lparr>status := DEAD\<rparr>) w2)"
    using step by (auto simp flip: w2_def split: if_splits)
  have q1: "qview w1 = qview w" by (simp add: w1_def)
  have "world_ok w1 (pre @ i # post) bl fr" using assms(1) queues_frame(2) [OF q1] by simp
  then have "admitted w2 (pre @ i # post) bl" using get_request_keeps by (auto simp: admitted_def w2_def)
  then obtain pre2 fr2 where ok2: "world_ok w2 (pre2 @ i # post) bl fr2"
    unfolding admitted_def by (metis append_Cons)
  then have "dlist (q_links w2) (request_ready w2) (pre2 @ i # post)" by (simp add: world_ok_def queues_def)
  then have cur: "cur = first_of post" and "distinct (pre2 @ i # post)"
    using e dlist_next by (auto simp: first_of_def dlist_def)
  then have r1: "remove1 i (pre2 @ i # post) = pre2 @ post" by (simp add: remove1_append)
  have i: "i \<in> set (pre2 @ i # post)" by simp
  have same: "world_ok (set_req i x w2) (pre2 @ i # post) bl fr2" for x
    using ok2 queues_frame(2) [of "set_req i x w2" w2] by simp
  have stay: "\<exists>pre'. world_ok z (pre' @ post) b f" if "world_ok z (pre2 @ i # post) b f" for z b f
    using that by (intro exI [of _ "pre2 @ [i]"]) simp
  have "\<exists>pre' bl' fr'. world_ok w' (pre' @ post) bl' fr'"
    using e block_request_keeps [OF ok2 i] free_request_keeps [OF same i] same stay
    unfolding released_def r1 by (fastforce split: if_splits)
  then show ?thesis using cur by simp
qed

section \<open>One pass over the ready requests\<close>

text \<open>The reference: one round for each request of a list.\<close>

fun serve_all :: "nat list \<Rightarrow> world \<Rightarrow> world option" where
  "serve_all [] w = Some w"
| "serve_all (i # xs) w = (case process_step i w of None \<Rightarrow> None | Some (cur, w) \<Rightarrow> serve_all xs w)"

lemma process_loop:
  assumes "world_ok w (pre @ post) bl fr"
  shows "while_option (\<lambda>s. case s of Some (Some i, w) \<Rightarrow> True | _ \<Rightarrow> False)
     (\<lambda>s. case s of Some (Some i, w) \<Rightarrow> process_step i w | _ \<Rightarrow> s) (Some (first_of post, w)) =
     Some (map_option (Pair None) (serve_all post w))"
  using assms
proof (induction post arbitrary: pre w bl fr)
  case Nil
  then show ?case by (subst while_option_unfold) (simp add: first_of_def)
next
  case (Cons i xs)
  show ?case
  proof (cases "process_step i w")
    case None
    then show ?thesis
      by (subst while_option_unfold) (simp add: first_of_def while_option_unfold [of _ _ None])
  next
    case (Some p)
    then obtain cur w' where p: "process_step i w = Some (cur, w')" by (cases p) auto
    from process_step_keeps [OF Cons.prems p]
    obtain pre' bl' fr' where cur: "cur = first_of xs" and ok: "world_ok w' (pre' @ xs) bl' fr'" by blast
    from Cons.IH [OF ok] p cur show ?thesis
      by (subst while_option_unfold) (simp add: first_of_def)
  qed
qed

lemma serve_all_keeps:
  "world_ok w (pre @ post) bl fr \<Longrightarrow> serve_all post w = Some w' \<Longrightarrow> \<exists>rd' bl' fr'. world_ok w' rd' bl' fr'"
proof (induction post arbitrary: pre w bl fr)
  case (Cons i xs)
  then obtain cur w1 where p: "process_step i w = Some (cur, w1)" and s: "serve_all xs w1 = Some w'"
    by (auto split: option.splits)
  from process_step_keeps [OF Cons.prems(1) p] Cons.IH s show ?case by blast
qed auto

definition accept_first :: "world \<Rightarrow> world" where
  "accept_first w = (if pending_requests w then get_request w else w)"

lemma accept_first_keeps: "world_ok w rd bl fr \<Longrightarrow> admitted (accept_first w) rd bl"
  using get_request_keeps by (auto simp: accept_first_def admitted_def)

lemma process_requests_eq:
  assumes "world_ok w rd bl fr" and "dlist (q_links (accept_first w)) (request_ready (accept_first w)) rd1"
  shows "process_requests w = Some (serve_all rd1 (accept_first w))"
proof -
  obtain rd2 fr2 where ok: "world_ok (accept_first w) rd2 bl fr2" using accept_first_keeps [OF assms(1)] by (auto simp: admitted_def)
  have "rd2 = rd1"
    using ok assms(2) dlist_unique by (auto simp: world_ok_def queues_def)
  then have "world_ok (accept_first w) ([] @ rd1) bl fr2" using ok by simp
  from process_loop [OF this] show ?thesis
    using dlist_first [OF assms(2)] unfolding process_requests_def accept_first_def [symmetric] Let_def
    by (simp add: option.map_comp comp_def option.map_ident)
qed

section \<open>The next request on a connection\<close>

lemma zero_request_fields [simp]:
  "status (zero_request r) = READ_HEADER" "data_fd (zero_request r) = 0" "post_data_fd (zero_request r) = 0"
  "parse_pos (zero_request r) = 0" "buffer_start (zero_request r) = 0" "buffer_end (zero_request r) = 0"
  "data_mem (zero_request r) = None" "header_end (zero_request r) = Null"
  "client_stream (zero_request r) = client_stream r" "client_stream_pos (zero_request r) = client_stream_pos r"
  "buffer (zero_request r) = buffer r" "fd (zero_request r) = fd r"
  by (simp_all add: zero_request_def)

text \<open>The bytes of the stream that were read and not parsed.\<close>

definition unparsed :: "request \<Rightarrow> string" where
  "unparsed r = drop (parse_pos r) (take (client_stream_pos r) (client_stream r))"

lemma unparsed_moved:
  assumes "stream_ok r" and "r' = sanitize_request False sv r"
  shows "client_stream_pos r' = length (unparsed r)" "unparsed r' = unparsed r" "parse_pos r' = 0" "stream_ok r'"
proof -
  let ?n = "client_stream_pos r - parse_pos r"
  have b: "parse_pos r \<le> client_stream_pos r" "client_stream_pos r \<le> length (client_stream r)" "length (client_stream r) \<le> CLIENT_STREAM_SIZE"
    using assms(1) by (simp_all add: stream_ok_def)
  have n: "nat ((int (client_stream_pos r) - int (parse_pos r)) mod 2 ^ 32) = ?n"
    using b by (simp add: CLIENT_STREAM_SIZE_def flip: of_nat_diff)
  have u: "take ?n (drop (parse_pos r) (client_stream r)) = unparsed r" by (simp add: unparsed_def drop_take)
  have len: "length (unparsed r) = ?n" using b by (simp add: unparsed_def)
  have r': "client_stream_pos r' = ?n" "client_stream r' = blit (client_stream r) 0 (unparsed r)" "parse_pos r' = 0"
    unfolding assms(2) by (simp_all add: sanitize_request_def Let_def n [simplified] u)
  show "client_stream_pos r' = length (unparsed r)" "parse_pos r' = 0" using r' len by simp_all
  have t: "take ?n (client_stream r') = unparsed r" using blit_exact [of 0 "client_stream r" "unparsed r"] by (simp add: r'(2) len)
  show "unparsed r' = unparsed r" unfolding unparsed_def [of r'] r'(1,3) t by simp
  show "stream_ok r'" using b len r' by (auto simp: stream_ok_def length_blit)
qed

text \<open>
  When the last output of a request cannot be sent at once, \<open>free_request\<close> gives the request up with that output
  still in the buffer, unlike the round for the state \<open>DONE\<close>, which waits until the socket is ready.
\<close>

lemma free_request_loses:
  assumes "status (reqs w i) < TIMED_OUT" and "buf_ok (reqs w i)" and "pending (reqs w i) \<noteq> []"
    and "ch_writes (sock (reqs w i)) = []" and "keepalive (reqs w i) \<noteq> KA_ACTIVE" and "ranges (reqs w i) = []"
    and "req_method (reqs w i) \<noteq> M_POST"
  shows "request_free (free_request i w) = Some i \<and> pending (reqs (free_request i w) i) = pending (reqs w i)"
proof -
  let ?r = "(reqs w i)\<lparr>status := DONE\<rparr>"
  have len: "length (pending (reqs w i)) = buffer_end (reqs w i) - buffer_start (reqs w i)" using length_pending [OF assms(2)] .
  moreover have "0 < length (pending (reqs w i))" using assms(3) by simp
  ultimately have n: "buffer_end (reqs w i) \<noteq> 0" "bytes_pending ?r \<noteq> 0"
    using bytes_pending_eq [OF assms(2)] by (linarith, simp add: bytes_pending_def)
  have f: "req_flush ?r = (-1, ?r\<lparr>sock := sock ?r\<rparr>)"
    using n(2) assms(4) by (simp add: req_flush_def Let_def sys_write_def status_order)
  define w1 where "w1 = set_req i ?r (dequeue_ready i (set_req i ?r w))"
  have logged: "reqs (log_request i w1) = reqs w1"
    by (auto simp: log_request_def Let_def wall_clock_def split: prod.splits list.splits)
  have clr: "reqs (BOA_FD_CLR m d v) = reqs v" for m d v by (cases d) simp_all
  have r1: "reqs w1 i = ?r" by (simp add: w1_def set_req_def)
  have rel: "reqs (release_resources i (log_request i w1)) i = ?r"
    using assms(6) by (simp add: release_resources_def Let_def logged r1 clr close_fd_def)
  have e: "free_request i w = close_connection i (release_resources i (log_request i w1))"
    using n(1) assms(1,5) by (simp add: free_request_def Let_def f rel keeps_alive_def flip: w1_def)
  have "reqs (free_request i w) i = ?r"
    using rel assms(7) by (simp add: e close_connection_def Let_def enqueue_free_def clr close_fd_def split: prod.split)
  then show ?thesis
    by (simp add: pending_def) (simp add: e close_connection_def Let_def enqueue_free_def enqueue_def)
qed

section \<open>A connection above the limit\<close>

text \<open>Plain text that fits goes to the buffer, and a flush to a peer that is there leaves the state alone.\<close>

definition plain_pieces :: "piece list \<Rightarrow> bool" where
  "plain_pieces ps \<longleftrightarrow> (\<forall>x \<in> set ps. \<exists>t. x = Plain t)"

definition sends_plain :: "request \<Rightarrow> request \<Rightarrow> string \<Rightarrow> bool" where
  "sends_plain r r' t \<longleftrightarrow> (\<exists>ps. r' = flush (emits ps r) \<and> plain_pieces ps \<and> text_of ps = t)"

lemma sends_plainI: "plain_pieces ps \<Longrightarrow> text_of ps = t \<Longrightarrow> sends_plain r (flush (emits ps r)) t"
  by (auto simp: sends_plain_def)

lemma plain_pieces_simps [simp]:
  "plain_pieces []" "plain_pieces (Plain t # ps) = plain_pieces ps" "plain_pieces (ps @ qs) \<longleftrightarrow> plain_pieces ps \<and> plain_pieces qs"
  "plain_pieces (header_pieces sv r)"
  by (auto simp: plain_pieces_def header_pieces_def ka_pieces_def)

lemma emits_plain:
  assumes "plain_pieces ps" and "status r \<le> DONE" and "buffer_end r + length (text_of ps) \<le> BUFFER_SIZE"
  shows "status (emits ps r) = status r"
  using assms
proof (induction ps arbitrary: r)
  case (Cons x ps)
  then obtain t where x: "x = Plain t" and ps: "plain_pieces ps" by (auto simp: plain_pieces_def)
  have "status (wr t r) = status r" "buffer_end (wr t r) = buffer_end r + length t"
    using Cons.prems(2,3) by (auto simp: x wr_def req_write_def Let_def)
  then show ?case using Cons.IH [OF ps, of "wr t r"] Cons.prems by (simp add: x emits_def)
qed (simp add: emits_Nil)

lemma flush_alive:
  assumes "\<forall>e. Write_error e \<notin> set (ch_writes (sock r))"
  shows "status (flush r) = status r"
  using assms
  by (auto simp: flush_def req_flush_def Let_def sys_write_def split: list.splits write_result.splits)

lemma unav_plain:
  assumes "http_version r = HTTP10" and "req_method r = M_GET"
  shows "sends_plain (closing (E_service_unavailable b) r) (send_r_service_unavailable sv b r) (err_text (E_service_unavailable b) sv r)"
  by (cases b; simp add: assms err_defs closing_eqs printers Let_def err_text_def closing_eqs_arg(1) [of r b] err_headers_def err_page_lengths SQUASH_KA_fields;
      rule sends_plainI; simp add: header_text_closing err_page_def err_decimals body_503_def simple_itoa_eq)

lemma unav_fits:
  assumes "http_version r = HTTP10" and "0 \<le> tm_year (gmtime (current_time sv))" and "tm_year (gmtime (current_time sv)) < 8100"
  shows "length (err_text (E_service_unavailable b) sv r) \<le> BUFFER_SIZE"
proof -
  have "length (rfc822_time_buf (current_time sv) 0) = 29" using assms(2,3) by (intro length_rfc822_time_buf) simp_all
  moreover have "length (decimal 185) \<le> 3" by (rule length_decimal) simp_all
  ultimately show ?thesis
    using assms(1)
    by (cases b; simp add: err_text_def closing_headers_def err_headers_def err_page_lengths err_decimals BUFFER_SIZE_def SERVER_VERSION_def HTML_def)
qed

lemma unav_sent:
  assumes "buf_ok r" and "buffer_end r = 0" and "status r \<le> DONE" and "http_version r = HTTP10" and "req_method r = M_GET"
    and "\<forall>e. Write_error e \<notin> set (ch_writes (sock r))"
    and "0 \<le> tm_year (gmtime (current_time sv))" and "tm_year (gmtime (current_time sv)) < 8100"
  shows "req_output (send_r_service_unavailable sv b r) = req_output r @ err_text (E_service_unavailable b) sv r"
proof -
  let ?r = "closing (E_service_unavailable b) r"
  obtain ps where ps: "send_r_service_unavailable sv b r = flush (emits ps ?r)" "plain_pieces ps"
    "text_of ps = err_text (E_service_unavailable b) sv r"
    using unav_plain [OF assms(4,5)] by (auto simp: sends_plain_def)
  have c: "status ?r = status r" "buffer_end ?r = 0" "sock ?r = sock r" using assms(2) by (simp_all add: closing_def SQUASH_KA_def)
  have "status (emits ps ?r) = status r" using emits_plain [OF ps(2), of ?r] unav_fits [OF assms(4,7,8)] assms(3) c ps(3) by simp
  moreover have "status (flush (emits ps ?r)) = status (emits ps ?r)" using assms(6) c(3) by (intro flush_alive) simp
  ultimately have "status (err_send (E_service_unavailable b) sv r) \<le> DONE" using assms(3) ps(1) by simp
  then show ?thesis using sends_result [OF err_send_sends, of "E_service_unavailable b" r sv] assms(1,3) by (simp add: closing_ok)
qed

text \<open>When no call fails, a connection gets a request of its own that says who is connected.\<close>

lemma new_request_fresh:
  assumes "queues w rd bl fr" and "alloc_script (srv w) = []"
  obtains i w' fr' where "new_request w = (Some i, w')" "loose i w' rd bl fr'" "reqs w' i = sanitize_request True (srv w) (reqs w i)"
    "srv w' = srv w" "total_connections w' = total_connections w" "unav_len_set w' = unav_len_set w"
proof -
  obtain i w' where n: "new_request w = (i, w')" by fastforce
  have s: "try_alloc (srv w) = (True, srv w)" using assms(2) by (simp add: try_alloc_def)
  have "\<exists>j. i = Some j \<and> reqs w' j = sanitize_request True (srv w) (reqs w j) \<and> srv w' = srv w \<and> unav_len_set w' = unav_len_set w"
    using n s by (auto simp: new_request_def Let_def set_req_def dequeue_free_def split: option.splits prod.splits)
  then show thesis using that new_request_keeps [OF assms(1) n] n by auto
qed

lemma sys_call_succeeds: "sys_script (srv w) = [] \<Longrightarrow> sys_call w = (True, w)"
  by (simp add: sys_call_def try_sys_def)

lemma tune_sndbuf_succeeds:
  assumes "sys_script (srv w) = []"
  obtains n where "tune_sndbuf c w = w\<lparr>srv := (srv w)\<lparr>system_bufsize := n\<rparr>\<rparr>"
proof -
  have "\<exists>n. tune_sndbuf c w = w\<lparr>srv := (srv w)\<lparr>system_bufsize := n\<rparr>\<rparr>"
    using assms
    by (auto simp: tune_sndbuf_def Let_def sys_call_succeeds intro: exI [of _ "system_bufsize (srv w)"] exI [of _ "a_sndbuf c"])
  then show thesis using that by blast
qed

definition set_up :: "connection \<Rightarrow> server \<Rightarrow> request \<Rightarrow> request" where
  "set_up c sv r = r\<lparr>fd := a_fd c, status := READ_HEADER, header_line := Stream 0, time_last := current_time sv,
     kacount := ka_max sv, sock := a_chan c, local_ip_addr := a_local c, remote_ip_addr := a_remote c, remote_port := a_port c\<rparr>"

lemma set_up_over_limit:
  assumes "loose i w rd bl fr" and "sys_script (srv w) = []"
    and "length (a_local c) < BOA_NI_MAXHOST" and "length (a_remote c) < BOA_NI_MAXHOST"
    and "max_connections (srv w) < unat (total_connections w + 1)"
  obtains v n where "setup_connection c i w = enqueue_ready i (refuse i v)" "reqs v i = set_up c (srv w) (reqs w i)"
    "srv v = (srv w)\<lparr>system_bufsize := n\<rparr>" "unav_len_set v = unav_len_set w" "\<not> pending_requests v"
    "loose i v rd bl fr" "total_connections v = total_connections w + 1"
proof -
  let ?r = "(reqs w i)\<lparr>fd := a_fd c, status := READ_HEADER, header_line := Stream 0,
                         time_last := current_time (srv w), kacount := ka_max (srv w), sock := a_chan c\<rparr>"
  define w1 where "w1 = set_req i (?r\<lparr>local_ip_addr := a_local c\<rparr>) (set_req i ?r w)"
  have w1: "srv w1 = srv w" "total_connections w1 = total_connections w" "qview w1 = qview w" "unav_len_set w1 = unav_len_set w"
    by (simp_all add: w1_def set_req_def)
  obtain n where n: "tune_sndbuf c w1 = w1\<lparr>srv := (srv w1)\<lparr>system_bufsize := n\<rparr>\<rparr>"
    using tune_sndbuf_succeeds [of w1 c] assms(2) w1(1) by auto
  let ?w = "w1\<lparr>srv := (srv w1)\<lparr>system_bufsize := n\<rparr>\<rparr>"
  have s: "setup_connection c i w = admit c i ?w"
    using assms(2,3) w1(1) n by (simp add: setup_connection_def Let_def ascii_sockaddr_def sys_call_succeeds w1_def set_req_def)
  define u where "u = set_req i ((reqs w1 i)\<lparr>remote_ip_addr := a_remote c, remote_port := a_port c\<rparr>) ?w"
  define v where "v = u\<lparr>status_requests := status_requests u + 1, total_connections := total_connections u + 1, pending_requests := False\<rparr>"
  have u: "srv u = (srv w)\<lparr>system_bufsize := n\<rparr>" "total_connections u = total_connections w" "unav_len_set u = unav_len_set w"
    "reqs u i = set_up c (srv w) (reqs w i)" "qview u = qview w"
    using w1 by (simp_all add: u_def set_req_def set_up_def) (simp add: w1_def set_req_def)
  have e: "setup_connection c i w = enqueue_ready i (refuse i v)"
    using assms(4,5) u(1,2) unfolding s admit_def by (simp add: ascii_sockaddr_def Let_def v_def flip: u_def)
  have l: "loose i v rd bl fr" using assms(1) queues_frame(3) [OF u(5), of i rd bl fr] unfolding v_def loose_def queues_def by simp
  show thesis by (rule that [OF e _ _ _ _ l]) (simp_all add: v_def u)
qed

lemma refuse_answers:
  assumes "buf_ok (reqs w i)" and "buffer_end (reqs w i) = 0" and "status (reqs w i) \<le> DONE"
    and "\<forall>e. Write_error e \<notin> set (ch_writes (sock (reqs w i)))" and "alloc_script (srv w) = []"
    and "0 \<le> tm_year (gmtime (current_time (srv w)))" and "tm_year (gmtime (current_time (srv w))) < 8100"
  shows "let r = reqs (refuse i w) i in
     fd r = fd (reqs w i) \<and> status r = DONE \<and> response_status r = R_SERVICE_UNAV \<and> keepalive r = KA_STOPPED \<and> buf_ok r \<and>
     http_version r = HTTP10 \<and> req_method r = M_GET \<and>
     req_output r = req_output (reqs w i) @ err_text (E_service_unavailable True) (srv w) r"
proof -
  let ?h = "(reqs w i)\<lparr>http_version := HTTP10, req_method := M_GET\<rparr>"
  let ?s = "send_r_service_unavailable (srv w) True ?h"
  have b: "buf_ok ?h" "req_output ?h = req_output (reqs w i)" using assms(1) by (simp_all add: buf_ok_def req_output_def pending_def)
  have "try_alloc (srv w) = (True, srv w)" using assms(5) by (simp add: try_alloc_def)
  then have e: "reqs (refuse i w) i = ?s\<lparr>status := DONE\<rparr>" by (simp add: refuse_def Let_def set_req_def)
  note f = responds_fields [OF responds_all(18) [of ?h "srv w" True]]
  have k: "keepalive ?s = KA_STOPPED"
    using sends_result [OF err_send_sends, of "E_service_unavailable True" ?h "srv w"] b(1) assms(3) by (simp add: closing_ok)
  have "req_output ?s = req_output (reqs w i) @ err_text (E_service_unavailable True) (srv w) ?h"
    using unav_sent [of ?h "srv w" True] b assms(2-7) by simp
  moreover have "err_text (E_service_unavailable True) (srv w) (?s\<lparr>status := DONE\<rparr>) = err_text (E_service_unavailable True) (srv w) ?h"
    using f by (simp add: err_text_def err_page_def err_headers_def)
  moreover have "buf_ok (?s\<lparr>status := DONE\<rparr>)" "req_output (?s\<lparr>status := DONE\<rparr>) = req_output ?s"
    using f(4) b(1) by (simp_all add: buf_ok_def req_output_def pending_def)
  ultimately show ?thesis using f k by (simp add: e)
qed

section \<open>Properties\<close>

definition example_world :: world where
  "example_world = \<lparr>srv = example_server, log_cfg = example_log, reqs = (\<lambda>i. example_request),
     q_links = \<lparr>q_next = [0 \<mapsto> 1], q_prev = [1 \<mapsto> 0]\<rparr>, request_ready = Some 0, request_block = None, request_free = None,
     next_request = 2, total_connections = 2, pending_requests = False, sigterm_flag = 0, status_requests = 2,
     status_errors = 0, unav_len_set = False, read_set = [], write_set = [], max_fd = -1, server_s = Some 4, accept_script = [],
     select_script = [], clock = [], access_log = []\<rparr>"

lemma example_world_ok: "world_ok example_world [0, 1] [] []" "accept_first example_world = example_world"
  by (simp_all add: world_ok_def queues_def dlist_def example_world_def accept_first_def)

text \<open>C2: A pass over the ready requests ends, although the queue changes while it is walked: requests
  leave it, new connections enter it. The walk along the links is one round for each request that was ready when
  it began, in the order of the queue, with at most one connection accepted before; it ends early only when the process does.
\<close>

theorem process_requests_visits:
  assumes "world_ok w rd bl fr"
  shows "\<exists>rd1. (rd1 = rd \<or> (\<exists>i. rd1 = i # rd)) \<and> dlist (q_links (accept_first w)) (request_ready (accept_first w)) rd1 \<and>
     process_requests w = Some (serve_all rd1 (accept_first w))"
proof -
  from accept_first_keeps [OF assms] obtain rd1 fr1
    where "world_ok (accept_first w) rd1 bl fr1" and new: "rd1 = rd \<or> (\<exists>i. rd1 = i # rd)" by (auto simp: admitted_def)
  then have d: "dlist (q_links (accept_first w)) (request_ready (accept_first w)) rd1" by (simp add: world_ok_def queues_def)
  then show ?thesis using new process_requests_eq [OF assms d] by auto
qed

theorem process_requests_visits_witness:
  "\<exists>rd1. (rd1 = [0, 1] \<or> (\<exists>i. rd1 = [i, 0, 1])) \<and> dlist (q_links example_world) (request_ready example_world) rd1 \<and>
     process_requests example_world = Some (serve_all rd1 example_world)"
  using process_requests_visits [OF example_world_ok(1)] unfolding example_world_ok(2) .

text \<open>The bookkeeping of connections. Whatever the handlers do, a pass over the ready requests leaves three consistent doubly linked queues
  without common members, and the counter of connections, a machine word, counts the requests that are ready or
  blocked: none is lost, counted twice or left in two queues.
\<close>

theorem process_requests_accounts:
  assumes "world_ok w rd bl fr" and "process_requests w = Some (Some w')"
  shows "\<exists>rd' bl' fr'. queues w' rd' bl' fr' \<and> total_connections w' = of_nat (length rd' + length bl')"
proof -
  from accept_first_keeps [OF assms(1)] obtain rd1 fr1 where ok: "world_ok (accept_first w) ([] @ rd1) bl fr1" by (auto simp: admitted_def)
  then have d: "dlist (q_links (accept_first w)) (request_ready (accept_first w)) rd1" by (simp add: world_ok_def queues_def)
  have "serve_all rd1 (accept_first w) = Some w'" using process_requests_eq [OF assms(1) d] assms(2) by simp
  from serve_all_keeps [OF ok this] show ?thesis by (simp add: world_ok_def)
qed

theorem process_requests_accounts_witness:
  "\<exists>w' rd' bl' fr'. process_requests (example_world\<lparr>request_ready := None, total_connections := 0\<rparr>) = Some (Some w') \<and>
     queues w' rd' bl' fr' \<and> total_connections w' = of_nat (length rd' + length bl')"
proof -
  let ?w = "example_world\<lparr>request_ready := None, total_connections := 0\<rparr>"
  have ok: "world_ok ?w [] [] []" by (simp add: world_ok_def queues_def dlist_def example_world_def)
  have p: "process_requests ?w = Some (Some ?w)"
    by (subst process_requests_eq [OF ok, of "[]"]) (simp_all add: accept_first_def example_world_def dlist_def)
  show ?thesis using process_requests_accounts [OF ok p] p by blast
qed

text \<open>The fields that stand before \<open>fd\<close> in the structure, as a new connection has them, and the fields that stand for the connection.\<close>

definition clean_request :: "request \<Rightarrow> bool" where
  "clean_request r \<longleftrightarrow>
     status r = READ_HEADER \<and> keepalive r = KA_INACTIVE \<and> http_version r = HTTP_NONE \<and> req_method r = M_NONE \<and>
     response_status r = 0 \<and> cgi_type r = CGI_NONE \<and> cgi_status r = CGI_PARSE \<and>
     ranges r = [] \<and> numranges r = 0 \<and> data_fd r = 0 \<and> post_data_fd r = 0 \<and>
     filesize r = 0 \<and> filepos r = 0 \<and> bytes_written r = 0 \<and> last_modified r = 0 \<and>
     data_mem r = None \<and> mmap_entry_var r = None \<and>
     header_line r = Stream 0 \<and> header_end r = Null \<and> parse_pos r = 0 \<and>
     buffer_start r = 0 \<and> buffer_end r = 0 \<and> cgi_env_index r = 0 \<and>
     (\<forall>field \<in> {pathname, logline, if_modified_since, header_host, header_user_agent, header_referer, header_ifrange, host,
        path_info, path_translated, script_name, query_string, content_type, content_length}. field r = None)"

definition connection_fields :: "request \<Rightarrow> nat \<times> int \<times> string \<times> string \<times> 32 word \<times> nat \<times> chan" where
  "connection_fields r = (fd r, time_last r, local_ip_addr r, remote_ip_addr r, remote_port r, kacount r, sock r)"

text \<open>C23: The next request on a kept connection starts clean: every byte the client sent behind the last request is kept, in order,
  at the start of the stream; every field that belongs to a request has the value it has for the first request of a connection, so that no path,
  header, range, descriptor, map or output of the last request is left; the fields of the connection stay; and the state is
  one that \<open>read_header\<close> can start from.
\<close>

theorem keepalive_starts_clean:
  assumes "stream_ok r" and "length (buffer r) \<le> BUFFER_SIZE + 1" and "fds_ok sv" and "files_small sv" and "next_fd sv > 0"
  shows "let r' = sanitize_request False sv r in
     take (client_stream_pos r') (client_stream r') = drop (parse_pos r) (take (client_stream_pos r) (client_stream r)) \<and>
     clean_request r' \<and> connection_fields r' = connection_fields r \<and> reading r' sv"
proof -
  define r' where "r' = sanitize_request False sv r"
  note m = unparsed_moved [OF assms(1) r'_def]
  have "take (client_stream_pos r') (client_stream r') = unparsed r" using m(2,3) by (simp add: unparsed_def)
  moreover have "clean_request r'" by (simp add: clean_request_def r'_def sanitize_request_def zero_request_def Let_def)
  moreover have "connection_fields r' = connection_fields r"
    by (simp add: connection_fields_def r'_def sanitize_request_def zero_request_def Let_def)
  moreover have "fresh r' sv"
    using assms(2-5) by (simp add: fresh_def buf_ok_def r'_def sanitize_request_def Let_def)
  moreover have "header_line r' = Stream 0" "header_end r' = Null" by (simp_all add: r'_def sanitize_request_def Let_def)
  ultimately show ?thesis using m(4) by (simp add: unparsed_def reading_def flip: r'_def)
qed

theorem keepalive_starts_clean_witness:
  "let r = example_request\<lparr>client_stream := ''GET'', client_stream_pos := 3, parse_pos := 1, pathname := Some ''/x''\<rparr>;
       r' = sanitize_request False example_server r
   in take (client_stream_pos r') (client_stream r') = ''ET'' \<and> pathname r' = None \<and> reading r' example_server"
proof -
  let ?r = "example_request\<lparr>client_stream := ''GET'', client_stream_pos := 3, parse_pos := 1, pathname := Some ''/x''\<rparr>"
  have f: "stream_ok ?r" "length (buffer ?r) \<le> BUFFER_SIZE + 1" "fds_ok example_server" "files_small example_server" "next_fd example_server > 0"
    by (simp_all add: stream_ok_def example_request_def CLIENT_STREAM_SIZE_def fds_ok_def example_server_def files_small_def)
  from keepalive_starts_clean [OF f] show ?thesis by (simp add: Let_def clean_request_def)
qed

text \<open>C20: A connection above the limit is answered, not served: when every call succeeds and the peer does not fail, accepting it gives it
  a request of its own at the head of the ready ones, the queues and the counter stay those of three disjoint lists, no further
  connection is accepted in this turn, and the request is finished, with the code 503 and without keep-alive; what the client has received and has yet to
  receive is exactly the page 503 with the headers of HTTP/1.0.\<close>
theorem over_limit_refused:
  assumes "world_ok w rd bl fr" and "accept_script w = Accepted c # q" and "max_connections (srv w) < unat (total_connections w + 1)"
    and "a_fd c < FD_SETSIZE" and "length (a_local c) < BOA_NI_MAXHOST" and "length (a_remote c) < BOA_NI_MAXHOST"
    and "sys_script (srv w) = []" and "alloc_script (srv w) = []" and "\<forall>e. Write_error e \<notin> set (ch_writes (a_chan c))"
    and "\<forall>i. length (buffer (reqs w i)) \<le> BUFFER_SIZE + 1"
    and "0 \<le> tm_year (gmtime (current_time (srv w)))" and "tm_year (gmtime (current_time (srv w))) < 8100"
  shows "\<exists>i fr'. let w' = get_request w; r = reqs w' i in
     i \<notin> set rd \<union> set bl \<and> world_ok w' (i # rd) bl fr' \<and> \<not> pending_requests w' \<and>
     fd r = a_fd c \<and> status r = DONE \<and> response_status r = 503 \<and> \<not> keeps_alive r \<and> buf_ok r \<and>
     http_version r = HTTP10 \<and> req_method r = M_GET \<and>
     req_output r = ch_sent (a_chan c) @ err_text (E_service_unavailable True) (srv w) r"
proof -
  let ?w = "w\<lparr>accept_script := q, srv := (srv w)\<lparr>open_fds := a_fd c # open_fds (srv w)\<rparr>\<rparr>"
  have qs: "queues ?w rd bl fr" and a: "alloc_script (srv ?w) = []" using assms(1,8) by (simp_all add: world_ok_def queues_def)
  obtain i w1 fr' where n: "new_request ?w = (Some i, w1)" "loose i w1 rd bl fr'" "reqs w1 i = sanitize_request True (srv ?w) (reqs ?w i)"
    "srv w1 = srv ?w" "total_connections w1 = total_connections ?w" "unav_len_set w1 = unav_len_set ?w"
    by (rule new_request_fresh [OF qs a])
  have g: "get_request w = setup_connection c i w1"
    using assms(2,4,7) n(1) by (simp add: get_request_def Let_def sys_call_succeeds)
  have pre: "sys_script (srv w1) = []" "max_connections (srv w1) < unat (total_connections w1 + 1)"
    using assms(3,7) n(4,5) by simp_all
  obtain v k where v: "setup_connection c i w1 = enqueue_ready i (refuse i v)" "reqs v i = set_up c (srv w1) (reqs w1 i)"
    "srv v = (srv w1)\<lparr>system_bufsize := k\<rparr>" "unav_len_set v = unav_len_set w1" "\<not> pending_requests v" "loose i v rd bl fr'"
    "total_connections v = total_connections w1 + 1"
    by (rule set_up_over_limit [OF n(2) pre(1) assms(5,6) pre(2)])
  let ?r = "reqs v i"
  have r: "buf_ok ?r" "buffer_end ?r = 0" "status ?r \<le> DONE" "sock ?r = a_chan c" "fd ?r = a_fd c" "req_output ?r = ch_sent (a_chan c)"
    using assms(10) n(3) v(2)
    by (simp_all add: set_up_def sanitize_request_def Let_def buf_ok_def req_output_def pending_def status_order)
  have "let r = reqs (refuse i v) i in fd r = a_fd c \<and> status r = DONE \<and> response_status r = R_SERVICE_UNAV \<and> keepalive r = KA_STOPPED \<and>
      buf_ok r \<and> http_version r = HTTP10 \<and> req_method r = M_GET \<and>
      req_output r = ch_sent (a_chan c) @ err_text (E_service_unavailable True) (srv v) r"
    using refuse_answers [of v i] r assms(8,9,11,12) n(4) v(3) by (simp add: Let_def)
  moreover have "reqs (get_request w) = reqs (refuse i v)" "\<not> pending_requests (get_request w)"
    using v(5) by (simp_all add: g v(1) enqueue_ready_def refuse_def set_req_def Let_def split: prod.split)
  moreover have "world_ok (get_request w) (i # rd) bl fr'"
  proof -
    have "loose i (refuse i v) rd bl fr'" "total_connections (refuse i v) = total_connections v"
      using v(6) queues_frame(3,4) [of "refuse i v" v] by simp_all
    then show ?thesis using assms(1) n(5) v(7) enqueue_keeps(1) by (simp add: g v(1) world_ok_def)
  qed
  moreover have "i \<notin> set rd \<union> set bl" using n(2) by (simp add: loose_def)
  moreover have "err_text (E_service_unavailable True) (srv v) x = err_text (E_service_unavailable True) (srv w) x" for x
    using n(4) v(3) by (simp add: err_text_def closing_headers_def)
  ultimately show ?thesis by (intro exI [of _ i] exI [of _ fr']) (simp add: Let_def keeps_alive_def response_codes)
qed

theorem over_limit_refused_witness:
  "let c = \<lparr>a_fd = 7, a_local = ''10.0.0.1'', a_remote = ''10.0.0.2'', a_port = 4000, a_sndbuf = 16384, a_chan = \<lparr>ch_writes = [], ch_sent = [], ch_reads = []\<rparr>\<rparr>;
       w' = get_request (example_world\<lparr>srv := example_server\<lparr>max_connections := 1\<rparr>, accept_script := [Accepted c]\<rparr>)
   in \<exists>i. request_ready w' = Some i \<and> fd (reqs w' i) = 7 \<and> status (reqs w' i) = DONE \<and> response_status (reqs w' i) = 503 \<and>
     \<not> keeps_alive (reqs w' i)"
proof -
  let ?c = "\<lparr>a_fd = 7, a_local = ''10.0.0.1'', a_remote = ''10.0.0.2'', a_port = 4000, a_sndbuf = 16384, a_chan = \<lparr>ch_writes = [], ch_sent = [], ch_reads = []\<rparr>\<rparr>"
  let ?w = "example_world\<lparr>srv := example_server\<lparr>max_connections := 1\<rparr>, accept_script := [Accepted ?c]\<rparr>"
  have t: "0 \<le> tm_year (gmtime 0)" "tm_year (gmtime 0) < 8100" using gmtime_year(1) [of 0] by simp_all
  have "qview ?w = qview example_world" by (simp add: qview_def)
  then have ok: "world_ok ?w [0, 1] [] []" using example_world_ok(1) queues_frame(2) by blast
  have h: "accept_script ?w = Accepted ?c # []" "max_connections (srv ?w) < unat (total_connections ?w + 1)" "a_fd ?c < FD_SETSIZE"
    "length (a_local ?c) < BOA_NI_MAXHOST" "length (a_remote ?c) < BOA_NI_MAXHOST" "sys_script (srv ?w) = []" "alloc_script (srv ?w) = []"
    "\<forall>e. Write_error e \<notin> set (ch_writes (a_chan ?c))" "\<forall>i. length (buffer (reqs ?w i)) \<le> BUFFER_SIZE + 1"
    "0 \<le> tm_year (gmtime (current_time (srv ?w)))" "tm_year (gmtime (current_time (srv ?w))) < 8100"
    using t by (simp_all add: FD_SETSIZE_def BOA_NI_MAXHOST_def example_world_def example_server_def example_request_def)
  obtain i fr' where "world_ok (get_request ?w) (i # [0, 1]) [] fr'" "fd (reqs (get_request ?w) i) = 7"
    "status (reqs (get_request ?w) i) = DONE" "response_status (reqs (get_request ?w) i) = 503" "\<not> keeps_alive (reqs (get_request ?w) i)"
    using over_limit_refused [OF ok h] by (auto simp add: Let_def simp del: fun_upd_apply)
  moreover from this(1) have "request_ready (get_request ?w) = Some i"
    using dlist_first [of _ "request_ready (get_request ?w)" "i # [0, 1]"] by (auto simp: world_ok_def queues_def first_of_def)
  ultimately show ?thesis by (simp add: Let_def)
qed

end
