(* ===== verification/Select.thy ===== *)
theory Select
  imports Scheduler
begin

text \<open>
  The main loop of the server in the \<open>select\<close> variant (\<open>select.c\<close>) and the parts of \<open>signals.c\<close> that end it: waiting
  for descriptors, waking blocked requests, timing them out, and a pass over the ready ones. The
  signals that re-read the configuration, reap children or print statistics are added in the theory \<open>Signals\<close>.
\<close>

section \<open>Definitions\<close>

text \<open>A blocked request that has waited too long: between two requests of a connection, or in the middle of one.\<close>

definition timed_out :: "server \<Rightarrow> request \<Rightarrow> bool" where
  "timed_out sv r \<longleftrightarrow>
     (let time_since = current_time sv - time_last r in
      kacount r < ka_max sv \<and> time_since \<ge> int (unat (ka_timeout sv)) \<and> logline r = None \<or> time_since > REQUEST_TIMEOUT)"

fun FD_ISSET :: "nat \<Rightarrow> direction \<Rightarrow> world \<Rightarrow> bool" where
  "FD_ISSET n BOA_READ w \<longleftrightarrow> n \<in> set (read_set w)"
| "FD_ISSET n BOA_WRITE w \<longleftrightarrow> n \<in> set (write_set w)"

definition wake_or_wait :: "nat \<Rightarrow> nat \<Rightarrow> direction \<Rightarrow> world \<Rightarrow> world" where
  "wake_or_wait i n d w = (if FD_ISSET n d w then ready_request i w else BOA_FD_SET n d w)"

text \<open>One round of \<open>fdset_update\<close>, with the request to go on with.\<close>

definition fdset_step :: "nat \<Rightarrow> world \<Rightarrow> nat option \<times> world" where
  "fdset_step i w =
     (let r = reqs w i;
          next = q_next (q_links w) i;
          r = (if timed_out (srv w) r then r\<lparr>status := TIMED_OUT\<rparr> else r);
          w = set_req i r w
      in (next,
          if buffer_end r \<noteq> 0 \<and> status r < DONE then wake_or_wait i (fd r) BOA_WRITE w
          else case status r of
            IOSHUFFLE \<Rightarrow>
              if \<not> build_sendfile (srv w) \<and> buffer_end r = buffer_start r
              then (if FD_ISSET (data_fd r) BOA_READ w then ready_request i w else w)
              else wake_or_wait i (fd r) BOA_WRITE w
          | WRITE \<Rightarrow> wake_or_wait i (fd r) BOA_WRITE w
          | PIPE_WRITE \<Rightarrow> wake_or_wait i (fd r) BOA_WRITE w
          | BODY_WRITE \<Rightarrow> wake_or_wait i (post_data_fd r) BOA_WRITE w
          | PIPE_READ \<Rightarrow> wake_or_wait i (data_fd r) BOA_READ w
          | DONE \<Rightarrow> wake_or_wait i (fd r) BOA_WRITE w
          | TIMED_OUT \<Rightarrow> ready_request i w
          | DEAD \<Rightarrow> ready_request i w
          | _ \<Rightarrow> wake_or_wait i (fd r) BOA_READ w))"

text \<open>\<open>None\<close> is a loop that does not end.\<close>

definition fdset_update :: "world \<Rightarrow> world option" where
  "fdset_update w =
     (let w = time_now w in
      map_option snd
        (while_option (\<lambda>(cur, w). cur \<noteq> None) (\<lambda>(cur, w). fdset_step (the cur) w) (request_block w, w)))"

text \<open>The shutdown after a signal: no new connections, and the end when no request is left.\<close>

definition sigterm_stage1_run :: "world \<Rightarrow> world" where
  "sigterm_stage1_run w = (time_now w)\<lparr>sigterm_flag := 2\<rparr>"

definition watch_server :: "world \<Rightarrow> world option" where
  "watch_server w =
     (if sigterm_flag w \<noteq> 0 then
        (let w = (if sigterm_flag w = 1
                  then (let w = sigterm_stage1_run w in
                        case server_s w of
                          None \<Rightarrow> w
                        | Some s \<Rightarrow> (close_fd s (BOA_FD_CLR s BOA_READ w))\<lparr>server_s := None\<rparr>)
                  else w)
         in if sigterm_flag w = 2 \<and> request_ready w = None \<and> request_block w = None then None else Some w)
      else
        Some (case server_s w of
                None \<Rightarrow> w
              | Some s \<Rightarrow>
                  if unat (total_connections w) > max_connections (srv w) then BOA_FD_CLR s BOA_READ w
                  else BOA_FD_SET s BOA_READ w))"

text \<open>
  The wait. After an interruption the loop starts again, which the first component of the result says.
  A bad descriptor leaves the sets as they are.
\<close>

definition wait_select :: "world \<Rightarrow> (bool \<times> world) option" where
  "wait_select w =
     (let w = w\<lparr>pending_requests := False\<rparr> in
      if max_fd w = 0 then Some (True, w)
      else
        (let woken = (\<lambda>w. Some (True, time_now
                 (if sigterm_flag w = 0 \<and> (\<exists>s. server_s w = Some s \<and> FD_ISSET s BOA_READ w)
                  then w\<lparr>pending_requests := True\<rparr> else w)))
         in case select_script w of
              [] \<Rightarrow> woken (w\<lparr>read_set := [], write_set := []\<rparr>)
            | Selected rs ws # q \<Rightarrow>
                woken (w\<lparr>select_script := q, read_set := filter (\<lambda>n. n \<in> set rs) (read_set w),
                         write_set := filter (\<lambda>n. n \<in> set ws) (write_set w)\<rparr>)
            | Select_EBADF # q \<Rightarrow> woken (w\<lparr>select_script := q\<rparr>)
            | Select_EINTR # q \<Rightarrow> Some (False, w\<lparr>select_script := q\<rparr>)
            | Select_failed # q \<Rightarrow> None))"

text \<open>One turn of the loop; the outer \<open>None\<close> is a turn that does not end, the inner one the exit of the process.\<close>

definition loop_turn :: "world \<Rightarrow> world option option" where
  "loop_turn w =
     (case watch_server w of
        None \<Rightarrow> Some None
      | Some w \<Rightarrow>
          (case wait_select w of
             None \<Rightarrow> Some None
           | Some (False, w) \<Rightarrow> Some (Some w)
           | Some (True, w) \<Rightarrow>
               (let w = w\<lparr>max_fd := -1\<rparr> in
                case (if request_block w \<noteq> None then fdset_update w else Some w) of
                  None \<Rightarrow> None
                | Some w \<Rightarrow>
                    if pending_requests w \<or> request_ready w \<noteq> None then process_requests w else Some (Some w))))"

section \<open>Waking the blocked requests\<close>

lemma qview_wake: "\<not> FD_ISSET n d w \<Longrightarrow> qview (wake_or_wait i n d w) = qview w"
  by (simp add: wake_or_wait_def)

text \<open>What a round does: the request stays blocked or becomes ready, and only its own status changes.\<close>

definition woken :: "nat \<Rightarrow> world \<Rightarrow> world \<Rightarrow> bool" where
  "woken i w w' \<longleftrightarrow> w' = ready_request i w \<or> qview w' = qview w \<and> reqs w' = reqs w \<and> srv w' = srv w"

lemma fd_set_frame [simp]:
  "reqs (BOA_FD_SET n d w) = reqs w" "srv (BOA_FD_SET n d w) = srv w"
  "reqs (BOA_FD_CLR n d w) = reqs w" "srv (BOA_FD_CLR n d w) = srv w"
  by (cases d; simp)+

lemma ready_request_frame [simp]: "reqs (ready_request i w) = reqs w" "srv (ready_request i w) = srv w"
  by (simp_all add: ready_request_def enqueue_ready_def dequeue_block_def Let_def split: prod.split)

lemma woken_wake: "woken i w (wake_or_wait i n d w)"
  by (simp add: woken_def wake_or_wait_def)

definition after_timeout :: "nat \<Rightarrow> world \<Rightarrow> world" where
  "after_timeout i w =
     set_req i (if timed_out (srv w) (reqs w i) then (reqs w i)\<lparr>status := TIMED_OUT\<rparr> else reqs w i) w"

lemma fdset_step_woken:
  assumes "fdset_step i w = (cur, w')"
  shows "cur = q_next (q_links w) i" "woken i (after_timeout i w) w'"
    "timed_out (srv w) (reqs w i) \<Longrightarrow> w' = ready_request i (after_timeout i w)"
proof -
  let ?r = "if timed_out (srv w) (reqs w i) then (reqs w i)\<lparr>status := TIMED_OUT\<rparr> else reqs w i"
  show "cur = q_next (q_links w) i" using assms by (simp add: fdset_step_def Let_def)
  have self: "woken i v v" "woken i v (ready_request i v)" for v by (simp_all add: woken_def)
  show "woken i (after_timeout i w) w'"
    using assms woken_wake self
    unfolding fdset_step_def Let_def after_timeout_def [symmetric] prod.inject
    by (auto split: req_status.splits if_splits)
  show "w' = ready_request i (after_timeout i w)" if "timed_out (srv w) (reqs w i)"
    using assms that unfolding fdset_step_def Let_def after_timeout_def by (simp add: status_order)
qed

lemma after_timeout_frame:
  "qview (after_timeout i w) = qview w" "srv (after_timeout i w) = srv w" "j \<noteq> i \<Longrightarrow> reqs (after_timeout i w) j = reqs w j"
  by (simp_all add: after_timeout_def) (simp_all add: set_req_def)

lemma fdset_step_keeps:
  assumes "world_ok w rd (pre @ i # post) fr" and "fdset_step i w = (cur, w')"
  shows "cur = first_of post" "srv w' = srv w" "j \<noteq> i \<Longrightarrow> reqs w' j = reqs w j"
    "\<exists>rd' pre'. world_ok w' rd' (pre' @ post) fr \<and> set rd \<subseteq> set rd' \<and>
       (timed_out (srv w) (reqs w i) \<longrightarrow> i \<in> set rd' \<and> status (reqs w' i) = TIMED_OUT)"
proof -
  note s = fdset_step_woken [OF assms(2)]
  let ?w = "after_timeout i w"
  have d: "dlist (q_links w) (request_block w) (pre @ i # post)" using assms(1) by (simp add: world_ok_def queues_def)
  then show "cur = first_of post" using s(1) dlist_next by (simp add: first_of_def)
  show "srv w' = srv w" "j \<noteq> i \<Longrightarrow> reqs w' j = reqs w j"
    using s(2) after_timeout_frame by (auto simp: woken_def)
  have ok: "world_ok ?w rd (pre @ i # post) fr" using assms(1) queues_frame(2) [OF after_timeout_frame(1)] by simp
  have r1: "remove1 i (pre @ i # post) = pre @ post" using d by (simp add: remove1_append dlist_def)
  have rdy: "world_ok (ready_request i ?w) (i # rd) (pre @ post) fr" using ready_request_keeps [OF ok, of i] unfolding r1 by simp
  have st: "status (reqs ?w i) = TIMED_OUT" if "timed_out (srv w) (reqs w i)" using that by (simp add: after_timeout_def set_req_def)
  show "\<exists>rd' pre'. world_ok w' rd' (pre' @ post) fr \<and> set rd \<subseteq> set rd' \<and>
       (timed_out (srv w) (reqs w i) \<longrightarrow> i \<in> set rd' \<and> status (reqs w' i) = TIMED_OUT)"
  proof (cases "w' = ready_request i ?w")
    case True
    then show ?thesis using rdy st by (intro exI [of _ "i # rd"] exI [of _ pre]) auto
  next
    case False
    then have q: "qview w' = qview ?w" and "\<not> timed_out (srv w) (reqs w i)" using s(2,3) by (auto simp: woken_def)
    moreover have "world_ok w' rd ((pre @ [i]) @ post) fr" using ok queues_frame(2) [OF q] by simp
    ultimately show ?thesis by blast
  qed
qed

definition update_all :: "nat list \<Rightarrow> world \<Rightarrow> world" where
  "update_all xs w = fold (\<lambda>i w. snd (fdset_step i w)) xs w"

lemma fdset_loop:
  assumes "world_ok w rd (pre @ post) fr"
  shows "while_option (\<lambda>(cur, w). cur \<noteq> None) (\<lambda>(cur, w). fdset_step (the cur) w) (first_of post, w) = Some (None, update_all post w)"
  using assms
proof (induction post arbitrary: pre w rd)
  case Nil
  then show ?case by (subst while_option_unfold) (simp add: first_of_def update_all_def)
next
  case (Cons i xs)
  obtain cur w' where s: "fdset_step i w = (cur, w')" by fastforce
  note k = fdset_step_keeps [OF Cons.prems s]
  obtain rd' pre' where "world_ok w' rd' (pre' @ xs) fr" using k(4) by blast
  from Cons.IH [OF this] k(1) s show ?case
    by (subst while_option_unfold) (simp add: first_of_def update_all_def)
qed

lemma update_all_keeps:
  assumes "world_ok w rd (pre @ post) fr" and "distinct post"
  shows "\<exists>rd' bl'. world_ok (update_all post w) rd' bl' fr \<and> set rd \<subseteq> set rd' \<and>
     (\<forall>i \<in> set post. timed_out (srv w) (reqs w i) \<longrightarrow> i \<in> set rd' \<and> status (reqs (update_all post w) i) = TIMED_OUT)"
    "srv (update_all post w) = srv w" "j \<notin> set post \<Longrightarrow> reqs (update_all post w) j = reqs w j"
proof -
  have "(\<exists>rd' bl'. world_ok (update_all post w) rd' bl' fr \<and> set rd \<subseteq> set rd' \<and>
     (\<forall>i \<in> set post. timed_out (srv w) (reqs w i) \<longrightarrow> i \<in> set rd' \<and> status (reqs (update_all post w) i) = TIMED_OUT)) \<and>
     srv (update_all post w) = srv w \<and> (\<forall>j. j \<notin> set post \<longrightarrow> reqs (update_all post w) j = reqs w j)"
    using assms
  proof (induction post arbitrary: pre w rd)
    case Nil
    then show ?case by (auto simp: update_all_def)
  next
    case (Cons i xs)
    obtain cur w' where s: "fdset_step i w = (cur, w')" by fastforce
    note k = fdset_step_keeps [OF Cons.prems(1) s]
    obtain rd1 pre1 where ok: "world_ok w' rd1 (pre1 @ xs) fr" and sub: "set rd \<subseteq> set rd1"
      and i: "timed_out (srv w) (reqs w i) \<longrightarrow> i \<in> set rd1 \<and> status (reqs w' i) = TIMED_OUT" using k(4) by blast
    have u: "update_all (i # xs) w = update_all xs w'" using s by (simp add: update_all_def)
    have d: "i \<notin> set xs" "distinct xs" using Cons.prems(2) by simp_all
    have eq: "timed_out (srv w') (reqs w' j) = timed_out (srv w) (reqs w j)" if "j \<in> set xs" for j
      using k(2,3) d(1) that by metis
    have IH: "srv (update_all xs w') = srv w'" "\<forall>j. j \<notin> set xs \<longrightarrow> reqs (update_all xs w') j = reqs w' j"
      and "\<exists>rd' bl'. world_ok (update_all xs w') rd' bl' fr \<and> set rd1 \<subseteq> set rd' \<and>
        (\<forall>j \<in> set xs. timed_out (srv w') (reqs w' j) \<longrightarrow> j \<in> set rd' \<and> status (reqs (update_all xs w') j) = TIMED_OUT)"
      using Cons.IH [OF ok d(2)] by blast+
    then obtain rd' bl' where ok': "world_ok (update_all xs w') rd' bl' fr" and sub': "set rd1 \<subseteq> set rd'"
      and xs: "\<forall>j \<in> set xs. timed_out (srv w') (reqs w' j) \<longrightarrow> j \<in> set rd' \<and> status (reqs (update_all xs w') j) = TIMED_OUT" by blast
    have ri: "reqs (update_all xs w') i = reqs w' i" using IH(2) d(1) by blast
    have all: "j \<in> set rd' \<and> status (reqs (update_all xs w') j) = TIMED_OUT"
      if "j \<in> set (i # xs)" "timed_out (srv w) (reqs w j)" for j
      using that xs eq i ri sub' by (cases "j = i") auto
    have "srv (update_all xs w') = srv w" using IH(1) k(2) by simp
    moreover have "reqs (update_all xs w') j = reqs w j" if "j \<notin> set (i # xs)" for j using that IH(2) k(3) by simp
    ultimately show ?case unfolding u using ok' sub sub' all by blast
  qed
  then show "\<exists>rd' bl'. world_ok (update_all post w) rd' bl' fr \<and> set rd \<subseteq> set rd' \<and>
     (\<forall>i \<in> set post. timed_out (srv w) (reqs w i) \<longrightarrow> i \<in> set rd' \<and> status (reqs (update_all post w) i) = TIMED_OUT)"
    "srv (update_all post w) = srv w" "j \<notin> set post \<Longrightarrow> reqs (update_all post w) j = reqs w j" by blast+
qed

lemma fdset_update_eq:
  assumes "world_ok w rd bl fr"
  shows "fdset_update w = Some (update_all bl (time_now w))"
proof -
  have ok: "world_ok (time_now w) rd ([] @ bl) fr" using assms queues_frame(2) [of "time_now w" w] by simp
  then have "dlist (q_links (time_now w)) (request_block (time_now w)) bl" by (simp add: world_ok_def queues_def)
  then have "request_block (time_now w) = first_of bl" by (rule dlist_first)
  then show ?thesis using fdset_loop [OF ok] by (simp add: fdset_update_def Let_def)
qed

section \<open>The loop\<close>

lemma watch_server_qview: "watch_server w = Some w' \<Longrightarrow> qview w' = qview w"
proof -
  have u: "qview (v\<lparr>sigterm_flag := n\<rparr>) = qview v" "qview (v\<lparr>server_s := s\<rparr>) = qview v" for v n s
    by (simp_all add: qview_def)
  assume "watch_server w = Some w'"
  then show ?thesis
    by (auto simp: watch_server_def sigterm_stage1_run_def Let_def u split: if_splits option.splits)
qed

lemma wait_select_qview: "wait_select w = Some (b, w') \<Longrightarrow> qview w' = qview w"
proof -
  have u: "qview (v\<lparr>select_script := x\<rparr>) = qview v" "qview (v\<lparr>select_script := x, read_set := y, write_set := z\<rparr>) = qview v"
    "qview (v\<lparr>read_set := y, write_set := z\<rparr>) = qview v" for v x y z
    by (simp_all add: qview_def)
  assume "wait_select w = Some (b, w')"
  then show ?thesis
    by (auto simp: wait_select_def Let_def u split: if_splits list.splits select_result.splits)
qed

definition well_formed :: "world \<Rightarrow> bool" where
  "well_formed w \<longleftrightarrow> (\<exists>rd bl fr. world_ok w rd bl fr)"

lemma well_formed_frame: "qview w' = qview w \<Longrightarrow> well_formed w' = well_formed w"
  using queues_frame(2) [of w' w] by (simp add: well_formed_def)

lemma fdset_update_well_formed:
  assumes "well_formed w"
  shows "\<exists>w'. fdset_update w = Some w' \<and> well_formed w'"
proof -
  obtain rd bl fr where ok: "world_ok w rd bl fr" using assms by (auto simp: well_formed_def)
  have ok1: "world_ok (time_now w) rd ([] @ bl) fr" using ok queues_frame(2) [of "time_now w" w] by simp
  have d: "distinct bl" using ok by (simp add: world_ok_def queues_def dlist_def)
  from update_all_keeps(1) [OF ok1 d] obtain rd' bl' where "world_ok (update_all bl (time_now w)) rd' bl' fr" by (elim exE conjE)
  then have "well_formed (update_all bl (time_now w))" unfolding well_formed_def by blast
  with fdset_update_eq [OF ok] show ?thesis by blast
qed

lemma process_requests_well_formed:
  assumes "well_formed w"
  shows "\<exists>x. process_requests w = Some x \<and> (\<forall>w'. x = Some w' \<longrightarrow> well_formed w')"
proof -
  obtain rd bl fr where ok: "world_ok w rd bl fr" using assms by (auto simp: well_formed_def)
  obtain rd1 fr1 where ok1: "world_ok (accept_first w) ([] @ rd1) bl fr1"
    using accept_first_keeps [OF ok] by (auto simp: admitted_def)
  then have d: "dlist (q_links (accept_first w)) (request_ready (accept_first w)) rd1" by (simp add: world_ok_def queues_def)
  show ?thesis
    using process_requests_eq [OF ok d] serve_all_keeps [OF ok1] by (auto simp: well_formed_def)
qed

lemma loop_turn_well_formed:
  assumes "well_formed w"
  shows "\<exists>x. loop_turn w = Some x \<and> (\<forall>w'. x = Some w' \<longrightarrow> well_formed w')"
proof (cases "watch_server w")
  case None
  then show ?thesis by (simp add: loop_turn_def)
next
  case (Some w1)
  have ok1: "well_formed w1" using assms well_formed_frame [OF watch_server_qview [OF Some]] by simp
  show ?thesis
  proof (cases "wait_select w1")
    case None
    then show ?thesis using Some by (simp add: loop_turn_def)
  next
    case sel: (Some p)
    obtain b w2 where p: "wait_select w1 = Some (b, w2)" using sel by (cases p) auto
    have ok2: "well_formed w2" "well_formed (w2\<lparr>max_fd := -1\<rparr>)"
      using ok1 well_formed_frame [OF wait_select_qview [OF p]] well_formed_frame [of "w2\<lparr>max_fd := -1\<rparr>" w2] by simp_all
    define w2' where "w2' = w2\<lparr>max_fd := -1\<rparr>"
    have "\<exists>w3. (if request_block w2' \<noteq> None then fdset_update w2' else Some w2') = Some w3 \<and> well_formed w3"
      using fdset_update_well_formed [OF ok2(2)] ok2(2) by (simp add: w2'_def)
    then obtain w3 where u: "(if request_block w2' \<noteq> None then fdset_update w2' else Some w2') = Some w3" and ok3: "well_formed w3" by blast
    have "loop_turn w = (if b then (if pending_requests w3 \<or> request_ready w3 \<noteq> None then process_requests w3 else Some (Some w3)) else Some (Some w2))"
    proof (cases b)
      case True
      then have "loop_turn w = (case (if request_block w2' \<noteq> None then fdset_update w2' else Some w2') of None \<Rightarrow> None
          | Some w \<Rightarrow> if pending_requests w \<or> request_ready w \<noteq> None then process_requests w else Some (Some w))"
        by (simp add: loop_turn_def Some p w2'_def Let_def)
      then show ?thesis unfolding u using True by simp
    qed (simp add: loop_turn_def Some p)
    then show ?thesis using ok2(1) ok3 process_requests_well_formed [OF ok3] by auto
  qed
qed

text \<open>The states of a running server: those that turns of the loop lead to.\<close>

inductive reachable :: "world \<Rightarrow> world \<Rightarrow> bool" for w0 where
  start: "reachable w0 w0"
| turn: "reachable w0 w \<Longrightarrow> loop_turn w = Some (Some w') \<Longrightarrow> reachable w0 w'"

lemma reachable_well_formed: "reachable w0 w \<Longrightarrow> well_formed w0 \<Longrightarrow> well_formed w"
proof (induction rule: reachable.induct)
  case (turn w w')
  then show ?case using loop_turn_well_formed [of w] by auto
qed

text \<open>A server that has just started.\<close>

definition started :: "world \<Rightarrow> bool" where
  "started w \<longleftrightarrow> request_ready w = None \<and> request_block w = None \<and> request_free w = None \<and> total_connections w = 0"

lemma started_well_formed: "started w \<Longrightarrow> well_formed w"
  unfolding well_formed_def
  by (intro exI [of _ "[]"]) (simp add: started_def world_ok_def queues_def dlist_def)

section \<open>Releasing a dead request\<close>

lemma enqueue_frame_world [simp]:
  "reqs (enqueue_ready i w) = reqs w" "reqs (enqueue_free i w) = reqs w" "srv (enqueue_free i w) = srv w"
  "reqs (dequeue_free i w) = reqs w" "reqs (dequeue_ready i w) = reqs w" "srv (dequeue_ready i w) = srv w"
  by (simp_all add: enqueue_ready_def enqueue_free_def dequeue_free_def dequeue_ready_def split: prod.split)

lemma reqs_simps [simp]:
  "reqs (close_fd n w) = reqs w" "j \<noteq> i \<Longrightarrow> reqs (set_req i r w) j = reqs w j" "reqs (set_req i r w) i = r"
  "srv (set_req i r w) = srv w"
  by (simp_all add: close_fd_def set_req_def)

lemma sys_call_reqs: "sys_call w = (ok, w') \<Longrightarrow> reqs w' = reqs w"
  by (auto simp: sys_call_def split: prod.splits)

lemma snd_sys_call_reqs [simp]: "reqs (snd (sys_call w)) = reqs w"
  using sys_call_reqs [of w] by (cases "sys_call w") simp

lemma tune_sndbuf_reqs [simp]: "reqs (tune_sndbuf c w) = reqs w"
  by (auto simp: tune_sndbuf_def Let_def split: prod.split dest: sys_call_reqs)

lemma refuse_reqs [simp]: "j \<noteq> i \<Longrightarrow> reqs (refuse i w) j = reqs w j"
  by (simp add: refuse_def Let_def split: prod.split)

lemma admit_reqs [simp]: "j \<noteq> i \<Longrightarrow> reqs (admit c i w) j = reqs w j"
  by (simp add: admit_def drop_connection_def Let_def split: option.split)

lemma setup_connection_reqs: "j \<noteq> i \<Longrightarrow> reqs (setup_connection c i w) j = reqs w j"
  by (auto simp: setup_connection_def drop_connection_def Let_def split: option.split prod.split dest!: sys_call_reqs)

lemma get_request_reqs:
  assumes "world_ok w rd bl fr" and "j \<in> set rd \<union> set bl"
  shows "reqs (get_request w) j = reqs w j"
proof (cases "\<exists>c q. accept_script w = Accepted c # q")
  case False
  then show ?thesis by (auto simp: get_request_def split: list.splits accept_result.splits)
next
  case True
  then obtain c q where a: "accept_script w = Accepted c # q" by blast
  define w1 where "w1 = w\<lparr>accept_script := q, srv := (srv w)\<lparr>open_fds := a_fd c # open_fds (srv w)\<rparr>\<rparr>"
  obtain named w2 where s: "sys_call w1 = (named, w2)" by fastforce
  obtain i w3 where n: "new_request w2 = (i, w3)" by fastforce
  have q2: "qview w2 = qview w" using sys_call_qview [OF s] by (simp add: w1_def)
  have "queues w2 rd bl fr" using assms(1) queues_frame(1) [OF q2] by (simp add: world_ok_def)
  note k = new_request_keeps [OF this n]
  have r2: "reqs w1 = reqs w" "reqs w2 = reqs w" using sys_call_reqs [OF s] by (simp_all add: w1_def)
  have e: "get_request w = (if a_fd c \<ge> FD_SETSIZE then close_fd (a_fd c) w1
        else if \<not> named then close_fd (a_fd c) w2
        else case i of None \<Rightarrow> close_fd (a_fd c) w3 | Some i \<Rightarrow> setup_connection c i w3)"
    using a s n by (auto simp: get_request_def w1_def Let_def split: option.split)
  have "j \<noteq> x" if "i = Some x" for x using k that assms(2) by (auto simp: loose_def)
  moreover have "reqs w3 j = reqs w2 j" if "\<And>x. i = Some x \<Longrightarrow> j \<noteq> x"
    using n that by (auto simp: new_request_def Let_def set_req_def split: option.splits prod.splits if_splits)
  ultimately show ?thesis
    using e r2 setup_connection_reqs [of j _ c w3] by (auto split: option.splits)
qed

lemma dead_served:
  "status r \<in> {TIMED_OUT, DEAD} \<Longrightarrow> serve r sv = Some (0, SQUASH_KA (r\<lparr>buffer_end := 0\<rparr>), sv)"
  by (auto simp: serve_def handler_def status_order)

section \<open>The contract of a main loop\<close>

text \<open>
  Both main loops walk over the blocked requests after they have waited. What the server relies on: the walk ends,
  it moves requests from the blocked to the ready queue and nowhere else, and every request whose time has
  run out is moved and marked. \<open>watched\<close> is what a variant needs of its own data.
\<close>

locale waking_pass =
  fixes wake :: "'p \<Rightarrow> world \<Rightarrow> ('p \<times> world) option" and watched :: "'p \<Rightarrow> world \<Rightarrow> nat list \<Rightarrow> bool"
  assumes wake_moves:
    "world_ok w rd bl fr \<Longrightarrow> watched p w bl \<Longrightarrow>
       \<exists>p' w' rd' bl'. wake p w = Some (p', w') \<and> world_ok w' rd' bl' fr \<and> watched p' w' bl' \<and>
         (\<forall>i \<in> set bl. timed_out (srv (time_now w)) (reqs (time_now w) i) \<longrightarrow> i \<in> set rd' \<and> status (reqs w' i) \<in> {TIMED_OUT, DEAD})"
begin

lemma wake_well_formed:
  assumes "world_ok w rd bl fr" and "watched p w bl"
  shows "\<exists>p' w'. wake p w = Some (p', w') \<and> well_formed w'"
  using wake_moves [OF assms] unfolding well_formed_def by blast

text \<open>A request whose time has run out is given up by the handler when the pass over the ready requests comes to it.\<close>

lemma overdue_given_up:
  assumes "world_ok w rd bl fr" and "watched p w bl" and "i \<in> set bl" and "timed_out (srv (time_now w)) (reqs (time_now w) i)"
  shows "\<exists>p' w' rd' bl'. wake p w = Some (p', w') \<and> world_ok w' rd' bl' fr \<and> i \<in> set rd' \<and>
    serve (reqs w' i) (srv w') = Some (0, SQUASH_KA ((reqs w' i)\<lparr>buffer_end := 0\<rparr>), srv w')"
proof -
  from wake_moves [OF assms(1,2)] obtain p' w' rd' bl' where w: "wake p w = Some (p', w')" "world_ok w' rd' bl' fr"
    and t: "\<forall>j \<in> set bl. timed_out (srv (time_now w)) (reqs (time_now w) j) \<longrightarrow> j \<in> set rd' \<and> status (reqs w' j) \<in> {TIMED_OUT, DEAD}"
    by blast
  have "i \<in> set rd'" "status (reqs w' i) \<in> {TIMED_OUT, DEAD}" using t assms(3,4) by blast+
  then show ?thesis using w dead_served [of "reqs w' i" "srv w'"] by blast
qed

end

definition select_wake :: "unit \<Rightarrow> world \<Rightarrow> (unit \<times> world) option" where
  "select_wake u w = map_option (Pair ()) (fdset_update w)"

lemma select_wake_moves:
  assumes "world_ok w rd bl fr"
  shows "\<exists>p' w' rd' bl'. select_wake p w = Some (p', w') \<and> world_ok w' rd' bl' fr \<and> True \<and>
     (\<forall>i \<in> set bl. timed_out (srv (time_now w)) (reqs (time_now w) i) \<longrightarrow> i \<in> set rd' \<and> status (reqs w' i) \<in> {TIMED_OUT, DEAD})"
proof -
  have ok: "world_ok (time_now w) rd ([] @ bl) fr" using assms queues_frame(2) [of "time_now w" w] by simp
  have d: "distinct bl" using assms by (simp add: world_ok_def queues_def dlist_def)
  let ?w = "update_all bl (time_now w)"
  from update_all_keeps(1) [OF ok d] obtain rd' bl' where "world_ok ?w rd' bl' fr"
    "\<forall>i \<in> set bl. timed_out (srv (time_now w)) (reqs (time_now w) i) \<longrightarrow> i \<in> set rd' \<and> status (reqs ?w i) = TIMED_OUT" by (elim exE conjE)
  moreover have "select_wake p w = Some ((), ?w)" using fdset_update_eq [OF assms] by (simp add: select_wake_def)
  ultimately show ?thesis by (intro exI [of _ "()"] exI [of _ ?w] exI [of _ rd'] exI [of _ bl']) auto
qed

interpretation select_loop: waking_pass select_wake "\<lambda>p w bl. True"
  by unfold_locales (rule select_wake_moves)

lemma log_request_frame [simp]: "reqs (log_request i w) = reqs w" "open_fds (srv (log_request i w)) = open_fds (srv w)"
  by (auto simp: log_request_def Let_def wall_clock_def split: prod.splits list.splits)

lemma range_pool_fds [simp]: "open_fds (fold (\<lambda>_. range_pool_push) xs sv) = open_fds sv"
  by (induction xs arbitrary: sv) (simp_all add: range_pool_push_def)

text \<open>The descriptors of a request other than its socket.\<close>

definition held :: "request \<Rightarrow> nat set" where
  "held r = {n \<in> {data_fd r, post_data_fd r}. n \<noteq> 0}"

lemma release_closes:
  "set (open_fds (srv (release_resources i w))) = set (open_fds (srv w)) - held (reqs w i)"
  "fd (reqs (release_resources i w) i) = fd (reqs w i)" "status (reqs (release_resources i w) i) = status (reqs w i)"
  by (auto simp: release_resources_def Let_def close_fd_def fd_close_def held_def ranges_reset_def)

lemma free_request_dead:
  assumes "status (reqs w i) \<in> {TIMED_OUT, DEAD}"
  shows "request_free (free_request i w) = Some i"
    "set (open_fds (srv (free_request i w))) = set (open_fds (srv w)) - held (reqs w i) - {fd (reqs w i)}"
proof -
  let ?r = "if status (reqs w i) = TIMED_OUT \<and> response_status (reqs w i) = 0 then (reqs w i)\<lparr>response_status := 408\<rparr> else reqs w i"
  define w1 where "w1 = log_request i (set_req i ?r (dequeue_ready i (set_req i (reqs w i) w)))"
  have w1: "reqs w1 i = ?r" "open_fds (srv w1) = open_fds (srv w)" by (simp_all add: w1_def)
  have "\<not> status (reqs w i) < TIMED_OUT" using assms by (auto simp: status_order)
  then have "\<not> keeps_alive (reqs (release_resources i w1) i)"
    by (simp add: keeps_alive_def release_closes(3) w1(1))
  then have e: "free_request i w = close_connection i (release_resources i w1)"
    using \<open>\<not> status (reqs w i) < TIMED_OUT\<close> by (simp add: free_request_def Let_def flip: w1_def cong: if_cong split del: if_split)
  show "request_free (free_request i w) = Some i"
    by (simp add: e close_connection_def Let_def enqueue_free_def enqueue_def)
  have "held ?r = held (reqs w i)" "fd ?r = fd (reqs w i)" by (simp_all add: held_def)
  then show "set (open_fds (srv (free_request i w))) = set (open_fds (srv w)) - held (reqs w i) - {fd (reqs w i)}"
    using release_closes(1,2) [of i w1] unfolding e close_connection_def Let_def
    by (simp add: w1 close_fd_def fd_close_def)
qed

section \<open>Properties\<close>

text \<open>The invariant of a running server. From the start of the server, whatever clients, files and system calls do, every turn of the main loop ends,
  in a new state or in the exit of the process, and in every state reached the three queues
  are consistent and disjoint and the counter of connections is the number of requests that are ready or blocked.
\<close>

theorem server_invariant:
  assumes "started w0" and "reachable w0 w"
  shows "loop_turn w \<noteq> None \<and>
     (\<exists>rd bl fr. queues w rd bl fr \<and> total_connections w = of_nat (length rd + length bl))"
proof -
  have "well_formed w" using assms started_well_formed reachable_well_formed by blast
  then show ?thesis using loop_turn_well_formed [of w] by (auto simp: well_formed_def world_ok_def)
qed

definition example_start :: world where
  "example_start = example_world\<lparr>request_ready := None, total_connections := 0\<rparr>"

theorem server_invariant_witness:
  "\<exists>rd bl fr. queues example_start rd bl fr \<and> total_connections example_start = of_nat (length rd + length bl)"
proof -
  have "started example_start" by (simp add: started_def example_start_def example_world_def)
  then show ?thesis using server_invariant [OF _ reachable.start] by blast
qed

text \<open>Time-outs. \<open>fdset_update\<close> ends, and makes every blocked request ready that has waited longer than the limit for a request, or than the
  limit between two requests of a connection, with the status that makes the next pass release it.
\<close>

theorem fdset_update_times_out:
  assumes "world_ok w rd bl fr"
  shows "\<exists>w' rd' bl'. fdset_update w = Some w' \<and> world_ok w' rd' bl' fr \<and>
     (\<forall>i \<in> set bl. timed_out (srv (time_now w)) (reqs (time_now w) i) \<longrightarrow> i \<in> set rd' \<and> status (reqs w' i) = TIMED_OUT)"
proof -
  have ok: "world_ok (time_now w) rd ([] @ bl) fr" using assms queues_frame(2) [of "time_now w" w] by simp
  have d: "distinct bl" using assms by (simp add: world_ok_def queues_def dlist_def)
  from update_all_keeps(1) [OF ok d] obtain rd' bl'
    where "world_ok (update_all bl (time_now w)) rd' bl' fr \<and> set rd \<subseteq> set rd' \<and>
      (\<forall>i \<in> set bl. timed_out (srv (time_now w)) (reqs (time_now w) i) \<longrightarrow>
         i \<in> set rd' \<and> status (reqs (update_all bl (time_now w)) i) = TIMED_OUT)" by (elim exE)
  then show ?thesis using fdset_update_eq [OF assms] by (intro exI conjI) auto
qed

definition example_idle :: world where
  "example_idle = example_world\<lparr>request_ready := None, request_block := Some 0, clock := [61]\<rparr>"

theorem fdset_update_times_out_witness:
  "\<exists>w' rd' bl'. fdset_update example_idle = Some w' \<and> world_ok w' rd' bl' [] \<and> 0 \<in> set rd' \<and> status (reqs w' 0) = TIMED_OUT"
proof -
  have ok: "world_ok example_idle [] [0, 1] []" by (simp add: example_idle_def example_world_def world_ok_def queues_def dlist_def)
  have "timed_out (srv (time_now example_idle)) (reqs (time_now example_idle) 0)"
    by (simp add: time_now_def wall_clock_def example_idle_def example_world_def timed_out_def REQUEST_TIMEOUT_def example_request_def)
  then show ?thesis using fdset_update_times_out [OF ok] by fastforce
qed

text \<open>C22: Releasing a request that has timed out or failed: its round in the pass over the ready queue puts the structure on the free
  list and closes its socket, its file and its temporary file, and no other descriptor that was open; a connection accepted in
  the same round may have opened one.
\<close>

theorem dead_request_released:
  assumes "world_ok w (pre @ i # post) bl fr" and "status (reqs w i) \<in> {TIMED_OUT, DEAD}" and "\<not> pending_requests w"
  shows "\<exists>w'. process_step i w = Some (first_of post, w') \<and> request_free w' = Some i \<and>
     set (open_fds (srv w')) = set (open_fds (srv w)) - {n. n \<in> {data_fd (reqs w i), post_data_fd (reqs w i)} \<and> n \<noteq> 0} - {fd (reqs w i)}"
proof -
  let ?r = "SQUASH_KA ((reqs w i)\<lparr>buffer_end := 0\<rparr>)"
  have t: "reqs (time_now w) = reqs w" "pending_requests (time_now w) = pending_requests w" "q_links (time_now w) = q_links w"
    "open_fds (srv (time_now w)) = open_fds (srv w)"
    by (auto simp: time_now_def wall_clock_def split: list.split)
  have d: "dlist (q_links w) (request_ready w) (pre @ i # post)" using assms(1) by (simp add: world_ok_def queues_def)
  define r1 where "r1 = (if sigterm_flag (time_now w) \<noteq> 0 then SQUASH_KA ?r else ?r)"
  define w1 where "w1 = set_req i r1 ((time_now w)\<lparr>srv := srv (time_now w)\<rparr>)"
  define w2 where "w2 = set_req i ((reqs w1 i)\<lparr>time_last := current_time (srv w1)\<rparr>) w1"
  have n: "\<not> pending_requests w1" using assms(3) t(2) by (simp add: w1_def set_req_def)
  have "process_step i w = Some (q_next (q_links w1) i, free_request i w2)"
    unfolding process_step_def Let_def t(1) dead_served [OF assms(2)] option.case prod.case r1_def [symmetric] w1_def [symmetric]
      if_not_P [OF n] by (simp add: w2_def)
  moreover have "q_next (q_links w1) i = first_of post"
    using dlist_next [OF d] by (simp add: w1_def set_req_def t(3) first_of_def)
  moreover have r2: "status (reqs w2 i) = status (reqs w i)" "held (reqs w2 i) = held (reqs w i)" "fd (reqs w2 i) = fd (reqs w i)"
    "open_fds (srv w2) = open_fds (srv w)"
    by (simp_all add: w2_def w1_def r1_def held_def SQUASH_KA_def t(4))
  moreover have "request_free (free_request i w2) = Some i"
    using assms(2) r2(1) by (intro free_request_dead(1)) simp
  moreover have "set (open_fds (srv (free_request i w2))) = set (open_fds (srv w)) - held (reqs w i) - {fd (reqs w i)}"
    using free_request_dead(2) [of w2 i] assms(2) r2 by simp
  ultimately show ?thesis by (simp add: held_def)
qed

theorem dead_request_released_witness:
  "\<exists>w'. process_step 0 (example_world\<lparr>reqs := (\<lambda>i. example_request\<lparr>status := DEAD\<rparr>)\<rparr>) = Some (Some 1, w') \<and> request_free w' = Some 0"
proof -
  let ?w = "example_world\<lparr>reqs := (\<lambda>i. example_request\<lparr>status := DEAD\<rparr>)\<rparr>"
  have "world_ok ?w ([] @ 0 # [1]) [] []" using example_world_ok(1) queues_frame(2) [of ?w example_world] by simp
  moreover have "status (reqs ?w 0) \<in> {TIMED_OUT, DEAD}" "\<not> pending_requests ?w" by (simp_all add: example_world_def)
  moreover have "first_of [1] = Some 1" by (simp add: first_of_def)
  ultimately show ?thesis using dead_request_released [of ?w "[]" 0 "[1]" "[]" "[]"] by auto
qed

text \<open>
  A request that waits for its file without \<open>sendfile\<close> is the only kind \<open>fdset_update\<close> does not put back into the set that
  \<open>select\<close> has cleared: it is not watched any more and only its time-out wakes it.
\<close>

lemma shuffle_not_watched:
  assumes "status (reqs w i) = IOSHUFFLE" and "buffer_end (reqs w i) = 0" and "buffer_start (reqs w i) = 0"
    and "\<not> build_sendfile (srv w)" and "data_fd (reqs w i) \<notin> set (read_set w)" and "\<not> timed_out (srv w) (reqs w i)"
  shows "read_set (snd (fdset_step i w)) = read_set w"
  using assms by (simp add: fdset_step_def Let_def set_req_def)

end
