(* ===== verification/Poll.thy ===== *)
theory Poll
  imports Select
begin

text \<open>
  The other main loop of the server (\<open>poll.c\<close>), up to the pass over the ready requests. In place of sets it keeps an array of descriptors for
  \<open>poll\<close>, and each blocked request the index of its entry; the array is built anew in every turn. The two arrays that are
  swapped are one value here, the one in use; what \<open>poll\<close> stores in the entries is a function of the index.
  The descriptor sets of the \<open>world\<close> belong to the other variant and are not used.
\<close>

section \<open>Definitions\<close>

record pollfd =
  p_fd :: nat
  p_events :: direction

text \<open>The bits of a result that the code tests: an error, and any bit at all.\<close>

record revents =
  rv_error :: bool
  rv_any :: bool

datatype poll_result = Polled "nat \<Rightarrow> revents" | Poll_EINTR | Poll_failed "nat \<Rightarrow> revents"

record poll_state =
  pfds :: "pollfd list"
  pollfd_id :: "nat \<Rightarrow> nat"
  server_pfd :: nat
  watching_server :: bool
  poll_script :: "poll_result list"

text \<open>\<open>BOA_FD_SET\<close> and \<open>block_request\<close> of this variant; \<open>BOA_FD_CLR\<close> does nothing.\<close>

definition poll_fd_set :: "nat \<Rightarrow> nat \<times> direction \<Rightarrow> poll_state \<Rightarrow> poll_state" where
  "poll_fd_set i a p =
     p\<lparr>pollfd_id := (pollfd_id p)(i := length (pfds p)), pfds := pfds p @ [\<lparr>p_fd = fst a, p_events = snd a\<rparr>]\<rparr>"

definition poll_block_request :: "nat \<Rightarrow> poll_state \<Rightarrow> world \<Rightarrow> poll_state \<times> world" where
  "poll_block_request i p w =
     (let w = enqueue_block i (dequeue_ready i w) in (poll_fd_set i (awaited (srv w) (reqs w i)) p, w))"

definition poll_ready_request :: "nat \<Rightarrow> world \<Rightarrow> world" where
  "poll_ready_request i w = enqueue_ready i (dequeue_block i w)"

text \<open>One round of \<open>update_blocked\<close>: \<open>old\<close> is the array \<open>poll\<close> was called with, the other one is being built.\<close>

definition blocked_step :: "pollfd list \<Rightarrow> (nat \<Rightarrow> revents) \<Rightarrow> nat \<Rightarrow> poll_state \<Rightarrow> world \<Rightarrow> nat option \<times> poll_state \<times> world" where
  "blocked_step old rv i p w =
     (let r = reqs w i;
          next = q_next (q_links w) i;
          id = pollfd_id p i
      in if rv_error (rv id) then (next, p, poll_ready_request i (set_req i (r\<lparr>status := DEAD\<rparr>) w))
         else if timed_out (srv w) r then (next, p, poll_ready_request i (set_req i (r\<lparr>status := TIMED_OUT\<rparr>) w))
         else if \<not> rv_any (rv id) then (next, poll_fd_set i (p_fd (old ! id), p_events (old ! id)) p, w)
         else (next, p, poll_ready_request i w))"

text \<open>\<open>None\<close> is a loop that does not end.\<close>

definition update_blocked :: "(nat \<Rightarrow> revents) \<Rightarrow> poll_state \<Rightarrow> world \<Rightarrow> (poll_state \<times> world) option" where
  "update_blocked rv p w =
     (let w = time_now w in
      map_option snd
        (while_option (\<lambda>(cur, p, w). cur \<noteq> None) (\<lambda>(cur, s, w). blocked_step (pfds p) rv (the cur) s w)
           (request_block w, p\<lparr>pfds := []\<rparr>, w)))"

text \<open>The removal of the server's entry at a shutdown, as the code does it: entry \<open>j\<close> is copied to place \<open>j\<close>.\<close>

definition remove_server :: "poll_state \<Rightarrow> poll_state" where
  "remove_server p =
     (let kept = filter (\<lambda>i. i \<noteq> server_pfd p) [0..<length (pfds p)]
      in p\<lparr>pfds := map (\<lambda>j. pfds p ! j) [0..<length kept], watching_server := False\<rparr>)"

definition poll_watch_server :: "poll_state \<Rightarrow> world \<Rightarrow> (poll_state \<times> world) option" where
  "poll_watch_server p w =
     (if sigterm_flag w \<noteq> 0 then
        (let (p, w) = (if sigterm_flag w = 1
                  then (let w = sigterm_stage1_run w;
                            w = (case server_s w of None \<Rightarrow> w | Some s \<Rightarrow> (close_fd s w)\<lparr>server_s := None\<rparr>)
                        in (remove_server p, w))
                  else (p, w))
         in if sigterm_flag w = 2 \<and> request_ready w = None \<and> request_block w = None then None else Some (p, w))
      else
        Some (if unat (total_connections w) < max_connections (srv w)
              then (p\<lparr>server_pfd := length (pfds p), watching_server := True,
                      pfds := pfds p @ [\<lparr>p_fd = the (server_s w), p_events = BOA_READ\<rparr>]\<rparr>, w)
              else (p\<lparr>watching_server := False\<rparr>, w)))"

text \<open>The wait; the first component of the result is what \<open>poll\<close> stored, or nothing after an interruption.\<close>

definition poll_wait :: "poll_state \<Rightarrow> world \<Rightarrow> ((nat \<Rightarrow> revents) option \<times> poll_state \<times> world) option" where
  "poll_wait p w =
     (let w = w\<lparr>pending_requests := False\<rparr>;
          quiet = (\<lambda>i. \<lparr>rv_error = False, rv_any = False\<rparr>);
          polled = (\<lambda>rv p. if sigterm_flag w = 0 \<and> watching_server p \<and> rv_error (rv (server_pfd p)) then None
             else Some (Some rv, p, time_now
               (if sigterm_flag w = 0 \<and> watching_server p \<and> rv_any (rv (server_pfd p)) then w\<lparr>pending_requests := True\<rparr> else w)))
      in if pfds p = [] then Some (Some quiet, p, w)
         else case poll_script p of
                [] \<Rightarrow> polled quiet p
              | Polled rv # q \<Rightarrow> polled rv (p\<lparr>poll_script := q\<rparr>)
              | Poll_failed rv # q \<Rightarrow> polled rv (p\<lparr>poll_script := q\<rparr>)
              | Poll_EINTR # q \<Rightarrow> Some (None, p\<lparr>poll_script := q\<rparr>, w))"

text \<open>
  The turn of the loop up to the pass over the ready requests. The outer \<open>None\<close> is a loop that does not end, the
  inner one the exit of the process; the first component of the result says that the pass follows.
\<close>

definition poll_turn :: "poll_state \<Rightarrow> world \<Rightarrow> (bool \<times> poll_state \<times> world) option option" where
  "poll_turn p w =
     (case poll_watch_server p (time_now w) of
        None \<Rightarrow> Some None
      | Some (p, w) \<Rightarrow>
          (case poll_wait p w of
             None \<Rightarrow> Some None
           | Some (None, p, w) \<Rightarrow> Some (Some (False, p, w))
           | Some (Some rv, p, w) \<Rightarrow>
               (case (if request_block w \<noteq> None then update_blocked rv p w else Some (p\<lparr>pfds := []\<rparr>, w)) of
                  None \<Rightarrow> None
                | Some (p, w) \<Rightarrow> Some (Some (True, p, w)))))"

section \<open>Waking the blocked requests\<close>

text \<open>What keeps a request blocked, and the request as it leaves the blocked queue.\<close>

definition stays :: "(nat \<Rightarrow> revents) \<Rightarrow> poll_state \<Rightarrow> world \<Rightarrow> nat \<Rightarrow> bool" where
  "stays rv p w i \<longleftrightarrow> \<not> rv_error (rv (pollfd_id p i)) \<and> \<not> timed_out (srv w) (reqs w i) \<and> \<not> rv_any (rv (pollfd_id p i))"

definition leaving :: "(nat \<Rightarrow> revents) \<Rightarrow> poll_state \<Rightarrow> world \<Rightarrow> nat \<Rightarrow> request" where
  "leaving rv p w i =
     (let r = reqs w i in
      if rv_error (rv (pollfd_id p i)) then r\<lparr>status := DEAD\<rparr>
      else if timed_out (srv w) r then r\<lparr>status := TIMED_OUT\<rparr> else r)"

lemma blocked_step_cases:
  "blocked_step old rv i p w =
     (q_next (q_links w) i,
      if stays rv p w i then (poll_fd_set i (p_fd (old ! pollfd_id p i), p_events (old ! pollfd_id p i)) p, w)
      else (p, poll_ready_request i (set_req i (leaving rv p w i) w)))"
  by (simp add: blocked_step_def stays_def leaving_def Let_def set_req_def)

lemma poll_ready_request_frame [simp]:
  "srv (poll_ready_request i w) = srv w" "reqs (poll_ready_request i w) = reqs w"
  by (simp_all add: poll_ready_request_def enqueue_ready_def dequeue_block_def split: prod.split)

lemma poll_ready_request_keeps:
  assumes "world_ok w rd bl fr" and "i \<in> set bl"
  shows "world_ok (poll_ready_request i w) (i # rd) (remove1 i bl) fr"
proof -
  have "qview (ready_request i w) = qview (poll_ready_request i w)"
    by (simp add: ready_request_def poll_ready_request_def Let_def split: prod.split)
  then show ?thesis using ready_request_keeps [OF assms] queues_frame(2) by blast
qed

text \<open>The walk over the blocked queue, from any point of it, compared with the state it starts from.\<close>

definition walked :: "pollfd list \<Rightarrow> (nat \<Rightarrow> revents) \<Rightarrow> nat list \<Rightarrow> poll_state \<Rightarrow> world \<Rightarrow> poll_state \<Rightarrow> world \<Rightarrow> bool" where
  "walked old rv post p w p' w' \<longleftrightarrow>
     (let kept = filter (stays rv p w) post in
      pfds p' = pfds p @ map (\<lambda>i. old ! pollfd_id p i) kept \<and>
      map (pollfd_id p') kept = [length (pfds p)..<length (pfds p) + length kept] \<and>
      (\<forall>j. j \<notin> set post \<longrightarrow> pollfd_id p' j = pollfd_id p j \<and> reqs w' j = reqs w j) \<and>
      (\<forall>i \<in> set post. reqs w' i = (if stays rv p w i then reqs w i else leaving rv p w i)) \<and> srv w' = srv w)"

lemma stays_frame:
  "pollfd_id p' i = pollfd_id p i \<Longrightarrow> reqs w' i = reqs w i \<Longrightarrow> srv w' = srv w \<Longrightarrow>
   stays rv p' w' i = stays rv p w i \<and> leaving rv p' w' i = leaving rv p w i"
  by (simp add: stays_def leaving_def Let_def)

lemma walked_step:
  assumes "walked old rv xs p1 w1 p' w'" and "blocked_step old rv i p w = (cur, p1, w1)" and "i \<notin> set xs"
  shows "walked old rv (i # xs) p w p' w'"
proof -
  have b: "(p1, w1) = (if stays rv p w i then (poll_fd_set i (p_fd (old ! pollfd_id p i), p_events (old ! pollfd_id p i)) p, w)
      else (p, poll_ready_request i (set_req i (leaving rv p w i) w)))"
    using assms(2) unfolding blocked_step_cases by simp
  have fr: "pollfd_id p1 j = pollfd_id p j" "reqs w1 j = reqs w j" if "j \<noteq> i" for j
    using b that by (auto simp: poll_fd_set_def split: if_splits)
  have sv: "srv w1 = srv w" and ri: "reqs w1 i = (if stays rv p w i then reqs w i else leaving rv p w i)"
    using b by (auto split: if_splits)
  have same: "stays rv p1 w1 j = stays rv p w j" "leaving rv p1 w1 j = leaving rv p w j" if "j \<in> set xs" for j
    using stays_frame [OF fr sv, of j] that assms(3) by auto
  then have k: "filter (stays rv p1 w1) xs = filter (stays rv p w) xs" by (simp cong: filter_cong)
  define kept where "kept = filter (stays rv p w) xs"
  have ne: "j \<noteq> i" if "j \<in> set kept" for j using that assms(3) by (auto simp: kept_def)
  have m: "map (\<lambda>j. old ! pollfd_id p1 j) kept = map (\<lambda>j. old ! pollfd_id p j) kept"
    using fr(1) ne by (simp cong: map_cong)
  from assms(1) have
    w: "pfds p' = pfds p1 @ map (\<lambda>j. old ! pollfd_id p1 j) kept" "map (pollfd_id p') kept = [length (pfds p1)..<length (pfds p1) + length kept]"
      "\<And>j. j \<notin> set xs \<Longrightarrow> pollfd_id p' j = pollfd_id p1 j \<and> reqs w' j = reqs w1 j"
      "\<And>j. j \<in> set xs \<Longrightarrow> reqs w' j = (if stays rv p1 w1 j then reqs w1 j else leaving rv p1 w1 j)" "srv w' = srv w1"
    unfolding walked_def k kept_def Let_def by blast+
  have reqs: "reqs w' j = (if stays rv p w j then reqs w j else leaving rv p w j)" if "j \<in> set (i # xs)" for j
    using that w(3) [of i] w(4) [of j] same [of j] fr(2) [of j] ri assms(3) by (cases "j = i") auto
  have rest: "pollfd_id p' j = pollfd_id p j \<and> reqs w' j = reqs w j" if "j \<notin> set (i # xs)" for j
    using that w(3) [of j] fr [of j] by simp
  have "pfds p' = pfds p @ map (\<lambda>j. old ! pollfd_id p j) (filter (stays rv p w) (i # xs)) \<and>
      map (pollfd_id p') (filter (stays rv p w) (i # xs)) =
        [length (pfds p)..<length (pfds p) + length (filter (stays rv p w) (i # xs))]"
  proof (cases "stays rv p w i")
    case True
    then have p1: "p1 = poll_fd_set i (p_fd (old ! pollfd_id p i), p_events (old ! pollfd_id p i)) p" using b by simp
    have id: "pollfd_id p' i = length (pfds p)" using w(3) [OF assms(3)] by (simp add: p1 poll_fd_set_def)
    have p1f: "pfds p1 = pfds p @ [old ! pollfd_id p i]" by (simp add: p1 poll_fd_set_def)
    have u: "[length (pfds p)..<length (pfds p) + length (i # kept)] = length (pfds p) # [length (pfds p1)..<length (pfds p1) + length kept]"
      by (subst upt_conv_Cons) (simp_all add: p1f del: upt_Suc)
    have f: "filter (stays rv p w) (i # xs) = i # kept" using True by (simp add: kept_def)
    show ?thesis unfolding f u w(1) m list.map w(2) id p1f by simp
  next
    case False
    then show ?thesis using b w(1,2) m by (simp flip: kept_def)
  qed
  note entries = this [THEN conjunct1] this [THEN conjunct2]
  have "srv w' = srv w" using w(5) sv by simp
  with entries reqs rest show ?thesis
    unfolding walked_def Let_def by (intro conjI allI impI ballI) (assumption | rule rest [THEN conjunct1] rest [THEN conjunct2] reqs)+
qed

lemma blocked_walk:
  assumes "world_ok w rd (pre @ post) fr"
  shows "\<exists>p' w' rd'. while_option (\<lambda>(cur, p, w). cur \<noteq> None) (\<lambda>(cur, p, w). blocked_step old rv (the cur) p w) (first_of post, p, w) =
       Some (None, p', w') \<and> world_ok w' rd' (pre @ filter (stays rv p w) post) fr \<and>
     set rd' = set rd \<union> {i \<in> set post. \<not> stays rv p w i} \<and> walked old rv post p w p' w'"
  using assms
proof (induction post arbitrary: pre p w rd)
  case Nil
  then show ?case by (subst while_option_unfold) (auto simp: first_of_def walked_def)
next
  case (Cons i xs)
  have d: "dlist (q_links w) (request_block w) (pre @ i # xs)" using Cons.prems by (simp add: world_ok_def queues_def)
  have cur: "q_next (q_links w) i = first_of xs" using dlist_next [OF d] by (simp add: first_of_def)
  have i: "i \<notin> set xs" "i \<notin> set pre" using d by (simp_all add: dlist_def)
  obtain p1 w1 where s: "blocked_step old rv i p w = (first_of xs, p1, w1)"
    using cur unfolding blocked_step_cases by (metis prod.collapse)
  define pre1 rd1 where "pre1 = (if stays rv p w i then pre @ [i] else pre)" and "rd1 = (if stays rv p w i then rd else i # rd)"
  have ok: "world_ok w1 rd1 (pre1 @ xs) fr"
  proof (cases "stays rv p w i")
    case True
    then show ?thesis using s Cons.prems unfolding blocked_step_cases by (simp add: pre1_def rd1_def)
  next
    case False
    have q: "world_ok (set_req i (leaving rv p w i) w) rd (pre @ i # xs) fr"
      using Cons.prems queues_frame(2) [of "set_req i (leaving rv p w i) w" w] by simp
    have "remove1 i (pre @ i # xs) = pre @ xs" using i by (simp add: remove1_append)
    then show ?thesis
      using False s poll_ready_request_keeps [OF q, of i] unfolding blocked_step_cases by (auto simp: pre1_def rd1_def)
  qed
  have fr: "pollfd_id p1 j = pollfd_id p j \<and> reqs w1 j = reqs w j" "srv w1 = srv w" if "j \<noteq> i" for j
    using s that unfolding blocked_step_cases by (auto simp: poll_fd_set_def split: if_splits)
  have same: "stays rv p1 w1 j = stays rv p w j" if "j \<in> set xs" for j
    using stays_frame [of p1 j p w1 w] fr [of j] that i(1) by auto
  then have k: "filter (stays rv p1 w1) xs = filter (stays rv p w) xs" "{j \<in> set xs. \<not> stays rv p1 w1 j} = {j \<in> set xs. \<not> stays rv p w j}"
    by (auto cong: filter_cong)
  from Cons.IH [OF ok, of p1] obtain p' w' rd' where
    r: "while_option (\<lambda>(cur, p, w). cur \<noteq> None) (\<lambda>(cur, p, w). blocked_step old rv (the cur) p w) (first_of xs, p1, w1) = Some (None, p', w')"
      "world_ok w' rd' (pre1 @ filter (stays rv p w) xs) fr" "set rd' = set rd1 \<union> {j \<in> set xs. \<not> stays rv p w j}"
      "walked old rv xs p1 w1 p' w'"
    unfolding k by blast
  have "while_option (\<lambda>(cur, p, w). cur \<noteq> None) (\<lambda>(cur, p, w). blocked_step old rv (the cur) p w) (first_of (i # xs), p, w) = Some (None, p', w')"
    using r(1) s by (subst while_option_unfold) (simp add: first_of_def)
  moreover have "world_ok w' rd' (pre @ filter (stays rv p w) (i # xs)) fr" using r(2) by (simp add: pre1_def split: if_splits)
  moreover have "set rd' = set rd \<union> {j \<in> set (i # xs). \<not> stays rv p w j}" using r(3) by (auto simp: rd1_def)
  ultimately show ?case using walked_step [OF r(4) s i(1)] by blast
qed

section \<open>Properties\<close>

text \<open>Every blocked request has the entry of the descriptor and the direction it waits for.\<close>

definition watching :: "poll_state \<Rightarrow> world \<Rightarrow> nat list \<Rightarrow> bool" where
  "watching p w bl \<longleftrightarrow>
     (\<forall>i \<in> set bl. pollfd_id p i < length (pfds p) \<and>
        pfds p ! pollfd_id p i = \<lparr>p_fd = fst (awaited (srv w) (reqs w i)), p_events = snd (awaited (srv w) (reqs w i))\<rparr>)"

lemma blocking_watched:
  assumes "watching p w bl" and "poll_block_request i p w = (p', w')" and "i \<notin> set bl"
  shows "watching p' w' (i # bl)"
proof -
  have f: "reqs w' = reqs w" "srv w' = srv w" "p' = poll_fd_set i (awaited (srv w) (reqs w i)) p"
    using assms(2) by (auto simp: poll_block_request_def enqueue_block_def dequeue_ready_def Let_def split: prod.splits)
  show ?thesis using assms(1,3) by (auto simp: watching_def f poll_fd_set_def nth_append)
qed

lemma update_blocked_result:
  assumes "world_ok w rd bl fr" and "watching p w bl"
  shows "\<exists>p' w' rd'. update_blocked rv p w = Some (p', w') \<and>
      world_ok w' rd' (filter (stays rv p (time_now w)) bl) fr \<and> set rd' = set rd \<union> (set bl - set (filter (stays rv p (time_now w)) bl)) \<and>
      length (pfds p') = length (filter (stays rv p (time_now w)) bl) \<and>
      map (pollfd_id p') (filter (stays rv p (time_now w)) bl) = [0..<length (filter (stays rv p (time_now w)) bl)] \<and>
      watching p' w' (filter (stays rv p (time_now w)) bl) \<and>
      (\<forall>i \<in> set bl - set (filter (stays rv p (time_now w)) bl). reqs w' i = leaving rv p (time_now w) i)"
proof -
  let ?w = "time_now w" let ?p = "p\<lparr>pfds := []\<rparr>" let ?kept = "filter (stays rv p (time_now w)) bl"
  have st: "stays rv ?p v i = stays rv p v i" "leaving rv ?p v i = leaving rv p v i" for v i by (simp_all add: stays_def leaving_def)
  have t: "reqs ?w = reqs w" "awaited (srv ?w) r = awaited (srv w) r" for r
    by (auto simp: time_now_def wall_clock_def awaited_def split: list.split)
  have ok: "world_ok ?w rd ([] @ bl) fr" using assms(1) queues_frame(2) [of ?w w] by simp
  then have "dlist (q_links ?w) (request_block ?w) bl" by (simp add: world_ok_def queues_def)
  then have first: "request_block ?w = first_of bl" by (rule dlist_first)
  from blocked_walk [OF ok, of "pfds p" rv ?p] obtain p' w' rd' where
    r: "update_blocked rv p w = Some (p', w')" "world_ok w' rd' ?kept fr" "set rd' = set rd \<union> {i \<in> set bl. \<not> stays rv p ?w i}"
      and k: "walked (pfds p) rv bl ?p ?w p' w'"
    unfolding update_blocked_def Let_def first st by auto
  from k have e: "pfds p' = map (\<lambda>i. pfds p ! pollfd_id p i) ?kept" "map (pollfd_id p') ?kept = [0..<length ?kept]"
    "\<And>i. i \<in> set bl \<Longrightarrow> reqs w' i = (if stays rv p ?w i then reqs w i else leaving rv p ?w i)" "srv w' = srv ?w"
    unfolding walked_def Let_def st t(1) by simp_all
  have "watching p' w' ?kept"
    unfolding watching_def
  proof
    fix i assume i: "i \<in> set ?kept"
    then obtain n where n: "n < length ?kept" "?kept ! n = i" by (meson in_set_conv_nth)
    have "pollfd_id p' i = n" using arg_cong [OF e(2), of "\<lambda>l. l ! n"] n by simp
    moreover have "pfds p' ! n = pfds p ! pollfd_id p i" using n by (simp add: e(1))
    moreover have "reqs w' i = reqs w i" "i \<in> set bl" using e(3) i by simp_all
    ultimately show "pollfd_id p' i < length (pfds p') \<and>
        pfds p' ! pollfd_id p' i = \<lparr>p_fd = fst (awaited (srv w') (reqs w' i)), p_events = snd (awaited (srv w') (reqs w' i))\<rparr>"
      using assms(2) n(1) unfolding watching_def e(4) t(2) by (simp add: e(1))
  qed
  moreover have "set bl - set ?kept = {i \<in> set bl. \<not> stays rv p ?w i}" by auto
  ultimately show ?thesis using r e by (intro exI [of _ p'] exI [of _ w'] exI [of _ rd']) simp
qed

text \<open>This loop keeps the contract of the main loops, whatever \<open>poll\<close> reports.\<close>

lemma update_blocked_moves:
  assumes "world_ok w rd bl fr" and "watching p w bl"
  shows "\<exists>p' w' rd' bl'. update_blocked rv p w = Some (p', w') \<and> world_ok w' rd' bl' fr \<and> watching p' w' bl' \<and>
     (\<forall>i \<in> set bl. timed_out (srv (time_now w)) (reqs (time_now w) i) \<longrightarrow> i \<in> set rd' \<and> status (reqs w' i) \<in> {TIMED_OUT, DEAD})"
proof -
  define kept where "kept = filter (stays rv p (time_now w)) bl"
  from update_blocked_result [OF assms, of rv, folded kept_def] obtain p' w' rd' where
    r: "update_blocked rv p w = Some (p', w')" "world_ok w' rd' kept fr" "set rd' = set rd \<union> (set bl - set kept)" "watching p' w' kept"
      "\<forall>i \<in> set bl - set kept. reqs w' i = leaving rv p (time_now w) i"
    by blast
  have "i \<in> set rd' \<and> status (reqs w' i) \<in> {TIMED_OUT, DEAD}"
    if "i \<in> set bl" "timed_out (srv (time_now w)) (reqs (time_now w) i)" for i
  proof -
    have n: "i \<in> set bl - set kept" using that by (simp add: kept_def stays_def)
    then have "reqs w' i = leaving rv p (time_now w) i" using r(5) by blast
    then show ?thesis using n r(3) that(2) by (simp add: leaving_def Let_def)
  qed
  then show ?thesis using r(1,2,4) by blast
qed

interpretation poll_loop: waking_pass "update_blocked rv" watching for rv
  by unfold_locales (rule update_blocked_moves)

text \<open>The array for \<open>poll\<close>. The pass over the blocked requests after \<open>poll\<close> ends; a request stays blocked exactly when its entry
  reports nothing and its time has not run out, every other becomes ready, marked dead after an error and timed out
  after a time-out; and the array built for the next turn has one entry for each request still blocked, in
  the order of the queue, at the index the request remembers, and each waits for what its request needs.
\<close>

theorem update_blocked_watches:
  assumes "world_ok w rd bl fr" and "watching p w bl"
  shows "\<exists>p' w' rd'. update_blocked rv p w = Some (p', w') \<and>
     (let kept = filter (stays rv p (time_now w)) bl in
      world_ok w' rd' kept fr \<and> set rd' = set rd \<union> (set bl - set kept) \<and>
      length (pfds p') = length kept \<and> map (pollfd_id p') kept = [0..<length kept] \<and> watching p' w' kept \<and>
      (\<forall>i \<in> set bl - set kept. reqs w' i = leaving rv p (time_now w) i))"
  using update_blocked_result [OF assms, of rv] unfolding Let_def .

definition example_poll :: poll_state where
  "example_poll = \<lparr>pfds = [\<lparr>p_fd = fd example_request, p_events = BOA_READ\<rparr>, \<lparr>p_fd = fd example_request, p_events = BOA_READ\<rparr>],
     pollfd_id = (\<lambda>i. i), server_pfd = 0, watching_server = False, poll_script = []\<rparr>"

theorem update_blocked_watches_witness:
  "\<exists>p' w' rd'. update_blocked (\<lambda>i. \<lparr>rv_error = i = 0, rv_any = i = 0\<rparr>) example_poll
       (example_world\<lparr>request_ready := None, request_block := Some 0\<rparr>) = Some (p', w') \<and>
     (0 :: nat) \<in> set rd' \<and> status (reqs w' 0) = DEAD"
proof -
  let ?w = "example_world\<lparr>request_ready := None, request_block := Some 0\<rparr>" let ?rv = "\<lambda>i. \<lparr>rv_error = i = 0, rv_any = i = (0 :: nat)\<rparr>"
  have ok: "world_ok ?w [] [0, 1] []" by (simp add: example_world_def world_ok_def queues_def dlist_def)
  have wt: "watching example_poll ?w [0, 1]"
    by (simp add: watching_def example_poll_def awaited_def example_world_def example_request_def)
  have s: "\<not> stays ?rv example_poll v 0" "status (leaving ?rv example_poll v 0) = DEAD" for v
    by (simp_all add: stays_def leaving_def example_poll_def)
  define kept where "kept = filter (stays ?rv example_poll (time_now ?w)) [0, 1]"
  have k: "(0::nat) \<in> set [0, 1] - set kept" using s(1) [of "time_now ?w"] by (simp add: kept_def)
  from update_blocked_watches [OF ok wt, of ?rv, folded kept_def] obtain p' w' rd' where
    u: "update_blocked ?rv example_poll ?w = Some (p', w')" and "set rd' = set [] \<union> (set [0, 1] - set kept)"
      "\<forall>i \<in> set [0, 1] - set kept. reqs w' i = leaving ?rv example_poll (time_now ?w) i"
    unfolding Let_def by blast
  then have "0 \<in> set rd'" "reqs w' 0 = leaving ?rv example_poll (time_now ?w) 0" using k by blast+
  with u s(2) [of "time_now ?w"] have "update_blocked ?rv example_poll ?w = Some (p', w') \<and> 0 \<in> set rd' \<and> status (reqs w' 0) = DEAD" by (intro conjI) simp_all
  then show ?thesis by blast
qed

text \<open>C21: Time-outs in both main loops. A blocked request that has waited longer than the limit for a request, or than the limit between two requests of a
  connection, does not stay: the walk over the blocked requests ends, the request is in the ready queue, and its handler, when the pass over
  that queue comes to it, gives the connection up with nothing left to send.
\<close>

theorem overdue_request_given_up:
  assumes "world_ok w rd bl fr" and "watching p w bl" and "i \<in> set bl" and "timed_out (srv (time_now w)) (reqs (time_now w) i)"
  shows "(\<exists>w' rd' bl'. fdset_update w = Some w' \<and> world_ok w' rd' bl' fr \<and> i \<in> set rd' \<and>
            serve (reqs w' i) (srv w') = Some (0, SQUASH_KA ((reqs w' i)\<lparr>buffer_end := 0\<rparr>), srv w')) \<and>
         (\<exists>p' w' rd' bl'. update_blocked rv p w = Some (p', w') \<and> world_ok w' rd' bl' fr \<and> i \<in> set rd' \<and>
            serve (reqs w' i) (srv w') = Some (0, SQUASH_KA ((reqs w' i)\<lparr>buffer_end := 0\<rparr>), srv w'))"
proof
  show "\<exists>w' rd' bl'. fdset_update w = Some w' \<and> world_ok w' rd' bl' fr \<and> i \<in> set rd' \<and>
      serve (reqs w' i) (srv w') = Some (0, SQUASH_KA ((reqs w' i)\<lparr>buffer_end := 0\<rparr>), srv w')"
    using select_loop.overdue_given_up [OF assms(1) TrueI assms(3,4)] unfolding select_wake_def by auto
  show "\<exists>p' w' rd' bl'. update_blocked rv p w = Some (p', w') \<and> world_ok w' rd' bl' fr \<and> i \<in> set rd' \<and>
      serve (reqs w' i) (srv w') = Some (0, SQUASH_KA ((reqs w' i)\<lparr>buffer_end := 0\<rparr>), srv w')"
    using assms by (rule poll_loop.overdue_given_up)
qed

theorem overdue_request_given_up_witness:
  "\<exists>w' rd' bl'. fdset_update example_idle = Some w' \<and> world_ok w' rd' bl' [] \<and> 0 \<in> set rd' \<and>
     serve (reqs w' 0) (srv w') = Some (0, SQUASH_KA ((reqs w' 0)\<lparr>buffer_end := 0\<rparr>), srv w')"
proof -
  have ok: "world_ok example_idle [] [0, 1] []" by (simp add: example_idle_def example_world_def world_ok_def queues_def dlist_def)
  have wt: "watching example_poll example_idle [0, 1]"
    by (simp add: watching_def example_poll_def awaited_def example_idle_def example_world_def example_request_def)
  have t: "timed_out (srv (time_now example_idle)) (reqs (time_now example_idle) 0)"
    by (simp add: time_now_def wall_clock_def example_idle_def example_world_def timed_out_def REQUEST_TIMEOUT_def example_request_def)
  have i: "0 \<in> set [0, 1 :: nat]" by simp
  show ?thesis using overdue_request_given_up [OF ok wt i t] by (rule conjunct1)
qed

text \<open>
  The removal at a shutdown leaves out the last entry, not that of the server: the two agree only when the server's
  entry is the last one. Otherwise the last request is no longer watched.
\<close>

lemma remove_server_drops_last:
  assumes "server_pfd p < length (pfds p)"
  shows "pfds (remove_server p) = butlast (pfds p)"
proof -
  let ?n = "length (pfds p)"
  have "filter (\<lambda>i. i \<noteq> server_pfd p) [0..<?n] = removeAll (server_pfd p) [0..<?n]"
    unfolding removeAll_filter_not_eq by (intro arg_cong2 [of _ _ _ _ filter] refl ext) auto
  also have "\<dots> = remove1 (server_pfd p) [0..<?n]" by (simp only: distinct_remove1_removeAll [OF distinct_upt])
  finally have l: "length (filter (\<lambda>i. i \<noteq> server_pfd p) [0..<?n]) = ?n - 1"
    using assms by (simp add: length_remove1)
  have "map (\<lambda>j. pfds p ! j) [0..<?n - 1] = butlast (pfds p)" by (rule nth_equalityI) (simp_all add: nth_butlast)
  then show ?thesis unfolding remove_server_def Let_def l by simp
qed

text \<open>After an interruption the array is kept and the server is entered once more: it grows with every interruption.\<close>

lemma interruption_grows:
  assumes "sigterm_flag w = 0" and "unat (total_connections w) < max_connections (srv w)" and "poll_script p = Poll_EINTR # q"
    and "clock w = []"
  shows "\<exists>p' w'. poll_turn p w = Some (Some (False, p', w')) \<and> length (pfds p') = length (pfds p) + 1"
proof -
  have "time_now w = w" using assms(4) by (simp add: time_now_def wall_clock_def)
  then show ?thesis using assms by (simp add: poll_turn_def poll_watch_server_def poll_wait_def Let_def)
qed

end
