(* ===== verification/Handlers.thy ===== *)
theory Handlers
  imports Select
begin

text \<open>
  What no handler changes: the configuration of the server, its tables of aliases, types and access rules, and the build options. Handlers change only the
  descriptors, the file mappings, the pool of ranges, the cache of home directories, the static array of script names and the cached listings.
\<close>

named_theorems config_frame

section \<open>The configuration\<close>

definition config_of :: "server \<Rightarrow> server" where
  "config_of sv = sv\<lparr>system_bufsize := 0, current_time := 0, passwd_hashtable := [], mmaps := mmap_init, range_pool := 0, alloc_script := [],
     sys_script := [], script_buf := [], fs_open := (\<lambda>p. Inl ENOENT), next_fd := 0, open_fds := []\<rparr>"

lemma config_of_simps [simp]:
  "config_of (sv\<lparr>system_bufsize := x1\<rparr>) = config_of sv" "config_of (sv\<lparr>current_time := x2\<rparr>) = config_of sv"
  "config_of (sv\<lparr>passwd_hashtable := x3\<rparr>) = config_of sv" "config_of (sv\<lparr>mmaps := x4\<rparr>) = config_of sv"
  "config_of (sv\<lparr>range_pool := x5\<rparr>) = config_of sv" "config_of (sv\<lparr>alloc_script := x6\<rparr>) = config_of sv"
  "config_of (sv\<lparr>sys_script := x7\<rparr>) = config_of sv" "config_of (sv\<lparr>script_buf := x8\<rparr>) = config_of sv"
  "config_of (sv\<lparr>fs_open := x9\<rparr>) = config_of sv" "config_of (sv\<lparr>next_fd := x10\<rparr>) = config_of sv"
  "config_of (sv\<lparr>open_fds := x11\<rparr>) = config_of sv"
  by (simp_all add: config_of_def)

lemma config_of_fields:
  assumes "config_of sv' = config_of sv"
  shows "build_sendfile sv' = build_sendfile sv" "alias_hashtable sv' = alias_hashtable sv" "mime_hashtable sv' = mime_hashtable sv"
    "access_nodes sv' = access_nodes sv" "document_root sv' = document_root sv" "user_dir sv' = user_dir sv" "common_cgi_env sv' = common_cgi_env sv"
    "max_connections sv' = max_connections sv" "single_post_limit sv' = single_post_limit sv" "ka_max sv' = ka_max sv" "ka_timeout sv' = ka_timeout sv"
proof -
  have f: "build_sendfile (config_of s) = build_sendfile s" "alias_hashtable (config_of s) = alias_hashtable s" "mime_hashtable (config_of s) = mime_hashtable s"
    "access_nodes (config_of s) = access_nodes s" "document_root (config_of s) = document_root s" "user_dir (config_of s) = user_dir s"
    "common_cgi_env (config_of s) = common_cgi_env s" "max_connections (config_of s) = max_connections s"
    "single_post_limit (config_of s) = single_post_limit s" "ka_max (config_of s) = ka_max s" "ka_timeout (config_of s) = ka_timeout s" for s
    by (simp_all add: config_of_def)
  show "build_sendfile sv' = build_sendfile sv" "alias_hashtable sv' = alias_hashtable sv" "mime_hashtable sv' = mime_hashtable sv"
    "access_nodes sv' = access_nodes sv" "document_root sv' = document_root sv" "user_dir sv' = user_dir sv" "common_cgi_env sv' = common_cgi_env sv"
    "max_connections sv' = max_connections sv" "single_post_limit sv' = single_post_limit sv" "ka_max sv' = ka_max sv" "ka_timeout sv' = ka_timeout sv"
    by (subst (1 2) f [symmetric], simp add: assms)+
qed

section \<open>The calls of the system and the ranges\<close>

lemma try_alloc_config [config_frame]: "try_alloc sv = (ok, sv') \<Longrightarrow> config_of sv' = config_of sv"
  by (auto simp: try_alloc_def split: prod.splits)

lemma try_sys_config [config_frame]: "try_sys sv = (ok, sv') \<Longrightarrow> config_of sv' = config_of sv"
  by (auto simp: try_sys_def split: list.splits)

lemma fd_config [simp]: "config_of (fd_close n sv) = config_of sv" "config_of (snd (fd_open sv)) = config_of sv"
  by (simp_all add: fd_close_def)

lemma complete_response_config [config_frame]: "complete_response r sv = (v, r', sv') \<Longrightarrow> config_of sv' = config_of sv"
  by (auto simp: complete_response_def Let_def split: if_splits)

lemma range_pool_push_config [simp]: "config_of (range_pool_push sv) = config_of sv"
  by (simp add: range_pool_push_def)

lemma range_pool_pushes_config [simp]: "config_of (fold (\<lambda>_. range_pool_push) xs sv) = config_of sv"
  by (induction xs arbitrary: sv) simp_all

lemma range_pool_pop_config [config_frame]: "range_pool_pop sv = Some (x, sv') \<Longrightarrow> config_of sv' = config_of sv"
  by (auto simp: range_pool_pop_def split: if_splits prod.splits dest!: config_frame)

lemma ranges_reset_config [config_frame]: "ranges_reset r sv = (r', sv') \<Longrightarrow> config_of sv' = config_of sv"
  by (auto simp: ranges_reset_def)

lemma range_abort_config [config_frame]: "range_abort r sv = Some (r', sv') \<Longrightarrow> config_of sv' = config_of sv"
  by (auto simp: range_abort_def split: prod.splits option.splits dest!: config_frame)

lemma range_add_config [config_frame]: "range_add r a b sv = Some (r', sv') \<Longrightarrow> config_of sv' = config_of sv"
  by (auto simp: range_add_def split: prod.splits option.splits dest!: config_frame)

lemma fixup_loop_config [config_frame]: "fixup_loop sz xs sv = (ys, sv') \<Longrightarrow> config_of sv' = config_of sv"
  by (induction sz xs sv arbitrary: ys rule: fixup_loop.induct) (auto split: option.splits prod.splits)

lemma ranges_fixup_config [config_frame]: "ranges_fixup r sv = (v, r', sv') \<Longrightarrow> config_of sv' = config_of sv"
  by (auto simp: ranges_fixup_def Let_def split: prod.splits if_splits dest!: config_frame)

lemma range_step_config:
  "range_step m a b c r sv = Return v r' sv' \<Longrightarrow> config_of sv' = config_of sv"
  "range_step m a b c r sv = Next m' a' b' r' sv' \<Longrightarrow> config_of sv' = config_of sv"
  by (auto simp: range_step_def Let_def split: if_splits option.splits dest!: config_frame)

lemma range_loop_config [config_frame]: "range_loop m a b cs r sv = Some (v, r', sv') \<Longrightarrow> config_of sv' = config_of sv"
proof (induction m a b cs r sv rule: range_loop.induct)
  case (1 m a b r sv)
  then show ?case by (auto split: range_outcome.splits dest: range_step_config)
next
  case (2 m a b c cs r sv)
  then show ?case by (cases "range_step m a b c r sv") (auto split: if_splits dest: range_step_config)
qed

lemma range_parse_config [config_frame]: "range_parse r str sv = Some (v, r', sv') \<Longrightarrow> config_of sv' = config_of sv"
  by (auto simp: range_parse_def split: if_splits dest!: config_frame)

section \<open>Translating a URI\<close>

lemma lookup_home_config [config_frame]: "lookup_home name sv = (h, sv') \<Longrightarrow> config_of sv' = config_of sv"
  by (auto simp: lookup_home_def split: prod.splits)

lemma realias_loop_config [config_frame]: "realias_loop as info r sv = (v, r', sv') \<Longrightarrow> config_of sv' = config_of sv"
  by (induction as info r sv rule: realias_loop.induct) (auto split: if_splits prod.splits dest!: config_frame)

lemma path_default_config [config_frame]: "path_default info r sv = (v, r', sv') \<Longrightarrow> config_of sv' = config_of sv"
  by (auto simp: path_default_def path_from_home_def path_from_root_def Let_def split: if_splits option.splits prod.splits dest!: config_frame)

lemma set_script_pathname_config [config_frame]: "set_script_pathname pb r sv = (v, r', sv') \<Longrightarrow> config_of sv' = config_of sv"
  by (auto simp: set_script_pathname_def Let_def split: if_splits prod.splits dest!: config_frame)

lemma script_whole_config [config_frame]: "script_whole pb r sv = (v, r', sv') \<Longrightarrow> config_of sv' = config_of sv"
  by (auto simp: script_whole_def Let_def split: if_splits option.splits dest!: config_frame)

lemma script_with_info_config [config_frame]: "script_with_info pb i r sv = (v, r', sv') \<Longrightarrow> config_of sv' = config_of sv"
  by (auto simp: script_with_info_def Let_def split: if_splits prod.splits dest!: config_frame)

lemma init_script_alias_config [config_frame]: "init_script_alias r a n sv = (v, r', sv') \<Longrightarrow> config_of sv' = config_of sv"
  by (auto simp: init_script_alias_def Let_def split: if_splits prod.splits script_scan.splits dest!: config_frame)

lemma set_pathname_config [config_frame]: "set_pathname path r sv = (v, r', sv') \<Longrightarrow> config_of sv' = config_of sv"
  by (auto simp: set_pathname_def bad_request_def Let_def split: if_splits prod.splits dest!: config_frame)

lemma translate_uri_config [config_frame]: "translate_uri r sv = (v, r', sv') \<Longrightarrow> config_of sv' = config_of sv"
  by (auto simp: translate_uri_def translate_alias_def translate_user_def translate_vhost_def translate_root_def bad_request_def Let_def
      split: if_splits prod.splits option.splits dest!: config_frame)

section \<open>Programs\<close>

lemma add_cgi_env_config [config_frame]: "add_cgi_env r k v pre sv = (x, r', sv') \<Longrightarrow> config_of sv' = config_of sv"
  by (auto simp: add_cgi_env_def env_gen_extra_def Let_def split: if_splits prod.splits option.splits dest!: config_frame)

lemma add_vars_config [config_frame]: "add_vars kvs r sv = (v, r', sv') \<Longrightarrow> config_of sv' = config_of sv"
  by (induction kvs r sv rule: add_vars.induct) (auto split: if_splits prod.splits dest!: config_frame)

lemma complete_env_config [config_frame]: "complete_env r sv = (v, r', sv') \<Longrightarrow> config_of sv' = config_of sv"
  by (auto simp: complete_env_def Let_def split: if_splits prod.splits dest!: config_frame)

lemma cgi_parent_config [config_frame]: "cgi_parent rd w r sv = (v, r', sv') \<Longrightarrow> config_of sv' = config_of sv"
  by (auto simp: cgi_parent_def Let_def split: if_splits prod.splits)

lemma cgi_fork_config [config_frame]: "cgi_fork r sv = (v, r', sv') \<Longrightarrow> config_of sv' = config_of sv"
  by (auto simp: cgi_fork_def split: if_splits prod.splits dest!: config_frame)

lemma init_cgi_config [config_frame]: "init_cgi r sv = (v, r', sv') \<Longrightarrow> config_of sv' = config_of sv"
  by (auto simp: init_cgi_def Let_def split: if_splits prod.splits dest!: config_frame)

section \<open>Files\<close>

lemma sys_open_config [config_frame]: "Get.sys_open path sv = (res, sv') \<Longrightarrow> config_of sv' = config_of sv"
  by (auto simp: Get.sys_open_def split: sum.splits prod.splits)

lemma index_entries_config [config_frame]: "index_entries names sv = (t, sv') \<Longrightarrow> config_of sv' = config_of sv"
  by (induction names sv arbitrary: t sv' rule: index_entries.induct) (auto split: if_splits prod.splits dest!: try_alloc_config)

lemma index_directory_config [config_frame]: "index_directory r dest sv = (v, r', sv') \<Longrightarrow> config_of sv' = config_of sv"
  by (auto simp: index_directory_def Let_def split: option.splits prod.splits sum.splits dest!: config_frame)

lemma make_cachedir_file_config [config_frame]: "make_cachedir_file r f sv = (d, r', sv') \<Longrightarrow> config_of sv' = config_of sv"
  by (auto simp: make_cachedir_file_def split: prod.splits sum.splits if_splits dest!: config_frame)

lemma get_cachedir_file_config [config_frame]: "get_cachedir_file r f sv = (d, r', sv') \<Longrightarrow> config_of sv' = config_of sv"
  by (auto simp: get_cachedir_file_def sys_unlink_def split: prod.splits sum.splits if_splits dest!: config_frame)

lemma gunzip_index_config [config_frame]: "gunzip_index r path sv = (v, r', sv') \<Longrightarrow> config_of sv' = config_of sv"
  unfolding gunzip_index_def Let_def by (auto split: prod.splits if_splits dest!: config_frame)

lemma make_index_config [config_frame]: "make_index r sv = (v, r', sv') \<Longrightarrow> config_of sv' = config_of sv"
  unfolding make_index_def Let_def by (auto split: if_splits dest!: config_frame)

lemma get_dir_default_config [config_frame]: "get_dir_default r f sv = (d, r', sv') \<Longrightarrow> config_of sv' = config_of sv"
  by (auto simp: get_dir_default_def dir_ret_def split: if_splits prod.splits dest!: config_frame)

lemma get_dir_config [config_frame]: "get_dir r f sv = (d, r', sv') \<Longrightarrow> config_of sv' = config_of sv"
  unfolding get_dir_def Let_def by (auto simp: dir_ret_def split: option.splits sum.splits if_splits prod.splits dest!: config_frame)

lemma gunzip_file_config [config_frame]: "gunzip_file r sv = (v, r', sv') \<Longrightarrow> config_of sv' = config_of sv"
  unfolding gunzip_file_def Let_def by (auto split: prod.splits if_splits dest!: config_frame)

lemma dir_redirect_config [config_frame]: "dir_redirect r sv = (v, r', sv') \<Longrightarrow> config_of sv' = config_of sv"
  unfolding dir_redirect_def Let_def by (auto split: prod.splits if_splits dest!: config_frame)

lemma attach_file_config [config_frame]: "attach_file n f r sv = (r', sv') \<Longrightarrow> config_of sv' = config_of sv"
  by (auto simp: attach_file_def Let_def split: if_splits prod.splits option.splits)

lemma send_file_headers_config [config_frame]: "send_file_headers r sv = Some (ok, r', sv') \<Longrightarrow> config_of sv' = config_of sv"
  by (auto simp: send_file_headers_def split: if_splits prod.splits option.splits dest!: config_frame)

lemma buffer_start_of_file_config [config_frame]: "buffer_start_of_file r sv = (v, r', sv') \<Longrightarrow> config_of sv' = config_of sv"
  unfolding buffer_start_of_file_def Let_def by (auto split: if_splits prod.splits dest!: config_frame)

lemma serve_file_config [config_frame]: "serve_file n f r sv = Some (v, r', sv') \<Longrightarrow> config_of sv' = config_of sv"
  by (auto simp: serve_file_def Let_def split: if_splits prod.splits option.splits dest!: config_frame)

lemma init_file_config [config_frame]: "init_file n f r sv = Some (v, r', sv') \<Longrightarrow> config_of sv' = config_of sv"
  unfolding init_file_def Let_def by (auto split: if_splits prod.splits option.splits dest!: config_frame)

lemma init_get_config [config_frame]: "init_get r sv = Some (v, r', sv') \<Longrightarrow> config_of sv' = config_of sv"
  unfolding init_get_def Let_def open_failed_def
  by (auto split: if_splits prod.splits sum.splits dir_result.splits dest!: config_frame)

lemma process_get_config [config_frame]: "process_get r sv = (v, r', sv') \<Longrightarrow> config_of sv' = config_of sv"
  unfolding process_get_def Let_def by (auto split: if_splits prod.splits sum.splits dest!: config_frame)

section \<open>Headers\<close>

lemma process_logline_config [config_frame]: "process_logline r sv = (v, r', sv') \<Longrightarrow> config_of sv' = config_of sv"
  unfolding process_logline_def Let_def by (auto split: if_splits option.splits prod.splits)

lemma option_range_config [config_frame]: "option_range val r sv = Some (v, r', sv') \<Longrightarrow> config_of sv' = config_of sv"
  by (auto simp: option_range_def option_env_def split: if_splits option.splits prod.splits dest!: config_frame)

lemma option_value_config [config_frame]: "option_value key val r sv = Some (v, r', sv') \<Longrightarrow> config_of sv' = config_of sv"
  unfolding option_value_def option_env_def by (auto split: if_splits prod.splits dest!: config_frame)

lemma process_option_line_config [config_frame]: "process_option_line r sv = Some (v, r', sv') \<Longrightarrow> config_of sv' = config_of sv"
  unfolding process_option_line_def Let_def by (auto split: if_splits option.splits dest!: config_frame)

lemma create_temporary_file_config [config_frame]: "create_temporary_file sv = (n, sv') \<Longrightarrow> config_of sv' = config_of sv"
  by (auto simp: create_temporary_file_def split: if_splits prod.splits dest!: config_frame)

lemma set_host_config [config_frame]: "set_host r sv = (v, r', sv') \<Longrightarrow> config_of sv' = config_of sv"
  unfolding set_host_def Let_def by (auto split: if_splits prod.splits dest!: config_frame)

lemma open_post_config [config_frame]: "open_post r sv = (v, r', sv') \<Longrightarrow> config_of sv' = config_of sv"
  by (auto simp: open_post_def Let_def split: if_splits prod.splits dest!: config_frame)

lemma start_request_config [config_frame]: "start_request r sv = Some (v, r', sv') \<Longrightarrow> config_of sv' = config_of sv"
  by (auto simp: start_request_def split: if_splits dest!: config_frame)

lemma process_header_end_config [config_frame]: "process_header_end r sv = Some (v, r', sv') \<Longrightarrow> config_of sv' = config_of sv"
  unfolding process_header_end_def Let_def by (auto split: if_splits prod.splits dest!: config_frame)

lemma end_of_line_config [config_frame]: "end_of_line r sv = Some (v, r', sv') \<Longrightarrow> config_of sv' = config_of sv"
  unfolding end_of_line_def Let_def returns_def by (auto split: if_splits prod.splits option.splits dest!: config_frame)

lemma start_body_config [config_frame]: "start_body r sv = (v, r', sv') \<Longrightarrow> config_of sv' = config_of sv"
  unfolding start_body_def Let_def by (auto split: if_splits option.splits)

lemma end_of_headers_config [config_frame]: "end_of_headers r sv = Some (v, r', sv') \<Longrightarrow> config_of sv' = config_of sv"
  by (auto simp: end_of_headers_def split: if_splits prod.splits option.splits dest!: config_frame)

lemma read_loop_config [config_frame]: "read_loop n r sv = Some (v, r', sv') \<Longrightarrow> config_of sv' = config_of sv"
proof (induction n r sv rule: read_loop.induct)
  case (2 n r sv)
  then show ?case
    unfolding read_loop.simps Let_def returns_def
    by (auto split: if_splits option.splits prod.splits dest!: end_of_line_config end_of_headers_config)
qed simp

lemma read_more_config [config_frame]: "read_more r sv = (v, r', sv') \<Longrightarrow> config_of sv' = config_of sv"
  unfolding read_more_def Let_def by (auto split: if_splits prod.splits sum.splits)

lemma read_header_config [config_frame]: "read_header r sv = Some (v, r', sv') \<Longrightarrow> config_of sv' = config_of sv"
  by (auto simp: read_header_def split: option.splits prod.splits dest!: config_frame)

section \<open>Bodies, programs and large files\<close>

lemma read_body_config [config_frame]: "read_body r sv = (v, r', sv') \<Longrightarrow> config_of sv' = config_of sv"
  unfolding read_body_def Let_def by (auto split: if_splits prod.splits sum.splits)

lemma write_body_config [config_frame]: "write_body r sv = (v, r', sv') \<Longrightarrow> config_of sv' = config_of sv"
  unfolding write_body_def Let_def by (auto split: if_splits prod.splits sum.splits dest!: init_cgi_config)

lemma cgi_merge_config [config_frame]: "cgi_merge body r sv = (v, r', sv') \<Longrightarrow> config_of sv' = config_of sv"
  unfolding cgi_merge_def Let_def by (auto split: if_splits)

lemma process_cgi_header_config [config_frame]: "process_cgi_header r sv = (v, r', sv') \<Longrightarrow> config_of sv' = config_of sv"
  unfolding process_cgi_header_def Let_def by (auto split: if_splits option.splits dest!: cgi_merge_config)

lemma write_from_pipe_config [config_frame]: "write_from_pipe r sv = (v, r', sv') \<Longrightarrow> config_of sv' = config_of sv"
  unfolding write_from_pipe_def Let_def by (auto split: if_splits prod.splits sum.splits)

lemma read_from_pipe_config [config_frame]: "read_from_pipe r sv = (v, r', sv') \<Longrightarrow> config_of sv' = config_of sv"
  unfolding read_from_pipe_def Let_def by (auto split: if_splits prod.splits sum.splits dest!: config_frame)

lemma shuffle_write_config [config_frame]: "shuffle_write r sv = (v, r', sv') \<Longrightarrow> config_of sv' = config_of sv"
  unfolding shuffle_write_def Let_def by (auto split: if_splits prod.splits sum.splits)

lemma io_shuffle_config [config_frame]: "io_shuffle r sv = (v, r', sv') \<Longrightarrow> config_of sv' = config_of sv"
  unfolding io_shuffle_def Let_def by (auto split: if_splits prod.splits sum.splits dest!: config_frame)

lemma io_shuffle_sendfile_config [config_frame]: "io_shuffle_sendfile r sv = (v, r', sv') \<Longrightarrow> config_of sv' = config_of sv"
  unfolding io_shuffle_sendfile_def Let_def by (auto split: if_splits prod.splits sum.splits dest!: config_frame)

section \<open>The handlers and the rounds\<close>

lemma handler_config [config_frame]: "handler r sv = Some (v, r', sv') \<Longrightarrow> config_of sv' = config_of sv"
  by (auto simp: handler_def split: req_status.splits if_splits prod.splits dest!: config_frame)

lemma serve_config: "serve r sv = Some (v, r', sv') \<Longrightarrow> config_of sv' = config_of sv"
  by (auto simp: serve_def split: if_splits prod.splits dest!: handler_config)

section \<open>Connections\<close>

lemma queue_srv [simp]:
  "srv (enqueue_ready i w) = srv w" "srv (enqueue_block i w) = srv w" "srv (dequeue_block i w) = srv w" "srv (dequeue_free i w) = srv w"
  by (simp_all add: enqueue_ready_def enqueue_block_def dequeue_block_def dequeue_free_def split: prod.split)

lemma time_now_config [simp]: "config_of (srv (time_now w)) = config_of (srv w)"
  by (auto simp: time_now_def wall_clock_def split: list.split)

lemma close_fd_config [simp]: "config_of (srv (close_fd n w)) = config_of (srv w)"
  by (simp add: close_fd_def)

lemma sys_call_config: "sys_call w = (ok, w') \<Longrightarrow> config_of (srv w') = config_of (srv w)"
  by (auto simp: sys_call_def split: prod.splits dest: try_sys_config)

lemma snd_sys_call_config [simp]: "config_of (srv (snd (sys_call w))) = config_of (srv w)"
  by (rule sys_call_config [of w "fst (sys_call w)"]) simp

lemma drop_connection_config [simp]: "config_of (srv (drop_connection n i w)) = config_of (srv w)"
  by (simp add: drop_connection_def)

lemma tune_sndbuf_config [simp]: "config_of (srv (tune_sndbuf c w)) = config_of (srv w)"
  by (auto simp: tune_sndbuf_def Let_def split: prod.split dest: sys_call_config)

lemma new_request_config: "new_request w = (i, w') \<Longrightarrow> config_of (srv w') = config_of (srv w)"
  by (auto simp: new_request_def Let_def split: option.splits prod.splits if_splits dest: try_alloc_config)

lemma refuse_config [simp]: "config_of (srv (refuse i w)) = config_of (srv w)"
  by (auto simp: refuse_def Let_def split: prod.split dest: try_alloc_config)

lemma admit_config [simp]: "config_of (srv (admit c i w)) = config_of (srv w)"
  by (simp add: admit_def Let_def split: option.split)

lemma setup_connection_config [simp]: "config_of (srv (setup_connection c i w)) = config_of (srv w)"
  by (auto simp: setup_connection_def Let_def split: option.split prod.split dest!: sys_call_config)

lemma get_request_config [simp]: "config_of (srv (get_request w)) = config_of (srv w)"
  unfolding get_request_def Let_def
  by (auto split: list.split accept_result.split prod.split option.split dest!: sys_call_config new_request_config)

lemma accept_first_config [simp]: "config_of (srv (accept_first w)) = config_of (srv w)"
  by (simp add: accept_first_def)

lemma block_request_config [simp]: "srv (block_request i w) = srv w"
  by (simp add: block_request_def Let_def split: prod.split)

lemma log_request_config [simp]: "srv (log_request i w) = srv w"
  by (auto simp: log_request_def Let_def wall_clock_def split: prod.splits list.splits)

lemma release_resources_config [simp]: "config_of (srv (release_resources i w)) = config_of (srv w)"
  by (auto simp: release_resources_def Let_def split: prod.split dest!: ranges_reset_config)

lemma next_on_connection_config [simp]: "srv (next_on_connection i w) = srv w"
  by (simp add: next_on_connection_def Let_def)

lemma close_connection_config [simp]: "config_of (srv (close_connection i w)) = config_of (srv w)"
  by (simp add: close_connection_def Let_def)

lemma free_request_config [simp]: "config_of (srv (free_request i w)) = config_of (srv w)"
  by (simp add: free_request_def Let_def split: prod.split)

section \<open>Rounds and turns\<close>

lemma process_step_config: "process_step i w = Some (cur, w') \<Longrightarrow> config_of (srv w') = config_of (srv w)"
proof -
  assume p: "process_step i w = Some (cur, w')"
  then obtain v r sv where sv: "serve (reqs (time_now w) i) (srv (time_now w)) = Some (v, r, sv)"
    by (auto simp: process_step_def Let_def split: option.splits)
  define w1 where "w1 = set_req i (if sigterm_flag (time_now w) \<noteq> 0 then SQUASH_KA r else r) ((time_now w)\<lparr>srv := sv\<rparr>)"
  note step = p [unfolded process_step_def Let_def sv option.case prod.case w1_def [symmetric] accept_first_def [symmetric]]
  have "config_of (srv w') = config_of (srv (accept_first w1))" using step by (auto split: if_splits simp del: accept_first_config)
  then show ?thesis using serve_config [OF sv] by (simp add: w1_def)
qed

lemma serve_all_config: "serve_all xs w = Some w' \<Longrightarrow> config_of (srv w') = config_of (srv w)"
  by (induction xs arbitrary: w) (auto split: option.splits dest: process_step_config)

lemma process_requests_config:
  assumes "well_formed w" and "process_requests w = Some (Some w')"
  shows "config_of (srv w') = config_of (srv w)"
proof -
  obtain rd bl fr where ok: "world_ok w rd bl fr" using assms(1) by (auto simp: well_formed_def)
  obtain rd1 where "dlist (q_links (accept_first w)) (request_ready (accept_first w)) rd1"
    using accept_first_keeps [OF ok] by (auto simp: admitted_def world_ok_def queues_def)
  then show ?thesis using process_requests_eq [OF ok] assms(2) serve_all_config [of _ "accept_first w" w'] by simp
qed

lemma fdset_update_config:
  assumes "well_formed w" and "fdset_update w = Some w'"
  shows "config_of (srv w') = config_of (srv w)"
proof -
  obtain rd bl fr where ok: "world_ok w rd bl fr" using assms(1) by (auto simp: well_formed_def)
  have ok1: "world_ok (time_now w) rd ([] @ bl) fr" using ok queues_frame(2) [of "time_now w" w] by simp
  have "distinct bl" using ok by (simp add: world_ok_def queues_def dlist_def)
  from update_all_keeps(2) [OF ok1 this] show ?thesis using fdset_update_eq [OF ok] assms(2) by simp
qed

lemma watch_server_config: "watch_server w = Some w' \<Longrightarrow> config_of (srv w') = config_of (srv w)"
  by (auto simp: watch_server_def sigterm_stage1_run_def Let_def split: if_splits option.splits)

lemma wait_select_config: "wait_select w = Some (b, w') \<Longrightarrow> config_of (srv w') = config_of (srv w)"
  by (auto simp: wait_select_def Let_def split: if_splits list.splits select_result.splits)

lemma loop_turn_config:
  assumes "well_formed w" and "loop_turn w = Some (Some w')"
  shows "config_of (srv w') = config_of (srv w)"
proof -
  obtain w1 where w1: "watch_server w = Some w1" using assms(2) by (auto simp: loop_turn_def split: option.splits)
  obtain b w2 where w2: "wait_select w1 = Some (b, w2)"
    using assms(2) w1 by (auto simp: loop_turn_def split: option.splits)
  define v where "v = w2\<lparr>max_fd := -1\<rparr>"
  have ok: "well_formed v"
    using assms(1) well_formed_frame [OF watch_server_qview [OF w1]] well_formed_frame [OF wait_select_qview [OF w2]]
      well_formed_frame [of v w2] by (simp add: v_def)
  note turn = assms(2) [unfolded loop_turn_def w1 w2 option.case prod.case Let_def, folded v_def]
  have "config_of (srv w') = config_of (srv w2)"
  proof (cases b)
    case True
    then obtain w3 where w3: "(if request_block v \<noteq> None then fdset_update v else Some v) = Some w3"
      and w': "(if pending_requests w3 \<or> request_ready w3 \<noteq> None then process_requests w3 else Some (Some w3)) = Some (Some w')"
      using turn by (auto split: option.splits)
    have "config_of (srv w3) = config_of (srv v)" "well_formed w3"
      using w3 fdset_update_config [OF ok] fdset_update_well_formed [OF ok] ok by (auto split: if_splits)
    then show ?thesis using w' process_requests_config [of w3] by (auto simp: v_def split: if_splits)
  qed (use turn in simp)
  then show ?thesis using watch_server_config [OF w1] wait_select_config [OF w2] by simp
qed

section \<open>Properties\<close>

text \<open>C10: No request changes the configuration. From the start of the server and whatever requests clients send, whatever programs and files
  answer, every turn of the main loop leaves the tables of aliases and types, the access rules, the roots, the limits and
  the build options, and every other setting, as they were; a restart is the only way to change them.
\<close>

theorem requests_keep_configuration:
  assumes "started w0" and "reachable w0 w"
  shows "config_of (srv w) = config_of (srv w0) \<and> alias_hashtable (srv w) = alias_hashtable (srv w0) \<and>
     access_nodes (srv w) = access_nodes (srv w0) \<and> document_root (srv w) = document_root (srv w0) \<and>
     common_cgi_env (srv w) = common_cgi_env (srv w0) \<and> max_connections (srv w) = max_connections (srv w0)"
proof -
  have "well_formed w \<and> config_of (srv w) = config_of (srv w0)"
    using assms(2)
  proof (induction rule: reachable.induct)
    case start
    then show ?case using started_well_formed [OF assms(1)] by simp
  next
    case (turn w w')
    then show ?case using loop_turn_config [of w w'] loop_turn_well_formed [of w] by auto
  qed
  then show ?thesis using config_of_fields [of "srv w" "srv w0"] by simp
qed

theorem requests_keep_configuration_witness:
  "\<exists>w. loop_turn example_start = Some (Some w) \<and>
     alias_hashtable (srv w) = alias_hashtable (srv example_start) \<and> access_nodes (srv w) = access_nodes (srv example_start)"
proof -
  have s: "started example_start" by (simp add: started_def example_start_def example_world_def)
  obtain w where t: "loop_turn example_start = Some (Some w)"
    by (simp add: loop_turn_def watch_server_def wait_select_def time_now_def wall_clock_def example_start_def example_world_def example_server_def Let_def)
  have "reachable example_start w" using reachable.turn [OF reachable.start t] .
  from requests_keep_configuration [OF s this] show ?thesis using t by auto
qed

end
