(* ===== verification/Poll_Loop.thy ===== *)
theory Poll_Loop
  imports Poll Handlers
begin

text \<open>
  Whole turns of the main loop in the \<open>poll\<close> variant: the pass over the ready requests (\<open>request.c\<close>) with the macros for descriptors as \<open>poll.c\<close> uses
  them. The pass is the same as in the \<open>select\<close> variant but for the bookkeeping of descriptors, and the array of descriptors stays correct through
  every turn.
\<close>

section \<open>Definitions\<close>

text \<open>\<open>free_request\<close> up to the choice between the next request and the end; \<open>False\<close> is a request that still has output.\<close>

definition release_request :: "nat \<Rightarrow> world \<Rightarrow> bool \<times> world" where
  "release_request i w =
     (let r = reqs w i;
          (v, r) = (if buffer_end r \<noteq> 0 \<and> status r < TIMED_OUT then req_flush (r\<lparr>status := DONE\<rparr>) else (0, r));
          r = (if v = -2 then r\<lparr>status := DEAD\<rparr> else r);
          w = set_req i r w
      in if v > 0 then (False, w)
         else
           (let w = dequeue_ready i w;
                r = (if status r = TIMED_OUT \<and> response_status r = 0 then r\<lparr>response_status := 408\<rparr> else r)
            in (True, release_resources i (log_request i (set_req i r w)))))"

definition poll_next_on_connection :: "nat \<Rightarrow> poll_state \<Rightarrow> world \<Rightarrow> poll_state \<times> world" where
  "poll_next_on_connection i p w =
     (let r = sanitize_request False (srv w) (reqs w i);
          w = set_req i (r\<lparr>kacount := kacount r - 1\<rparr>) w;
          w = enqueue_block i (w\<lparr>status_requests := status_requests w + 1\<rparr>)
      in (poll_fd_set i (fd r, BOA_READ) p, w))"

definition poll_free_request :: "nat \<Rightarrow> poll_state \<Rightarrow> world \<Rightarrow> poll_state \<times> world" where
  "poll_free_request i p w =
     (case release_request i w of
        (False, w) \<Rightarrow> (p, w)
      | (True, w) \<Rightarrow> if keeps_alive (reqs w i) then poll_next_on_connection i p w else (p, close_connection i w))"

text \<open>A round up to the value of the handler: the handler, the shutdown, and one more connection.\<close>

definition attend :: "nat \<Rightarrow> world \<Rightarrow> (int \<times> world) option" where
  "attend i w =
     (let w = time_now w in
      case serve (reqs w i) (srv w) of
        None \<Rightarrow> None
      | Some (v, r, sv) \<Rightarrow>
          (let r = (if sigterm_flag w \<noteq> 0 then SQUASH_KA r else r);
               w = set_req i r (w\<lparr>srv := sv\<rparr>)
           in Some (v, if pending_requests w then get_request w else w)))"

definition poll_process_step :: "nat \<Rightarrow> poll_state \<Rightarrow> world \<Rightarrow> (nat option \<times> poll_state \<times> world) option" where
  "poll_process_step i p w =
     (case attend i w of
        None \<Rightarrow> None
      | Some (v, w) \<Rightarrow>
          (let current = q_next (q_links w) i;
               now = current_time (srv w)
           in if v = -1 then Some (current, poll_block_request i p w)
              else if v = 0 then Some (current, poll_free_request i p (set_req i ((reqs w i)\<lparr>time_last := now\<rparr>) w))
              else if v = 1 then Some (current, p, set_req i ((reqs w i)\<lparr>time_last := now\<rparr>) w)
              else Some (current, p, set_req i ((reqs w i)\<lparr>status := DEAD\<rparr>) w)))"

text \<open>The outer \<open>None\<close> is a loop that does not end, the inner one the exit of the process.\<close>

definition poll_process_requests :: "poll_state \<Rightarrow> world \<Rightarrow> (poll_state \<times> world) option option" where
  "poll_process_requests p w =
     (let w = (if pending_requests w then get_request w else w) in
      map_option (map_option snd)
        (while_option
           (\<lambda>s. case s of Some (Some i, pw) \<Rightarrow> True | _ \<Rightarrow> False)
           (\<lambda>s. case s of Some (Some i, p, w) \<Rightarrow> poll_process_step i p w | _ \<Rightarrow> s)
           (Some (request_ready w, p, w))))"

definition poll_loop_turn :: "poll_state \<Rightarrow> world \<Rightarrow> (poll_state \<times> world) option option" where
  "poll_loop_turn p w =
     (case poll_turn p w of
        None \<Rightarrow> None
      | Some None \<Rightarrow> Some None
      | Some (Some (follows, p, w)) \<Rightarrow> if follows then poll_process_requests p w else Some (Some (p, w)))"

section \<open>The shared parts of the two variants\<close>

lemma free_request_eq:
  "free_request i w =
     (case release_request i w of
        (False, w) \<Rightarrow> w
      | (True, w) \<Rightarrow> if keeps_alive (reqs w i) then next_on_connection i w else close_connection i w)"
  by (simp add: free_request_def release_request_def Let_def split: prod.split)

lemma process_step_eq:
  "process_step i w =
     (case attend i w of
        None \<Rightarrow> None
      | Some (v, w) \<Rightarrow>
          (let current = q_next (q_links w) i;
               now = current_time (srv w)
           in if v = -1 then Some (current, block_request i w)
              else if v = 0 then Some (current, free_request i (set_req i ((reqs w i)\<lparr>time_last := now\<rparr>) w))
              else if v = 1 then Some (current, set_req i ((reqs w i)\<lparr>time_last := now\<rparr>) w)
              else Some (current, set_req i ((reqs w i)\<lparr>status := DEAD\<rparr>) w)))"
  unfolding process_step_def attend_def Let_def by (auto split: option.split)

text \<open>The requests and the queues through the shared parts.\<close>

lemma release_resources_reqs: "j \<noteq> i \<Longrightarrow> reqs (release_resources i w) j = reqs w j"
  by (simp add: release_resources_def Let_def ranges_reset_def)

lemma enqueue_block_reqs [simp]: "reqs (enqueue_block i w) = reqs w"
  by (simp add: enqueue_block_def split: prod.split)

lemma release_request_cases:
  obtains r w1 where "w1 = set_req i r w" and "release_request i w = (False, w1)"
  | r w1 r2 where "w1 = set_req i r w" and "release_request i w = (True, release_resources i (log_request i (set_req i r2 (dequeue_ready i w1))))"
proof -
  obtain v r where f: "(if buffer_end (reqs w i) \<noteq> 0 \<and> status (reqs w i) < TIMED_OUT then req_flush ((reqs w i)\<lparr>status := DONE\<rparr>)
      else (0, reqs w i)) = (v, r)" by fastforce
  note e = release_request_def [of i w, unfolded Let_def f prod.case]
  show thesis
  proof (cases "v > 0")
    case True
    then show thesis using e that(1) by (metis (no_types, lifting))
  next
    case False
    then show thesis using e that(2) by (metis (no_types, lifting))
  qed
qed

lemma release_request_keeps:
  assumes "world_ok w rd bl fr" and "i \<in> set rd" and "release_request i w = (gone, w')"
  shows "if gone then loose i w' (remove1 i rd) bl fr \<and> total_connections w' = of_nat (length rd + length bl) else world_ok w' rd bl fr"
    "j \<noteq> i \<Longrightarrow> reqs w' j = reqs w j" "config_of (srv w') = config_of (srv w)"
proof -
  have "(if gone then loose i w' (remove1 i rd) bl fr \<and> total_connections w' = of_nat (length rd + length bl) else world_ok w' rd bl fr) \<and>
    (\<forall>j. j \<noteq> i \<longrightarrow> reqs w' j = reqs w j) \<and> config_of (srv w') = config_of (srv w)"
  proof (cases i w rule: release_request_cases)
    case (1 r w1)
    have q: "qview w1 = qview w" by (simp add: 1(1))
    have e: "gone = False" "w' = w1" using assms(3) 1(2) by simp_all
    then show ?thesis using assms(1) queues_frame(2) [OF q] by (simp add: 1(1))
  next
    case (2 r w1 r2)
    let ?w = "release_resources i (log_request i (set_req i r2 (dequeue_ready i w1)))"
    have q1: "qview w1 = qview w" by (simp add: 2(1))
    have w1: "queues w1 rd bl fr" "total_connections w1 = of_nat (length rd + length bl)"
      using assms(1) queues_frame(1,4) [OF q1] by (simp_all add: world_ok_def)
    have l: "loose i (dequeue_ready i w1) (remove1 i rd) bl fr" using w1(1) assms(2) by (rule dequeue_keeps)
    have q2: "qview ?w = qview (dequeue_ready i w1)" by simp
    have e: "gone = True" "w' = ?w" using assms(3) 2(2) by simp_all
    have "loose i ?w (remove1 i rd) bl fr" "total_connections ?w = of_nat (length rd + length bl)"
      using l w1(2) queues_frame(3,4) [OF q2] by simp_all
    then show ?thesis unfolding e by (simp add: release_resources_reqs 2(1))
  qed
  then show "if gone then loose i w' (remove1 i rd) bl fr \<and> total_connections w' = of_nat (length rd + length bl) else world_ok w' rd bl fr"
    "j \<noteq> i \<Longrightarrow> reqs w' j = reqs w j" "config_of (srv w') = config_of (srv w)" by simp_all
qed

lemma attend_keeps:
  assumes "world_ok w (pre @ i # post) bl fr" and "attend i w = Some (v, w')"
  shows "\<exists>pre' fr'. world_ok w' (pre' @ i # post) bl fr'"
    "j \<in> set bl \<Longrightarrow> reqs w' j = reqs w j" "config_of (srv w') = config_of (srv w)"
proof -
  obtain r sv where sv: "serve (reqs (time_now w) i) (srv (time_now w)) = Some (v, r, sv)"
    using assms(2) by (auto simp: attend_def Let_def split: option.splits)
  define w1 where "w1 = set_req i (if sigterm_flag (time_now w) \<noteq> 0 then SQUASH_KA r else r) ((time_now w)\<lparr>srv := sv\<rparr>)"
  note step = assms(2) [unfolded attend_def Let_def sv option.case prod.case w1_def [symmetric] accept_first_def [symmetric]]
  then have g: "w' = accept_first w1" by simp
  have q1: "qview w1 = qview w" by (simp add: w1_def)
  have ok1: "world_ok w1 (pre @ i # post) bl fr" using assms(1) queues_frame(2) [OF q1] by simp
  from accept_first_keeps [OF ok1] show "\<exists>pre' fr'. world_ok w' (pre' @ i # post) bl fr'"
    unfolding admitted_def g by (metis append_Cons)
  show "reqs w' j = reqs w j" if "j \<in> set bl"
  proof -
    have "j \<noteq> i" using assms(1) that by (auto simp: world_ok_def queues_def)
    then have "reqs w1 j = reqs w j" by (simp add: w1_def time_now_def wall_clock_def split: list.split prod.split)
    moreover have "reqs w' j = reqs w1 j"
      using g get_request_reqs [OF ok1, of j] that by (simp add: accept_first_def)
    ultimately show ?thesis by simp
  qed
  show "config_of (srv w') = config_of (srv w)" using serve_config [OF sv] by (simp add: g w1_def)
qed

section \<open>The array through a pass\<close>

text \<open>The array has one entry for each blocked request and no other.\<close>

definition one_each :: "poll_state \<Rightarrow> world \<Rightarrow> nat list \<Rightarrow> bool" where
  "one_each p w bl \<longleftrightarrow> watching p w bl \<and> length (pfds p) = length bl \<and> inj_on (pollfd_id p) (set bl)"

lemma awaited_config: "config_of sv' = config_of sv \<Longrightarrow> awaited sv' r = awaited sv r"
  by (simp add: awaited_def config_of_fields(1) [of sv' sv])

lemma watching_frame:
  assumes "watching p w bl" and "config_of (srv w') = config_of (srv w)" and "\<forall>j \<in> set bl. reqs w' j = reqs w j"
  shows "watching p w' bl"
  using assms by (simp add: watching_def awaited_config [OF assms(2)])

lemma one_each_frame:
  assumes "one_each p w bl" and "config_of (srv w') = config_of (srv w)" and "\<forall>j \<in> set bl. reqs w' j = reqs w j"
  shows "one_each p w' bl"
  using assms watching_frame [of p w bl w'] by (simp add: one_each_def)

lemma one_each_add:
  assumes "one_each p w bl" and "i \<notin> set bl" and "a = awaited (srv w) (reqs w i)"
  shows "one_each (poll_fd_set i a p) w (i # bl)"
proof -
  have less: "pollfd_id p j < length (pfds p)" if "j \<in> set bl" for j using assms(1) that unfolding one_each_def watching_def by blast
  have "watching (poll_fd_set i a p) w (i # bl)"
    using assms by (auto simp: one_each_def watching_def poll_fd_set_def nth_append)
  moreover have "inj_on (pollfd_id (poll_fd_set i a p)) (set (i # bl))"
  proof -
    have n: "length (pfds p) \<notin> pollfd_id p ` set bl" using less by fastforce
    have "inj_on ((pollfd_id p)(i := length (pfds p))) (set bl)" using inj_on_fun_updI [OF _ n] assms(1) by (simp add: one_each_def)
    moreover have "((pollfd_id p)(i := length (pfds p))) ` set bl = pollfd_id p ` set bl" using assms(2) by (intro image_cong) auto
    ultimately show ?thesis using n assms(2) by (simp add: poll_fd_set_def)
  qed
  ultimately show ?thesis using assms(1) by (simp add: one_each_def poll_fd_set_def)
qed

lemma poll_block_keeps:
  assumes "world_ok w rd bl fr" and "i \<in> set rd" and "one_each p w bl" and "poll_block_request i p w = (p', w')"
  shows "world_ok w' (remove1 i rd) (i # bl) fr" "one_each p' w' (i # bl)"
proof -
  have p: "p' = poll_fd_set i (awaited (srv w) (reqs w i)) p" and w: "w' = enqueue_block i (dequeue_ready i w)" "reqs w' = reqs w" "srv w' = srv w"
    using assms(4) by (auto simp: poll_block_request_def enqueue_block_def dequeue_ready_def Let_def split: prod.splits)
  have q: "qview w' = qview (block_request i w)" by (simp add: w(1) block_request_def Let_def split: prod.split)
  show "world_ok w' (remove1 i rd) (i # bl) fr" using block_request_keeps [OF assms(1,2)] queues_frame(2) [OF q] by simp
  have i: "i \<notin> set bl" using assms(1,2) by (auto simp: world_ok_def queues_def)
  show "one_each p' w' (i # bl)"
    using one_each_frame [OF one_each_add [OF assms(3) i refl], of w'] by (simp add: p w)
qed

lemma poll_next_keeps:
  assumes "loose i w rd bl fr" and "one_each p w bl" and "poll_next_on_connection i p w = (p', w')"
  shows "queues w' rd (i # bl) fr" "total_connections w' = total_connections w" "one_each p' w' (i # bl)"
proof -
  let ?r = "sanitize_request False (srv w) (reqs w i)"
  have p: "p' = poll_fd_set i (fd ?r, BOA_READ) p" and sv: "srv w' = srv w" and r: "reqs w' = (reqs w)(i := ?r\<lparr>kacount := kacount ?r - 1\<rparr>)"
    using assms(3) by (auto simp: poll_next_on_connection_def Let_def set_req_def enqueue_block_def split: prod.splits)
  have q: "qview w' = qview (next_on_connection i w)"
    using assms(3) by (auto simp: poll_next_on_connection_def next_on_connection_def Let_def)
  show "queues w' rd (i # bl) fr" "total_connections w' = total_connections w"
    using next_on_connection_keeps [OF assms(1)] queues_frame(1,4) [OF q] by simp_all
  have i: "i \<notin> set bl" using assms(1) by (auto simp: loose_def)
  have a: "(fd ?r, BOA_READ) = awaited (srv w') (reqs w' i)"
    by (simp add: r awaited_def sanitize_request_def Let_def)
  have "one_each p w' bl" using one_each_frame [OF assms(2), of w'] i by (auto simp: sv r)
  from one_each_add [OF this i a] show "one_each p' w' (i # bl)" by (simp add: p)
qed

lemma close_connection_reqs: "j \<noteq> i \<Longrightarrow> reqs (close_connection i w) j = reqs w j"
  by (simp add: close_connection_def Let_def)

lemma poll_free_keeps:
  assumes "world_ok w rd bl fr" and "i \<in> set rd" and "one_each p w bl" and "poll_free_request i p w = (p', w')"
  shows "\<exists>rd' bl' fr'. world_ok w' rd' bl' fr' \<and> one_each p' w' bl' \<and> rd' \<in> {rd, remove1 i rd}"
proof -
  obtain gone w1 where g: "release_request i w = (gone, w1)" by fastforce
  note k = release_request_keeps [OF assms(1,2) g]
  have i: "i \<notin> set bl" using assms(1,2) by (auto simp: world_ok_def queues_def)
  have o1: "one_each p w1 bl" using one_each_frame [OF assms(3) k(3)] k(2) i by (metis (no_types, lifting))
  have len: "length rd = Suc (length (remove1 i rd))" using assms(2) by (rule length_remove1_in)
  consider "\<not> gone" "(p', w') = (p, w1)" | "gone" "poll_next_on_connection i p w1 = (p', w')" | "gone" "(p', w') = (p, close_connection i w1)"
    using assms(4) unfolding poll_free_request_def g by (cases gone; cases "keeps_alive (reqs w1 i)") simp_all
  then show ?thesis
  proof cases
    case 1
    then show ?thesis using k(1) o1 by auto
  next
    case 2
    then have l: "loose i w1 (remove1 i rd) bl fr" "total_connections w1 = of_nat (length rd + length bl)" using k(1) by simp_all
    have "world_ok w' (remove1 i rd) (i # bl) fr" using poll_next_keeps(1,2) [OF l(1) o1 2(2)] l(2) len by (simp add: world_ok_def)
    then show ?thesis using poll_next_keeps(3) [OF l(1) o1 2(2)] by blast
  next
    case 3
    then have l: "loose i w1 (remove1 i rd) bl fr" "total_connections w1 = of_nat (length rd + length bl)" using k(1) by simp_all
    have "world_ok w' (remove1 i rd) bl (i # fr)" using close_connection_keeps [OF l(1)] 3(2) l(2) len by (simp add: world_ok_def)
    moreover have "one_each p' w' bl" using one_each_frame [OF o1, of "close_connection i w1"] close_connection_reqs [of _ i w1] i 3(2)
      by (simp, metis)
    ultimately show ?thesis by blast
  qed
qed

lemma poll_step_keeps:
  assumes "world_ok w (pre @ i # post) bl fr" and "one_each p w bl" and "poll_process_step i p w = Some (cur, p', w')"
  shows "cur = first_of post \<and> (\<exists>pre' bl' fr'. world_ok w' (pre' @ post) bl' fr' \<and> one_each p' w' bl')"
proof -
  obtain v w1 where a: "attend i w = Some (v, w1)" using assms(3) by (auto simp: poll_process_step_def split: option.splits)
  note k = attend_keeps [OF assms(1) a]
  obtain pre1 fr1 where ok: "world_ok w1 (pre1 @ i # post) bl fr1" using k(1) by blast
  have o1: "one_each p w1 bl" using one_each_frame [OF assms(2) k(3)] k(2) by blast
  have d: "dlist (q_links w1) (request_ready w1) (pre1 @ i # post)" using ok by (simp add: world_ok_def queues_def)
  then have r1: "remove1 i (pre1 @ i # post) = pre1 @ post" by (simp add: remove1_append dlist_def)
  have i: "i \<in> set (pre1 @ i # post)" "i \<notin> set bl" using ok by (auto simp: world_ok_def queues_def)
  have set: "world_ok (set_req i x w1) (pre1 @ i # post) bl fr1" "one_each p (set_req i x w1) bl" for x
    using ok queues_frame(2) [of "set_req i x w1" w1] one_each_frame [OF o1, of "set_req i x w1"] i(2) by (simp_all add: set_req_def)
  have stay: "\<exists>pre' bl' fr'. world_ok z (pre' @ post) bl' fr' \<and> one_each q z bl'" if "world_ok z (pre1 @ i # post) b f" "one_each q z b" for z q b f
    using that by (intro exI [of _ "pre1 @ [i]"] exI [of _ b] exI [of _ f]) simp
  let ?now = "set_req i ((reqs w1 i)\<lparr>time_last := current_time (srv w1)\<rparr>) w1"
  have e: "cur = q_next (q_links w1) i"
    "(p', w') = (if v = -1 then poll_block_request i p w1 else if v = 0 then poll_free_request i p ?now
       else (p, if v = 1 then ?now else set_req i ((reqs w1 i)\<lparr>status := DEAD\<rparr>) w1))"
    using assms(3) by (auto simp: poll_process_step_def a Let_def split: if_splits)
  have "\<exists>pre' bl' fr'. world_ok w' (pre' @ post) bl' fr' \<and> one_each p' w' bl'"
  proof (cases "v = -1 \<or> v = 0")
    case True
    then show ?thesis
    proof
      assume "v = -1"
      then show ?thesis using poll_block_keeps [OF ok i(1) o1, of p' w'] e(2) unfolding r1 by auto
    next
      assume v: "v = 0"
      then have "poll_free_request i p ?now = (p', w')" using e(2) by simp
      from poll_free_keeps [OF set(1) i(1) set(2) this] obtain rd' bl' fr' where
        "world_ok w' rd' bl' fr'" "one_each p' w' bl'" "rd' \<in> {pre1 @ i # post, pre1 @ post}" unfolding r1 by blast
      then show ?thesis using stay by blast
    qed
  next
    case False
    then obtain x where "w' = set_req i x w1" "p' = p" using e(2) by (cases "v = 1") auto
    then show ?thesis using stay [OF set, of x] by simp
  qed
  then show ?thesis using e(1) dlist_next [OF d] by (simp add: first_of_def)
qed

text \<open>The reference: one round for each request of a list.\<close>

fun poll_serve_all :: "nat list \<Rightarrow> poll_state \<Rightarrow> world \<Rightarrow> (poll_state \<times> world) option" where
  "poll_serve_all [] p w = Some (p, w)"
| "poll_serve_all (i # xs) p w = (case poll_process_step i p w of None \<Rightarrow> None | Some (cur, p, w) \<Rightarrow> poll_serve_all xs p w)"

lemma poll_process_loop:
  assumes "world_ok w (pre @ post) bl fr" and "one_each p w bl"
  shows "while_option (\<lambda>s. case s of Some (Some i, pw) \<Rightarrow> True | _ \<Rightarrow> False)
     (\<lambda>s. case s of Some (Some i, p, w) \<Rightarrow> poll_process_step i p w | _ \<Rightarrow> s) (Some (first_of post, p, w)) =
     Some (map_option (Pair None) (poll_serve_all post p w)) \<and>
     (\<forall>p' w'. poll_serve_all post p w = Some (p', w') \<longrightarrow> (\<exists>rd' bl' fr'. world_ok w' rd' bl' fr' \<and> one_each p' w' bl'))"
  using assms
proof (induction post arbitrary: pre w p bl fr)
  case Nil
  then show ?case by (subst while_option_unfold) (auto simp: first_of_def)
next
  case (Cons i xs)
  show ?case
  proof (cases "poll_process_step i p w")
    case None
    then show ?thesis
      by (subst while_option_unfold) (simp add: first_of_def while_option_unfold [of _ _ None])
  next
    case (Some s)
    then obtain cur p' w' where p: "poll_process_step i p w = Some (cur, p', w')" by (cases s) auto
    from poll_step_keeps [OF Cons.prems p]
    obtain pre' bl' fr' where cur: "cur = first_of xs" and ok: "world_ok w' (pre' @ xs) bl' fr'" "one_each p' w' bl'" by blast
    from Cons.IH [OF ok] p cur show ?thesis
      by (subst while_option_unfold) (simp add: first_of_def)
  qed
qed

lemma poll_process_requests_eq:
  assumes "world_ok w rd bl fr" and "one_each p w bl"
  defines "w1 \<equiv> accept_first w"
  shows "\<exists>rd1. dlist (q_links w1) (request_ready w1) rd1 \<and> poll_process_requests p w = Some (poll_serve_all rd1 p w1) \<and>
     (\<forall>p' w'. poll_serve_all rd1 p w1 = Some (p', w') \<longrightarrow> (\<exists>rd' bl' fr'. world_ok w' rd' bl' fr' \<and> one_each p' w' bl'))"
proof -
  from accept_first_keeps [OF assms(1)] obtain rd1 fr1 where ok: "world_ok w1 ([] @ rd1) bl fr1" by (auto simp: admitted_def w1_def)
  then have d: "dlist (q_links w1) (request_ready w1) rd1" by (simp add: world_ok_def queues_def)
  have "reqs w1 j = reqs w j" if "j \<in> set bl" for j
    using get_request_reqs [OF assms(1), of j] that by (simp add: w1_def accept_first_def)
  then have o1: "one_each p w1 bl" using one_each_frame [OF assms(2), of w1] by (simp add: w1_def)
  have "poll_process_requests p w = Some (poll_serve_all rd1 p w1)"
    using poll_process_loop [OF ok o1] dlist_first [OF d] unfolding poll_process_requests_def accept_first_def [symmetric] w1_def [symmetric] Let_def
    by (simp add: option.map_comp comp_def option.map_ident)
  then show ?thesis using d poll_process_loop [OF ok o1] by blast
qed

section \<open>Turns\<close>

lemma watching_server_entry: "watching p w bl \<Longrightarrow> watching (p\<lparr>server_pfd := n, watching_server := b, pfds := pfds p @ x\<rparr>) w bl"
  by (auto simp: watching_def nth_append)

lemma poll_watch_keeps:
  assumes "watching p w bl" and "sigterm_flag w \<noteq> 1" and "poll_watch_server p w = Some (p', w')"
  shows "w' = w" "watching p' w bl" "poll_script p' = poll_script p"
  using assms watching_server_entry by (auto simp: poll_watch_server_def watching_def nth_append split: if_splits)

lemma poll_wait_keeps:
  assumes "poll_wait p w = Some (rv, p', w')"
  shows "qview w' = qview w" "reqs w' = reqs w" "config_of (srv w') = config_of (srv w)" "pfds p' = pfds p" "pollfd_id p' = pollfd_id p"
    "rv = None \<Longrightarrow> \<exists>q. poll_script p = Poll_EINTR # q"
proof -
  have t: "reqs (time_now v) = reqs v" for v by (simp add: time_now_def wall_clock_def split: list.split)
  show "qview w' = qview w" "reqs w' = reqs w" "config_of (srv w') = config_of (srv w)" "pfds p' = pfds p" "pollfd_id p' = pollfd_id p"
    "rv = None \<Longrightarrow> \<exists>q. poll_script p = Poll_EINTR # q"
    using assms by (auto simp: poll_wait_def Let_def t split: if_splits list.splits poll_result.splits)
qed

lemma time_now_keeps:
  "world_ok w rd bl fr \<Longrightarrow> world_ok (time_now w) rd bl fr" "watching p w bl \<Longrightarrow> watching p (time_now w) bl"
  "sigterm_flag (time_now w) = sigterm_flag w"
proof -
  have r: "reqs (time_now w) = reqs w" by (simp add: time_now_def wall_clock_def split: list.split)
  show "world_ok w rd bl fr \<Longrightarrow> world_ok (time_now w) rd bl fr" using queues_frame(2) [of "time_now w" w] by simp
  show "watching p w bl \<Longrightarrow> watching p (time_now w) bl" using watching_frame [of p w bl "time_now w"] r by simp
  show "sigterm_flag (time_now w) = sigterm_flag w" by (simp add: time_now_def wall_clock_def split: list.split)
qed

lemma update_blocked_one_each:
  assumes "world_ok w rd bl fr" and "watching p w bl"
  shows "\<exists>p' w' rd' bl'. (if request_block w \<noteq> None then update_blocked rv p w else Some (p\<lparr>pfds := []\<rparr>, w)) = Some (p', w') \<and>
     world_ok w' rd' bl' fr \<and> one_each p' w' bl'"
proof (cases "request_block w = None")
  case True
  moreover have "request_block w = first_of bl" using assms(1) dlist_first by (auto simp: world_ok_def queues_def)
  ultimately have "bl = []" by (simp add: first_of_def split: list.splits)
  then show ?thesis using True assms(1) by (auto simp: one_each_def watching_def)
next
  case False
  define kept where "kept = filter (stays rv p (time_now w)) bl"
  from update_blocked_result [OF assms, of rv, folded kept_def] obtain p' w' rd' where
    r: "update_blocked rv p w = Some (p', w')" "world_ok w' rd' kept fr" "length (pfds p') = length kept"
      "map (pollfd_id p') kept = [0..<length kept]" "watching p' w' kept"
    by blast
  have "distinct (map (pollfd_id p') kept)" unfolding r(4) by simp
  then have "one_each p' w' kept" using r(3,5) by (simp add: one_each_def distinct_map)
  then show ?thesis using r(1,2) False by auto
qed

text \<open>A turn up to the pass.\<close>

lemma poll_turn_keeps:
  assumes "world_ok w rd bl fr" and "watching p w bl" and "sigterm_flag w \<noteq> 1"
  shows "\<exists>x. poll_turn p w = Some x \<and> (\<forall>b p' w'. x = Some (b, p', w') \<longrightarrow>
     (\<exists>rd' bl' fr'. world_ok w' rd' bl' fr' \<and> (if b then one_each p' w' bl' else watching p' w' bl' \<and> (\<exists>q. poll_script p = Poll_EINTR # q))))"
proof (cases "poll_watch_server p (time_now w)")
  case None
  then show ?thesis by (simp add: poll_turn_def)
next
  case (Some s)
  then obtain p1 w1 where w: "poll_watch_server p (time_now w) = Some (p1, w1)" by (cases s) auto
  note t = time_now_keeps(1) [OF assms(1)] time_now_keeps(2) [OF assms(2)]
  note k = poll_watch_keeps [OF t(2) _ w, unfolded time_now_keeps(3), OF assms(3)]
  show ?thesis
  proof (cases "poll_wait p1 w1")
    case None
    then show ?thesis by (simp add: poll_turn_def w)
  next
    case (Some s)
    then obtain rv p2 w2 where v: "poll_wait p1 w1 = Some (rv, p2, w2)" by (cases s) auto
    note l = poll_wait_keeps [OF v]
    have ok: "world_ok w2 rd bl fr" using t(1) k(1) queues_frame(2) [OF l(1)] by simp
    have wt: "watching p2 w2 bl"
    proof -
      have "watching p1 w2 bl" using watching_frame [OF k(2) l(3) [unfolded k(1)]] l(2) k(1) by simp
      then show ?thesis by (simp add: watching_def l(4,5))
    qed
    show ?thesis
    proof (cases rv)
      case None
      then have "poll_turn p w = Some (Some (False, p2, w2))" by (simp add: poll_turn_def w v)
      moreover have "\<exists>q. poll_script p = Poll_EINTR # q" using l(6) [OF None] k(3) by simp
      ultimately show ?thesis using ok wt by (intro exI [of _ "Some (False, p2, w2)"]) auto
    next
      case (Some rv)
      from update_blocked_one_each [OF ok wt, of rv] obtain p3 w3 rd' bl' where
        u: "(if request_block w2 \<noteq> None then update_blocked rv p2 w2 else Some (p2\<lparr>pfds := []\<rparr>, w2)) = Some (p3, w3)"
          "world_ok w3 rd' bl' fr" "one_each p3 w3 bl'" by blast
      have "poll_turn p w = Some (Some (True, p3, w3))" unfolding poll_turn_def w v Some option.case prod.case u(1) ..
      then show ?thesis using u(2,3) by (intro exI [of _ "Some (True, p3, w3)"]) auto
    qed
  qed
qed

section \<open>The two variants compared\<close>

text \<open>A world without the descriptor sets, which only the other variant uses.\<close>

definition bare :: "world \<Rightarrow> world" where
  "bare w = w\<lparr>read_set := [], write_set := [], max_fd := 0\<rparr>"

lemma bare_fields [simp]:
  "srv (bare w) = srv w" "log_cfg (bare w) = log_cfg w" "reqs (bare w) = reqs w" "q_links (bare w) = q_links w"
  "request_ready (bare w) = request_ready w" "request_block (bare w) = request_block w" "request_free (bare w) = request_free w"
  "next_request (bare w) = next_request w" "total_connections (bare w) = total_connections w" "pending_requests (bare w) = pending_requests w"
  "sigterm_flag (bare w) = sigterm_flag w" "status_requests (bare w) = status_requests w" "status_errors (bare w) = status_errors w"
  "unav_len_set (bare w) = unav_len_set w"
  "accept_script (bare w) = accept_script w" "clock (bare w) = clock w" "access_log (bare w) = access_log w"
  by (simp_all add: bare_def)

lemma bare_updates [simp]:
  "(bare w)\<lparr>srv := x1\<rparr> = bare (w\<lparr>srv := x1\<rparr>)" "(bare w)\<lparr>reqs := x2\<rparr> = bare (w\<lparr>reqs := x2\<rparr>)" "(bare w)\<lparr>q_links := x3\<rparr> = bare (w\<lparr>q_links := x3\<rparr>)"
  "(bare w)\<lparr>request_ready := x4\<rparr> = bare (w\<lparr>request_ready := x4\<rparr>)" "(bare w)\<lparr>request_block := x5\<rparr> = bare (w\<lparr>request_block := x5\<rparr>)"
  "(bare w)\<lparr>request_free := x6\<rparr> = bare (w\<lparr>request_free := x6\<rparr>)" "(bare w)\<lparr>next_request := x7\<rparr> = bare (w\<lparr>next_request := x7\<rparr>)"
  "(bare w)\<lparr>total_connections := x8\<rparr> = bare (w\<lparr>total_connections := x8\<rparr>)" "(bare w)\<lparr>pending_requests := x9\<rparr> = bare (w\<lparr>pending_requests := x9\<rparr>)"
  "(bare w)\<lparr>status_requests := x10\<rparr> = bare (w\<lparr>status_requests := x10\<rparr>)" "(bare w)\<lparr>status_errors := x11\<rparr> = bare (w\<lparr>status_errors := x11\<rparr>)"
  "(bare w)\<lparr>accept_script := x12\<rparr> = bare (w\<lparr>accept_script := x12\<rparr>)" "(bare w)\<lparr>clock := x13\<rparr> = bare (w\<lparr>clock := x13\<rparr>)"
  "(bare w)\<lparr>access_log := x14\<rparr> = bare (w\<lparr>access_log := x14\<rparr>)" "(bare w)\<lparr>unav_len_set := x15\<rparr> = bare (w\<lparr>unav_len_set := x15\<rparr>)"
  by (simp_all add: bare_def)

lemma bare_bare [simp]: "bare (bare w) = bare w"
  by (simp add: bare_def)

lemma bare_set: "bare (BOA_FD_SET n d w) = bare w" "bare (BOA_FD_CLR n d w) = bare w"
  by (cases d; simp add: bare_def)+

lemma bare_clear: "BOA_FD_CLR n d (bare w) = bare (BOA_FD_CLR n d w)"
  by (cases d; simp add: bare_def)

text \<open>Every operation of the pass but the setting of a descriptor commutes with forgetting the sets.\<close>

lemma bare_basic [simp]:
  "wall_clock (bare w) = map_prod id bare (wall_clock w)" "sys_call (bare w) = map_prod id bare (sys_call w)"
  "close_fd n (bare w) = bare (close_fd n w)" "set_req i r (bare w) = bare (set_req i r w)"
  by (simp_all add: wall_clock_def sys_call_def close_fd_def set_req_def split: list.split prod.split)

lemma bare_time_now [simp]: "time_now (bare w) = bare (time_now w)"
  by (simp add: time_now_def split: prod.split)

lemma bare_queue_ops [simp]:
  "enqueue_ready i (bare w) = bare (enqueue_ready i w)" "enqueue_block i (bare w) = bare (enqueue_block i w)" "enqueue_free i (bare w) = bare (enqueue_free i w)"
  "dequeue_ready i (bare w) = bare (dequeue_ready i w)" "dequeue_free i (bare w) = bare (dequeue_free i w)"
  by (simp_all add: enqueue_ready_def enqueue_block_def enqueue_free_def dequeue_ready_def dequeue_free_def split: prod.split)

lemma bare_drop [simp]: "drop_connection n i (bare w) = bare (drop_connection n i w)"
  by (simp add: drop_connection_def)

lemma bare_tune [simp]: "tune_sndbuf c (bare w) = bare (tune_sndbuf c w)"
  by (simp add: tune_sndbuf_def Let_def split: prod.split)

lemma bare_if: "(if c then bare v else bare w) = bare (if c then v else w)"
  by simp

lemma bare_refuse [simp]: "refuse i (bare w) = bare (refuse i w)"
  by (simp add: refuse_def Let_def case_prod_unfold bare_if cong: if_cong split del: if_split)

lemma bare_admit [simp]: "admit c i (bare w) = bare (admit c i w)"
  by (simp add: admit_def Let_def bare_if cong: if_cong split: option.split split del: if_split)

lemma bare_setup [simp]: "setup_connection c i (bare w) = bare (setup_connection c i w)"
  by (simp add: setup_connection_def Let_def case_prod_unfold bare_if cong: if_cong split: option.split split del: if_split)

lemma bare_new [simp]: "new_request (bare w) = map_prod id bare (new_request w)"
  by (simp add: new_request_def Let_def case_prod_unfold split: option.split)

lemma bare_get_request [simp]: "get_request (bare w) = bare (get_request w)"
  by (simp add: get_request_def Let_def case_prod_unfold bare_if cong: if_cong split: list.split accept_result.split option.split split del: if_split)

lemma bare_attend [simp]: "attend i (bare w) = map_option (map_prod id bare) (attend i w)"
  by (simp add: attend_def Let_def case_prod_unfold split: option.split)

lemma bare_log [simp]: "log_request i (bare w) = bare (log_request i w)"
  by (simp add: log_request_def Let_def case_prod_unfold)

lemma bare_release_resources [simp]: "release_resources i (bare w) = bare (release_resources i w)"
  by (simp add: release_resources_def Let_def ranges_reset_def bare_clear bare_if cong: if_cong del: BOA_FD_CLR.simps split del: if_split)

lemma bare_close [simp]: "close_connection i (bare w) = bare (close_connection i w)"
  by (simp add: close_connection_def Let_def bare_clear del: BOA_FD_CLR.simps)

lemma bare_release_request [simp]: "release_request i (bare w) = map_prod id bare (release_request i w)"
proof -
  obtain v r where f: "(if buffer_end (reqs w i) \<noteq> 0 \<and> status (reqs w i) < TIMED_OUT then req_flush ((reqs w i)\<lparr>status := DONE\<rparr>)
      else (0, reqs w i)) = (v, r)" by fastforce
  show ?thesis unfolding release_request_def Let_def bare_fields f prod.case bare_basic bare_queue_ops bare_log bare_release_resources
    by (cases "v > 0") simp_all
qed

lemma bare_poll_ops [simp]:
  "poll_block_request i p (bare w) = map_prod id bare (poll_block_request i p w)"
  "poll_next_on_connection i p (bare w) = map_prod id bare (poll_next_on_connection i p w)"
  by (simp_all add: poll_block_request_def poll_next_on_connection_def Let_def)

lemma bare_poll_free [simp]: "poll_free_request i p (bare w) = map_prod id bare (poll_free_request i p w)"
  by (simp add: poll_free_request_def case_prod_unfold split: bool.split)

lemma bare_poll_step: "poll_process_step i p (bare w) = map_option (map_prod id (map_prod id bare)) (poll_process_step i p w)"
  by (simp add: poll_process_step_def Let_def case_prod_unfold split: option.split)

lemma same_block: "bare (snd (poll_block_request i p w)) = bare (block_request i w)"
  by (simp add: poll_block_request_def block_request_def Let_def bare_set case_prod_unfold)

lemma same_free: "bare (snd (poll_free_request i p w)) = bare (free_request i w)"
  by (simp add: poll_free_request_def free_request_eq poll_next_on_connection_def next_on_connection_def Let_def bare_set
      del: BOA_FD_CLR.simps BOA_FD_SET.simps split: prod.split bool.split)

lemma same_step:
  "map_option (\<lambda>(cur, p, w). (cur, bare w)) (poll_process_step i p w) = map_option (\<lambda>(cur, w). (cur, bare w)) (process_step i w)"
  using same_block [of i p] same_free [of i p]
  by (simp add: poll_process_step_def process_step_eq Let_def case_prod_unfold split: option.split)

lemma same_serve_all:
  "bare v = bare w \<Longrightarrow> map_option (\<lambda>(p, w). bare w) (poll_serve_all xs p v) = map_option bare (serve_all xs w)"
proof (induction xs arbitrary: p v w)
  case (Cons i xs)
  have "poll_process_step i p (bare v) = poll_process_step i p (bare w)" using Cons.prems by simp
  then have e: "map_option (\<lambda>(cur, p, w). (cur, bare w)) (poll_process_step i p v) = map_option (\<lambda>(cur, w). (cur, bare w)) (process_step i w)"
    unfolding bare_poll_step same_step [of i p w, symmetric]
    by (auto dest: arg_cong [of _ _ "map_option (\<lambda>(cur, p, w). (cur, w))"] simp: option.map_comp comp_def case_prod_unfold)
  show ?case
  proof (cases "poll_process_step i p v")
    case None
    then show ?thesis using e by simp
  next
    case (Some s)
    then obtain cur p' v' where v: "poll_process_step i p v = Some (cur, p', v')" by (cases s) auto
    then obtain w' where "process_step i w = Some (cur, w')" "bare v' = bare w'" using e by (cases "process_step i w") auto
    then show ?thesis using Cons.IH v by simp
  qed
qed simp

section \<open>Properties\<close>

text \<open>What a turn keeps.\<close>

lemma poll_process_requests_keeps:
  assumes "world_ok w rd bl fr" and "one_each p w bl"
  shows "\<exists>x. poll_process_requests p w = Some x \<and>
     (\<forall>p' w'. x = Some (p', w') \<longrightarrow> (\<exists>rd' bl' fr'. world_ok w' rd' bl' fr' \<and> one_each p' w' bl'))"
proof -
  from poll_process_requests_eq [OF assms] show ?thesis by blast
qed

lemma poll_loop_turn_keeps:
  assumes "world_ok w rd bl fr" and "watching p w bl" and "sigterm_flag w \<noteq> 1"
  shows "\<exists>x. poll_loop_turn p w = Some x \<and> (\<forall>p' w'. x = Some (p', w') \<longrightarrow>
     (\<exists>rd' bl' fr'. world_ok w' rd' bl' fr' \<and> watching p' w' bl' \<and> ((\<forall>q. poll_script p \<noteq> Poll_EINTR # q) \<longrightarrow> one_each p' w' bl')))"
proof -
  from poll_turn_keeps [OF assms] obtain x where t: "poll_turn p w = Some x"
    and k: "\<And>b p' w'. x = Some (b, p', w') \<Longrightarrow> \<exists>rd' bl' fr'. world_ok w' rd' bl' fr' \<and>
      (if b then one_each p' w' bl' else watching p' w' bl' \<and> (\<exists>q. poll_script p = Poll_EINTR # q))" by blast
  consider "x = None" | p' w' where "x = Some (False, p', w')" | p' w' where "x = Some (True, p', w')" by (metis (full_types) option.exhaust prod.exhaust)
  then show ?thesis
  proof cases
    case 1
    then show ?thesis by (simp add: poll_loop_turn_def t)
  next
    case 2
    then show ?thesis using k [OF 2] by (auto simp: poll_loop_turn_def t)
  next
    case 3
    from k [OF 3] obtain rd1 bl1 fr1 where o: "world_ok w' rd1 bl1 fr1" "one_each p' w' bl1" by auto
    have e: "poll_loop_turn p w = poll_process_requests p' w'" by (simp add: poll_loop_turn_def t 3)
    have "one_each q v bl \<Longrightarrow> watching q v bl" for q v bl by (simp add: one_each_def)
    then show ?thesis unfolding e using poll_process_requests_keeps [OF o] by blast
  qed
qed

text \<open>The states of a running server of this variant, until a shutdown begins.\<close>

inductive poll_reachable :: "poll_state \<Rightarrow> world \<Rightarrow> poll_state \<Rightarrow> world \<Rightarrow> bool" for p0 w0 where
  start: "poll_reachable p0 w0 p0 w0"
| turn: "poll_reachable p0 w0 p w \<Longrightarrow> sigterm_flag w \<noteq> 1 \<Longrightarrow> poll_loop_turn p w = Some (Some (p', w')) \<Longrightarrow> poll_reachable p0 w0 p' w'"

lemma poll_reachable_watching:
  assumes "poll_reachable p0 w0 p w" and "started w0"
  shows "\<exists>rd bl fr. world_ok w rd bl fr \<and> watching p w bl"
  using assms(1)
proof (induction rule: poll_reachable.induct)
  case start
  have "world_ok w0 [] [] []" using assms(2) by (simp add: started_def world_ok_def queues_def dlist_def)
  then show ?case unfolding watching_def by fastforce
next
  case (turn p w p' w')
  then obtain rd bl fr where "world_ok w rd bl fr" "watching p w bl" by blast
  from poll_loop_turn_keeps [OF this turn(2)] show ?case using turn(3) by auto
qed

text \<open>C9: The invariant of the server in the \<open>poll\<close> variant. From the start on and until a shutdown begins, whatever clients, files, system calls and
  \<open>poll\<close> do, every turn of the loop ends, in a new state or in the exit of the process; the queues are consistent and the
  counter of connections is the number of requests that are ready or blocked; each blocked request has an entry of the array, at the index
  it remembers, with the descriptor and the direction it waits for; and after every turn that was not interrupted the array
  has these entries and no other, so it never grows beyond the number of connections.
\<close>

theorem poll_server_invariant:
  assumes "started w0" and "poll_reachable p0 w0 p w" and "sigterm_flag w \<noteq> 1"
  shows "(\<exists>rd bl fr. world_ok w rd bl fr \<and> watching p w bl) \<and>
     (\<exists>x. poll_loop_turn p w = Some x \<and>
        (\<forall>p' w'. x = Some (p', w') \<longrightarrow> (\<forall>q. poll_script p \<noteq> Poll_EINTR # q) \<longrightarrow>
           (\<exists>rd' bl' fr'. world_ok w' rd' bl' fr' \<and> watching p' w' bl' \<and> length (pfds p') = length bl' \<and> inj_on (pollfd_id p') (set bl'))))"
proof -
  from poll_reachable_watching [OF assms(2,1)] obtain rd bl fr where ok: "world_ok w rd bl fr" "watching p w bl" by blast
  from poll_loop_turn_keeps [OF ok assms(3)] obtain x where x: "poll_loop_turn p w = Some x"
    "\<And>p' w'. x = Some (p', w') \<Longrightarrow> (\<forall>q. poll_script p \<noteq> Poll_EINTR # q) \<Longrightarrow> \<exists>rd' bl' fr'. world_ok w' rd' bl' fr' \<and> one_each p' w' bl'" by blast
  then show ?thesis using ok unfolding one_each_def by blast
qed

theorem poll_server_invariant_witness:
  "\<exists>p w rd bl fr. poll_loop_turn (example_poll\<lparr>pfds := []\<rparr>) example_start = Some (Some (p, w)) \<and>
     world_ok w rd bl fr \<and> watching p w bl \<and> length (pfds p) = length bl"
proof -
  let ?p = "example_poll\<lparr>pfds := []\<rparr>"
  have s: "started example_start" "sigterm_flag example_start \<noteq> 1" by (simp_all add: started_def example_start_def example_world_def)
  have q: "\<forall>q. poll_script ?p \<noteq> Poll_EINTR # q" by (simp add: example_poll_def)
  have w: "while_option (\<lambda>s. case s of Some (Some i, pw) \<Rightarrow> True | _ \<Rightarrow> False) f (Some (None, z)) = Some (Some (None, z))" for f and z :: "poll_state \<times> world"
    by (subst while_option_unfold) simp
  obtain p w where t: "poll_loop_turn ?p example_start = Some (Some (p, w))"
    by (simp add: poll_loop_turn_def poll_turn_def poll_watch_server_def poll_wait_def poll_process_requests_def time_now_def wall_clock_def
        example_start_def example_world_def example_server_def example_poll_def Let_def w)
  have "\<exists>rd bl fr. world_ok w rd bl fr \<and> watching p w bl \<and> length (pfds p) = length bl"
    using poll_server_invariant [OF s(1) poll_reachable.start s(2), of ?p] t q by auto
  then show ?thesis using t by blast
qed

text \<open>Both builds serve alike: the pass over the ready requests, with all handlers, new connections, released and kept requests, ends in the same state in
  the \<open>poll\<close> variant as in the \<open>select\<close> variant, up to the sets of descriptors that the other one keeps, or ends the process in both.
\<close>

lemma poll_pass_same:
  assumes "world_ok w rd bl fr" and "one_each p w bl"
  shows "poll_process_requests p w \<noteq> None \<and>
     map_option (map_option (\<lambda>(p', w'). bare w')) (poll_process_requests p w) = map_option (map_option bare) (process_requests w)"
proof -
  from poll_process_requests_eq [OF assms] obtain rd1 where
    d: "dlist (q_links (accept_first w)) (request_ready (accept_first w)) rd1"
    and p: "poll_process_requests p w = Some (poll_serve_all rd1 p (accept_first w))" by blast
  show ?thesis using same_serve_all [OF refl, of rd1 p "accept_first w"] unfolding p process_requests_eq [OF assms(1) d] by simp
qed

end
