(* ===== verification/Config.thy ===== *)
theory Config
  imports Access Alias Cgi_Header
begin

text \<open>
  The configuration file (\<open>config.c\<close>): the table of directives, the line parser, the actions, and the checks after reading.
  The actions store through untyped pointers; here the variables they point to are named by
  \<open>int_var\<close> and \<open>str_var\<close>, and their values live in the \<open>settings\<close> beside the tables of the server.

  The parser works in an array on the stack whose old contents it does not clear. The array is part of the model, because the
  parser looks behind the end of the line. Reading or writing behind the end of the array is the
  result \<open>Overrun\<close>, and so is the use of a null pointer; \<open>Exit\<close> is the end of the process.
\<close>

section \<open>Settings\<close>

datatype int_var = V_server_port | V_backlog | V_use_localtime | V_verbose_cgi_logs | V_virtualhost | V_ka_max | V_ka_timeout
  | V_single_post_limit | V_cgi_umask | V_max_connections | V_conceal_server_identity | V_cgi_strip_prefix

datatype str_var = V_server_ip | V_server_admin | V_server_root | V_error_log_name | V_access_log_name | V_cgi_log_name
  | V_server_name | V_vhost_root | V_default_vhost | V_document_root | V_user_dir | V_directory_index | V_dirmaker | V_cachedir
  | V_pid_file | V_default_type | V_default_charset | V_cgi_path | V_cgi_ld_library_path

record settings =
  ints :: "int_var \<Rightarrow> int"
  strs :: "str_var \<Rightarrow> string option"
  server_uid :: "32 word"
  server_gid :: "32 word"
  default_timeout :: int
  tables :: server

datatype config_stop = Exit | Overrun

text \<open>What the operating system answers while the configuration is read.\<close>

record environment =
  env_uid :: nat
  env_user :: "string \<Rightarrow> 32 word option"
  env_group :: "string \<Rightarrow> 32 word option"
  env_file :: "string \<Rightarrow> string option"
  env_hostname :: "string option"
  env_tmp :: "string option"
  env_rlimit :: "32 word option"

section \<open>The C library\<close>

text \<open>\<open>strtol\<close> with the base taken from the number: the value and what is left, the whole string when there is no number.\<close>

definition isoctal :: "char \<Rightarrow> bool" where
  "isoctal c \<longleftrightarrow> 48 \<le> uchar c \<and> uchar c \<le> 55"

definition ishex :: "char \<Rightarrow> bool" where
  "ishex c \<longleftrightarrow> isdigit c \<or> 65 \<le> uchar c \<and> uchar c \<le> 70 \<or> 97 \<le> uchar c \<and> uchar c \<le> 102"

definition base_value :: "nat \<Rightarrow> string \<Rightarrow> int" where
  "base_value b ds = foldl (\<lambda>n c. n * int b + hex_digit_value c) 0 ds"

definition strtol_auto :: "string \<Rightarrow> int \<times> string" where
  "strtol_auto s =
     (let t = dropWhile isspace s;
          neg = (t \<noteq> [] \<and> hd t = CHR ''-'');
          u = (if t \<noteq> [] \<and> hd t \<in> {CHR ''-'', CHR ''+''} then tl t else t);
          hex = (take 2 u \<in> {''0x'', ''0X''} \<and> length u > 2 \<and> ishex (u ! 2));
          (b, v) = (if hex then (16, drop 2 u) else if u \<noteq> [] \<and> hd u = CHR ''0'' then (8, u) else (10, u));
          digit = (if b = 16 then ishex else if b = 8 then isoctal else isdigit);
          ds = takeWhile digit v;
          n = base_value b ds
      in if ds = [] then (0, s)
         else (max (- (2 ^ 63)) (min (2 ^ 63 - 1) (if neg then - n else n)), drop (length ds) v))"

definition int32 :: "int \<Rightarrow> int" where
  "int32 i = sint (word_of_int i :: 32 word)"

text \<open>A line of at most \<open>n - 1\<close> bytes, with its line end, and the rest of the file.\<close>

definition fgets :: "nat \<Rightarrow> string \<Rightarrow> (string \<times> string) option" where
  "fgets n f =
     (if f = [] then None
      else
        (let l = takeWhile (\<lambda>c. c \<noteq> LF) (take (n - 1) f);
             k = (if length l < n - 1 \<and> length l < length f then length l + 1 else length l)
         in Some (take k f, drop k f)))"

text \<open>The first white space at or behind an offset, which the scans do not look for a terminator before.\<close>

definition scan_space :: "string \<Rightarrow> nat \<Rightarrow> nat option" where
  "scan_space buf i =
     (let k = i + length (takeWhile (\<lambda>c. \<not> isspace c) (drop i buf)) in if k < length buf then Some k else None)"

definition skip_space :: "string \<Rightarrow> nat \<Rightarrow> nat" where
  "skip_space buf i = i + length (takeWhile isspace (drop i buf))"

section \<open>Actions\<close>

datatype action = C_set_int int_var | C_set_string str_var | C_set_unity int_var | C_set_user | C_set_group
  | C_add_mime_types_file | C_add_mime_type | C_add_alias alias_type | C_add_access bool | C_add_cgi_env | C_set_cgi_strip_token

definition with_tables :: "settings \<Rightarrow> server option \<Rightarrow> config_stop + settings" where
  "with_tables st res = (case res of None \<Rightarrow> Inl Exit | Some sv \<Rightarrow> Inr (st\<lparr>tables := sv\<rparr>))"

definition c_add_cgi_env :: "string \<Rightarrow> string option \<Rightarrow> settings \<Rightarrow> config_stop + settings" where
  "c_add_cgi_env v1 v2 st = with_tables st (add_to_common_env v1 (case v2 of Some v \<Rightarrow> v | None \<Rightarrow> []) (tables st))"

definition c_set_user :: "environment \<Rightarrow> string \<Rightarrow> settings \<Rightarrow> config_stop + settings" where
  "c_set_user env v1 st =
     (case strtol_auto v1 of (i, rest) \<Rightarrow>
        if v1 \<noteq> [] \<and> rest = [] then Inr (st\<lparr>server_uid := word_of_int i\<rparr>)
        else case env_user env v1 of
               None \<Rightarrow> if env_uid env \<noteq> 0 then Inr st else Inl Exit
             | Some u \<Rightarrow> Inr (st\<lparr>server_uid := u\<rparr>))"

definition c_set_group :: "environment \<Rightarrow> string \<Rightarrow> settings \<Rightarrow> config_stop + settings" where
  "c_set_group env v1 st =
     (case strtol_auto v1 of (i, rest) \<Rightarrow>
        if v1 \<noteq> [] \<and> rest = [] then Inr (st\<lparr>server_gid := word_of_int i\<rparr>)
        else case env_group env v1 of
               None \<Rightarrow> if env_uid env \<noteq> 0 then Inr st else Inl Exit
             | Some g \<Rightarrow> Inr (st\<lparr>server_gid := g\<rparr>))"

definition c_set_string :: "str_var \<Rightarrow> string \<Rightarrow> settings \<Rightarrow> config_stop + settings" where
  "c_set_string t v1 st =
     (case try_alloc (tables st) of (ok, sv) \<Rightarrow>
        if \<not> ok then Inl Exit else Inr (st\<lparr>strs := (strs st)(t := Some v1), tables := sv\<rparr>))"

definition c_set_int :: "int_var \<Rightarrow> string \<Rightarrow> settings \<Rightarrow> config_stop + settings" where
  "c_set_int t v1 st =
     (case strtol_auto v1 of (i, rest) \<Rightarrow>
        if v1 \<noteq> [] \<and> rest = [] then Inr (st\<lparr>ints := (ints st)(t := int32 i)\<rparr>) else Inr st)"

definition c_set_unity :: "int_var \<Rightarrow> settings \<Rightarrow> config_stop + settings" where
  "c_set_unity t st = Inr (st\<lparr>ints := (ints st)(t := 1)\<rparr>)"

definition add_type :: "string \<Rightarrow> string \<Rightarrow> server \<Rightarrow> server option" where
  "add_type extension type sv =
     (case add_mime_type (hash_variant sv) extension type (mime_hashtable sv) (alloc_script sv) of
        None \<Rightarrow> None
      | Some (table, al) \<Rightarrow> Some (sv\<lparr>mime_hashtable := table, alloc_script := al\<rparr>))"

definition c_add_mime_type :: "string \<Rightarrow> string option \<Rightarrow> settings \<Rightarrow> config_stop + settings" where
  "c_add_mime_type v1 v2 st =
     (case v2 of None \<Rightarrow> Inl Exit | Some e \<Rightarrow> with_tables st (add_type e v1 (tables st)))"

text \<open>The extensions behind a type, each ended by a blank or the end of the string.\<close>

definition skip_to_alnum :: "string \<Rightarrow> nat \<Rightarrow> nat" where
  "skip_to_alnum buf p = p + length (takeWhile (\<lambda>c. c \<noteq> NUL \<and> \<not> isalnum c) (drop p buf))"

function add_extensions :: "string \<Rightarrow> nat \<Rightarrow> string \<Rightarrow> server \<Rightarrow> (string \<times> server) option" where
  "add_extensions buf p type sv =
     (let ext = takeWhile (\<lambda>c. c \<noteq> NUL \<and> c \<noteq> HT \<and> c \<noteq> CHR '' '') (drop p buf) in
      if ext = [] then Some (buf, sv)
      else case add_type ext type sv of
             None \<Rightarrow> None
           | Some sv \<Rightarrow>
               (let buf' = buf[p + length ext := NUL]
                in add_extensions buf' (skip_to_alnum buf' (p + length ext + 1)) type sv))"
  by pat_completeness auto
termination
proof (relation "measure (\<lambda>(buf, p, type, sv). length buf - p)")
  fix buf :: string and p :: nat and type :: string and sv sv' :: server and ext buf'
  assume "ext = takeWhile (\<lambda>c. c \<noteq> NUL \<and> c \<noteq> HT \<and> c \<noteq> CHR '' '') (drop p buf)" and "ext \<noteq> []"
    and "buf' = buf[p + length ext := NUL]"
  moreover from this have "p < length buf" by (cases "p < length buf") auto
  ultimately show "((buf', skip_to_alnum buf' (p + length ext + 1), type, sv'), (buf, p, type, sv))
      \<in> measure (\<lambda>(buf, p, type, sv). length buf - p)"
    by (simp add: skip_to_alnum_def)
qed simp

declare add_extensions.simps [simp del]

definition mime_line :: "string \<Rightarrow> server \<Rightarrow> (string \<times> server) option" where
  "mime_line buf sv =
     (if char_at buf 0 = NUL \<or> char_at buf 0 = CHR ''#'' \<or> char_at buf 0 = LF then Some (buf, sv)
      else
        (let buf = (case strchr (cstr buf) LF of Some c2 \<Rightarrow> buf[c2 := NUL] | None \<Rightarrow> buf);
             type = takeWhile (\<lambda>c. c \<noteq> HT \<and> c \<noteq> CHR '' '') (cstr buf);
             len = length type
         in if len = 0 then Some (buf, sv)
            else
              (let buf = buf[len := NUL] in add_extensions buf (skip_to_alnum buf (len + 1)) type sv)))"

function mime_lines :: "string \<Rightarrow> string \<Rightarrow> server \<Rightarrow> server option" where
  "mime_lines f buf sv =
     (case fgets 255 f of
        None \<Rightarrow> Some sv
      | Some (line, f') \<Rightarrow>
          (case mime_line (blit buf 0 (line @ [NUL])) sv of
             None \<Rightarrow> None
           | Some (buf, sv) \<Rightarrow> mime_lines f' buf sv))"
  by pat_completeness auto

lemma fgets_shorter: "fgets n f = Some (line, f') \<Longrightarrow> 1 < n \<Longrightarrow> length f' < length f"
  by (cases f; cases "n - 1") (auto simp: fgets_def Let_def split: if_splits)

termination mime_lines
  by (relation "measure (\<lambda>(f, buf, sv). length f)") (auto dest: fgets_shorter)

declare mime_lines.simps [simp del]

definition c_add_mime_types_file :: "environment \<Rightarrow> string \<Rightarrow> string \<Rightarrow> settings \<Rightarrow> config_stop + settings" where
  "c_add_mime_types_file env stack v1 st =
     (case env_file env v1 of None \<Rightarrow> Inl Exit | Some f \<Rightarrow> with_tables st (mime_lines f (take 256 stack) (tables st)))"

definition c_add_alias :: "alias_type \<Rightarrow> string \<Rightarrow> string option \<Rightarrow> settings \<Rightarrow> config_stop + settings" where
  "c_add_alias t v1 v2 st = with_tables st (add_alias (Some v1) v2 t (tables st))"

definition c_add_access :: "bool \<Rightarrow> string \<Rightarrow> settings \<Rightarrow> config_stop + settings" where
  "c_add_access allow v1 st =
     (if build_access_control (tables st) then with_tables st (access_add v1 allow (tables st)) else Inr st)"

definition c_set_cgi_strip_token :: "string \<Rightarrow> settings \<Rightarrow> config_stop + settings" where
  "c_set_cgi_strip_token v1 st = with_tables st (cgi_strip_add_token v1 (tables st))"

text \<open>An action on its arguments, where a null pointer cannot be read.\<close>

definition run_action :: "environment \<Rightarrow> string \<Rightarrow> action \<Rightarrow> string option \<Rightarrow> string option \<Rightarrow> settings \<Rightarrow> config_stop + settings" where
  "run_action env stack act v1 v2 st =
     (case act of
        C_set_unity t \<Rightarrow> c_set_unity t st
      | _ \<Rightarrow>
          (case v1 of
             None \<Rightarrow> Inl Overrun
           | Some v1 \<Rightarrow>
               (case act of
                  C_set_int t \<Rightarrow> c_set_int t v1 st
                | C_set_string t \<Rightarrow> c_set_string t v1 st
                | C_set_user \<Rightarrow> c_set_user env v1 st
                | C_set_group \<Rightarrow> c_set_group env v1 st
                | C_add_mime_types_file \<Rightarrow> c_add_mime_types_file env stack v1 st
                | C_add_mime_type \<Rightarrow> c_add_mime_type v1 v2 st
                | C_add_alias t \<Rightarrow> c_add_alias t v1 v2 st
                | C_add_access allow \<Rightarrow> c_add_access allow v1 st
                | C_add_cgi_env \<Rightarrow> c_add_cgi_env v1 v2 st
                | C_set_cgi_strip_token \<Rightarrow> c_set_cgi_strip_token v1 st
                | C_set_unity t \<Rightarrow> c_set_unity t st)))"

section \<open>Directives\<close>

datatype arity = S0A | S1A | S2A

definition clist :: "bool \<Rightarrow> (string \<times> arity \<times> action) list" where
  "clist strip =
     [(''Port'', S1A, C_set_int V_server_port), (''Listen'', S1A, C_set_string V_server_ip),
      (''BackLog'', S1A, C_set_int V_backlog), (''User'', S1A, C_set_user), (''Group'', S1A, C_set_group),
      (''ServerAdmin'', S1A, C_set_string V_server_admin), (''ServerRoot'', S1A, C_set_string V_server_root),
      (''UseLocaltime'', S0A, C_set_unity V_use_localtime), (''ErrorLog'', S1A, C_set_string V_error_log_name),
      (''AccessLog'', S1A, C_set_string V_access_log_name), (''CgiLog'', S1A, C_set_string V_cgi_log_name),
      (''CGILog'', S1A, C_set_string V_cgi_log_name), (''VerboseCGILogs'', S0A, C_set_unity V_verbose_cgi_logs),
      (''ServerName'', S1A, C_set_string V_server_name), (''VirtualHost'', S0A, C_set_unity V_virtualhost),
      (''VHostRoot'', S1A, C_set_string V_vhost_root), (''DefaultVHost'', S1A, C_set_string V_default_vhost),
      (''DocumentRoot'', S1A, C_set_string V_document_root), (''UserDir'', S1A, C_set_string V_user_dir),
      (''DirectoryIndex'', S1A, C_set_string V_directory_index), (''DirectoryMaker'', S1A, C_set_string V_dirmaker),
      (''DirectoryCache'', S1A, C_set_string V_cachedir), (''PidFile'', S1A, C_set_string V_pid_file),
      (''KeepAliveMax'', S1A, C_set_int V_ka_max), (''KeepAliveTimeout'', S1A, C_set_int V_ka_timeout),
      (''MimeTypes'', S1A, C_add_mime_types_file), (''DefaultType'', S1A, C_set_string V_default_type),
      (''DefaultCharset'', S1A, C_set_string V_default_charset), (''AddType'', S2A, C_add_mime_type),
      (''ScriptAlias'', S2A, C_add_alias SCRIPTALIAS), (''Redirect'', S2A, C_add_alias REDIRECT),
      (''Alias'', S2A, C_add_alias ALIAS), (''SinglePostLimit'', S1A, C_set_int V_single_post_limit),
      (''CGIPath'', S1A, C_set_string V_cgi_path), (''CGILdLibraryPath'', S1A, C_set_string V_cgi_ld_library_path),
      (''CGIumask'', S1A, C_set_int V_cgi_umask), (''MaxConnections'', S1A, C_set_int V_max_connections),
      (''ConcealServerIdentity'', S0A, C_set_unity V_conceal_server_identity), (''Allow'', S1A, C_add_access True),
      (''Deny'', S1A, C_add_access False), (''CGIEnv'', S2A, C_add_cgi_env)] @
     (if strip then [(''CGIStripPrefix'', S0A, C_set_unity V_cgi_strip_prefix), (''CGIStripToken'', S1A, C_set_cgi_strip_token)] else [])"

definition lookup_keyword :: "bool \<Rightarrow> string \<Rightarrow> (string \<times> arity \<times> action) option" where
  "lookup_keyword strip c = List.find (\<lambda>p. strcaseeq c (fst p)) (clist strip)"

text \<open>The arguments of a directive; \<open>args\<close> is an offset into the array.\<close>

definition apply_command ::
  "environment \<Rightarrow> string \<Rightarrow> string \<times> arity \<times> action \<Rightarrow> nat option \<Rightarrow> string \<Rightarrow> settings \<Rightarrow> config_stop + string \<times> settings" where
  "apply_command env stack p args buf st =
     (let act = snd (snd p);
          return = (\<lambda>buf res. case res of Inl e \<Rightarrow> Inl e | Inr st \<Rightarrow> Inr (buf, st)) in
      case fst (snd p) of
        S0A \<Rightarrow> return buf (run_action env stack act None None st)
      | S1A \<Rightarrow> return buf (run_action env stack act (map_option (\<lambda>a. cstr (drop a buf)) args) None st)
      | S2A \<Rightarrow>
          (case args of
             None \<Rightarrow> Inl Overrun
           | Some a \<Rightarrow>
               (let a = skip_space buf a in
                if a \<ge> length buf then Inl Overrun
                else if char_at buf a = NUL then Inl Exit
                else case scan_space buf a of
                       None \<Rightarrow> Inl Overrun
                     | Some s \<Rightarrow>
                         (let buf' = buf[s := NUL];
                              s' = skip_space buf' (s + 1);
                              second = (if char_at buf s = NUL then None
                                        else if char_at buf' s' = NUL then None else Some (cstr (drop s' buf')))
                          in if s' \<ge> length buf' then Inl Overrun
                             else return buf' (run_action env stack act (Some (cstr (drop a buf'))) second st)))))"

definition trim :: "string \<Rightarrow> string" where
  "trim buf =
     (let s = cstr buf; k = length (takeWhile isspace (rev (tl s)))
      in blit buf (length s - k) (replicate k NUL))"

definition parse_line :: "environment \<Rightarrow> string \<Rightarrow> string \<Rightarrow> settings \<Rightarrow> config_stop + string \<times> settings" where
  "parse_line env stack buf st =
     (if char_at buf 0 = NUL \<or> char_at buf 0 = CHR ''#'' \<or> char_at buf 0 = LF then Inr (buf, st)
      else
        (let buf = trim buf in
         if char_at buf 0 = NUL then Inr (buf, st)
         else case scan_space buf 0 of
                None \<Rightarrow> Inl Overrun
              | Some c \<Rightarrow>
                  (let args = (if char_at buf c = NUL then None else Some (c + 1));
                       buf = (if char_at buf c = NUL then buf else buf[c := NUL])
                   in case lookup_keyword (build_strip (tables st)) (cstr buf) of
                        None \<Rightarrow> Inl Exit
                      | Some p \<Rightarrow> apply_command env stack p args buf st)))"

function parse :: "environment \<Rightarrow> string \<Rightarrow> string \<Rightarrow> string \<Rightarrow> settings \<Rightarrow> config_stop + settings" where
  "parse env stack f buf st =
     (case fgets 1024 f of
        None \<Rightarrow> Inr st
      | Some (line, f') \<Rightarrow>
          (case parse_line env stack (blit buf 0 (line @ [NUL])) st of
             Inl e \<Rightarrow> Inl e
           | Inr (buf, st) \<Rightarrow> parse env stack f' buf st))"
  by pat_completeness auto
termination
  by (relation "measure (\<lambda>(env, stack, f, buf, st). length f)") (auto dest: fgets_shorter)

declare parse.simps [simp del]

section \<open>The whole configuration\<close>

definition DEFAULT_VHOST :: string where "DEFAULT_VHOST = ''default''"

text \<open>The checks and defaults after parsing.\<close>

definition check_settings :: "environment \<Rightarrow> settings \<Rightarrow> config_stop + settings" where
  "check_settings env st =
     (if ints st V_single_post_limit < 0 then Inl Exit
      else if strs st V_vhost_root \<noteq> None \<and> ints st V_virtualhost \<noteq> 0 then Inl Exit
      else if strs st V_vhost_root \<noteq> None \<and> strs st V_document_root \<noteq> None then Inl Exit
      else
        (let st = (if strs st V_default_vhost = None then st\<lparr>strs := (strs st)(V_default_vhost := Some DEFAULT_VHOST)\<rparr> else st) in
         case (if ints st V_max_connections mod 2 ^ 32 < 1 then map_option uint (env_rlimit env)
               else Some (ints st V_max_connections mod 2 ^ 32)) of
           None \<Rightarrow> Inl Exit
         | Some m \<Rightarrow>
             (let m = (if m > int FD_SETSIZE - 20 then int FD_SETSIZE - 20 else m);
                  ka = (if ints st V_ka_timeout < 0 then 0 else ints st V_ka_timeout);
                  st = st\<lparr>ints := (ints st)(V_max_connections := m, V_ka_timeout := ka),
                          default_timeout := (if ka \<noteq> 0 then ka else REQUEST_TIMEOUT)\<rparr>
              in if strs st V_default_type = None then Inl Exit else Inr st)))"

definition read_config_files :: "environment \<Rightarrow> string \<Rightarrow> string \<Rightarrow> settings \<Rightarrow> config_stop + settings" where
  "read_config_files env config_file_name stack st =
     (let sv = tables st;
          st = (if build_access_control sv then st\<lparr>tables := access_init sv\<rparr> else st)
      in case env_file env config_file_name of
           None \<Rightarrow> Inl Exit
         | Some f \<Rightarrow>
             (case parse env stack f (take 1025 stack) st of
                Inl e \<Rightarrow> Inl e
              | Inr st \<Rightarrow>
                  (case (if strs st V_server_name \<noteq> None then Some st
                         else case env_hostname env of
                                None \<Rightarrow> None
                              | Some h \<Rightarrow>
                                  (case try_alloc (tables st) of (ok, sv) \<Rightarrow>
                                     if \<not> ok then None
                                     else Some (st\<lparr>strs := (strs st)(V_server_name := Some h), tables := sv\<rparr>))) of
                     None \<Rightarrow> Inl Exit
                   | Some st \<Rightarrow>
                       check_settings env
                         (st\<lparr>tables := (tables st)\<lparr>tempdir := (case env_tmp env of Some t \<Rightarrow> t | None \<Rightarrow> ''/tmp'')\<rparr>\<rparr>))))"

text \<open>The variables as the rest of the server sees them.\<close>

definition configured :: "settings \<Rightarrow> server" where
  "configured st = (tables st)\<lparr>
     server_port := word_of_int (ints st V_server_port), server_name := the (strs st V_server_name),
     document_root := strs st V_document_root, user_dir := strs st V_user_dir,
     directory_index := strs st V_directory_index, default_type := strs st V_default_type,
     default_charset := strs st V_default_charset, dirmaker := strs st V_dirmaker, cachedir := strs st V_cachedir,
     vhost_root := strs st V_vhost_root, default_vhost := the (strs st V_default_vhost),
     virtualhost := ints st V_virtualhost \<noteq> 0, ka_timeout := word_of_int (ints st V_ka_timeout),
     ka_max := nat (ints st V_ka_max mod 2 ^ 32), max_connections := nat (ints st V_max_connections mod 2 ^ 32),
     conceal_server_identity := ints st V_conceal_server_identity \<noteq> 0, single_post_limit := ints st V_single_post_limit,
     server_root := the (strs st V_server_root), cgi_strip_prefix := ints st V_cgi_strip_prefix \<noteq> 0\<rparr>"

section \<open>Lines\<close>

text \<open>A word of a line: not empty, without white space and terminators.\<close>

definition is_word :: "string \<Rightarrow> bool" where
  "is_word s \<longleftrightarrow> s \<noteq> [] \<and> list_all (\<lambda>c. \<not> isspace c \<and> c \<noteq> NUL) s"

text \<open>The last argument of a line: not empty, no terminator in it, no white space at its end.\<close>

definition is_tail :: "string \<Rightarrow> bool" where
  "is_tail s \<longleftrightarrow> s \<noteq> [] \<and> NUL \<notin> set s \<and> \<not> isspace (last s)"

lemma space_chars [simp]: "isspace CHR '' ''" "isspace LF" "\<not> isspace NUL"
  by (simp_all add: isspace_def uchar_def)

lemma cstr_terminated: "NUL \<notin> set s \<Longrightarrow> cstr (s @ NUL # xs) = s"
  by (induction s) (auto simp: cstr_def)

lemma scan_space_word:
  assumes "list_all (\<lambda>c. \<not> isspace c) s"
  shows "scan_space (pre @ s @ CHR '' '' # xs) (length pre) = Some (length pre + length s)"
proof -
  have "takeWhile (\<lambda>c. \<not> isspace c) (s @ CHR '' '' # xs) = s" using assms by (auto simp: list_all_iff)
  then show ?thesis by (simp add: scan_space_def)
qed

lemma trim_line:
  assumes "is_tail arg" and "kw \<noteq> []" and "NUL \<notin> set kw"
  shows "trim (kw @ CHR '' '' # arg @ LF # NUL # xs) = kw @ CHR '' '' # arg @ NUL # NUL # xs"
proof -
  let ?s = "kw @ CHR '' '' # arg @ [LF]"
  have c: "cstr (?s @ NUL # xs) = ?s" using assms by (intro cstr_terminated) (auto simp: is_tail_def)
  obtain a b where arg: "arg = a @ [b]" "\<not> isspace b" using assms(1) by (cases arg rule: rev_cases) (auto simp: is_tail_def)
  obtain k ks where kw: "kw = k # ks" using assms(2) by (cases kw) auto
  have "takeWhile isspace (rev (tl ?s)) = [LF]" by (simp add: arg kw)
  then show ?thesis using c by (simp add: trim_def Let_def blit_def)
qed

text \<open>What the parser does with a directive and its argument, whatever the array held before.\<close>

definition result_of :: "string \<Rightarrow> config_stop + settings \<Rightarrow> config_stop + string \<times> settings" where
  "result_of buf res = (case res of Inl e \<Rightarrow> Inl e | Inr st \<Rightarrow> Inr (buf, st))"

lemma parse_line_directive:
  assumes "is_word kw" and "hd kw \<noteq> CHR ''#''" and "is_tail arg"
    and "lookup_keyword (build_strip (tables st)) kw = Some p"
  shows "parse_line env stack (kw @ CHR '' '' # arg @ LF # NUL # xs) st =
    apply_command env stack p (Some (length kw + 1)) (kw @ NUL # arg @ NUL # NUL # xs) st"
proof -
  obtain k ks where kw: "kw = k # ks" and k: "\<not> isspace k" "k \<noteq> NUL" "k \<noteq> CHR ''#''"
    using assms(1,2) by (cases kw) (auto simp: is_word_def)
  have nk: "NUL \<notin> set kw" "list_all (\<lambda>c. \<not> isspace c) kw" using assms(1) by (auto simp: is_word_def list_all_iff)
  have k': "k \<noteq> LF" using k(1) by auto
  let ?buf = "kw @ CHR '' '' # arg @ NUL # NUL # xs"
  have t: "trim (kw @ CHR '' '' # arg @ LF # NUL # xs) = ?buf" using trim_line assms(3) nk(1) kw by blast
  have s: "scan_space ?buf 0 = Some (length kw)" using scan_space_word [OF nk(2), of "[]"] by simp
  have at: "char_at (kw @ CHR '' '' # ys) 0 = k" "char_at ?buf (length kw) = CHR '' ''" for ys by (simp_all add: char_at_def kw)
  have u: "?buf[length kw := NUL] = kw @ NUL # arg @ NUL # NUL # xs" by (simp add: list_update_append)
  show ?thesis
    unfolding parse_line_def Let_def t s at option.case u using k k' by (simp add: cstr_terminated [OF nk(1)] assms(4))
qed

lemma parse_line_one:
  assumes "is_word kw" and "hd kw \<noteq> CHR ''#''" and "is_tail arg"
    and "lookup_keyword (build_strip (tables st)) kw = Some (n, S1A, act)"
  shows "parse_line env stack (kw @ CHR '' '' # arg @ LF # NUL # xs) st =
    result_of (kw @ NUL # arg @ NUL # NUL # xs) (run_action env stack act (Some arg) None st)"
proof -
  have "NUL \<notin> set arg" using assms(3) by (simp add: is_tail_def)
  then have "cstr (drop (Suc (length kw)) (kw @ NUL # arg @ NUL # NUL # xs)) = arg" using cstr_terminated by simp
  then show ?thesis unfolding parse_line_directive [OF assms] by (simp add: apply_command_def Let_def result_of_def)
qed

lemma parse_line_two:
  assumes "is_word kw" and "hd kw \<noteq> CHR ''#''" and "is_word a" and "is_tail b" and "\<not> isspace (hd b)"
    and "lookup_keyword (build_strip (tables st)) kw = Some (n, S2A, act)"
  shows "parse_line env stack (kw @ CHR '' '' # (a @ CHR '' '' # b) @ LF # NUL # xs) st =
    result_of (kw @ NUL # a @ NUL # b @ NUL # NUL # xs) (run_action env stack act (Some a) (Some b) st)"
proof -
  have tl: "is_tail (a @ CHR '' '' # b)" using assms(3,4) by (auto simp: is_tail_def is_word_def list_all_iff)
  let ?buf = "kw @ NUL # (a @ CHR '' '' # b) @ NUL # NUL # xs"
  let ?buf' = "kw @ NUL # a @ NUL # b @ NUL # NUL # xs"
  obtain x xs' where a: "a = x # xs'" "\<not> isspace x" "x \<noteq> NUL" using assms(3) by (cases a) (auto simp: is_word_def)
  obtain y ys where b: "b = y # ys" "\<not> isspace y" "y \<noteq> NUL" using assms(4,5) by (cases b) (auto simp: is_tail_def)
  have sk: "skip_space ?buf (length kw + 1) = length kw + 1" using a(2) by (simp add: skip_space_def a(1))
  have "list_all (\<lambda>c. \<not> isspace c) a" using assms(3) by (auto simp: is_word_def list_all_iff)
  from scan_space_word [OF this, of "kw @ [NUL]" "b @ NUL # NUL # xs"]
  have sc: "scan_space ?buf (length kw + 1) = Some (length kw + 1 + length a)" by simp
  have up: "?buf[length kw + 1 + length a := NUL] = ?buf'" by (simp add: list_update_append)
  have sk2: "skip_space ?buf' (length kw + 1 + length a + 1) = length kw + 1 + length a + 1"
    using b(2) by (simp add: skip_space_def b(1))
  have at: "char_at ?buf (length kw + 1) = x" "char_at ?buf (length kw + 1 + length a) = CHR '' ''"
    "char_at ?buf' (length kw + 1 + length a + 1) = y"
    by (simp_all add: char_at_def nth_append a(1) b(1))
  have na: "NUL \<notin> set a" "NUL \<notin> set b" using assms(3,4) by (auto simp: is_word_def is_tail_def list_all_iff)
  have c: "cstr (drop (length kw + 1) ?buf') = a" "cstr (drop (length kw + 1 + length a + 1) ?buf') = b"
    using cstr_terminated [OF na(1)] cstr_terminated [OF na(2)] by simp_all
  have len: "\<not> length ?buf \<le> length kw + 1" "\<not> length ?buf' \<le> length kw + 1 + length a + 1" by simp_all
  show ?thesis
    unfolding parse_line_directive [OF assms(1,2) tl assms(6)] apply_command_def Let_def prod.sel arity.case option.case
      sk sc up sk2 at c if_not_P [OF len(1)] if_not_P [OF len(2)] result_of_def using a(3) b(3) by simp
qed

section \<open>Numbers\<close>

lemma base_value_digits: "list_all isdigit ds \<Longrightarrow> base_value 10 ds = int (digits_value ds)"
proof -
  have d: "hex_digit_value c = int (uchar c - 48)" if "isdigit c" for c
    using that by (simp add: hex_digit_value_def schar_def Let_def isdigit_def)
  have "foldl (\<lambda>n c. n * int 10 + hex_digit_value c) (int m) ds = int (foldl (\<lambda>n c. n * 10 + (uchar c - 48)) m ds)"
    if "list_all isdigit ds" for m
    using that
  proof (induction ds arbitrary: m)
    case (Cons c cs)
    then show ?case using Cons.IH [of "m * 10 + (uchar c - 48)"] by (simp add: d)
  qed simp
  from this [of 0] show "list_all isdigit ds \<Longrightarrow> base_value 10 ds = int (digits_value ds)"
    by (simp add: base_value_def digits_value_def)
qed

lemma decimal_first: "n \<noteq> 0 \<Longrightarrow> hd (decimal n) \<noteq> CHR ''0''"
proof (induction n rule: decimal.induct)
  case (1 n)
  show ?case
  proof (cases "n < 10")
    case True
    have "uchar (digit_char n) = 48 + n" using True by (rule uchar_digit_char)
    moreover have "uchar CHR ''0'' = 48" by (simp add: uchar_def)
    ultimately have "digit_char n \<noteq> CHR ''0''" using 1(2) by auto
    then show ?thesis using True by (subst decimal.simps) simp
  next
    case False
    then show ?thesis using 1(1) by (subst decimal.simps) (simp add: hd_append)
  qed
qed

lemma digit_not [simp]: "isdigit c \<Longrightarrow> \<not> isspace c" "isdigit c \<Longrightarrow> c \<noteq> CHR ''-''" "isdigit c \<Longrightarrow> c \<noteq> CHR ''+''"
  by (auto simp: isdigit_def isspace_def uchar_def)

lemma strtol_decimal:
  assumes "n < 2 ^ 63"
  shows "strtol_auto (decimal n) = (int n, [])"
proof (cases "n = 0")
  case True
  have "decimal 0 = ''0''" by (simp add: decimal.simps digit_chars)
  moreover have "strtol_auto ''0'' = (0, [])" by code_simp
  ultimately show ?thesis using True by simp
next
  case False
  obtain c cs where d: "decimal n = c # cs" by (cases "decimal n") auto
  have all: "list_all isdigit (decimal n)" by (rule decimal_digits)
  have c: "isdigit c" "c \<noteq> CHR ''0''" using all decimal_first [OF False] by (simp_all add: d)
  have tw: "takeWhile isdigit (decimal n) = decimal n" using all by (simp add: takeWhile_eq_all_conv list_all_iff)
  have v: "base_value 10 (decimal n) = int n" using base_value_digits [OF all] by simp
  have drop: "dropWhile isspace (decimal n) = decimal n" using c(1) by (simp add: d)
  have two: "take 2 (decimal n) \<notin> {''0x'', ''0X''}" using c(2) by (simp add: d numeral_2_eq_2)
  have hd: "hd (decimal n) = c" by (simp add: d)
  show ?thesis
    unfolding strtol_auto_def Let_def drop using c two assms by (simp add: hd tw v)
qed

section \<open>Properties\<close>

text \<open>A directive and its arguments. A line with a name of the table and one argument, or two words, calls the action of
  that name with exactly these arguments, whatever the array of the parser held from the lines before.
\<close>

theorem directive_arguments:
  assumes "is_word kw" and "hd kw \<noteq> CHR ''#''" and "lookup_keyword (build_strip (tables st)) kw = Some (name, arity, act)"
    and "is_tail arg" and "is_word a" and "is_tail b" and "\<not> isspace (hd b)"
  shows "(arity = S1A \<longrightarrow> (\<exists>buf'. parse_line env stack (blit buf 0 (kw @ '' '' @ arg @ [LF, NUL])) st =
            result_of buf' (run_action env stack act (Some arg) None st))) \<and>
         (arity = S2A \<longrightarrow> (\<exists>buf'. parse_line env stack (blit buf 0 (kw @ '' '' @ a @ '' '' @ b @ [LF, NUL])) st =
            result_of buf' (run_action env stack act (Some a) (Some b) st)))"
proof -
  have bl: "blit buf 0 (kw @ '' '' @ s @ [LF, NUL]) = kw @ CHR '' '' # s @ LF # NUL # drop (length (kw @ '' '' @ s @ [LF, NUL])) buf" for s
    by (simp add: blit_def)
  have bl2: "blit buf 0 (kw @ '' '' @ a @ '' '' @ b @ [LF, NUL]) = blit buf 0 (kw @ '' '' @ (a @ CHR '' '' # b) @ [LF, NUL])" by simp
  show ?thesis
    unfolding bl2 bl using parse_line_one [OF assms(1,2,4)] parse_line_two [OF assms(1,2,5,6,7)] assms(3) by blast
qed

definition example_settings :: settings where
  "example_settings = \<lparr>ints = (\<lambda>v. 0), strs = (\<lambda>v. None), server_uid = 0, server_gid = 0, default_timeout = 0, tables = example_server\<rparr>"

definition example_env :: environment where
  "example_env = \<lparr>env_uid = 0, env_user = (\<lambda>u. None), env_group = (\<lambda>g. None),
     env_file = [''boa.conf'' \<mapsto> ''DefaultType text/plain'' @ [LF]], env_hostname = Some ''localhost'',
     env_tmp = None, env_rlimit = Some 256\<rparr>"

lemma example_keywords:
  "lookup_keyword False ''Alias'' = Some (''Alias'', S2A, C_add_alias ALIAS)"
  "lookup_keyword False ''port'' = Some (''Port'', S1A, C_set_int V_server_port)"
  "is_word ''Alias''" "is_word ''port''" "is_word ''/a''" "is_tail ''/b''" "is_tail ''80''" "\<not> isspace CHR ''/''"
  by code_simp+

theorem directive_arguments_witness:
  "\<exists>buf'. parse_line example_env [] (blit ''left over text'' 0 (''Alias'' @ '' '' @ ''/a'' @ '' '' @ ''/b'' @ [LF, NUL])) example_settings =
     result_of buf' (run_action example_env [] (C_add_alias ALIAS) (Some ''/a'') (Some ''/b'') example_settings)"
proof -
  have l: "lookup_keyword (build_strip (tables example_settings)) ''Alias'' = Some (''Alias'', S2A, C_add_alias ALIAS)"
    using example_keywords(1) by (simp add: example_settings_def example_server_def)
  have h: "hd ''Alias'' \<noteq> CHR ''#''" "\<not> isspace (hd ''/b'')" using example_keywords(8) by simp_all
  show ?thesis
    using directive_arguments [OF example_keywords(3) h(1) l example_keywords(7,5,6) h(2)] by blast
qed

lemma decimal_is_tail: "is_tail (decimal n)"
proof -
  have "isdigit (last (decimal n))" using decimal_digits [of n] by (auto simp: list_all_iff)
  moreover have "NUL \<notin> set (decimal n)" using is_cstr_decimal [of n] by (simp add: is_cstr_def)
  ultimately show ?thesis by (simp add: is_tail_def)
qed

text \<open>Numbers round-trip: a directive that sets a number, written with the decimal form of a number below \<open>2 ^ 31\<close>,
  sets its variable to that number and changes no other setting.
\<close>

theorem int_directive_roundtrip:
  assumes "is_word kw" and "hd kw \<noteq> CHR ''#''" and "lookup_keyword (build_strip (tables st)) kw = Some (name, S1A, C_set_int t)"
    and "n < 2 ^ 31"
  shows "\<exists>buf'. parse_line env stack (blit buf 0 (kw @ '' '' @ decimal n @ [LF, NUL])) st =
     Inr (buf', st\<lparr>ints := (ints st)(t := int n)\<rparr>)"
proof -
  have bl: "blit buf 0 (kw @ '' '' @ decimal n @ [LF, NUL]) =
      kw @ CHR '' '' # decimal n @ LF # NUL # drop (length (kw @ '' '' @ decimal n @ [LF, NUL])) buf"
    by (simp add: blit_def)
  have "int32 (int n) = int n" using assms(4) sint_word_of_small [of "int n"] by (simp add: int32_def)
  moreover have "strtol_auto (decimal n) = (int n, [])" using assms(4) by (intro strtol_decimal) simp
  ultimately have "run_action env stack (C_set_int t) (Some (decimal n)) None st = Inr (st\<lparr>ints := (ints st)(t := int n)\<rparr>)"
    by (simp add: run_action_def c_set_int_def)
  then show ?thesis
    unfolding bl parse_line_one [OF assms(1,2) decimal_is_tail assms(3)] by (simp add: result_of_def)
qed

theorem int_directive_roundtrip_witness:
  "\<exists>buf' st'. parse_line example_env [] (blit [] 0 (''port'' @ '' '' @ decimal 8080 @ [LF, NUL])) example_settings = Inr (buf', st') \<and>
     ints st' V_server_port = 8080"
proof -
  have l: "lookup_keyword (build_strip (tables example_settings)) ''port'' = Some (''Port'', S1A, C_set_int V_server_port)"
    using example_keywords(2) by (simp add: example_settings_def example_server_def)
  have h: "hd ''port'' \<noteq> CHR ''#''" "8080 < (2::nat) ^ 31" by simp_all
  from int_directive_roundtrip [OF example_keywords(4) h(1) l h(2)] obtain buf'
    where "parse_line example_env [] (blit [] 0 (''port'' @ '' '' @ decimal 8080 @ [LF, NUL])) example_settings =
      Inr (buf', example_settings\<lparr>ints := (ints example_settings)(V_server_port := int 8080)\<rparr>)" by blast
  moreover have "ints (example_settings\<lparr>ints := (ints example_settings)(V_server_port := int 8080)\<rparr>) V_server_port = 8080" by simp
  ultimately show ?thesis by blast
qed

lemma check_settings_ok:
  assumes "check_settings env st = Inr st'"
  obtains s m ka where "st' = s\<lparr>ints := (ints s)(V_max_connections := m, V_ka_timeout := ka), default_timeout := (if ka \<noteq> 0 then ka else REQUEST_TIMEOUT)\<rparr>"
    and "s = (if strs st V_default_vhost = None then st\<lparr>strs := (strs st)(V_default_vhost := Some DEFAULT_VHOST)\<rparr> else st)"
    and "0 \<le> m" "m \<le> int FD_SETSIZE - 20" "0 \<le> ka" "0 \<le> ints st V_single_post_limit"
    and "strs st V_vhost_root \<noteq> None \<Longrightarrow> ints st V_virtualhost = 0 \<and> strs st V_document_root = None" "strs s V_default_type \<noteq> None"
proof -
  define s where "s = (if strs st V_default_vhost = None then st\<lparr>strs := (strs st)(V_default_vhost := Some DEFAULT_VHOST)\<rparr> else st)"
  define lim where "lim = (if ints s V_max_connections mod 2 ^ 32 < 1 then map_option uint (env_rlimit env)
      else Some (ints s V_max_connections mod 2 ^ 32))"
  define ka where "ka = (if ints s V_ka_timeout < 0 then 0 else ints s V_ka_timeout)"
  note c = assms [unfolded check_settings_def, folded s_def, unfolded Let_def, folded lim_def ka_def]
  have g: "\<not> ints st V_single_post_limit < 0" "\<not> (strs st V_vhost_root \<noteq> None \<and> ints st V_virtualhost \<noteq> 0)"
    "\<not> (strs st V_vhost_root \<noteq> None \<and> strs st V_document_root \<noteq> None)"
    using c by (simp_all split: if_splits)
  note c = c [unfolded if_not_P [OF g(1)] if_not_P [OF g(2)] if_not_P [OF g(3)]]
  obtain n where n: "lim = Some n" using c by (cases lim) auto
  define m where "m = (if n > int FD_SETSIZE - 20 then int FD_SETSIZE - 20 else n)"
  note c = c [unfolded n option.case, folded m_def]
  have "0 \<le> n" using n by (auto simp: lim_def split: if_splits)
  then have m: "0 \<le> m" "m \<le> int FD_SETSIZE - 20" by (simp_all add: m_def FD_SETSIZE_def)
  have k: "0 \<le> ka" by (simp add: ka_def)
  have r: "st' = s\<lparr>ints := (ints s)(V_max_connections := m, V_ka_timeout := ka), default_timeout := (if ka \<noteq> 0 then ka else REQUEST_TIMEOUT)\<rparr>"
    "strs s V_default_type \<noteq> None"
    using c by (simp_all split: if_splits)
  from g have "0 \<le> ints st V_single_post_limit" "strs st V_vhost_root \<noteq> None \<Longrightarrow> ints st V_virtualhost = 0 \<and> strs st V_document_root = None"
    by auto
  from that [OF r(1) s_def m k this r(2)] show ?thesis .
qed

lemma max_connections_bounded:
  assumes "read_config_files env file stack st = Inr st'"
  shows "max_connections (configured st') \<le> FD_SETSIZE - 20"
proof -
  obtain st1 where "check_settings env st1 = Inr st'"
    using assms by (auto simp: read_config_files_def Let_def split: option.splits sum.splits)
  then show ?thesis by (rule check_settings_ok) (simp add: configured_def FD_SETSIZE_def nat_le_iff)
qed

text \<open>What the checks start from: a server name is there, and the directory for temporary files is chosen.\<close>

definition temp_directory :: "environment \<Rightarrow> string" where
  "temp_directory env = (case env_tmp env of Some t \<Rightarrow> t | None \<Rightarrow> ''/tmp'')"

lemma read_config_checked:
  assumes "read_config_files env config_file_name stack st = Inr st'"
  obtains st1 where "check_settings env st1 = Inr st'" "strs st1 V_server_name \<noteq> None" "tempdir (tables st1) = temp_directory env"
  using assms
  by (auto simp: read_config_files_def Let_def temp_directory_def split: option.splits sum.splits prod.splits if_splits)


lemma example_file:
  "fgets 1024 (''DefaultType text/plain'' @ [LF]) = Some (''DefaultType'' @ CHR '' '' # ''text/plain'' @ [LF], [])"
  "fgets 1024 [] = None"
  "lookup_keyword False ''DefaultType'' = Some (''DefaultType'', S1A, C_set_string V_default_type)"
  "is_word ''DefaultType''" "is_tail ''text/plain''"
  by code_simp+

lemma example_read:
  assumes "tables st = example_server" and "ints st = (\<lambda>v. 0)" and "strs st V_vhost_root = None"
  shows "\<exists>st'. read_config_files example_env ''boa.conf'' [] st = Inr st' \<and>
    alloc_script (tables st') = [] \<and> sys_script (tables st') = [] \<and> \<not> build_strip (tables st') \<and>
    (\<forall>v \<in> {V_cgi_log_name, V_error_log_name, V_access_log_name, V_server_ip}. strs st' v = strs st v) \<and> server_uid st' = server_uid st \<and> server_gid st' = server_gid st"
proof -
  let ?st = "st\<lparr>tables := access_init example_server\<rparr>"
  let ?st1 = "?st\<lparr>strs := (strs st)(V_default_type := Some ''text/plain'')\<rparr>"
  have l: "lookup_keyword (build_strip (tables ?st)) ''DefaultType'' = Some (''DefaultType'', S1A, C_set_string V_default_type)"
    using example_file(3) by (simp add: access_init_def example_server_def)
  have b: "blit [] 0 ((''DefaultType'' @ CHR '' '' # ''text/plain'' @ [LF]) @ [NUL]) = ''DefaultType'' @ CHR '' '' # ''text/plain'' @ LF # NUL # []"
    by (simp add: blit_def)
  have h: "hd ''DefaultType'' \<noteq> CHR ''#''" by simp
  have al: "alloc_script (access_init example_server) = []" "sys_script (access_init example_server) = []" "\<not> build_strip (access_init example_server)"
    by (simp_all add: access_init_def example_server_def)
  then have t: "try_alloc (access_init example_server) = (True, access_init example_server)" by (simp add: try_alloc_def)
  have r: "run_action example_env [] (C_set_string V_default_type) (Some ''text/plain'') None ?st = Inr ?st1"
    by (simp add: run_action_def c_set_string_def t)
  have p: "parse example_env [] (''DefaultType text/plain'' @ [LF]) [] ?st = Inr ?st1"
    unfolding parse.simps [of _ _ "''DefaultType text/plain'' @ [LF]"] example_file(1) option.case prod.case b
      parse_line_one [OF example_file(4) h example_file(5) l] r result_of_def sum.case
    unfolding parse.simps [of _ _ "[]"] example_file(2) by simp
  have "build_access_control (tables st)" using assms(1) by (simp add: example_server_def)
  moreover have "env_file example_env ''boa.conf'' = Some (''DefaultType text/plain'' @ [LF])"
    "env_hostname example_env = Some ''localhost''" by (simp_all add: example_env_def)
  ultimately show ?thesis
    using p t assms al by (simp add: read_config_files_def check_settings_def Let_def example_env_def)
qed

lemma example_accepted: "\<exists>st'. read_config_files example_env ''boa.conf'' [] example_settings = Inr st'"
  using example_read [of example_settings] by (auto simp: example_settings_def)


text \<open>The scan behind a name does not stop at the terminator: a name without argument, in an array without white space, leads out of the array.\<close>

lemma no_argument_overruns:
  assumes "is_word kw" and "hd kw \<noteq> CHR ''#''" and "list_all (\<lambda>c. \<not> isspace c) xs"
  shows "parse_line env stack (kw @ LF # NUL # xs) st = Inl Overrun"
proof -
  obtain k ks where kw: "kw = k # ks" "\<not> isspace k" "k \<noteq> NUL" "k \<noteq> CHR ''#''" using assms(1,2) by (cases kw) (auto simp: is_word_def)
  have k: "k \<noteq> LF" using kw(2) by auto
  have nk: "NUL \<notin> set (kw @ [LF])" "list_all (\<lambda>c. \<not> isspace c) kw" using assms(1) by (auto simp: is_word_def list_all_iff)
  have c: "cstr (kw @ LF # NUL # xs) = kw @ [LF]" using cstr_terminated [OF nk(1), of xs] by simp
  have "takeWhile isspace (rev (tl (kw @ [LF]))) = [LF]"
  proof (cases ks rule: rev_cases)
    case (snoc ys y)
    then show ?thesis using nk(2) by (simp add: kw(1))
  qed (simp add: kw(1))
  then have t: "trim (kw @ LF # NUL # xs) = kw @ NUL # NUL # xs" by (simp add: trim_def c Let_def blit_def)
  have "scan_space (kw @ NUL # NUL # xs) 0 = None"
    using nk(2) assms(3) by (simp add: scan_space_def takeWhile_append list_all_iff takeWhile_eq_all_conv [THEN iffD2])
  moreover have "char_at (kw @ ys) 0 = k" for ys by (simp add: char_at_def kw(1))
  ultimately show ?thesis unfolding parse_line_def Let_def t using kw k by simp
qed

text \<open>A line of white space ends the process.\<close>

lemma blank_line_exits: "parse_line env stack ('' '' @ [LF, NUL]) st = Inl Exit"
proof -
  have "trim ('' '' @ [LF, NUL]) = '' '' @ [NUL, NUL]" by code_simp
  moreover have "scan_space ('' '' @ [NUL, NUL]) 0 = Some 0" by code_simp
  moreover have "lookup_keyword strip [] = None" for strip by (simp add: lookup_keyword_def clist_def strcaseeq_def)
  moreover have "cstr [NUL, NUL, NUL] = []" by code_simp
  ultimately show ?thesis by (cases "build_strip (tables st)") (simp_all add: parse_line_def Let_def char_at_def)
qed

end
