(* ===== verification/Process.thy ===== *)
theory Process
  imports Request
begin

text \<open>
  The server as a process of the operating system: its table of descriptors, the actions it has installed for signals, the calls that
  change them, and what a program it starts gets of them. On top of these calls are the address of the server (\<open>ip.c\<close>), the
  destinations of logs (\<open>sublog.c\<close>) and the installation of signal handlers (\<open>signals.c\<close>). An open file has the flags and
  the offset; a descriptor refers to one and has the close-on-exec flag. New descriptors get the lowest free number.
\<close>

section \<open>Addresses\<close>

text \<open>The byte order of the host decides what \<open>htons\<close> and \<open>ntohs\<close> do.\<close>

record sockaddr_in =
  sin_addr :: "32 word"
  sin_port :: "16 word"

definition INADDR_ANY :: "32 word" where "INADDR_ANY = 0"

definition htons :: "bool \<Rightarrow> 16 word \<Rightarrow> 16 word" where
  "htons big_endian n = (if big_endian then n else or (push_bit 8 n) (drop_bit 8 n))"

definition ntohs :: "bool \<Rightarrow> 16 word \<Rightarrow> 16 word" where
  "ntohs big_endian n = (if big_endian then n else or (push_bit 8 n) (drop_bit 8 n))"

text \<open>
  The address to bind. \<open>inet_aton\<close> leaves the structure as it is when the text is no address, and its answer is not
  looked at. The port is cut to 16 bits.
\<close>

definition server_sockaddr :: "bool \<Rightarrow> (string \<Rightarrow> 32 word option) \<Rightarrow> string option \<Rightarrow> 32 word \<Rightarrow> sockaddr_in" where
  "server_sockaddr be aton ip port =
     \<lparr>sin_addr = (case ip of
                   Some a \<Rightarrow> (case aton a of Some x \<Rightarrow> x | None \<Rightarrow> 0)
                 | None \<Rightarrow> INADDR_ANY),
      sin_port = htons be (ucast port)\<rparr>"

definition net_port :: "bool \<Rightarrow> sockaddr_in \<Rightarrow> int" where
  "net_port be s = uint (ntohs be (sin_port s))"

section \<open>Open files and descriptors\<close>

text \<open>What an open file is; numbers tell open files of one kind apart.\<close>

datatype open_file =
    Given nat
  | Dev_null
  | Log_file string
  | Served nat
  | Body nat
  | Pipe_r nat
  | Pipe_w nat
  | Socket nat
  | Log_socket nat

record descriptor =
  d_file :: open_file
  d_cloexec :: bool

type_synonym fd_table = "descriptor option list"

definition fd_get :: "fd_table \<Rightarrow> nat \<Rightarrow> descriptor option" where
  "fd_get t n = (if n < length t then t ! n else None)"

definition fd_put :: "nat \<Rightarrow> descriptor option \<Rightarrow> fd_table \<Rightarrow> fd_table" where
  "fd_put n d t = (if n < length t then t[n := d] else t @ replicate (n - length t) None @ [d])"

definition fd_lowest :: "fd_table \<Rightarrow> nat" where
  "fd_lowest t = length (takeWhile (\<lambda>d. d \<noteq> None) t)"

section \<open>Signals\<close>

datatype sig = SIGSEGV | SIGBUS | SIGTERM | SIGHUP | SIGINT | SIGPIPE | SIGCHLD | SIGALRM | SIGUSR1 | SIGUSR2

datatype disposition = SIG_DFL | SIG_IGN | Handler sig

section \<open>The process\<close>

text \<open>
  \<open>answers\<close> are the outcomes of the calls to come that can fail; when they are used up, calls succeed. \<open>log_programs\<close> are the
  programs that were started to read logs, each with its descriptors and arguments.
\<close>

record process =
  fd_tab :: fd_table
  nonblocking :: "open_file list"
  offset :: "open_file \<Rightarrow> nat"
  bound :: "(open_file \<times> sockaddr_in) list"
  peers :: "(open_file \<times> sockaddr_in) list"
  sigs :: "sig \<Rightarrow> disposition"
  fresh_file :: nat
  log_programs :: "(fd_table \<times> string list) list"
  answers :: "bool list"

definition fds :: "process \<Rightarrow> nat \<Rightarrow> descriptor option" where
  "fds p n = fd_get (fd_tab p) n"

definition answer :: "process \<Rightarrow> bool \<times> process" where
  "answer p = (case answers p of [] \<Rightarrow> (True, p) | b # q \<Rightarrow> (b, p\<lparr>answers := q\<rparr>))"

definition put :: "nat \<Rightarrow> descriptor option \<Rightarrow> process \<Rightarrow> process" where
  "put n d p = p\<lparr>fd_tab := fd_put n d (fd_tab p)\<rparr>"

text \<open>A new descriptor for a file.\<close>

definition install :: "open_file \<Rightarrow> process \<Rightarrow> nat \<times> process" where
  "install f p = (let n = fd_lowest (fd_tab p) in (n, put n (Some \<lparr>d_file = f, d_cloexec = False\<rparr>) p))"

text \<open>\<open>open\<close>, and the calls that make a new file, such as \<open>socket\<close>, \<open>accept\<close> and \<open>mkstemp\<close>: the number of the new descriptor, if
  the call succeeds.\<close>

definition os_open :: "open_file \<Rightarrow> process \<Rightarrow> nat option \<times> process" where
  "os_open f p =
     (case answer p of (ok, p) \<Rightarrow>
        if \<not> ok then (None, p) else (case install f p of (n, p) \<Rightarrow> (Some n, p)))"

definition os_new :: "(nat \<Rightarrow> open_file) \<Rightarrow> process \<Rightarrow> nat option \<times> process" where
  "os_new kind p = os_open (kind (fresh_file p)) (p\<lparr>fresh_file := fresh_file p + 1\<rparr>)"

definition os_pipe :: "process \<Rightarrow> (nat \<times> nat) option \<times> process" where
  "os_pipe p =
     (case answer p of (ok, p) \<Rightarrow>
        if \<not> ok then (None, p)
        else
          (let k = fresh_file p in
           case install (Pipe_r k) (p\<lparr>fresh_file := k + 1\<rparr>) of (r, p) \<Rightarrow>
           case install (Pipe_w k) p of (w, p) \<Rightarrow> (Some (r, w), p)))"

definition os_close :: "nat \<Rightarrow> process \<Rightarrow> process" where
  "os_close n p = put n None p"

text \<open>\<open>dup2\<close> of a descriptor to itself changes nothing; otherwise the copy stays open across \<open>exec\<close>.\<close>

definition os_dup2 :: "nat \<Rightarrow> nat \<Rightarrow> process \<Rightarrow> bool \<times> process" where
  "os_dup2 old new p =
     (case answer p of (ok, p) \<Rightarrow>
        if \<not> ok then (False, p)
        else case fds p old of
          None \<Rightarrow> (False, p)
        | Some d \<Rightarrow> (True, if old = new then p else put new (Some (d\<lparr>d_cloexec := False\<rparr>)) p))"

text \<open>\<open>fcntl (fd, F_SETFD, 1)\<close>.\<close>

definition os_cloexec :: "nat \<Rightarrow> process \<Rightarrow> bool \<times> process" where
  "os_cloexec n p =
     (case answer p of (ok, p) \<Rightarrow>
        if \<not> ok then (False, p)
        else case fds p n of None \<Rightarrow> (False, p) | Some d \<Rightarrow> (True, put n (Some (d\<lparr>d_cloexec := True\<rparr>)) p))"

text \<open>\<open>fcntl (fd, F_SETFL, ...)\<close>: the flags belong to the open file.\<close>

definition set_nonblock_fd :: "nat \<Rightarrow> process \<Rightarrow> bool \<times> process" where
  "set_nonblock_fd n p =
     (case answer p of (ok, p) \<Rightarrow>
        if \<not> ok then (False, p)
        else case fds p n of None \<Rightarrow> (False, p) | Some d \<Rightarrow> (True, p\<lparr>nonblocking := d_file d # nonblocking p\<rparr>))"

definition set_block_fd :: "nat \<Rightarrow> process \<Rightarrow> bool \<times> process" where
  "set_block_fd n p =
     (case answer p of (ok, p) \<Rightarrow>
        if \<not> ok then (False, p)
        else case fds p n of None \<Rightarrow> (False, p) | Some d \<Rightarrow> (True, p\<lparr>nonblocking := removeAll (d_file d) (nonblocking p)\<rparr>))"

definition os_bind :: "nat \<Rightarrow> sockaddr_in \<Rightarrow> process \<Rightarrow> bool \<times> process" where
  "os_bind n sa p =
     (case answer p of (ok, p) \<Rightarrow>
        if \<not> ok then (False, p)
        else case fds p n of None \<Rightarrow> (False, p) | Some d \<Rightarrow> (True, p\<lparr>bound := (d_file d, sa) # bound p\<rparr>))"

definition os_connect :: "nat \<Rightarrow> sockaddr_in \<Rightarrow> process \<Rightarrow> bool \<times> process" where
  "os_connect n sa p =
     (case answer p of (ok, p) \<Rightarrow>
        if \<not> ok then (False, p)
        else case fds p n of None \<Rightarrow> (False, p) | Some d \<Rightarrow> (True, p\<lparr>peers := (d_file d, sa) # peers p\<rparr>))"

definition os_lseek :: "nat \<Rightarrow> nat \<Rightarrow> process \<Rightarrow> process" where
  "os_lseek n pos p = (case fds p n of None \<Rightarrow> p | Some d \<Rightarrow> p\<lparr>offset := (offset p)(d_file d := pos)\<rparr>)"

text \<open>What is left of a process when it executes another program.\<close>

definition exec_sig :: "disposition \<Rightarrow> disposition" where
  "exec_sig a = (case a of Handler h \<Rightarrow> SIG_DFL | _ \<Rightarrow> a)"

definition os_exec :: "process \<Rightarrow> process" where
  "os_exec p =
     p\<lparr>fd_tab := map (\<lambda>d. case d of Some x \<Rightarrow> if d_cloexec x then None else Some x | None \<Rightarrow> None) (fd_tab p),
       sigs := exec_sig \<circ> sigs p\<rparr>"

section \<open>Installing signal handlers\<close>

definition sigaction :: "sig \<Rightarrow> disposition \<Rightarrow> process \<Rightarrow> process" where
  "sigaction s a p = p\<lparr>sigs := (sigs p)(s := a)\<rparr>"

definition init_signals :: "process \<Rightarrow> process" where
  "init_signals p =
     (let p = sigaction SIGSEGV (Handler SIGSEGV) p;
          p = sigaction SIGBUS (Handler SIGBUS) p;
          p = sigaction SIGTERM (Handler SIGTERM) p;
          p = sigaction SIGHUP (Handler SIGHUP) p;
          p = sigaction SIGINT (Handler SIGINT) p;
          p = sigaction SIGPIPE SIG_IGN p;
          p = sigaction SIGCHLD (Handler SIGCHLD) p;
          p = sigaction SIGALRM (Handler SIGALRM) p;
          p = sigaction SIGUSR1 SIG_IGN p
      in sigaction SIGUSR2 SIG_IGN p)"

definition reset_signals :: "process \<Rightarrow> process" where
  "reset_signals p =
     (let p = sigaction SIGSEGV SIG_DFL p;
          p = sigaction SIGBUS SIG_DFL p;
          p = sigaction SIGTERM SIG_DFL p;
          p = sigaction SIGHUP SIG_DFL p;
          p = sigaction SIGINT SIG_DFL p;
          p = sigaction SIGPIPE SIG_DFL p;
          p = sigaction SIGCHLD SIG_DFL p;
          p = sigaction SIGALRM SIG_DFL p;
          p = sigaction SIGUSR1 SIG_DFL p
      in sigaction SIGUSR2 SIG_DFL p)"

section \<open>Destinations of logs\<close>

text \<open>A program that reads a log, if it could be started, and the descriptor to write to.\<close>

definition open_pipe_fd :: "string \<Rightarrow> process \<Rightarrow> nat option \<times> process" where
  "open_pipe_fd command p =
     (case os_pipe p of
        (None, p) \<Rightarrow> (None, p)
      | (Some (r, w), p) \<Rightarrow>
          (case answer p of (forked, p) \<Rightarrow>
             let child = (let c = os_close w p in if r \<noteq> 0 then os_close r (snd (os_dup2 r 0 c)) else c);
                 p = os_close r p
             in if forked
                then (Some w, p\<lparr>log_programs := (fd_tab (os_exec child), [''sh'', ''-c'', command]) # log_programs p\<rparr>)
                else (None, os_close w p)))"

text \<open>
  A log over the network: the part before the colon is the host, the part after it the port in decimal. \<open>gethostbyname\<close> answers with
  the address. When the connection fails the socket stays open. The code writes a terminator over the colon of the text it was given, so the configured name ends there afterwards.
\<close>

record network =
  big_endian :: bool
  inet_aton :: "string \<Rightarrow> 32 word option"
  gethostbyname :: "string \<Rightarrow> 32 word option"

definition strtol_decimal :: "string \<Rightarrow> int" where
  "strtol_decimal s =
     (let t = dropWhile isspace s;
          u = (if t \<noteq> [] \<and> hd t \<in> {CHR ''-'', CHR ''+''} then tl t else t);
          n = foldl (\<lambda>n c. n * 10 + (int (uchar c) - 48)) 0 (takeWhile isdigit u)
      in max (- (2 ^ 63)) (min (2 ^ 63 - 1) (if t \<noteq> [] \<and> hd t = CHR ''-'' then - n else n)))"

definition net_spec :: "string \<Rightarrow> (string \<times> string) option" where
  "net_spec spec =
     (case strchr spec (CHR '':'') of
        None \<Rightarrow> None
      | Some k \<Rightarrow> Some (take k spec, drop (Suc k) spec))"

definition open_net_fd :: "network \<Rightarrow> string \<Rightarrow> process \<Rightarrow> nat option \<times> string \<times> process" where
  "open_net_fd net spec p =
     (case net_spec spec of
        None \<Rightarrow> (None, spec, p)
      | Some (hostname, port) \<Rightarrow>
          (case gethostbyname net hostname of
             None \<Rightarrow> (None, hostname, p)
           | Some addr \<Rightarrow>
               (let sa = \<lparr>sin_addr = addr, sin_port = htons (big_endian net) (word_of_int (strtol_decimal port))\<rparr> in
                case os_new Log_socket p of
                  (None, p) \<Rightarrow> (None, hostname, p)
                | (Some n, p) \<Rightarrow>
                    (case os_connect n sa p of (connected, p) \<Rightarrow> (if connected then Some n else None, hostname, p)))))"

text \<open>The descriptor, what is left of the name, and the process.\<close>

definition open_gen_fd :: "network \<Rightarrow> string \<Rightarrow> process \<Rightarrow> nat option \<times> string \<times> process" where
  "open_gen_fd net spec p =
     (if char_at spec 0 = CHR ''|'' then (case open_pipe_fd (drop 1 spec) p of (n, p) \<Rightarrow> (n, spec, p))
      else if char_at spec 0 = CHR '':'' then
        (case open_net_fd net (drop 1 spec) p of (n, name, p) \<Rightarrow> (n, CHR '':'' # name, p))
      else (case os_open (Log_file spec) p of (n, p) \<Rightarrow> (n, spec, p)))"

text \<open>The socket of the server gets its address.\<close>

definition bind_server :: "network \<Rightarrow> nat \<Rightarrow> string option \<Rightarrow> 32 word \<Rightarrow> process \<Rightarrow> bool \<times> process" where
  "bind_server net s ip port p = os_bind s (server_sockaddr (big_endian net) (inet_aton net) ip port) p"

section \<open>Opening the logs and the socket\<close>

text \<open>
  Standard input, the three logs and the server's socket, as the start of the server sets them up. \<open>None\<close> is the exit of the process. With
  each log comes its name afterwards.
\<close>

definition null_stdin :: "process \<Rightarrow> process option" where
  "null_stdin p =
     (case os_open Dev_null p of
        (None, p) \<Rightarrow> None
      | (Some n, p) \<Rightarrow> (case os_dup2 n 0 p of (ok, p) \<Rightarrow> if \<not> ok then None else Some (os_close n p)))"

definition open_error_log :: "network \<Rightarrow> string option \<Rightarrow> process \<Rightarrow> (string option \<times> process) option" where
  "open_error_log net name p =
     (case name of
        None \<Rightarrow> Some (None, p)
      | Some spec \<Rightarrow>
          (case open_gen_fd net spec p of
             (None, spec, p) \<Rightarrow> None
           | (Some n, spec, p) \<Rightarrow>
               (case os_dup2 n 2 p of (ok, p) \<Rightarrow> if \<not> ok then None else Some (Some spec, os_close n p))))"

definition open_access_log :: "network \<Rightarrow> string option \<Rightarrow> process \<Rightarrow> (string option \<times> process) option" where
  "open_access_log net name p =
     (case (case name of
              Some spec \<Rightarrow> (case open_gen_fd net spec p of (n, spec, p) \<Rightarrow> (n, Some spec, p))
            | None \<Rightarrow> (case os_open Dev_null p of (n, p) \<Rightarrow> (n, None, p))) of
        (None, name, p) \<Rightarrow> None
      | (Some n, name, p) \<Rightarrow>
          (case os_dup2 n 1 p of (ok, p) \<Rightarrow>
             if \<not> ok then None
             else case os_cloexec n p of (ok, p) \<Rightarrow> if \<not> ok then None else Some (name, os_close n p)))"

text \<open>The log of CGI programs is given up when it cannot be opened; then its name is forgotten and its descriptor is 0.\<close>

definition open_cgi_log :: "network \<Rightarrow> string option \<Rightarrow> process \<Rightarrow> nat \<times> string option \<times> process" where
  "open_cgi_log net name p =
     (case name of
        None \<Rightarrow> (0, None, p)
      | Some spec \<Rightarrow>
          (case open_gen_fd net spec p of
             (None, spec, p) \<Rightarrow> (0, None, p)
           | (Some n, spec, p) \<Rightarrow>
               (case os_cloexec n p of (ok, p) \<Rightarrow> if \<not> ok then (0, None, os_close n p) else (n, Some spec, p))))"

text \<open>\<open>setsockopt\<close> and \<open>listen\<close> do not change what is modelled of the process.\<close>

definition server_socket :: "network \<Rightarrow> string option \<Rightarrow> 32 word \<Rightarrow> process \<Rightarrow> (nat \<times> process) option" where
  "server_socket net ip port p =
     (case os_new Socket p of
        (None, p) \<Rightarrow> None
      | (Some s, p) \<Rightarrow>
          (case set_nonblock_fd s p of (ok, p) \<Rightarrow>
             if \<not> ok then None
             else case os_cloexec s p of (ok, p) \<Rightarrow>
               if \<not> ok then None
               else case answer p of (ok, p) \<Rightarrow>
                 if \<not> ok then None
                 else case bind_server net s ip port p of (ok, p) \<Rightarrow>
                   if \<not> ok then None
                   else case answer p of (ok, p) \<Rightarrow> if \<not> ok then None else Some (s, p)))"

section \<open>Tables of descriptors\<close>

text \<open>What a client of the table relies on.\<close>

locale descriptor_table =
  fixes get :: "'t \<Rightarrow> nat \<Rightarrow> 'd option"
    and put_at :: "nat \<Rightarrow> 'd option \<Rightarrow> 't \<Rightarrow> 't"
    and lowest :: "'t \<Rightarrow> nat"
  assumes get_put: "get (put_at n d t) m = (if m = n then d else get t m)"
    and lowest_free: "get t (lowest t) = None"
    and lowest_least: "m < lowest t \<Longrightarrow> get t m \<noteq> None"
begin

lemma lowest_above:
  assumes "\<forall>m<k. get t m \<noteq> None"
  shows "k \<le> lowest t"
  using assms lowest_free [of t] by (meson not_le)

lemma put_at_lowest:
  "get (put_at (lowest t) (Some d) t) = (get t)(lowest t \<mapsto> d)"
  by (rule ext) (simp add: get_put)

lemma lowest_least_iff: "lowest t = n \<longleftrightarrow> get t n = None \<and> (\<forall>m<n. get t m \<noteq> None)"
  using lowest_free [of t] lowest_least [of _ t] by (metis linorder_neqE_nat)

end

interpretation fd_table: descriptor_table fd_get fd_put fd_lowest
proof
  fix n m d t
  show "fd_get (fd_put n d t) m = (if m = n then d else fd_get t m)"
    by (auto simp: fd_get_def fd_put_def nth_append nth_Cons split: nat.split)
next
  fix t :: fd_table
  show "fd_get t (fd_lowest t) = None"
    using nth_length_takeWhile [of "\<lambda>d. d \<noteq> None" t] by (auto simp: fd_get_def fd_lowest_def)
next
  fix m and t :: fd_table
  assume m: "m < fd_lowest t"
  then have "takeWhile (\<lambda>d. d \<noteq> None) t ! m \<noteq> None"
    unfolding fd_lowest_def using set_takeWhileD [OF nth_mem] by fast
  moreover have "m < length t" using m length_takeWhile_le [of _ t] by (simp add: fd_lowest_def less_le_trans)
  ultimately show "fd_get t m \<noteq> None" using m by (simp add: fd_get_def fd_lowest_def takeWhile_nth)
qed

section \<open>What the calls do\<close>

lemma process_fds_simps [simp]:
  "fds (p\<lparr>nonblocking := x1\<rparr>) = fds p" "fds (p\<lparr>offset := x2\<rparr>) = fds p" "fds (p\<lparr>bound := x3\<rparr>) = fds p"
  "fds (p\<lparr>peers := x4\<rparr>) = fds p" "fds (p\<lparr>sigs := x5\<rparr>) = fds p" "fds (p\<lparr>fresh_file := x6\<rparr>) = fds p"
  "fds (p\<lparr>answers := x7\<rparr>) = fds p" "fds (p\<lparr>log_programs := x8\<rparr>) = fds p"
  by (simp_all add: fds_def fun_eq_iff)

lemma fds_put [simp]: "fds (put n d p) = (fds p)(n := d)"
  by (rule ext) (simp add: fds_def put_def fd_table.get_put)

lemma put_fields [simp]:
  "nonblocking (put n d p) = nonblocking p" "offset (put n d p) = offset p" "bound (put n d p) = bound p"
  "peers (put n d p) = peers p" "sigs (put n d p) = sigs p" "fresh_file (put n d p) = fresh_file p" "answers (put n d p) = answers p"
  "log_programs (put n d p) = log_programs p"
  by (simp_all add: put_def)

lemma close_fields [simp]:
  "nonblocking (os_close n p) = nonblocking p" "offset (os_close n p) = offset p" "bound (os_close n p) = bound p"
  "peers (os_close n p) = peers p" "sigs (os_close n p) = sigs p" "answers (os_close n p) = answers p"
  "log_programs (os_close n p) = log_programs p"
  by (simp_all add: os_close_def)

text \<open>The rest of the state, which most calls leave alone.\<close>

definition rest :: "process \<Rightarrow> open_file list \<times> (open_file \<Rightarrow> nat) \<times> (open_file \<times> sockaddr_in) list \<times> (open_file \<times> sockaddr_in) list \<times> (sig \<Rightarrow> disposition)
    \<times> (fd_table \<times> string list) list" where
  "rest p = (nonblocking p, offset p, bound p, peers p, sigs p, log_programs p)"

lemma rest_simps [simp]:
  "rest (p\<lparr>fresh_file := x1\<rparr>) = rest p" "rest (p\<lparr>answers := x2\<rparr>) = rest p" "rest (put n d p) = rest p" "rest (os_close n p) = rest p"
  by (simp_all add: rest_def os_close_def)

lemma answer_frame: "answer p = (ok, p') \<Longrightarrow> fds p' = fds p \<and> rest p' = rest p \<and> fresh_file p' = fresh_file p"
  by (auto simp: answer_def split: list.splits)

lemma answer_ok: "answers p = [] \<Longrightarrow> answer p = (True, p)"
  by (simp add: answer_def)

lemma install_result:
  assumes "install f p = (n, p')"
  shows "fds p n = None" "\<forall>m<n. fds p m \<noteq> None" "p' = put n (Some \<lparr>d_file = f, d_cloexec = False\<rparr>) p"
  using assms fd_table.lowest_free fd_table.lowest_least by (auto simp: install_def fds_def Let_def)


lemma fds_close [simp]: "fds (os_close n p) = (fds p)(n := None)"
  by (simp add: os_close_def)

text \<open>A call that yields a new descriptor.\<close>

definition opened :: "nat \<Rightarrow> open_file \<Rightarrow> process \<Rightarrow> process \<Rightarrow> bool" where
  "opened n f p p' \<longleftrightarrow>
     fds p n = None \<and> (\<forall>m<n. fds p m \<noteq> None) \<and> fds p' = (fds p)(n \<mapsto> \<lparr>d_file = f, d_cloexec = False\<rparr>) \<and> rest p' = rest p"

lemma os_open_result:
  assumes "os_open f p = (r, p')"
  shows "case r of None \<Rightarrow> fds p' = fds p \<and> rest p' = rest p | Some n \<Rightarrow> opened n f p p'"
proof -
  obtain ok q where a: "answer p = (ok, q)" by fastforce
  obtain n q' where i: "install f q = (n, q')" by fastforce
  show ?thesis
    using assms answer_frame [OF a] install_result [OF i] by (auto simp: os_open_def opened_def a i split: if_splits)
qed

lemma os_new_result:
  assumes "os_new kind p = (r, p')"
  shows "case r of None \<Rightarrow> fds p' = fds p \<and> rest p' = rest p | Some n \<Rightarrow> opened n (kind (fresh_file p)) p p'"
  using os_open_result [OF assms [unfolded os_new_def]] by (simp add: opened_def split: option.splits)

lemma os_pipe_result:
  assumes "os_pipe p = (res, p')"
  shows "case res of
      None \<Rightarrow> fds p' = fds p \<and> rest p' = rest p
    | Some (r, w) \<Rightarrow> fds p r = None \<and> fds p w = None \<and> r \<noteq> w \<and> (\<forall>m<r. fds p m \<noteq> None) \<and> r < w \<and>
        fds p' = (fds p)(r \<mapsto> \<lparr>d_file = Pipe_r (fresh_file p), d_cloexec = False\<rparr>, w \<mapsto> \<lparr>d_file = Pipe_w (fresh_file p), d_cloexec = False\<rparr>) \<and>
        rest p' = rest p"
proof -
  obtain ok q where a: "answer p = (ok, q)" by fastforce
  obtain r q1 where i: "install (Pipe_r (fresh_file q)) (q\<lparr>fresh_file := fresh_file q + 1\<rparr>) = (r, q1)" by fastforce
  obtain w q2 where j: "install (Pipe_w (fresh_file q)) q1 = (w, q2)" by fastforce
  note I = install_result [OF i] install_result [OF j]
  have "r < w" using I by (metis fds_put fun_upd_apply linorder_neqE_nat option.distinct(1) process_fds_simps(6))
  moreover have "(res, p') = (if ok then (Some (r, w), q2) else (None, q))"
    using assms by (cases ok) (simp_all add: os_pipe_def a i [simplified] j Let_def)
  ultimately show ?thesis using answer_frame [OF a] I by (auto split: if_splits)
qed

lemma os_dup2_result:
  assumes "os_dup2 old new p = (ok, p')"
  shows "rest p' = rest p"
    and "\<not> ok \<Longrightarrow> fds p' = fds p"
    and "ok \<Longrightarrow> \<exists>d. fds p old = Some d \<and> fds p' = (if old = new then fds p else (fds p)(new \<mapsto> d\<lparr>d_cloexec := False\<rparr>))"
proof -
  obtain b q where a: "answer p = (b, q)" by fastforce
  show "rest p' = rest p" "\<not> ok \<Longrightarrow> fds p' = fds p"
    "ok \<Longrightarrow> \<exists>d. fds p old = Some d \<and> fds p' = (if old = new then fds p else (fds p)(new \<mapsto> d\<lparr>d_cloexec := False\<rparr>))"
    using assms answer_frame [OF a] by (auto simp: os_dup2_def a split: if_splits option.splits)
qed

lemma os_cloexec_result:
  assumes "os_cloexec n p = (ok, p')"
  shows "rest p' = rest p"
    and "\<not> ok \<Longrightarrow> fds p' = fds p"
    and "ok \<Longrightarrow> \<exists>d. fds p n = Some d \<and> fds p' = (fds p)(n \<mapsto> d\<lparr>d_cloexec := True\<rparr>)"
proof -
  obtain b q where a: "answer p = (b, q)" by fastforce
  show "rest p' = rest p" "\<not> ok \<Longrightarrow> fds p' = fds p" "ok \<Longrightarrow> \<exists>d. fds p n = Some d \<and> fds p' = (fds p)(n \<mapsto> d\<lparr>d_cloexec := True\<rparr>)"
    using assms answer_frame [OF a] by (auto simp: os_cloexec_def a split: if_splits option.splits)
qed

text \<open>The calls that change an open file leave the table alone.\<close>

lemma set_nonblock_fd_result:
  assumes "set_nonblock_fd n p = (ok, p')"
  shows "fds p' = fds p" and "sigs p' = sigs p" and "offset p' = offset p" and "bound p' = bound p" and "peers p' = peers p"
    and "ok \<Longrightarrow> \<exists>d. fds p n = Some d \<and> nonblocking p' = d_file d # nonblocking p"
    and "\<not> ok \<Longrightarrow> nonblocking p' = nonblocking p"
proof -
  obtain b q where a: "answer p = (b, q)" by fastforce
  show "fds p' = fds p" "sigs p' = sigs p" "offset p' = offset p" "bound p' = bound p" "peers p' = peers p"
    "ok \<Longrightarrow> \<exists>d. fds p n = Some d \<and> nonblocking p' = d_file d # nonblocking p" "\<not> ok \<Longrightarrow> nonblocking p' = nonblocking p"
    using assms answer_frame [OF a] by (auto simp: set_nonblock_fd_def a rest_def split: if_splits option.splits)
qed

lemma set_block_fd_result:
  assumes "set_block_fd n p = (ok, p')"
  shows "fds p' = fds p" and "sigs p' = sigs p" and "offset p' = offset p" and "bound p' = bound p" and "peers p' = peers p"
    and "ok \<Longrightarrow> \<exists>d. fds p n = Some d \<and> nonblocking p' = removeAll (d_file d) (nonblocking p)"
proof -
  obtain b q where a: "answer p = (b, q)" by fastforce
  show "fds p' = fds p" "sigs p' = sigs p" "offset p' = offset p" "bound p' = bound p" "peers p' = peers p"
    "ok \<Longrightarrow> \<exists>d. fds p n = Some d \<and> nonblocking p' = removeAll (d_file d) (nonblocking p)"
    using assms answer_frame [OF a] by (auto simp: set_block_fd_def a rest_def split: if_splits option.splits)
qed

lemma os_lseek_result [simp]:
  "fds (os_lseek n pos p) = fds p" "sigs (os_lseek n pos p) = sigs p" "nonblocking (os_lseek n pos p) = nonblocking p"
  "answers (os_lseek n pos p) = answers p"
  by (simp_all add: os_lseek_def split: option.split)

lemma fds_exec: "fds (os_exec p) n = (case fds p n of Some d \<Rightarrow> if d_cloexec d then None else Some d | None \<Rightarrow> None)"
  by (simp add: os_exec_def fds_def fd_get_def)

lemma reset_signals_sigs: "sigs (reset_signals p) = (\<lambda>s. SIG_DFL)"
  by (rule ext) (case_tac s; simp add: reset_signals_def sigaction_def Let_def)

lemma reset_signals_frame [simp]:
  "fds (reset_signals p) = fds p" "nonblocking (reset_signals p) = nonblocking p" "offset (reset_signals p) = offset p"
  by (simp_all add: reset_signals_def sigaction_def Let_def)

section \<open>Addresses and destinations of logs\<close>

lemma ntohs_htons: "ntohs be (htons be n) = n"
  by (rule bit_word_eqI) (auto simp: ntohs_def htons_def bit_simps)

text \<open>The client sees the port that was configured, modulo \<open>2 ^ 16\<close>.\<close>

lemma net_port_server_sockaddr: "net_port be (server_sockaddr be aton ip port) = uint port mod 2 ^ 16"
  by (simp add: net_port_def server_sockaddr_def ntohs_htons unsigned_ucast_eq take_bit_eq_mod)

text \<open>A \<open>Listen\<close> line that is no address makes the server listen on every interface.\<close>

lemma bad_address_binds_all: "aton a = None \<Longrightarrow> sin_addr (server_sockaddr be aton (Some a) port) = INADDR_ANY"
  by (simp add: server_sockaddr_def INADDR_ANY_def)

text \<open>
  What a destination means: a file of that name; or, after a bar, a pipe whose other end is the standard input of a shell that runs
  the command; or, after a colon, a connection to the host before the next colon and the port behind it. When a call failed the shell
  may have another standard input.
\<close>

definition goes_to :: "bool \<Rightarrow> network \<Rightarrow> process \<Rightarrow> string \<Rightarrow> open_file \<Rightarrow> bool" where
  "goes_to failed net p spec f \<longleftrightarrow>
     (if char_at spec 0 = CHR ''|'' then
        \<exists>k t. f = Pipe_w k \<and> (t, [''sh'', ''-c'', drop 1 spec]) \<in> set (log_programs p) \<and>
          (failed \<or> map_option d_file (fd_get t 0) = Some (Pipe_r k))
      else if char_at spec 0 = CHR '':'' then
        \<exists>k hostname port a. f = Log_socket k \<and> spec = CHR '':'' # hostname @ CHR '':'' # port \<and> CHR '':'' \<notin> set hostname \<and>
          (f, a) \<in> set (peers p) \<and> gethostbyname net hostname = Some (sin_addr a) \<and>
          ntohs (big_endian net) (sin_port a) = word_of_int (strtol_decimal port)
      else f = Log_file spec)"

lemma goes_to_mono:
  "goes_to b net p spec f \<Longrightarrow> (b \<Longrightarrow> b') \<Longrightarrow> set (peers p) \<subseteq> set (peers p') \<Longrightarrow> set (log_programs p) \<subseteq> set (log_programs p') \<Longrightarrow>
   goes_to b' net p' spec f"
  unfolding goes_to_def by (auto split: if_splits)

text \<open>A destination that can be reached when no call fails.\<close>

definition log_reachable :: "network \<Rightarrow> string \<Rightarrow> bool" where
  "log_reachable net spec \<longleftrightarrow>
     char_at spec 0 = CHR '':'' \<longrightarrow>
     (\<exists>hostname port. spec = CHR '':'' # hostname @ CHR '':'' # port \<and> CHR '':'' \<notin> set hostname \<and> gethostbyname net hostname \<noteq> None)"

text \<open>The only thing that a destination that cannot be opened leaves behind is the socket of a connection that failed.\<close>

definition left_behind :: "string \<Rightarrow> process \<Rightarrow> process \<Rightarrow> bool" where
  "left_behind spec p p' \<longleftrightarrow>
     (\<forall>m. fds p m \<noteq> None \<longrightarrow> fds p' m = fds p m) \<and>
     (\<forall>m d. fds p m = None \<longrightarrow> fds p' m = Some d \<longrightarrow> char_at spec 0 = CHR '':'' \<and> (\<exists>k. d_file d = Log_socket k))"

lemma left_behindD:
  "left_behind spec p p' \<Longrightarrow> fds p m = Some e \<Longrightarrow> fds p' m = Some e"
  "left_behind spec p p' \<Longrightarrow> fds p m = None \<Longrightarrow> fds p' m = Some d \<Longrightarrow> char_at spec 0 = CHR '':'' \<and> (\<exists>k. d_file d = Log_socket k)"
  by (auto simp: left_behind_def)

text \<open>The steps of the start only add peers and programs, and do not run out of answers that they did not have.\<close>

definition adds :: "process \<Rightarrow> process \<Rightarrow> bool" where
  "adds p p' \<longleftrightarrow>
     sigs p' = sigs p \<and> nonblocking p' = nonblocking p \<and> bound p' = bound p \<and>
     set (peers p) \<subseteq> set (peers p') \<and> set (log_programs p) \<subseteq> set (log_programs p') \<and> (answers p = [] \<longrightarrow> answers p' = [])"

lemma adds_refl [simp]: "adds p p"
  by (simp add: adds_def)

lemma adds_trans: "adds p p' \<Longrightarrow> adds p' p'' \<Longrightarrow> adds p p''"
  by (auto simp: adds_def)

lemma adds_rest: "rest p' = rest p \<Longrightarrow> (answers p = [] \<Longrightarrow> answers p' = []) \<Longrightarrow> adds p p'"
  by (simp add: adds_def rest_def)

lemma adds_close [simp]: "adds p (os_close n p)"
  by (simp add: adds_def)

lemma goes_to_adds:
  "goes_to (answers p \<noteq> []) net p1 spec f \<Longrightarrow> adds p1 p2 \<Longrightarrow> adds q p \<Longrightarrow> goes_to (answers q \<noteq> []) net p2 spec f"
  by (erule goes_to_mono) (auto simp: adds_def)

definition log_opened :: "network \<Rightarrow> string \<Rightarrow> nat option \<Rightarrow> process \<Rightarrow> process \<Rightarrow> bool" where
  "log_opened net spec r p p' \<longleftrightarrow>
     adds p p' \<and> (answers p = [] \<and> log_reachable net spec \<longrightarrow> r \<noteq> None) \<and>
     (case r of
        None \<Rightarrow> left_behind spec p p'
      | Some n \<Rightarrow> fds p n = None \<and> (\<exists>f. goes_to (answers p \<noteq> []) net p' spec f \<and> fds p' = (fds p)(n \<mapsto> \<lparr>d_file = f, d_cloexec = False\<rparr>)))"

lemma calls_ok:
  assumes "answers p = []"
  shows "os_open f p = (Some n, p') \<Longrightarrow> answers p' = []" "os_dup2 a b p = (ok, p') \<Longrightarrow> answers p' = []"
    "os_cloexec a p = (ok, p') \<Longrightarrow> answers p' = []" "os_open f p = (None, p') \<Longrightarrow> False" "os_new kind p = (None, p') \<Longrightarrow> False"
    "os_new kind p = (Some n, p') \<Longrightarrow> answers p' = []" "os_pipe p = (None, p') \<Longrightarrow> False" "os_pipe p = (Some rw, p') \<Longrightarrow> answers p' = []"
    "os_dup2 a b p = (False, p') \<Longrightarrow> fds p a = None" "os_cloexec a p = (False, p') \<Longrightarrow> fds p a = None"
    "os_connect a sa p = (ok, p') \<Longrightarrow> answers p' = []" "os_connect a sa p = (False, p') \<Longrightarrow> fds p a = None"
  using assms
  by (auto simp: os_open_def os_new_def os_pipe_def os_dup2_def os_cloexec_def os_connect_def answer_ok install_def Let_def
      split: option.splits if_splits)

lemma log_failed: "adds p p' \<Longrightarrow> fds p' = fds p \<Longrightarrow> \<not> (answers p = [] \<and> log_reachable net spec) \<Longrightarrow> log_opened net spec None p p'"
  by (simp add: log_opened_def left_behind_def)

lemma open_pipe_fd_result:
  assumes "open_pipe_fd (drop 1 spec) p = (r, p')" and "char_at spec 0 = CHR ''|''"
  shows "log_opened net spec r p p'"
proof -
  obtain res q where o: "os_pipe p = (res, q)" by fastforce
  show ?thesis
  proof (cases res)
    case None
    then have "r = None" "p' = q" using assms(1) by (simp_all add: open_pipe_fd_def o)
    then show ?thesis
      using os_pipe_result [OF o] calls_ok(7) [of p q] o None by (auto intro!: log_failed adds_rest)
  next
    case (Some rw)
    obtain rd w where rw: "res = Some (rd, w)" using Some by (cases rw) simp
    obtain ok q' where a: "answer q = (ok, q')" by fastforce
    define c where "c = (if rd \<noteq> 0 then os_close rd (snd (os_dup2 rd 0 (os_close w q'))) else os_close w q')"
    define t where "t = fd_tab (os_exec c)"
    have e: "r = (if ok then Some w else None)"
      "p' = (if ok then (os_close rd q')\<lparr>log_programs := (t, [''sh'', ''-c'', drop 1 spec]) # log_programs q'\<rparr> else os_close w (os_close rd q'))"
      using assms(1) by (auto simp: open_pipe_fd_def o rw a Let_def c_def t_def split: if_splits)
    note R = os_pipe_result [OF o, unfolded rw, simplified] and A = answer_frame [OF a]
    have ans: "answers q' = [] \<and> ok" if "answers p = []"
      using calls_ok(8) [OF that, of _ q] o rw a by (auto simp: answer_ok)
    have rd: "fds q' rd = Some \<lparr>d_file = Pipe_r (fresh_file p), d_cloexec = False\<rparr>" "rd \<noteq> w" using R A by auto
    have stdin: "map_option d_file (fd_get t 0) = Some (Pipe_r (fresh_file p))" if "answers p = []"
    proof -
      have "fds c 0 = Some \<lparr>d_file = Pipe_r (fresh_file p), d_cloexec = False\<rparr>"
        using rd ans [OF that] by (auto simp: c_def os_dup2_def answer_ok os_close_def)
      then have "fds (os_exec c) 0 = Some \<lparr>d_file = Pipe_r (fresh_file p), d_cloexec = False\<rparr>" by (simp add: fds_exec)
      then show ?thesis by (simp add: t_def fds_def)
    qed
    show ?thesis
    proof (cases ok)
      case True
      have "goes_to (answers p \<noteq> []) net p' spec (Pipe_w (fresh_file p))"
        using assms(2) stdin True e(2) by (auto simp: goes_to_def)
      moreover have "fds p' = (fds p)(w \<mapsto> \<lparr>d_file = Pipe_w (fresh_file p), d_cloexec = False\<rparr>)"
        using R A rd(2) True e(2) by (auto simp: fun_eq_iff)
      moreover have "adds p p'" using R A ans True e(2) by (auto simp: adds_def rest_def)
      ultimately show ?thesis using R True e(1) by (auto simp: log_opened_def)
    next
      case False
      have "fds p' = fds p" using R A False e(2) by (auto simp: fun_eq_iff)
      moreover have "adds p p'" using R A ans False e(2) by (auto simp: adds_def rest_def)
      ultimately show ?thesis using False e(1) ans by (auto intro: log_failed)
    qed
  qed
qed

lemma net_spec_Some:
  "net_spec spec = Some (hostname, port) \<longleftrightarrow> spec = hostname @ CHR '':'' # port \<and> CHR '':'' \<notin> set hostname"
proof
  assume "net_spec spec = Some (hostname, port)"
  then obtain k where k: "strchr spec (CHR '':'') = Some k" "hostname = take k spec" "port = drop (Suc k) spec"
    by (auto simp: net_spec_def split: option.splits)
  note S = strchr_Some [OF k(1)]
  have "CHR '':'' \<notin> set hostname" using S k(2) by (auto simp: in_set_conv_nth)
  moreover have "spec = hostname @ CHR '':'' # port" using S k(2,3) by (metis id_take_nth_drop)
  ultimately show "spec = hostname @ CHR '':'' # port \<and> CHR '':'' \<notin> set hostname" by simp
next
  assume "spec = hostname @ CHR '':'' # port \<and> CHR '':'' \<notin> set hostname"
  then show "net_spec spec = Some (hostname, port)" by (simp add: net_spec_def strchr_append)
qed

lemma open_net_fd_result:
  assumes "open_net_fd net (drop 1 spec) p = (r, name, p')" and "char_at spec 0 = CHR '':''"
  shows "log_opened net spec r p p'"
proof -
  have spec: "spec = CHR '':'' # drop 1 spec" using assms(2) by (cases spec) (auto simp: char_at_def)
  show ?thesis
  proof (cases "\<exists>hostname port addr. net_spec (drop 1 spec) = Some (hostname, port) \<and> gethostbyname net hostname = Some addr")
    case False
    then have "r = None" "p' = p" using assms(1) by (auto simp: open_net_fd_def split: option.splits)
    moreover have "\<not> log_reachable net spec"
      using False assms(2) by (force simp: log_reachable_def net_spec_Some)
    ultimately show ?thesis by (simp add: log_failed)
  next
    case True
    then obtain hostname port addr where n: "net_spec (drop 1 spec) = Some (hostname, port)" "gethostbyname net hostname = Some addr" by blast
    define sa where "sa = \<lparr>sin_addr = addr, sin_port = htons (big_endian net) (word_of_int (strtol_decimal port))\<rparr>"
    obtain res q where o: "os_new Log_socket p = (res, q)" by fastforce
    show ?thesis
    proof (cases res)
      case None
      then have "r = None" "p' = q" using assms(1) n by (auto simp: open_net_fd_def o)
      then show ?thesis using os_new_result [OF o] calls_ok(5) [of p Log_socket q] o None by (auto intro!: log_failed adds_rest)
    next
      case (Some m)
      obtain ok q' where c: "os_connect m sa q = (ok, q')" by fastforce
      have e: "r = (if ok then Some m else None)" "p' = q'" using assms(1) n o Some c by (auto simp: open_net_fd_def sa_def Let_def)
      have op: "opened m (Log_socket (fresh_file p)) p q" using os_new_result [OF o] Some by simp
      obtain b q1 where a: "answer q = (b, q1)" by fastforce
      have conn: "fds q' = fds q" "adds q q'" "ok \<Longrightarrow> (Log_socket (fresh_file p), sa) \<in> set (peers q')"
        using c answer_frame [OF a] calls_ok(11) [of q m sa ok q'] op
        by (auto simp: os_connect_def a adds_def rest_def opened_def split: if_splits)
      have ans: "answers p = [] \<Longrightarrow> answers q = [] \<and> ok"
        using calls_ok(6) [of p Log_socket m q] calls_ok(12) [of q m sa q'] o Some c op by (cases ok) (auto simp: opened_def)
      have ad: "adds p q'" using conn(2) op ans by (auto simp: adds_def opened_def rest_def)
      show ?thesis
      proof (cases ok)
        case True
        have "goes_to (answers p \<noteq> []) net q' spec (Log_socket (fresh_file p))"
        proof -
          have "spec = CHR '':'' # hostname @ CHR '':'' # port" "CHR '':'' \<notin> set hostname" using spec n(1) by (simp_all add: net_spec_Some)
          moreover have "gethostbyname net hostname = Some (sin_addr sa)" "ntohs (big_endian net) (sin_port sa) = word_of_int (strtol_decimal port)"
            using n(2) by (simp_all add: sa_def ntohs_htons)
          moreover have "char_at spec 0 \<noteq> CHR ''|''" using assms(2) by simp
          ultimately show ?thesis using conn(3) [OF True] assms(2) unfolding goes_to_def by metis
        qed
        then show ?thesis using e True op conn(1) ad by (auto simp: log_opened_def opened_def)
      next
        case False
        then show ?thesis using e op conn(1) ad ans assms(2) by (auto simp: log_opened_def left_behind_def opened_def)
      qed
    qed
  qed
qed

lemma open_gen_fd_result:
  assumes "open_gen_fd net spec p = (r, name, p')"
  shows "log_opened net spec r p p'"
proof -
  consider (pipe) "char_at spec 0 = CHR ''|''" | (net) "char_at spec 0 = CHR '':''"
    | (named) "char_at spec 0 \<noteq> CHR ''|''" "char_at spec 0 \<noteq> CHR '':''" by blast
  then show ?thesis
  proof cases
    case pipe
    then have "open_pipe_fd (drop 1 spec) p = (r, p')" using assms by (simp add: open_gen_fd_def split: prod.splits)
    then show ?thesis using pipe by (rule open_pipe_fd_result)
  next
    case net
    then obtain s where "open_net_fd net (drop 1 spec) p = (r, s, p')" using assms by (auto simp add: open_gen_fd_def split: prod.splits)
    then show ?thesis using net by (rule open_net_fd_result)
  next
    case named
    then have o: "os_open (Log_file spec) p = (r, p')" using assms by (simp add: open_gen_fd_def split: prod.splits)
    show ?thesis
    proof (cases r)
      case None
      have n: "answers p \<noteq> []" using o calls_ok(4) None by blast
      have "fds p' = fds p" "rest p' = rest p" using os_open_result [OF o] None by simp_all
      then show ?thesis using n None by (auto intro!: log_failed adds_rest)
    next
      case (Some n)
      have op: "opened n (Log_file spec) p p'" using os_open_result [OF o] Some by simp
      moreover have "adds p p'" using op calls_ok(1) [of p _ n p'] o Some by (auto simp: opened_def intro: adds_rest)
      moreover have "goes_to b net p' spec (Log_file spec)" for b using named by (simp add: goes_to_def)
      ultimately show ?thesis unfolding log_opened_def Some opened_def by auto
    qed
  qed
qed

section \<open>The descriptors after the start\<close>

text \<open>An open file for one of the standard descriptors, through a descriptor of its own that is closed again.\<close>

lemma redirect:
  assumes "fds p n = None" and "fds q = (fds p)(n \<mapsto> \<lparr>d_file = f, d_cloexec = False\<rparr>)" and "fds p m \<noteq> None" and "os_dup2 n m q = (True, q')"
  shows "fds q' = (fds p)(m \<mapsto> \<lparr>d_file = f, d_cloexec = False\<rparr>, n \<mapsto> \<lparr>d_file = f, d_cloexec = False\<rparr>)"
    and "(fds q')(n := None) = (fds p)(m \<mapsto> \<lparr>d_file = f, d_cloexec = False\<rparr>)" and "rest q' = rest q"
proof -
  have "n \<noteq> m" using assms(1,3) by auto
  then show "fds q' = (fds p)(m \<mapsto> \<lparr>d_file = f, d_cloexec = False\<rparr>, n \<mapsto> \<lparr>d_file = f, d_cloexec = False\<rparr>)"
    using os_dup2_result(3) [OF assms(4)] assms(2) by (auto simp: fun_upd_twist)
  then show "(fds q')(n := None) = (fds p)(m \<mapsto> \<lparr>d_file = f, d_cloexec = False\<rparr>)"
    using \<open>n \<noteq> m\<close> assms(1) by (auto simp: fun_eq_iff)
  show "rest q' = rest q" by (rule os_dup2_result(1) [OF assms(4)])
qed

lemma null_stdin_result:
  assumes "null_stdin p = Some p'" and "fds p 0 \<noteq> None"
  shows "fds p' = (fds p)(0 \<mapsto> \<lparr>d_file = Dev_null, d_cloexec = False\<rparr>)" and "rest p' = rest p"
proof -
  obtain n q q' where o: "os_open Dev_null p = (Some n, q)" and d: "os_dup2 n 0 q = (True, q')" and p': "p' = os_close n q'"
    using assms(1) by (auto simp: null_stdin_def split: option.splits prod.splits if_splits)
  have op: "opened n Dev_null p q" using os_open_result [OF o] by simp
  note op = op [unfolded opened_def]
  note R = redirect [OF op [THEN conjunct1] op [THEN conjunct2, THEN conjunct2, THEN conjunct1] assms(2) d]
  show "fds p' = (fds p)(0 \<mapsto> \<lparr>d_file = Dev_null, d_cloexec = False\<rparr>)" "rest p' = rest p" using R op by (simp_all add: p')
qed

text \<open>The descriptor of a log ends at the file its name tells.\<close>

lemma null_stdin_adds:
  assumes "null_stdin p = Some p'"
  shows "adds p p'"
proof -
  obtain n q q' where o: "os_open Dev_null p = (Some n, q)" and d: "os_dup2 n 0 q = (True, q')" and p': "p' = os_close n q'"
    using assms(1) by (auto simp: null_stdin_def split: option.splits prod.splits if_splits)
  have "adds p q" using os_open_result [OF o] calls_ok(1) [OF _ o] by (auto simp: opened_def intro: adds_rest)
  moreover have "adds q q'" using os_dup2_result(1) [OF d] calls_ok(2) [OF _ d] by (rule adds_rest)
  ultimately show ?thesis unfolding p' using adds_close adds_trans by blast
qed

definition log_at :: "network \<Rightarrow> nat \<Rightarrow> string \<Rightarrow> process \<Rightarrow> process \<Rightarrow> bool" where
  "log_at net m spec p p' \<longleftrightarrow>
     (\<exists>f. goes_to (answers p \<noteq> []) net p' spec f \<and> fds p' = (fds p)(m \<mapsto> \<lparr>d_file = f, d_cloexec = False\<rparr>))"

lemma open_error_log_result:
  assumes "open_error_log net name p = Some (name', p')" and "fds p 2 \<noteq> None"
  shows "adds p p' \<and> (case name of None \<Rightarrow> fds p' = fds p | Some spec \<Rightarrow> log_at net 2 spec p p')"
proof (cases name)
  case None
  then show ?thesis using assms(1) by (simp add: open_error_log_def)
next
  case (Some spec)
  then obtain n q q' s where o: "open_gen_fd net spec p = (Some n, s, q)" and d: "os_dup2 n 2 q = (True, q')" and p': "p' = os_close n q'"
    using assms(1) by (auto simp: open_error_log_def split: option.splits prod.splits if_splits)
  obtain f where f: "fds p n = None" "goes_to (answers p \<noteq> []) net q spec f" "fds q = (fds p)(n \<mapsto> \<lparr>d_file = f, d_cloexec = False\<rparr>)" "adds p q"
    using open_gen_fd_result [OF o] by (auto simp: log_opened_def)
  have "adds q q'" using os_dup2_result(1) [OF d] calls_ok(2) [OF _ d] by (rule adds_rest)
  then have a: "adds q p'" unfolding p' using adds_close adds_trans by blast
  from redirect [OF f(1,3) assms(2) d] goes_to_adds [OF f(2) a adds_refl] show ?thesis
    using adds_trans [OF f(4) a] by (auto simp: Some p' log_at_def)
qed

lemma open_access_log_result:
  assumes "open_access_log net name p = Some (name', p')" and "fds p 1 \<noteq> None"
  shows "adds p p' \<and>
    (case name of None \<Rightarrow> fds p' = (fds p)(1 \<mapsto> \<lparr>d_file = Dev_null, d_cloexec = False\<rparr>) | Some spec \<Rightarrow> log_at net 1 spec p p')"
proof -
  obtain n s q q1 q2 where o: "(case name of Some spec \<Rightarrow> (case open_gen_fd net spec p of (n, spec, p) \<Rightarrow> (n, Some spec, p))
      | None \<Rightarrow> (case os_open Dev_null p of (n, p) \<Rightarrow> (n, None, p))) = (Some n, s, q)"
    and d: "os_dup2 n 1 q = (True, q1)" and c: "os_cloexec n q1 = (True, q2)" and p': "p' = os_close n q2"
    using assms(1) by (auto simp: open_access_log_def split: option.splits prod.splits if_splits)
  have f: "\<exists>f. fds p n = None \<and> fds q = (fds p)(n \<mapsto> \<lparr>d_file = f, d_cloexec = False\<rparr>) \<and> adds p q \<and>
      (case name of None \<Rightarrow> f = Dev_null | Some spec \<Rightarrow> goes_to (answers p \<noteq> []) net q spec f)"
  proof (cases name)
    case None
    then have o': "os_open Dev_null p = (Some n, q)" using o by (auto split: prod.splits)
    then show ?thesis using None os_open_result [OF o'] calls_ok(1) [OF _ o'] by (auto simp: opened_def intro: adds_rest)
  next
    case (Some spec)
    then obtain s' where "open_gen_fd net spec p = (Some n, s', q)" using o by (auto split: prod.splits)
    from open_gen_fd_result [OF this] Some show ?thesis by (auto simp: log_opened_def)
  qed
  then obtain f where f: "fds p n = None" "fds q = (fds p)(n \<mapsto> \<lparr>d_file = f, d_cloexec = False\<rparr>)" "adds p q"
      "case name of None \<Rightarrow> f = Dev_null | Some spec \<Rightarrow> goes_to (answers p \<noteq> []) net q spec f" by blast
  note R = redirect [OF f(1,2) assms(2) d]
  have "(fds q2)(n := None) = (fds q1)(n := None)"
    using os_cloexec_result(3) [OF c] by auto
  then have fd: "fds p' = (fds p)(1 \<mapsto> \<lparr>d_file = f, d_cloexec = False\<rparr>)" using R by (simp add: p')
  have "adds q q1" "adds q1 q2"
    using os_dup2_result(1) [OF d] calls_ok(2) [OF _ d] os_cloexec_result(1) [OF c] calls_ok(3) [OF _ c] by (auto intro: adds_rest)
  then have a: "adds q p'" unfolding p' using adds_close adds_trans by blast
  have "goes_to (answers p \<noteq> []) net p' spec f" if "name = Some spec" for spec
    using f(4) goes_to_adds [OF _ a adds_refl] that by simp
  then show ?thesis using adds_trans [OF f(3) a] fd f(4) by (cases name) (auto simp only: log_at_def option.case)
qed

text \<open>The log of CGI programs: open, or given up, which when no call fails is only done with a destination that cannot be reached.\<close>

lemma open_cgi_log_result:
  assumes "open_cgi_log net name p = (log, name', p')" and "\<forall>n<3. fds p n \<noteq> None"
  shows "adds p p' \<and> (name' = None \<longleftrightarrow> log = 0) \<and>
    (case name of
       None \<Rightarrow> log = 0 \<and> fds p' = fds p
     | Some spec \<Rightarrow>
         if log = 0 then left_behind spec p p' \<and> (answers p = [] \<longrightarrow> \<not> log_reachable net spec)
         else 2 < log \<and> fds p log = None \<and>
           (\<exists>f. goes_to (answers p \<noteq> []) net p' spec f \<and> fds p' = (fds p)(log \<mapsto> \<lparr>d_file = f, d_cloexec = True\<rparr>)))"
proof (cases name)
  case None
  then show ?thesis using assms(1) by (auto simp: open_cgi_log_def)
next
  case (Some spec)
  obtain r s q where o: "open_gen_fd net spec p = (r, s, q)" by (metis prod_cases3)
  note O = open_gen_fd_result [OF o, unfolded log_opened_def]
  show ?thesis
  proof (cases r)
    case None
    then show ?thesis using O assms(1) by (auto simp: open_cgi_log_def Some o)
  next
    case r: (Some n)
    obtain ok q' where c: "os_cloexec n q = (ok, q')" by fastforce
    obtain f where f: "fds p n = None" "goes_to (answers p \<noteq> []) net q spec f" "fds q = (fds p)(n \<mapsto> \<lparr>d_file = f, d_cloexec = False\<rparr>)" "adds p q"
      using O r by auto
    have n: "2 < n" using f(1) assms(2) by (metis less_Suc_eq_le numeral_2_eq_2 numeral_3_eq_3 not_le)
    have a: "adds q q'" using os_cloexec_result(1) [OF c] calls_ok(3) [OF _ c] by (rule adds_rest)
    have e: "(log, name', p') = (if ok then (n, Some s, q') else (0, None, os_close n q'))"
      using assms(1) by (cases ok) (simp_all add: open_cgi_log_def Some o r c)
    show ?thesis
    proof (cases ok)
      case True
      then show ?thesis
        using e n f os_cloexec_result(3) [OF c] goes_to_adds [OF f(2) a adds_refl] adds_trans [OF f(4) a] by (auto simp: Some)
    next
      case False
      have "fds p' = fds p" using False e f(1,3) os_cloexec_result(2) [OF c] by (auto simp: fun_eq_iff)
      moreover have "answers p \<noteq> []" using False c f calls_ok(10) [of q n q'] by (auto simp: adds_def)
      moreover have "adds p p'" using False e adds_trans [OF adds_trans [OF f(4) a] adds_close] by simp
      ultimately show ?thesis using False e by (simp add: left_behind_def Some)
    qed
  qed
qed

text \<open>
  The address that the configuration means: an address that can be read is used as it is, without one every interface is meant, and a
  port that fits is the port.
\<close>

definition means_address :: "network \<Rightarrow> string option \<Rightarrow> int \<Rightarrow> sockaddr_in \<Rightarrow> bool" where
  "means_address net ip port a \<longleftrightarrow>
     (case ip of None \<Rightarrow> sin_addr a = INADDR_ANY | Some t \<Rightarrow> \<forall>x. inet_aton net t = Some x \<longrightarrow> sin_addr a = x) \<and>
     (0 \<le> port \<and> port < 2 ^ 16 \<longrightarrow> uint (ntohs (big_endian net) (sin_port a)) = port)"

lemma server_sockaddr_meant: "means_address net ip port (server_sockaddr (big_endian net) (inet_aton net) ip (word_of_int port))"
  by (auto simp: means_address_def server_sockaddr_def ntohs_htons unsigned_ucast_eq uint_word_of_int take_bit_eq_mod split: option.split)

lemma server_socket_result:
  assumes "server_socket net ip port p = Some (s, p')"
  shows "fds p s = None" and "fds p' = (fds p)(s \<mapsto> \<lparr>d_file = Socket (fresh_file p), d_cloexec = True\<rparr>)" and "sigs p' = sigs p"
    and "nonblocking p' = Socket (fresh_file p) # nonblocking p"
    and "bound p' = (Socket (fresh_file p), server_sockaddr (big_endian net) (inet_aton net) ip port) # bound p"
    and "peers p' = peers p" and "log_programs p' = log_programs p"
proof -
  obtain q q1 q2 q3 q4 q5 ok where o: "os_new Socket p = (Some s, q)" and a: "set_nonblock_fd s q = (True, q1)" and c: "os_cloexec s q1 = (True, q2)"
    and b: "answer q2 = (True, q3)" and d: "bind_server net s ip port q3 = (True, q4)" and e: "answer q4 = (ok, p')"
    using assms by (auto simp: server_socket_def split: option.splits prod.splits if_splits)
  have op: "opened s (Socket (fresh_file p)) p q" using os_new_result [OF o] by simp
  obtain b1 r where ans: "answer q3 = (b1, r)" by fastforce
  have bind: "fds q4 = fds q3" "sigs q4 = sigs q3" "nonblocking q4 = nonblocking q3" "peers q4 = peers q3" "log_programs q4 = log_programs q3"
    "\<exists>x. fds q3 s = Some x \<and> bound q4 = (d_file x, server_sockaddr (big_endian net) (inet_aton net) ip port) # bound q3"
    using d answer_frame [OF ans] by (auto simp: bind_server_def os_bind_def ans rest_def split: if_splits option.splits)
  have "log_programs q1 = log_programs q" using a by (auto simp: set_nonblock_fd_def answer_def split: list.splits if_splits option.splits)
  note R = op [unfolded opened_def] set_nonblock_fd_result [OF a] this os_cloexec_result(1,3) [OF c] answer_frame [OF b] bind answer_frame [OF e]
  show "fds p s = None" "fds p' = (fds p)(s \<mapsto> \<lparr>d_file = Socket (fresh_file p), d_cloexec = True\<rparr>)" "sigs p' = sigs p"
    "nonblocking p' = Socket (fresh_file p) # nonblocking p"
    "bound p' = (Socket (fresh_file p), server_sockaddr (big_endian net) (inet_aton net) ip port) # bound p"
    "peers p' = peers p" "log_programs p' = log_programs p"
    using R by (auto simp: rest_def)
qed

end
