(* ===== verification/Signals.thy ===== *)
theory Signals
  imports Select Config Process
begin

text \<open>
  The signals (\<open>signals.c\<close>) and the main loop with them: the handlers only set flags, which the loop looks at at the
  start of each turn. A \<open>daemon\<close> is the \<open>world\<close> of the requests with the settings of the configuration file and the flags.
  The file, the environment and the answers of \<open>waitpid\<close> can change between two turns.
\<close>

section \<open>Definitions\<close>

record daemon =
  d_world :: world
  d_vars :: settings
  d_env :: environment
  d_stack :: string
  config_file_name :: string
  sighup_flag :: bool
  sigchld_flag :: bool
  sigalrm_flag :: bool
  wait_script :: "int list"

text \<open>The free list is walked along its links; \<open>None\<close> is a walk that does not end.\<close>

definition free_requests :: "world \<Rightarrow> world option" where
  "free_requests w =
     map_option (\<lambda>_. w\<lparr>request_free := None\<rparr>)
       (while_option (\<lambda>ptr. ptr \<noteq> None) (\<lambda>ptr. q_next (q_links w) (the ptr)) (request_free w))"

text \<open>The handlers.\<close>

definition sigterm :: "daemon \<Rightarrow> daemon" where
  "sigterm d = (if sigterm_flag (d_world d) = 0 then d\<lparr>d_world := (d_world d)\<lparr>sigterm_flag := 1\<rparr>\<rparr> else d)"

definition sighup :: "daemon \<Rightarrow> daemon" where
  "sighup d = d\<lparr>sighup_flag := True\<rparr>"

definition sigchld :: "daemon \<Rightarrow> daemon" where
  "sigchld d = d\<lparr>sigchld_flag := True\<rparr>"

definition sigalrm :: "daemon \<Rightarrow> daemon" where
  "sigalrm d = d\<lparr>sigalrm_flag := True\<rparr>"

text \<open>
  The handlers that do not return, and what a signal does by the action that is installed for it. The two that dump core change to the
  directory for temporary files first; a jump goes to where the file being served was being read.
\<close>

datatype outcome = Goes_on daemon | Jumps int | Aborts string | Exits int | Default_action

definition EXIT_FAILURE :: int where "EXIT_FAILURE = 1"

definition sigsegv :: "daemon \<Rightarrow> outcome" where
  "sigsegv d = Aborts (tempdir (srv (d_world d)))"

definition sigbus :: "bool \<Rightarrow> int \<Rightarrow> daemon \<Rightarrow> outcome" where
  "sigbus handle_sigbus dummy d = (if handle_sigbus then Jumps dummy else Aborts (tempdir (srv (d_world d))))"

definition sigint :: "daemon \<Rightarrow> outcome" where
  "sigint d = Exits EXIT_FAILURE"

text \<open>The number of SIGBUS is the argument of its handler.\<close>

fun run_handler :: "bool \<Rightarrow> int \<Rightarrow> sig \<Rightarrow> daemon \<Rightarrow> outcome" where
  "run_handler hb n SIGSEGV d = sigsegv d"
| "run_handler hb n SIGBUS d = sigbus hb n d"
| "run_handler hb n SIGTERM d = Goes_on (sigterm d)"
| "run_handler hb n SIGHUP d = Goes_on (sighup d)"
| "run_handler hb n SIGINT d = sigint d"
| "run_handler hb n SIGCHLD d = Goes_on (sigchld d)"
| "run_handler hb n SIGALRM d = Goes_on (sigalrm d)"
| "run_handler hb n _ d = Goes_on d"

definition deliver :: "process \<Rightarrow> bool \<Rightarrow> int \<Rightarrow> sig \<Rightarrow> daemon \<Rightarrow> outcome" where
  "deliver p hb n g d =
     (case sigs p g of SIG_IGN \<Rightarrow> Goes_on d | SIG_DFL \<Rightarrow> Default_action | Handler h \<Rightarrow> run_handler hb n h d)"

text \<open>The variables of the configuration where the rest of the server reads them.\<close>

definition apply_settings :: "settings \<Rightarrow> world \<Rightarrow> world" where
  "apply_settings st w =
     w\<lparr>srv := configured st,
       log_cfg := (log_cfg w)\<lparr>access_log_name := strs st V_access_log_name, use_localtime := ints st V_use_localtime \<noteq> 0\<rparr>\<rparr>"

definition dump_tables :: "server \<Rightarrow> server" where
  "dump_tables sv =
     dump_alias (sv\<lparr>mime_hashtable := dump_mime (mime_hashtable sv), passwd_hashtable := dump_passwd (passwd_hashtable sv)\<rparr>)"

definition sighup_run :: "daemon \<Rightarrow> (config_stop + daemon) option" where
  "sighup_run d =
     (let d = d\<lparr>sighup_flag := False\<rparr>;
          w = time_now (d_world d);
          w = w\<lparr>srv := dump_tables (srv w)\<rparr>
      in case free_requests w of
           None \<Rightarrow> None
         | Some w \<Rightarrow>
             (let w = w\<lparr>srv := range_pool_empty (srv w)\<rparr> in
              Some (case read_config_files (d_env d) (config_file_name d) (d_stack d) ((d_vars d)\<lparr>tables := srv w\<rparr>) of
                      Inl e \<Rightarrow> Inl e
                    | Inr st \<Rightarrow> Inr (d\<lparr>d_vars := st, d_world := apply_settings st w\<rparr>))))"

fun reap :: "bool \<Rightarrow> int list \<Rightarrow> world \<Rightarrow> int list \<times> world" where
  "reap verbose [] w = ([], w)"
| "reap verbose (pid # pids) w =
     (if pid > 0 then reap verbose pids (if verbose then time_now w else w) else (pids, w))"

definition sigchld_run :: "daemon \<Rightarrow> daemon" where
  "sigchld_run d =
     (case reap (ints (d_vars d) V_verbose_cgi_logs \<noteq> 0) (wait_script d) (d_world d) of
        (pids, w) \<Rightarrow> d\<lparr>sigchld_flag := False, wait_script := pids, d_world := w\<rparr>)"

text \<open>The numbers that are reported, and the daemon.\<close>

definition sigalrm_run :: "daemon \<Rightarrow> (int \<times> int \<times> nat \<times> nat) \<times> daemon" where
  "sigalrm_run d =
     (let w = time_now (d_world d) in
      ((status_requests w, status_errors w, hash_show_stats (mime_hashtable (srv w)) (passwd_hashtable (srv w))),
       d\<lparr>d_world := w, sigalrm_flag := False\<rparr>))"

text \<open>
  The end of the process: what is still allocated when it exits. Of the common environment only the first entries, up to the
  one behind the standard variables, are given back. \<open>None\<close> is a walk of the free list that does not end.
\<close>

definition clear_common_env :: "server \<Rightarrow> string option list" where
  "clear_common_env sv = map (\<lambda>(i, e). if i \<le> COMMON_CGI_COUNT then None else Some e) (enumerate 0 (common_cgi_env sv))"

definition sigterm_stage2_run :: "daemon \<Rightarrow> (world \<times> string option list) option" where
  "sigterm_stage2_run d =
     (let w = d_world d;
          env = clear_common_env (srv w);
          w = (if build_strip (srv w) then w\<lparr>srv := cgi_strip_cleanup (srv w)\<rparr> else w);
          w = w\<lparr>srv := dump_tables (srv w)\<rparr>
      in map_option (\<lambda>w. (w\<lparr>srv := range_pool_empty (srv w)\<rparr>, env)) (free_requests w))"

text \<open>One turn of the loop with the signals that have arrived.\<close>

definition daemon_turn :: "daemon \<Rightarrow> (config_stop + daemon) option" where
  "daemon_turn d =
     (case (if sighup_flag d then sighup_run d else Some (Inr d)) of
        None \<Rightarrow> None
      | Some (Inl e) \<Rightarrow> Some (Inl e)
      | Some (Inr d) \<Rightarrow>
          (let d = (if sigchld_flag d then sigchld_run d else d);
               d = (if sigalrm_flag d then snd (sigalrm_run d) else d)
           in case loop_turn (d_world d) of
                None \<Rightarrow> None
              | Some None \<Rightarrow> Some (Inl Exit)
              | Some (Some w) \<Rightarrow> Some (Inr (d\<lparr>d_world := w\<rparr>))))"

text \<open>What can happen to a daemon: a turn, a signal, and a change of its surroundings.\<close>

inductive daemon_step :: "daemon \<Rightarrow> daemon \<Rightarrow> bool" where
  turn: "daemon_turn d = Some (Inr d') \<Longrightarrow> daemon_step d d'"
| hup: "daemon_step d (sighup d)"
| chld: "daemon_step d (sigchld d)"
| alrm: "daemon_step d (sigalrm d)"
| trm: "daemon_step d (sigterm d)"
| surroundings: "daemon_step d (d\<lparr>d_env := env, d_stack := stack, wait_script := pids\<rparr>)"

section \<open>Reading the configuration again\<close>

text \<open>What belongs to running requests in the state of the server.\<close>

definition runtime :: "server \<Rightarrow> nat list \<times> nat \<times> mmap_state \<times> int \<times> nat" where
  "runtime sv = (open_fds sv, next_fd sv, mmaps sv, current_time sv, system_bufsize sv)"

lemma runtime_simps [simp]:
  "runtime (sv\<lparr>alloc_script := x1\<rparr>) = runtime sv" "runtime (sv\<lparr>common_cgi_env := x2\<rparr>) = runtime sv"
  "runtime (sv\<lparr>mime_hashtable := x3\<rparr>) = runtime sv" "runtime (sv\<lparr>passwd_hashtable := x4\<rparr>) = runtime sv"
  "runtime (sv\<lparr>alias_hashtable := x5\<rparr>) = runtime sv" "runtime (sv\<lparr>access_nodes := x6\<rparr>) = runtime sv"
  "runtime (sv\<lparr>cgi_strip_tokens := x7\<rparr>) = runtime sv" "runtime (sv\<lparr>tempdir := x8\<rparr>) = runtime sv"
  "runtime (sv\<lparr>range_pool := x9\<rparr>) = runtime sv"
  by (simp_all add: runtime_def configured_def)

lemma runtime_configured [simp]: "runtime (configured st) = runtime (tables st)"
  by (simp add: runtime_def configured_def)

lemma try_alloc_runtime: "try_alloc sv = (ok, sv') \<Longrightarrow> runtime sv' = runtime sv"
  by (auto simp: try_alloc_def split: prod.splits)

lemma add_type_runtime: "add_type e t sv = Some sv' \<Longrightarrow> runtime sv' = runtime sv"
  by (auto simp: add_type_def runtime_def split: option.splits)

lemma add_to_common_env_runtime: "add_to_common_env k v sv = Some sv' \<Longrightarrow> runtime sv' = runtime sv"
  by (auto simp: add_to_common_env_def env_gen_extra_def Let_def split: prod.splits if_splits option.splits dest!: try_alloc_runtime)

lemma access_add_runtime: "access_add p a sv = Some sv' \<Longrightarrow> runtime sv' = runtime sv"
  by (auto simp: access_add_def split: prod.splits if_splits dest!: try_alloc_runtime)

lemma cgi_strip_add_token_runtime: "cgi_strip_add_token t sv = Some sv' \<Longrightarrow> runtime sv' = runtime sv"
  by (auto simp: cgi_strip_add_token_def split: prod.splits if_splits dest!: try_alloc_runtime)

lemma add_alias_runtime: "add_alias f r t sv = Some sv' \<Longrightarrow> runtime sv' = runtime sv"
  by (auto simp: add_alias_def Let_def split: prod.splits if_splits option.splits dest!: try_alloc_runtime)

lemma add_extensions_runtime: "add_extensions buf p type sv = Some (buf', sv') \<Longrightarrow> runtime sv' = runtime sv"
proof (induction buf p type sv arbitrary: buf' sv' rule: add_extensions.induct)
  case (1 buf p type sv)
  define ext where "ext = takeWhile (\<lambda>c. c \<noteq> NUL \<and> c \<noteq> HT \<and> c \<noteq> CHR '' '') (drop p buf)"
  note e = 1(2) [unfolded add_extensions.simps [of buf p] Let_def, folded ext_def]
  show ?case
  proof (cases "ext = []")
    case False
    then obtain sv1 where a: "add_type ext type sv = Some sv1" using e by (cases "add_type ext type sv") auto
    then show ?thesis using e False 1(1) [OF ext_def False a refl] add_type_runtime [OF a] by simp
  qed (use e in simp)
qed

lemma mime_lines_runtime: "mime_lines f buf sv = Some sv' \<Longrightarrow> runtime sv' = runtime sv"
proof (induction f buf sv arbitrary: sv' rule: mime_lines.induct)
  case (1 f buf sv)
  have line: "runtime v' = runtime v" if "mime_line b v = Some (b', v')" for b v b' v'
    using that by (auto simp: mime_line_def Let_def split: if_splits option.splits dest: add_extensions_runtime)
  show ?case
    using 1 unfolding mime_lines.simps [of f buf sv] by (auto split: option.splits) (erule line)
qed

lemma run_action_runtime: "run_action env stack act v1 v2 st = Inr st' \<Longrightarrow> runtime (tables st') = runtime (tables st)"
  by (cases act)
     (auto simp: run_action_def c_set_unity_def c_set_int_def c_set_string_def c_set_user_def c_set_group_def with_tables_def
        c_add_mime_types_file_def c_add_mime_type_def c_add_alias_def c_add_access_def c_add_cgi_env_def c_set_cgi_strip_token_def
        split: option.splits prod.splits if_splits
        dest!: try_alloc_runtime add_type_runtime add_to_common_env_runtime access_add_runtime cgi_strip_add_token_runtime
          add_alias_runtime mime_lines_runtime)

lemma parse_line_runtime: "parse_line env stack buf st = Inr (buf', st') \<Longrightarrow> runtime (tables st') = runtime (tables st)"
  by (auto simp: parse_line_def apply_command_def Let_def dest: run_action_runtime
      split: if_splits option.splits arity.splits sum.splits)

lemma parse_runtime: "parse env stack f buf st = Inr st' \<Longrightarrow> runtime (tables st') = runtime (tables st)"
proof (induction env stack f buf st arbitrary: st' rule: parse.induct)
  case (1 env stack f buf st)
  show ?case
    using 1 unfolding parse.simps [of env stack f buf st] by (auto split: option.splits sum.splits) (erule parse_line_runtime)
qed

lemma check_settings_tables: "check_settings env st = Inr st' \<Longrightarrow> tables st' = tables st"
  by (erule check_settings_ok) simp

lemma read_config_files_runtime:
  assumes "read_config_files env file stack st = Inr st'"
  shows "runtime (tables st') = runtime (tables st)"
proof -
  have a: "runtime (access_init sv) = runtime sv" for sv by (simp add: access_init_def access_shutdown_def)
  show ?thesis
    using assms
    by (auto simp: read_config_files_def Let_def a
        split: option.splits sum.splits if_splits prod.splits dest!: check_settings_tables parse_runtime try_alloc_runtime)
qed

declare range_pool_empty.simps [simp del]

lemma range_pool_empty_runtime [simp]: "runtime (range_pool_empty sv) = runtime sv"
proof (induction sv rule: range_pool_empty.induct)
  case (1 sv)
  show ?case
  proof (cases "range_pool sv = 0")
    case False
    then show ?thesis using 1 by (subst range_pool_empty.simps) (simp add: range_pool_pop_def)
  qed (simp add: range_pool_empty.simps)
qed

lemma dump_tables_runtime [simp]: "runtime (dump_tables sv) = runtime sv"
  by (simp add: dump_tables_def dump_alias_def)

section \<open>The free list\<close>

lemma free_walk:
  assumes "dseg h p c xs p' None"
  shows "while_option (\<lambda>ptr. ptr \<noteq> None) (\<lambda>ptr. q_next h (the ptr)) c = Some None"
  using assms
proof (induction xs arbitrary: p c)
  case Nil
  then show ?case by (subst while_option_unfold) simp
next
  case (Cons x xs)
  then show ?case by (subst while_option_unfold) auto
qed

lemma free_requests_keeps:
  assumes "world_ok w rd bl fr"
  shows "free_requests w = Some (w\<lparr>request_free := None\<rparr>)" "world_ok (w\<lparr>request_free := None\<rparr>) rd bl []"
proof -
  have d: "dlist (q_links w) (request_free w) fr" using assms by (simp add: world_ok_def queues_def)
  then show "free_requests w = Some (w\<lparr>request_free := None\<rparr>)"
    using free_walk unfolding free_requests_def dlist_def by fastforce
  show "world_ok (w\<lparr>request_free := None\<rparr>) rd bl []"
    using assms by (auto simp: world_ok_def queues_def dlist_def)
qed

section \<open>Signals and the queues\<close>

lemma apply_settings_frame [simp]:
  "qview (apply_settings st w) = qview w" "reqs (apply_settings st w) = reqs w" "srv (apply_settings st w) = configured st"
  by (simp_all add: apply_settings_def qview_def)

lemma sighup_run_ok:
  assumes "world_ok (d_world d) rd bl fr"
  shows "\<exists>x. sighup_run d = Some x \<and>
     (\<forall>d'. x = Inr d' \<longrightarrow> world_ok (d_world d') rd bl [] \<and> reqs (d_world d') = reqs (d_world d) \<and>
        runtime (srv (d_world d')) = runtime (srv (time_now (d_world d))) \<and> srv (d_world d') = configured (d_vars d') \<and>
        (\<exists>st. read_config_files (d_env d) (config_file_name d) (d_stack d) st = Inr (d_vars d')))"
proof -
  define w where "w = (time_now (d_world d))\<lparr>srv := dump_tables (srv (time_now (d_world d)))\<rparr>"
  define w' where "w' = w\<lparr>request_free := None, srv := range_pool_empty (srv w)\<rparr>"
  have q: "qview w = qview (d_world d)" by (simp add: w_def)
  have ok: "world_ok w rd bl fr" using assms queues_frame(2) [OF q] by simp
  have rw: "reqs w' = reqs (d_world d)" "runtime (srv w') = runtime (srv (time_now (d_world d)))"
    by (auto simp: w'_def w_def time_now_def wall_clock_def split: list.split)
  have w'_eq: "w\<lparr>request_free := None, srv := range_pool_empty (srv w)\<rparr> = w'" "w\<lparr>request_free := None, srv := srv w'\<rparr> = w'" "range_pool_empty (srv w) = srv w'"
    by (simp_all add: w'_def)
  have qw: "qview w' = qview (w\<lparr>request_free := None\<rparr>)" by (simp add: w'_def qview_def)
  have ok': "world_ok w' rd bl []" using free_requests_keeps(2) [OF ok] queues_frame(2) [OF qw] by simp
  have "sighup_run d = Some (case read_config_files (d_env d) (config_file_name d) (d_stack d) ((d_vars d)\<lparr>tables := srv w'\<rparr>) of
      Inl e \<Rightarrow> Inl e | Inr st \<Rightarrow> Inr (d\<lparr>sighup_flag := False, d_vars := st, d_world := apply_settings st w'\<rparr>))"
    using free_requests_keeps(1) [OF ok] by (simp add: sighup_run_def Let_def w'_eq flip: w_def cong: sum.case_cong)
  moreover have "world_ok (apply_settings st w') rd bl []" for st
    using ok' queues_frame(2) [OF apply_settings_frame(1), of st w'] by simp
  moreover have "runtime (tables st) = runtime (srv w')"
    if "read_config_files (d_env d) (config_file_name d) (d_stack d) ((d_vars d)\<lparr>tables := srv w'\<rparr>) = Inr st" for st
    using read_config_files_runtime [OF that] by simp
  ultimately show ?thesis
    using rw by (cases "read_config_files (d_env d) (config_file_name d) (d_stack d) ((d_vars d)\<lparr>tables := srv w'\<rparr>)") auto
qed

lemma reap_qview: "reap v pids w = (pids', w') \<Longrightarrow> qview w' = qview w"
  by (induction v pids w rule: reap.induct) (auto split: if_splits)

lemma sigchld_run_qview: "qview (d_world (sigchld_run d)) = qview (d_world d)"
  by (auto simp: sigchld_run_def split: prod.split dest: reap_qview)

lemma sigalrm_run_qview: "qview (d_world (snd (sigalrm_run d))) = qview (d_world d)"
  by (simp add: sigalrm_run_def Let_def)

lemma daemon_turn_well_formed:
  assumes "well_formed (d_world d)"
  shows "\<exists>x. daemon_turn d = Some x \<and> (\<forall>d'. x = Inr d' \<longrightarrow> well_formed (d_world d'))"
proof -
  have "\<exists>x. (if sighup_flag d then sighup_run d else Some (Inr d)) = Some x \<and> (\<forall>d1. x = Inr d1 \<longrightarrow> well_formed (d_world d1))"
    using assms sighup_run_ok [of d] unfolding well_formed_def by (cases "sighup_flag d") fastforce+
  then obtain x where x: "(if sighup_flag d then sighup_run d else Some (Inr d)) = Some x"
    and ok: "\<And>d1. x = Inr d1 \<Longrightarrow> well_formed (d_world d1)" by blast
  show ?thesis
  proof (cases x)
    case (Inr d1)
    define d2 where "d2 = (if sigchld_flag d1 then sigchld_run d1 else d1)"
    define d3 where "d3 = (if sigalrm_flag d2 then snd (sigalrm_run d2) else d2)"
    have "qview (d_world d3) = qview (d_world d1)" by (simp add: d3_def d2_def sigchld_run_qview sigalrm_run_qview)
    then have "well_formed (d_world d3)" using ok [OF Inr] well_formed_frame by blast
    moreover have "daemon_turn d = (case loop_turn (d_world d3) of None \<Rightarrow> None | Some None \<Rightarrow> Some (Inl Exit)
        | Some (Some w) \<Rightarrow> Some (Inr (d3\<lparr>d_world := w\<rparr>)))"
      unfolding daemon_turn_def x Inr option.case sum.case Let_def d2_def d3_def ..
    ultimately show ?thesis using loop_turn_well_formed [of "d_world d3"] by (auto split: option.split)
  qed (use x in \<open>auto simp: daemon_turn_def\<close>)
qed

lemma daemon_step_well_formed:
  assumes "daemon_step d d'" and "well_formed (d_world d)"
  shows "well_formed (d_world d')"
  using assms
proof (induction rule: daemon_step.induct)
  case (turn d d')
  then show ?case using daemon_turn_well_formed [of d] by auto
next
  case (trm d)
  have "qview (w\<lparr>sigterm_flag := 1\<rparr>) = qview w" for w by (simp add: qview_def)
  then have "well_formed ((d_world d)\<lparr>sigterm_flag := 1\<rparr>)" using trm well_formed_frame by blast
  then show ?case using trm by (simp add: sigterm_def)
qed (simp_all add: sighup_def sigchld_def sigalrm_def)

lemma running_well_formed:
  assumes "daemon_step\<^sup>*\<^sup>* d0 d" and "started (d_world d0)"
  shows "well_formed (d_world d)"
  using assms by (induction rule: rtranclp_induct) (auto intro: started_well_formed daemon_step_well_formed)

text \<open>A signal that the process survives is a step of the daemon, so the invariant holds however signals arrive.\<close>

lemma deliver_step:
  assumes "sigs p = (\<lambda>s. if s \<in> {SIGPIPE, SIGUSR1, SIGUSR2} then SIG_IGN else Handler s)" and "deliver p hb n g d = Goes_on d'"
  shows "daemon_step\<^sup>*\<^sup>* d d'"
  using assms(2) by (cases g) (auto simp: deliver_def assms(1) sigsegv_def sigbus_def sigint_def intro: daemon_step.intros split: if_splits)

text \<open>The exit is reached, and gives back the tables, the structures for requests and ranges, and the standard variables, but no others.\<close>

lemma range_pool_emptied: "range_pool (range_pool_empty sv) = 0"
proof (induction sv rule: range_pool_empty.induct)
  case (1 sv)
  then show ?case by (cases "range_pool sv = 0") (simp_all add: range_pool_empty.simps [of sv])
qed

lemma range_pool_empty_tables:
  "mime_hashtable (range_pool_empty sv) = mime_hashtable sv \<and> passwd_hashtable (range_pool_empty sv) = passwd_hashtable sv \<and>
   alias_hashtable (range_pool_empty sv) = alias_hashtable sv"
proof (induction sv rule: range_pool_empty.induct)
  case (1 sv)
  show ?case
  proof (cases "range_pool sv = 0")
    case False
    then show ?thesis using 1 by (subst (1 2 3) range_pool_empty.simps) (simp add: range_pool_pop_def)
  qed (simp add: range_pool_empty.simps)
qed

lemma exit_gives_back:
  assumes "world_ok (d_world d) rd bl fr"
  obtains w env where "sigterm_stage2_run d = Some (w, env)" "request_free w = None" "range_pool (srv w) = 0"
    "mime_hashtable (srv w) = dump_mime (mime_hashtable (srv (d_world d)))" "passwd_hashtable (srv w) = dump_passwd (passwd_hashtable (srv (d_world d)))"
    "alias_hashtable (srv w) = alias_hashtable (dump_alias (srv (d_world d)))"
    "\<And>i. i < length env \<Longrightarrow> env ! i \<noteq> None \<longleftrightarrow> COMMON_CGI_COUNT < i" "length env = length (common_cgi_env (srv (d_world d)))"
proof -
  define sv where "sv = (if build_strip (srv (d_world d)) then cgi_strip_cleanup (srv (d_world d)) else srv (d_world d))"
  define w where "w = (d_world d)\<lparr>srv := dump_tables sv\<rparr>"
  have q: "qview w = qview (d_world d)" by (simp add: w_def)
  have ok: "world_ok w rd bl fr" using assms queues_frame(2) [OF q] by simp
  note f = free_requests_keeps(1) [OF ok]
  have e: "sigterm_stage2_run d = Some (w\<lparr>request_free := None, srv := range_pool_empty (dump_tables sv)\<rparr>, clear_common_env (srv (d_world d)))"
    using f by (cases "build_strip (srv (d_world d))") (simp_all add: sigterm_stage2_run_def Let_def w_def sv_def)
  have t: "mime_hashtable sv = mime_hashtable (srv (d_world d))" "passwd_hashtable sv = passwd_hashtable (srv (d_world d))"
    "alias_hashtable sv = alias_hashtable (srv (d_world d))" by (simp_all add: sv_def cgi_strip_cleanup_def)
  show thesis
    by (rule that [OF e])
       (simp_all add: range_pool_emptied range_pool_empty_tables dump_tables_def dump_alias_def t clear_common_env_def enumerate_eq_zip)
qed

section \<open>Shutting down\<close>

text \<open>What the shutdown depends on.\<close>

definition duck :: "world \<Rightarrow> accept_result list \<times> nat \<times> bool \<times> nat option" where
  "duck w = (accept_script w, sigterm_flag w, pending_requests w, server_s w)"

lemma duck_simps [simp]:
  "duck (w\<lparr>srv := x1\<rparr>) = duck w" "duck (w\<lparr>clock := x2\<rparr>) = duck w" "duck (w\<lparr>reqs := x3\<rparr>) = duck w"
  "duck (w\<lparr>status_requests := x4\<rparr>) = duck w" "duck (w\<lparr>status_errors := x5\<rparr>) = duck w"
  "duck (w\<lparr>access_log := x6\<rparr>) = duck w" "duck (w\<lparr>max_fd := x7\<rparr>) = duck w" "duck (w\<lparr>total_connections := x8\<rparr>) = duck w"
  "duck (w\<lparr>read_set := x9\<rparr>) = duck w" "duck (w\<lparr>write_set := x10\<rparr>) = duck w" "duck (w\<lparr>read_set := x9, max_fd := x7\<rparr>) = duck w"
  by (simp_all add: duck_def)

lemma duck_ops [simp]:
  "duck (time_now w) = duck w" "duck (snd (wall_clock w)) = duck w" "duck (close_fd n w) = duck w" "duck (set_req i r w) = duck w"
  "duck (BOA_FD_SET n d w) = duck w" "duck (BOA_FD_CLR n d w) = duck w"
  "duck (enqueue_ready i w) = duck w" "duck (enqueue_block i w) = duck w" "duck (enqueue_free i w) = duck w"
  "duck (dequeue_ready i w) = duck w" "duck (dequeue_block i w) = duck w"
  by (auto simp: time_now_def wall_clock_def close_fd_def set_req_def duck_def enqueue_ready_def enqueue_block_def enqueue_free_def
      dequeue_ready_def dequeue_block_def split: list.split prod.split)
     (cases d; simp)+

lemma duck_more [simp]:
  "duck (block_request i w) = duck w" "duck (ready_request i w) = duck w" "duck (release_resources i w) = duck w"
  "duck (log_request i w) = duck w" "duck (next_on_connection i w) = duck w" "duck (close_connection i w) = duck w"
  by (auto simp: block_request_def ready_request_def release_resources_def log_request_def next_on_connection_def
      close_connection_def wall_clock_def Let_def split: prod.split list.split)

lemma duck_free_request [simp]: "duck (free_request i w) = duck w"
  by (auto simp: free_request_def Let_def split: prod.split)

lemma duck_fdset_step [simp]: "duck (snd (fdset_step i w)) = duck w"
proof -
  have wake: "duck (wake_or_wait i n d v) = duck v" for n d v by (simp add: wake_or_wait_def)
  obtain cur w' where s: "fdset_step i w = (cur, w')" by fastforce
  then have "w' = ready_request i (after_timeout i w) \<or> duck w' = duck (after_timeout i w)"
    using wake unfolding fdset_step_def Let_def after_timeout_def [symmetric] prod.inject by (auto split: req_status.splits if_splits)
  then show ?thesis using s by (auto simp: after_timeout_def)
qed

lemma duck_update_all [simp]: "duck (update_all xs w) = duck w"
proof (induction xs arbitrary: w)
  case (Cons i xs)
  then show ?case by (simp add: update_all_def)
qed (simp add: update_all_def)

lemma duck_process_step:
  assumes "process_step i w = Some (cur, w')" and "\<not> pending_requests w"
  shows "duck w' = duck w"
proof -
  have "pending_requests (time_now w) = pending_requests w" using duck_ops(1) [of w] by (simp add: duck_def)
  then have n: "\<not> pending_requests (set_req i r ((time_now w)\<lparr>srv := sv\<rparr>))" for r sv using assms(2) by (simp add: set_req_def)
  show ?thesis
    using assms(1) unfolding process_step_def Let_def if_not_P [OF n] by (auto split: option.splits prod.splits if_splits)
qed

lemma duck_serve_all: "serve_all xs w = Some w' \<Longrightarrow> \<not> pending_requests w \<Longrightarrow> duck w' = duck w"
proof (induction xs arbitrary: w)
  case (Cons i xs)
  then obtain cur w1 where p: "process_step i w = Some (cur, w1)" and s: "serve_all xs w1 = Some w'" by (auto split: option.splits)
  note d = duck_process_step [OF p Cons.prems(2)]
  then have "\<not> pending_requests w1" using Cons.prems(2) by (simp add: duck_def)
  then show ?case using Cons.IH [OF s] d by simp
qed simp

lemma loop_turn_cases:
  assumes "loop_turn w = Some (Some w')"
  obtains (interrupted) w1 where "watch_server w = Some w1" "wait_select w1 = Some (False, w')"
  | (served) w1 w2 w3 where "watch_server w = Some w1" "wait_select w1 = Some (True, w2)"
      "(if request_block w2 \<noteq> None then fdset_update (w2\<lparr>max_fd := -1\<rparr>) else Some (w2\<lparr>max_fd := -1\<rparr>)) = Some w3"
      "(if pending_requests w3 \<or> request_ready w3 \<noteq> None then process_requests w3 else Some (Some w3)) = Some (Some w')"
proof -
  obtain w1 where w1: "watch_server w = Some w1" using assms by (cases "watch_server w") (auto simp: loop_turn_def)
  obtain b w2 where w2: "wait_select w1 = Some (b, w2)" using assms w1 by (cases "wait_select w1") (auto simp: loop_turn_def)
  show thesis
  proof (cases b)
    case True
    let ?u = "if request_block w2 \<noteq> None then fdset_update (w2\<lparr>max_fd := -1\<rparr>) else Some (w2\<lparr>max_fd := -1\<rparr>)"
    have t: "(case ?u of None \<Rightarrow> None | Some w \<Rightarrow> if pending_requests w \<or> request_ready w \<noteq> None then process_requests w else Some (Some w)) = Some (Some w')"
      using assms True w1 w2 by (simp add: loop_turn_def Let_def)
    then obtain w3 where w3: "?u = Some w3" by (cases ?u) auto
    have w2': "wait_select w1 = Some (True, w2)" using w2 True by simp
    from served [OF w1 w2' w3 t [unfolded w3 option.case]] show thesis .
  next
    case False
    then show thesis using interrupted w1 w2 assms by (simp add: loop_turn_def)
  qed
qed

lemma watch_server_duck:
  assumes "watch_server w = Some w'" and "sigterm_flag w \<noteq> 0"
  shows "accept_script w' = accept_script w" "sigterm_flag w' = (if sigterm_flag w = 1 then 2 else sigterm_flag w)"
    "server_s w' = (if sigterm_flag w = 1 then None else server_s w)"
proof -
  have d: "duck w' = (accept_script w, (if sigterm_flag w = 1 then 2 else sigterm_flag w), pending_requests w,
      (if sigterm_flag w = 1 then None else server_s w))"
    using assms duck_ops(1,3,6)
    by (auto simp: watch_server_def sigterm_stage1_run_def Let_def duck_def split: if_splits option.splits)
  then show "accept_script w' = accept_script w" "sigterm_flag w' = (if sigterm_flag w = 1 then 2 else sigterm_flag w)"
    "server_s w' = (if sigterm_flag w = 1 then None else server_s w)" by (simp_all add: duck_def)
qed

lemma wait_select_duck:
  assumes "wait_select w = Some (b, w')" and "sigterm_flag w \<noteq> 0"
  shows "duck w' = (accept_script w, sigterm_flag w, False, server_s w)"
  using assms duck_ops(1)
  by (auto simp: wait_select_def Let_def duck_def split: if_splits list.splits select_result.splits)

lemma process_requests_duck:
  assumes "well_formed w" and "process_requests w = Some (Some w')" and "\<not> pending_requests w"
  shows "duck w' = duck w"
proof -
  obtain rd bl fr where ok: "world_ok w rd bl fr" using assms(1) by (auto simp: well_formed_def)
  have a: "accept_first w = w" using assms(3) by (simp add: accept_first_def)
  have "dlist (q_links w) (request_ready w) rd" using ok by (simp add: world_ok_def queues_def)
  then have "serve_all rd w = Some w'" using process_requests_eq [OF ok, unfolded a] assms(2) by simp
  then show ?thesis using assms(3) by (rule duck_serve_all)
qed

lemma loop_turn_duck:
  assumes "well_formed w" and "loop_turn w = Some (Some w')" and "sigterm_flag w \<noteq> 0"
  shows "accept_script w' = accept_script w \<and> sigterm_flag w' = (if sigterm_flag w = 1 then 2 else sigterm_flag w) \<and>
    server_s w' = (if sigterm_flag w = 1 then None else server_s w)"
  using assms(2)
proof (cases rule: loop_turn_cases)
  case (interrupted w1)
  note s = watch_server_duck [OF interrupted(1) assms(3)]
  have "sigterm_flag w1 \<noteq> 0" using s(2) assms(3) by simp
  from wait_select_duck [OF interrupted(2) this] s show ?thesis by (simp add: duck_def)
next
  case (served w1 w2 w3)
  note s = watch_server_duck [OF served(1) assms(3)]
  have f: "sigterm_flag w1 \<noteq> 0" using s(2) assms(3) by simp
  note d2 = wait_select_duck [OF served(2) f]
  define w2' where "w2' = w2\<lparr>max_fd := -1\<rparr>"
  have "qview w2' = qview w"
    using wait_select_qview [OF served(2)] watch_server_qview [OF served(1)] by (simp add: w2'_def)
  then have ok: "well_formed w2'" using assms(1) well_formed_frame by blast
  then obtain rd bl fr where wok: "world_ok w2' rd bl fr" by (auto simp: well_formed_def)
  note u = served(3) [folded w2'_def]
  have "duck w3 = duck w2' \<and> well_formed w3"
    using u ok fdset_update_eq [OF wok] fdset_update_well_formed [OF ok] by (auto split: if_splits)
  then have d3: "duck w3 = duck w2" and ok3: "well_formed w3" by (simp_all add: w2'_def)
  have p: "\<not> pending_requests w3" using d3 d2 by (simp add: duck_def)
  have "duck w' = duck w3" using served(4) process_requests_duck [OF ok3 _ p] by (auto split: if_splits)
  then show ?thesis using d3 d2 s by (simp add: duck_def)
qed

section \<open>Properties\<close>

text \<open>C1: The invariant of the daemon. From its start, whatever clients, files and system calls do, and however the signals
  SIGHUP, SIGCHLD, SIGALRM and SIGTERM and edits of the configuration file interleave with the turns of
  the main loop, every turn ends, in a new state or in the exit of the process, and in every state reached the three queues
  are consistent and disjoint and the counter of connections is the number of requests that are ready or blocked.
\<close>

theorem daemon_invariant:
  assumes "started (d_world d0)" and "daemon_step\<^sup>*\<^sup>* d0 d"
  shows "daemon_turn d \<noteq> None \<and>
     (\<exists>rd bl fr. queues (d_world d) rd bl fr \<and> total_connections (d_world d) = of_nat (length rd + length bl))"
proof -
  have "well_formed (d_world d)" using assms(2,1) by (rule running_well_formed)
  then show ?thesis using daemon_turn_well_formed [of d] by (auto simp: well_formed_def world_ok_def)
qed

definition example_daemon :: daemon where
  "example_daemon = \<lparr>d_world = example_start, d_vars = example_settings, d_env = example_env, d_stack = [],
     config_file_name = ''boa.conf'', sighup_flag = False, sigchld_flag = False, sigalrm_flag = False, wait_script = []\<rparr>"

theorem daemon_invariant_witness:
  "daemon_turn (sigterm (sighup example_daemon)) \<noteq> None"
proof -
  have s: "started (d_world example_daemon)" by (simp add: started_def example_daemon_def example_start_def example_world_def)
  have "daemon_step\<^sup>*\<^sup>* example_daemon (sigterm (sighup example_daemon))"
    using daemon_step.hup daemon_step.trm by (meson converse_rtranclp_into_rtranclp r_into_rtranclp)
  with daemon_invariant [OF s] show ?thesis by blast
qed

text \<open>C18: A restart does not disturb connections. Reading the configuration again on SIGHUP ends; when the new configuration is
  accepted, every request is what it was, in the queue and at the place where it was, with its descriptors and file mappings,
  the structures kept for reuse are given back, and the limit of connections fits the descriptor set.
\<close>

theorem restart_keeps_requests:
  assumes "world_ok (d_world d) rd bl fr"
  shows "case sighup_run d of
      None \<Rightarrow> False
    | Some (Inl e) \<Rightarrow> True
    | Some (Inr d') \<Rightarrow>
        world_ok (d_world d') rd bl [] \<and> reqs (d_world d') = reqs (d_world d) \<and>
        open_fds (srv (d_world d')) = open_fds (srv (d_world d)) \<and> mmaps (srv (d_world d')) = mmaps (srv (d_world d)) \<and>
        max_connections (srv (d_world d')) \<le> FD_SETSIZE - 20"
proof -
  have r: "open_fds (srv (time_now w)) = open_fds (srv w)" "mmaps (srv (time_now w)) = mmaps (srv w)" for w
    by (auto simp: time_now_def wall_clock_def split: list.split)
  obtain x where x: "sighup_run d = Some x" and ok: "\<And>d'. x = Inr d' \<Longrightarrow> world_ok (d_world d') rd bl [] \<and>
      reqs (d_world d') = reqs (d_world d) \<and> runtime (srv (d_world d')) = runtime (srv (time_now (d_world d))) \<and>
      srv (d_world d') = configured (d_vars d') \<and>
      (\<exists>st. read_config_files (d_env d) (config_file_name d) (d_stack d) st = Inr (d_vars d'))"
    using sighup_run_ok [OF assms] by blast
  show ?thesis
  proof (cases x)
    case (Inr d')
    from ok [OF this] have "max_connections (srv (d_world d')) \<le> FD_SETSIZE - 20" using max_connections_bounded by fastforce
    moreover have "open_fds (srv (d_world d')) = open_fds (srv (d_world d)) \<and> mmaps (srv (d_world d')) = mmaps (srv (d_world d))"
      using ok [OF Inr] unfolding runtime_def r prod.inject by blast
    ultimately show ?thesis using x Inr ok [OF Inr] by simp
  qed (simp add: x)
qed

theorem restart_keeps_requests_witness:
  "\<exists>d'. sighup_run example_daemon = Some (Inr d') \<and> world_ok (d_world d') [] [] [] \<and>
     max_connections (srv (d_world d')) \<le> FD_SETSIZE - 20"
proof -
  have w: "world_ok (d_world example_daemon) [] [] []"
    by (simp add: example_daemon_def example_start_def example_world_def world_ok_def queues_def dlist_def)
  obtain st where "read_config_files example_env ''boa.conf'' [] example_settings = Inr st" using example_accepted by blast
  moreover have "range_pool_empty (dump_tables example_server) = example_server"
    by (simp add: dump_tables_def dump_alias_def dump_mime_def dump_passwd_def hash_clear_def example_server_def
        range_pool_empty.simps ALIAS_HASHTABLE_SIZE_def)
  moreover have "free_requests (w\<lparr>srv := sv\<rparr>) = Some (w\<lparr>srv := sv\<rparr>)" if "request_free w = None" for w :: world and sv
    using that by (simp add: free_requests_def while_option_unfold [of _ _ None])
  moreover have "time_now example_start = example_start" "request_free example_start = None" "srv example_start = example_server"
    by (simp_all add: time_now_def wall_clock_def example_start_def example_world_def example_server_def)
  ultimately have "\<exists>d'. sighup_run example_daemon = Some (Inr d')"
    by (simp add: sighup_run_def example_daemon_def Let_def) (simp add: example_settings_def)
  then show ?thesis using restart_keeps_requests [OF w] by auto
qed

text \<open>C19: Shutting down. In the turn after SIGTERM the server closes its socket; from then on no connection is accepted, the
  requests that are there are served to their end, and the process exits normally exactly when none is left.
\<close>

theorem shutdown_drains:
  assumes "world_ok w rd bl fr" and "sigterm_flag w = 1 \<or> sigterm_flag w = 2 \<and> server_s w = None"
  shows "(watch_server w = None \<longleftrightarrow> rd = [] \<and> bl = []) \<and>
     (case loop_turn w of
        Some (Some w') \<Rightarrow> sigterm_flag w' = 2 \<and> server_s w' = None \<and> accept_script w' = accept_script w
      | _ \<Rightarrow> True)"
proof -
  have d: "dlist (q_links w) (request_ready w) rd" "dlist (q_links w) (request_block w) bl"
    using assms(1) by (simp_all add: world_ok_def queues_def)
  then have e: "request_ready w = None \<longleftrightarrow> rd = []" "request_block w = None \<longleftrightarrow> bl = []"
    using dlist_first [OF d(1)] dlist_first [OF d(2)] by (cases rd; cases bl; simp add: first_of_def)+
  define w1 where "w1 = (if sigterm_flag w = 1
      then (let w = sigterm_stage1_run w in case server_s w of None \<Rightarrow> w
        | Some s \<Rightarrow> (close_fd s (BOA_FD_CLR s BOA_READ w))\<lparr>server_s := None\<rparr>) else w)"
  have "request_ready w1 = request_ready w \<and> request_block w1 = request_block w \<and> sigterm_flag w1 = 2"
    using assms(2) by (auto simp: w1_def sigterm_stage1_run_def time_now_def wall_clock_def close_fd_def Let_def split: option.split list.split)
  moreover have "watch_server w = (if sigterm_flag w1 = 2 \<and> request_ready w1 = None \<and> request_block w1 = None then None else Some w1)"
    using assms(2) unfolding w1_def watch_server_def by (auto simp: Let_def)
  ultimately have "watch_server w = None \<longleftrightarrow> rd = [] \<and> bl = []" using e by simp
  moreover have "well_formed w" using assms(1) by (auto simp: well_formed_def)
  ultimately show ?thesis using loop_turn_duck [of w] assms(2) by (auto split: option.split)
qed

theorem shutdown_drains_witness:
  "watch_server (example_start\<lparr>sigterm_flag := 1\<rparr>) = None \<and> watch_server (example_world\<lparr>sigterm_flag := 1\<rparr>) \<noteq> None"
proof -
  have "qview (w\<lparr>sigterm_flag := 1\<rparr>) = qview w" for w by (simp add: qview_def)
  then have f: "world_ok (w\<lparr>sigterm_flag := 1\<rparr>) rd bl fr = world_ok w rd bl fr" for w rd bl fr using queues_frame(2) by blast
  have "world_ok (example_start\<lparr>sigterm_flag := 1\<rparr>) [] [] []" "world_ok (example_world\<lparr>sigterm_flag := 1\<rparr>) [0, 1] [] []"
    unfolding f using example_world_ok(1) by (simp_all add: example_start_def example_world_def world_ok_def queues_def dlist_def)
  from shutdown_drains [OF this(1)] shutdown_drains [OF this(2)] show ?thesis by simp
qed

text \<open>
  The environment for CGI programs is not cleared on SIGHUP and every \<open>CGIEnv\<close> line is added to it again: when it is full, the
  next restart ends the process.
\<close>

lemma full_environment_exits: "length (common_cgi_env sv) \<ge> CGI_ENV_MAX \<Longrightarrow> add_to_common_env key val sv = None"
  by (auto simp: add_to_common_env_def env_gen_extra_def try_alloc_def Let_def split: prod.split)

end
