(* ===== verification/Cgi_Child.thy ===== *)
theory Cgi_Child
  imports Cgi Process
begin

text \<open>
  The other side of \<open>init_cgi\<close> (\<open>cgi.c\<close>): the process that becomes the program, with its descriptors and signals, and the descriptors of the
  server while it runs. A step of the server is one of the places where the sources open or close descriptors.
\<close>

section \<open>The program\<close>

text \<open>
  What is executed: the directory, the path, the arguments and the environment, the mask for new files and the process. The variables of
  \<open>execl\<close> are those of the server (\<open>environ\<close>). The \<open>gunzip\<close> program is a constant that the build determines.
\<close>

record program =
  x_dir :: "string option"
  x_path :: string
  x_argv :: "string list"
  x_env :: "string list"
  x_umask :: int
  x_process :: process

record program_config =
  gunzip :: string
  environ :: "string list"
  cgi_umask :: int
  cgi_log_fd :: nat

text \<open>Standard output becomes the pipe or the socket. The result says whether the child goes on.\<close>

definition tie_stdout :: "request \<Rightarrow> nat \<times> nat \<Rightarrow> process \<Rightarrow> bool \<times> process" where
  "tie_stdout r pipes p =
     (let from = (if use_pipes r then snd pipes else fd r);
          p = (if use_pipes r then os_close (fst pipes) p else p)
      in case os_dup2 from 1 p of (ok, p) \<Rightarrow>
           if \<not> ok then (False, p)
           else set_block_fd 1 (os_close from p))"

text \<open>The file with the body, from its start, becomes standard input.\<close>

definition tie_stdin :: "request \<Rightarrow> process \<Rightarrow> process" where
  "tie_stdin r p =
     (if req_method r = M_POST
      then os_close (post_data_fd r) (snd (os_dup2 (post_data_fd r) 0 (os_lseek (post_data_fd r) 0 p)))
      else p)"

definition tie_stderr :: "program_config \<Rightarrow> process \<Rightarrow> process" where
  "tie_stderr cf p = (if cgi_log_fd cf \<noteq> 0 then snd (os_dup2 (cgi_log_fd cf) 2 p) else p)"

text \<open>\<open>execve\<close> or \<open>execl\<close>; \<open>None\<close> is the exit of the child when they fail.\<close>

definition exec_program :: "program_config \<Rightarrow> request \<Rightarrow> server \<Rightarrow> string option \<Rightarrow> string \<Rightarrow> process \<Rightarrow> program option" where
  "exec_program cf r sv dir path p =
     (case answer p of (ok, p) \<Rightarrow>
        if \<not> ok then None
        else
          (let run = (\<lambda>prog args env. \<lparr>x_dir = dir, x_path = prog, x_argv = args, x_env = env, x_umask = cgi_umask cf, x_process = os_exec p\<rparr>) in
           if cgi_type r \<noteq> CGI_NONE then Some (run path (create_argv path (query_string r)) (cgi_env r))
           else if ends_with_slash path then
             map_option (\<lambda>prog. run prog [prog, path, request_uri r] (environ cf)) (dirmaker sv)
           else if build_gunzip sv then Some (run (gunzip cf) [gunzip cf, ''--stdout'', ''--decompress'', path] (environ cf))
           else None))"

definition cgi_child :: "program_config \<Rightarrow> request \<Rightarrow> server \<Rightarrow> nat \<times> nat \<Rightarrow> process \<Rightarrow> program option" where
  "cgi_child cf r sv pipes p =
     (let p = reset_signals p in
      case child_path r sv of
        None \<Rightarrow> None
      | Some (dir, path, sv) \<Rightarrow>
          (case tie_stdout r pipes p of (ok, p) \<Rightarrow>
             if \<not> ok then None else exec_program cf r sv dir path (tie_stderr cf (tie_stdin r p))))"

text \<open>The server's side: the program, the end of the pipe the server keeps, and the server's process.\<close>

definition start_program :: "program_config \<Rightarrow> request \<Rightarrow> server \<Rightarrow> process \<Rightarrow> (program option \<times> nat) option \<times> process" where
  "start_program cf r sv p =
     (let close_body = (\<lambda>p. if req_method r = M_POST then os_close (post_data_fd r) p else p) in
      if use_pipes r then
        (case os_pipe p of
           (None, p) \<Rightarrow> (None, p)
         | (Some (rd, wrt), p) \<Rightarrow>
             (case set_nonblock_fd rd p of (ok, p) \<Rightarrow>
                if \<not> ok then (None, os_close wrt (os_close rd p))
                else case answer p of (forked, p) \<Rightarrow>
                  if \<not> forked then (None, os_close wrt (os_close rd p))
                  else (Some (cgi_child cf r sv (rd, wrt) p, rd), os_close wrt (close_body p))))
      else
        (case answer p of (forked, p) \<Rightarrow>
           if \<not> forked then (None, p) else (Some (cgi_child cf r sv (0, 0) p, 0), close_body p)))"

section \<open>The descriptors of the server\<close>

text \<open>
  A connection (\<open>get_request\<close>): what else can fail, the address or memory, closes it as the two flags do. Numbers that do not fit
  into a descriptor set are closed at once.
\<close>

definition accept_fd :: "process \<Rightarrow> process" where
  "accept_fd p =
     (case os_new Socket p of
        (None, p) \<Rightarrow> p
      | (Some n, p) \<Rightarrow>
          if n \<ge> FD_SETSIZE then os_close n p
          else case answer p of (ok, p) \<Rightarrow>
            if \<not> ok then os_close n p
            else case set_nonblock_fd n p of (ok, p) \<Rightarrow>
              if \<not> ok then os_close n p
              else case os_cloexec n p of (ok, p) \<Rightarrow>
                if \<not> ok then os_close n p
                else case answer p of (ok, p) \<Rightarrow> if \<not> ok then os_close n p else p)"

text \<open>The file for a body (\<open>create_temporary_file\<close> and \<open>process_header_end\<close>).\<close>

definition body_fd :: "process \<Rightarrow> process" where
  "body_fd p =
     (case os_new Body p of
        (None, p) \<Rightarrow> p
      | (Some n, p) \<Rightarrow>
          (case answer p of (unlinked, p) \<Rightarrow>
             if \<not> unlinked then os_close n p
             else case os_cloexec n p of (ok, p) \<Rightarrow> if \<not> ok then os_close n p else p))"

text \<open>A file that is served (\<open>init_get\<close>, \<open>get_dir\<close>).\<close>

definition serve_fd :: "process \<Rightarrow> process" where
  "serve_fd p = snd (os_new Served p)"

text \<open>The descriptors in \<open>kept\<close> are never closed.\<close>

inductive server_act :: "nat set \<Rightarrow> process \<Rightarrow> process \<Rightarrow> bool" for kept where
  connection: "server_act kept p (accept_fd p)"
| body: "server_act kept p (body_fd p)"
| serve: "server_act kept p (serve_fd p)"
| start: "(req_method r = M_POST \<Longrightarrow> post_data_fd r \<notin> kept) \<Longrightarrow> start_program cf r sv p = (x, p') \<Longrightarrow> server_act kept p p'"
| shut: "n \<notin> kept \<Longrightarrow> server_act kept p (os_close n p)"

section \<open>The descriptors stay in order\<close>

text \<open>
  What a program that is started later may get without being meant to. A socket of a log is among it only when \<open>lost\<close> says that the
  start left one behind.
\<close>

fun inheritable :: "bool \<Rightarrow> open_file \<Rightarrow> bool" where
  "inheritable lost (Given n) = True"
| "inheritable lost (Served n) = True"
| "inheritable lost (Pipe_r n) = True"
| "inheritable lost (Log_socket n) = lost"
| "inheritable lost f = False"

lemma inheritable_mono: "inheritable False f \<Longrightarrow> inheritable lost f"
  by (cases f) simp_all

definition secluded :: "bool \<Rightarrow> process \<Rightarrow> bool" where
  "secluded lost p \<longleftrightarrow> (\<forall>n d. fds p n = Some d \<longrightarrow> n \<le> 2 \<or> d_cloexec d \<or> inheritable lost (d_file d))"

definition keeps :: "bool \<Rightarrow> nat set \<Rightarrow> process \<Rightarrow> process \<Rightarrow> bool" where
  "keeps lost kept p0 p \<longleftrightarrow> secluded lost p \<and> sigs p = sigs p0 \<and> (\<forall>n \<in> kept. fds p n = fds p0 n)"

text \<open>A step that adds at most one descriptor.\<close>

definition grows :: "process \<Rightarrow> process \<Rightarrow> bool" where
  "grows p p' \<longleftrightarrow>
     sigs p' = sigs p \<and>
     (fds p' = fds p \<or>
      (\<exists>n d. fds p n = None \<and> fds p' = (fds p)(n \<mapsto> d) \<and> (d_cloexec d \<or> inheritable False (d_file d))))"

lemma opened_grows:
  assumes "opened n f p q" and "sigs p' = sigs q"
    and "fds p' = (fds q)(n := None) \<or> fds p' = (fds q)(n \<mapsto> \<lparr>d_file = f, d_cloexec = True\<rparr>) \<or> inheritable False f \<and> fds p' = fds q"
  shows "grows p p'"
proof -
  have q: "fds p n = None" "fds q = (fds p)(n \<mapsto> \<lparr>d_file = f, d_cloexec = False\<rparr>)" "sigs q = sigs p"
    using assms(1) by (simp_all add: opened_def rest_def)
  then have "(fds q)(n := None) = fds p" by (auto simp: fun_eq_iff)
  then show ?thesis using assms(2,3) q unfolding grows_def by fastforce
qed

lemma serve_fd_grows: "grows p (serve_fd p)"
proof -
  obtain r q where o: "os_new Served p = (r, q)" by fastforce
  show ?thesis
    using os_new_result [OF o] opened_grows [of _ _ p q q]
    by (cases r) (auto simp: serve_fd_def o grows_def rest_def)
qed

lemma body_fd_grows: "grows p (body_fd p)"
proof -
  obtain r q where o: "os_new Body p = (r, q)" by fastforce
  obtain ok1 q1 where a: "answer q = (ok1, q1)" by fastforce
  show ?thesis
  proof (cases r)
    case None
    then show ?thesis using os_new_result [OF o] by (simp add: body_fd_def o grows_def rest_def)
  next
    case (Some n)
    obtain ok2 q2 where c: "os_cloexec n q1 = (ok2, q2)" by fastforce
    have op: "opened n (Body (fresh_file p)) p q" using os_new_result [OF o] Some by simp
    show ?thesis
      using answer_frame [OF a] os_cloexec_result [OF c] op
      by (intro opened_grows [OF op]) (auto simp: body_fd_def o Some a c rest_def opened_def split: if_splits)
  qed
qed

lemma accept_fd_grows: "grows p (accept_fd p)"
proof -
  obtain r q where o: "os_new Socket p = (r, q)" by fastforce
  show ?thesis
  proof (cases r)
    case None
    then show ?thesis using os_new_result [OF o] by (simp add: accept_fd_def o grows_def rest_def)
  next
    case (Some n)
    obtain ok1 q1 where a: "answer q = (ok1, q1)" by fastforce
    obtain ok2 q2 where b: "set_nonblock_fd n q1 = (ok2, q2)" by fastforce
    obtain ok3 q3 where c: "os_cloexec n q2 = (ok3, q3)" by fastforce
    obtain ok4 q4 where d: "answer q3 = (ok4, q4)" by fastforce
    have op: "opened n (Socket (fresh_file p)) p q" using os_new_result [OF o] Some by simp
    show ?thesis
      using answer_frame [OF a] set_nonblock_fd_result(1,2) [OF b] os_cloexec_result [OF c] answer_frame [OF d] op
      by (intro opened_grows [OF op]) (auto simp: accept_fd_def o Some a b c d rest_def opened_def split: if_splits)
  qed
qed

lemma grows_keeps:
  assumes "grows p p'" and "keeps lost kept p0 p" and "\<forall>n \<in> kept. fds p0 n \<noteq> None"
  shows "keeps lost kept p0 p'"
proof -
  consider "sigs p' = sigs p" "fds p' = fds p"
    | n d where "sigs p' = sigs p" "fds p n = None" "fds p' = (fds p)(n \<mapsto> d)" "d_cloexec d \<or> inheritable False (d_file d)"
    using assms(1) unfolding grows_def by blast
  then show ?thesis
  proof cases
    case 1
    then show ?thesis using assms(2) by (simp add: keeps_def secluded_def)
  next
    case (2 n d)
    have "n \<notin> kept" using 2(2) assms(2,3) by (auto simp: keeps_def)
    then show ?thesis using assms(2) 2 inheritable_mono [of "d_file d" lost] by (auto simp: keeps_def secluded_def)
  qed
qed

lemma close_keeps: "keeps lost kept p0 p \<Longrightarrow> n \<notin> kept \<Longrightarrow> keeps lost kept p0 (os_close n p)"
  by (auto simp: keeps_def secluded_def os_close_def)

section \<open>Starting a program\<close>

definition without_body :: "request \<Rightarrow> (nat \<rightharpoonup> 'd) \<Rightarrow> nat \<rightharpoonup> 'd" where
  "without_body r t = (if req_method r = M_POST then t(post_data_fd r := None) else t)"

lemma start_program_cases:
  assumes "start_program cf r sv p = (x, p')"
  obtains (failed) "x = None" "fds p' = fds p" "sigs p' = sigs p"
  | (pipe) rd w k q where "use_pipes r" "fds p rd = None" "fds p w = None" "rd < w"
      "fds q = (fds p)(rd \<mapsto> \<lparr>d_file = Pipe_r k, d_cloexec = False\<rparr>, w \<mapsto> \<lparr>d_file = Pipe_w k, d_cloexec = False\<rparr>)" "sigs q = sigs p"
      "x = Some (cgi_child cf r sv (rd, w) q, rd)" "sigs p' = sigs p"
      "fds p' = (without_body r ((fds p)(rd \<mapsto> \<lparr>d_file = Pipe_r k, d_cloexec = False\<rparr>)))(w := None)" "answers p = [] \<Longrightarrow> answers q = []"
  | (direct) q where "\<not> use_pipes r" "fds q = fds p" "sigs q = sigs p" "x = Some (cgi_child cf r sv (0, 0) q, 0)"
      "fds p' = without_body r (fds p)" "sigs p' = sigs p" "answers p = [] \<Longrightarrow> answers q = []"
proof (cases "use_pipes r")
  case True
  obtain res q1 where o: "os_pipe p = (res, q1)" by fastforce
  note R = os_pipe_result [OF o]
  show ?thesis
  proof (cases res)
    case None
    then show ?thesis using assms R True by (intro failed) (auto simp: start_program_def o rest_def)
  next
    case (Some rw)
    obtain rd w where rw: "res = Some (rd, w)" using Some by (cases rw) simp
    obtain ok1 q2 where a: "set_nonblock_fd rd q1 = (ok1, q2)" by fastforce
    obtain ok2 q3 where b: "answer q2 = (ok2, q3)" by fastforce
    note R = R [unfolded rw, simplified] and Q = set_nonblock_fd_result(1,2) [OF a] answer_frame [OF b]
    have ans: "answers q3 = []" if "answers p = []"
      using that o a b by (auto simp: os_pipe_def set_nonblock_fd_def answer_def install_def Let_def split: option.splits prod.splits if_splits list.splits)
    have e: "(x, p') = (if ok1 \<and> ok2 then (Some (cgi_child cf r sv (rd, w) q3, rd), os_close w (if req_method r = M_POST then os_close (post_data_fd r) q3 else q3))
        else (None, os_close w (os_close rd (if ok1 then q3 else q2))))"
      using assms True by (cases ok1; cases ok2) (simp_all add: start_program_def o rw a b)
    show ?thesis
    proof (cases "ok1 \<and> ok2")
      case True
      then show ?thesis using e R Q \<open>use_pipes r\<close> ans by (intro pipe [of rd w q3]) (auto simp: rest_def without_body_def fun_eq_iff)
    next
      case False
      then have x: "x = None" "p' = os_close w (os_close rd (if ok1 then q3 else q2))" using e by auto
      have "((fds q1)(rd := None))(w := None) = fds p" using R by (auto simp: fun_eq_iff)
      then show ?thesis using x R Q by (intro failed) (auto simp: rest_def)
    qed
  qed
next
  case False
  obtain ok q where a: "answer p = (ok, q)" by fastforce
  show ?thesis
  proof (cases ok)
    case True
    then show ?thesis
      using assms False answer_frame [OF a] a
      by (intro direct [of q]) (auto simp: start_program_def without_body_def rest_def answer_def split: list.splits)
  next
    case no: False
    then show ?thesis using assms False answer_frame [OF a] by (intro failed) (auto simp: start_program_def a rest_def)
  qed
qed

lemma start_program_keeps:
  assumes "start_program cf r sv p = (x, p')" and "req_method r = M_POST \<Longrightarrow> post_data_fd r \<notin> kept"
    and "keeps lost kept p0 p" and "\<forall>n \<in> kept. fds p0 n \<noteq> None"
  shows "keeps lost kept p0 p'"
  using assms(1)
proof (cases rule: start_program_cases)
  case failed
  then show ?thesis using assms(3) by (simp add: keeps_def secluded_def)
next
  case (pipe rd w k q)
  have "rd \<notin> kept" "w \<notin> kept" using pipe(2,3) assms(3,4) by (auto simp: keeps_def)
  then show ?thesis using assms(2,3) pipe(4,8,9) by (auto simp: keeps_def secluded_def without_body_def)
next
  case (direct q)
  then show ?thesis using assms(2,3) by (auto simp: keeps_def secluded_def without_body_def)
qed

text \<open>Whatever the server does, the descriptors it keeps stay what they are, and nothing becomes inheritable that should not be.\<close>

lemma server_act_keeps:
  assumes "(server_act kept)\<^sup>*\<^sup>* p0 p" and "secluded lost p0" and "\<forall>n \<in> kept. fds p0 n \<noteq> None"
  shows "keeps lost kept p0 p"
  using assms(1)
proof (induction rule: rtranclp_induct)
  case base
  then show ?case using assms(2) by (simp add: keeps_def)
next
  case (step p p')
  from step(2) show ?case
  proof cases
    case (start r cf sv x)
    then show ?thesis using start_program_keeps [OF start(2) start(1) step.IH assms(3)] by blast
  qed (use grows_keeps [OF _ step.IH assms(3)] close_keeps [OF step.IH] accept_fd_grows body_fd_grows serve_fd_grows in auto)
qed

section \<open>What the program gets\<close>

text \<open>The descriptor that becomes standard output.\<close>

definition out_fd :: "request \<Rightarrow> nat \<times> nat \<Rightarrow> nat" where
  "out_fd r pipes = (if use_pipes r then snd pipes else fd r)"

lemma tie_stdout_result:
  assumes "tie_stdout r pipes p = (True, q)" and "2 < out_fd r pipes" and "use_pipes r \<Longrightarrow> fst pipes \<noteq> snd pipes"
  obtains d where "fds p (out_fd r pipes) = Some d"
    "fds q = (if use_pipes r then (fds p)(fst pipes := None) else fds p)(1 \<mapsto> d\<lparr>d_cloexec := False\<rparr>, out_fd r pipes := None)"
    "sigs q = sigs p" "d_file d \<notin> set (nonblocking q)" "answers p = [] \<Longrightarrow> answers q = []"
proof -
  let ?o = "out_fd r pipes" and ?p = "if use_pipes r then os_close (fst pipes) p else p"
  obtain ok p1 where d: "os_dup2 ?o 1 ?p = (ok, p1)" by fastforce
  have t: "tie_stdout r pipes p = (if \<not> ok then (False, p1) else set_block_fd 1 (os_close ?o p1))"
    unfolding tie_stdout_def Let_def d [unfolded out_fd_def] out_fd_def by (simp only: prod.case)
  then have ok: ok and b: "set_block_fd 1 (os_close ?o p1) = (True, q)" using assms(1) by (cases ok; simp)+
  from os_dup2_result(3) [OF d ok] obtain x where x: "fds ?p ?o = Some x" "fds p1 = (fds ?p)(1 \<mapsto> x\<lparr>d_cloexec := False\<rparr>)"
    using assms(2) by (auto split: if_splits)
  have p: "fds p ?o = Some x" using x(1) assms(3) by (auto simp: out_fd_def split: if_splits)
  have s: "rest p1 = rest ?p" by (rule os_dup2_result(1) [OF d])
  from set_block_fd_result(6) [OF b] obtain y where y: "fds (os_close ?o p1) 1 = Some y" "nonblocking q = removeAll (d_file y) (nonblocking p1)" by auto
  have ans: "answers p = [] \<Longrightarrow> answers q = []"
    using d b by (auto simp: os_dup2_def set_block_fd_def answer_ok split: option.splits if_splits)
  have "d_file y = d_file x" using y(1) x(2) assms(2) by auto
  with ans show thesis
    using that [OF p] set_block_fd_result(1,2) [OF b] x(2) y(2) s by (auto simp: rest_def split: if_splits)
qed

lemma tie_stdin_result:
  obtains ok where "fds (tie_stdin r p) = without_body r (if ok then (fds p)(0 := map_option (d_cloexec_update (\<lambda>_. False)) (fds p (post_data_fd r))) else fds p)"
    "ok \<Longrightarrow> req_method r = M_POST" "answers p = [] \<Longrightarrow> req_method r = M_POST \<Longrightarrow> fds p (post_data_fd r) \<noteq> None \<Longrightarrow> post_data_fd r \<noteq> 0 \<Longrightarrow> ok"
    "sigs (tie_stdin r p) = sigs p" "nonblocking (tie_stdin r p) = nonblocking p"
    "req_method r = M_POST \<Longrightarrow> fds p (post_data_fd r) = Some d \<Longrightarrow> offset (tie_stdin r p) (d_file d) = 0"
    "answers p = [] \<Longrightarrow> answers (tie_stdin r p) = []"
proof (cases "req_method r = M_POST")
  case True
  let ?b = "post_data_fd r" and ?p = "os_lseek (post_data_fd r) 0 p"
  obtain ok q where d: "os_dup2 ?b 0 ?p = (ok, q)" by fastforce
  have e: "tie_stdin r p = os_close ?b q" using True by (simp add: tie_stdin_def d)
  have ans: "answers p = [] \<Longrightarrow> answers q = [] \<and> (fds p ?b \<noteq> None \<longrightarrow> ok)"
    using d by (auto simp: os_dup2_def answer_ok split: option.splits if_splits)
  have off: "fds p ?b = Some d \<Longrightarrow> offset q (d_file d) = 0" using os_dup2_result(1) [OF d] by (simp add: rest_def os_lseek_def)
  show thesis
  proof (rule that [of "ok \<and> ?b \<noteq> 0"])
    show "fds (tie_stdin r p) = without_body r (if ok \<and> ?b \<noteq> 0 then (fds p)(0 := map_option (d_cloexec_update (\<lambda>_. False)) (fds p ?b)) else fds p)"
      using os_dup2_result(2,3) [OF d] True by (cases ok) (auto simp: e without_body_def)
  qed (use True ans os_dup2_result(1) [OF d] off in \<open>auto simp: e rest_def\<close>)
next
  case False
  then show thesis by (intro that [of False]) (simp_all add: tie_stdin_def without_body_def)
qed

lemma tie_stderr_result:
  obtains ok where "fds (tie_stderr cf p) = (if ok then (fds p)(2 := map_option (d_cloexec_update (\<lambda>_. False)) (fds p (cgi_log_fd cf))) else fds p)"
    "ok \<Longrightarrow> cgi_log_fd cf \<noteq> 0"
    "answers p = [] \<Longrightarrow> cgi_log_fd cf \<noteq> 0 \<Longrightarrow> cgi_log_fd cf \<noteq> 2 \<Longrightarrow> fds p (cgi_log_fd cf) \<noteq> None \<Longrightarrow> ok"
    "rest (tie_stderr cf p) = rest p" "answers p = [] \<Longrightarrow> answers (tie_stderr cf p) = []"
proof (cases "cgi_log_fd cf = 0")
  case False
  obtain ok q where d: "os_dup2 (cgi_log_fd cf) 2 p = (ok, q)" by fastforce
  have ans: "answers p = [] \<Longrightarrow> answers q = [] \<and> (fds p (cgi_log_fd cf) \<noteq> None \<longrightarrow> ok)"
    using d by (auto simp: os_dup2_def answer_ok split: option.splits if_splits)
  show thesis
  proof (rule that [of "ok \<and> cgi_log_fd cf \<noteq> 2"])
    show "fds (tie_stderr cf p) = (if ok \<and> cgi_log_fd cf \<noteq> 2 then (fds p)(2 := map_option (d_cloexec_update (\<lambda>_. False)) (fds p (cgi_log_fd cf))) else fds p)"
      using os_dup2_result(2,3) [OF d] False by (cases ok) (auto simp: tie_stderr_def d)
  qed (use False ans os_dup2_result(1) [OF d] in \<open>auto simp: tie_stderr_def d\<close>)
qed (intro that [of False]; simp add: tie_stderr_def)

lemma exec_program_result:
  assumes "exec_program cf r sv dir path p = Some x"
  shows "fds (x_process x) n = (case fds p n of Some d \<Rightarrow> if d_cloexec d then None else Some d | None \<Rightarrow> None)"
    and "sigs (x_process x) = exec_sig \<circ> sigs p" and "nonblocking (x_process x) = nonblocking p" and "offset (x_process x) = offset p"
proof -
  obtain ok q where a: "answer p = (ok, q)" by fastforce
  have x: "x_process x = os_exec q" using assms by (auto simp: exec_program_def a Let_def split: if_splits)
  show "fds (x_process x) n = (case fds p n of Some d \<Rightarrow> if d_cloexec d then None else Some d | None \<Rightarrow> None)"
    "sigs (x_process x) = exec_sig \<circ> sigs p" "nonblocking (x_process x) = nonblocking p" "offset (x_process x) = offset p"
    using answer_frame [OF a] by (simp_all add: x fds_exec) (simp_all add: os_exec_def rest_def)
qed

text \<open>The descriptors the child closes.\<close>

definition own_fds :: "request \<Rightarrow> nat \<times> nat \<Rightarrow> nat set" where
  "own_fds r pipes =
     {out_fd r pipes} \<union> (if use_pipes r then {fst pipes} else {}) \<union> (if req_method r = M_POST then {post_data_fd r} else {})"

definition child_ready :: "request \<Rightarrow> nat \<times> nat \<Rightarrow> process \<Rightarrow> bool" where
  "child_ready r pipes p \<longleftrightarrow>
     (\<forall>n \<in> own_fds r pipes. 2 < n) \<and> (use_pipes r \<longrightarrow> fst pipes \<noteq> snd pipes) \<and>
     (req_method r = M_POST \<longrightarrow> post_data_fd r \<noteq> out_fd r pipes \<and> (use_pipes r \<longrightarrow> post_data_fd r \<noteq> fst pipes) \<and> fds p (post_data_fd r) \<noteq> None)"

lemma cgi_child_descriptors:
  assumes "cgi_child cf r sv pipes p = Some x" and "child_ready r pipes p"
    and "cgi_log_fd cf = 0 \<or> 2 < cgi_log_fd cf \<and> cgi_log_fd cf \<notin> own_fds r pipes \<and> fds p (cgi_log_fd cf) \<noteq> None"
  defines "q \<equiv> x_process x"
  shows "\<exists>d. fds p (out_fd r pipes) = Some d \<and> fds q 1 = Some (d\<lparr>d_cloexec := False\<rparr>) \<and> d_file d \<notin> set (nonblocking q)"
    and "2 < n \<Longrightarrow> fds q n = Some e \<Longrightarrow> fds p n = Some e \<and> \<not> d_cloexec e \<and> n \<notin> own_fds r pipes"
    and "sigs q = (\<lambda>s. SIG_DFL)"
    and "answers p = [] \<Longrightarrow> req_method r = M_POST \<Longrightarrow> fds p (post_data_fd r) = Some b \<Longrightarrow>
      fds q 0 = Some (b\<lparr>d_cloexec := False\<rparr>) \<and> offset q (d_file b) = 0"
    and "req_method r = M_POST \<Longrightarrow> fds p (post_data_fd r) = Some b \<Longrightarrow> fds p 0 = Some i \<Longrightarrow> \<not> d_cloexec i \<Longrightarrow>
      offset q (d_file b) = 0 \<and> fds q 0 \<in> {Some (b\<lparr>d_cloexec := False\<rparr>), Some i}"
    and "cgi_log_fd cf \<noteq> 0 \<Longrightarrow> fds p (cgi_log_fd cf) = Some l \<Longrightarrow> fds p 2 = Some m \<Longrightarrow> \<not> d_cloexec m \<Longrightarrow>
      fds q 2 \<in> {Some (l\<lparr>d_cloexec := False\<rparr>), Some m}"
    and "req_method r \<noteq> M_POST \<Longrightarrow> fds p 0 = Some i \<Longrightarrow> \<not> d_cloexec i \<Longrightarrow> fds q 0 = Some i"
    and "answers p = [] \<Longrightarrow> cgi_log_fd cf \<noteq> 0 \<Longrightarrow> fds p (cgi_log_fd cf) = Some l \<Longrightarrow> fds q 2 = Some (l\<lparr>d_cloexec := False\<rparr>)"
    and "cgi_log_fd cf = 0 \<Longrightarrow> fds p 2 = Some l \<Longrightarrow> \<not> d_cloexec l \<Longrightarrow> fds q 2 = Some l"
    and "2 < n \<Longrightarrow> n \<notin> own_fds r pipes \<Longrightarrow> fds p n = Some e \<Longrightarrow> \<not> d_cloexec e \<Longrightarrow> fds q n = Some e"
proof -
  obtain dir path sv' p1 where t: "tie_stdout r pipes (reset_signals p) = (True, p1)"
    and e: "exec_program cf r sv' dir path (tie_stderr cf (tie_stdin r p1)) = Some x"
    using assms(1) by (auto simp: cgi_child_def Let_def split: option.splits prod.splits if_splits)
  let ?p2 = "tie_stdin r p1" and ?p3 = "tie_stderr cf (tie_stdin r p1)"
  have out: "2 < out_fd r pipes" "use_pipes r \<Longrightarrow> fst pipes \<noteq> snd pipes" using assms(2) by (auto simp: child_ready_def own_fds_def)
  obtain d where d: "fds p (out_fd r pipes) = Some d" "sigs p1 = (\<lambda>s. SIG_DFL)" "d_file d \<notin> set (nonblocking p1)"
      "answers (reset_signals p) = [] \<Longrightarrow> answers p1 = []"
    and p1: "fds p1 = (if use_pipes r then (fds p)(fst pipes := None) else fds p)(1 \<mapsto> d\<lparr>d_cloexec := False\<rparr>, out_fd r pipes := None)"
    by (rule tie_stdout_result [OF t out]) (auto simp: reset_signals_sigs)
  have rs: "answers (reset_signals p) = answers p" by (simp add: reset_signals_def sigaction_def Let_def)
  obtain ok2 where p2: "fds ?p2 = without_body r (if ok2 then (fds p1)(0 := map_option (d_cloexec_update (\<lambda>_. False)) (fds p1 (post_data_fd r))) else fds p1)"
    and ok2: "ok2 \<Longrightarrow> req_method r = M_POST"
      "answers p1 = [] \<Longrightarrow> req_method r = M_POST \<Longrightarrow> fds p1 (post_data_fd r) \<noteq> None \<Longrightarrow> post_data_fd r \<noteq> 0 \<Longrightarrow> ok2"
    and s2: "sigs ?p2 = sigs p1" "nonblocking ?p2 = nonblocking p1" "answers p1 = [] \<Longrightarrow> answers ?p2 = []"
    by (rule tie_stdin_result [of r p1]) blast
  obtain ok3 where p3: "fds ?p3 = (if ok3 then (fds ?p2)(2 := map_option (d_cloexec_update (\<lambda>_. False)) (fds ?p2 (cgi_log_fd cf))) else fds ?p2)"
    and ok3: "ok3 \<Longrightarrow> cgi_log_fd cf \<noteq> 0"
      "answers ?p2 = [] \<Longrightarrow> cgi_log_fd cf \<noteq> 0 \<Longrightarrow> cgi_log_fd cf \<noteq> 2 \<Longrightarrow> fds ?p2 (cgi_log_fd cf) \<noteq> None \<Longrightarrow> ok3"
    and s3: "rest ?p3 = rest ?p2"
    by (rule tie_stderr_result [of cf ?p2]) blast
  note X = exec_program_result [OF e, folded q_def]
  note own = assms(2)[unfolded child_ready_def own_fds_def] and log = assms(3)[unfolded own_fds_def]
  have b: "fds p1 (post_data_fd r) = fds p (post_data_fd r)" "2 < post_data_fd r" if "req_method r = M_POST" using own that by (auto simp: p1)
  have l: "fds ?p2 (cgi_log_fd cf) = fds p (cgi_log_fd cf)" if "cgi_log_fd cf \<noteq> 0"
    using log that by (auto simp: p2 p1 without_body_def split: if_splits)
  have low: "n \<noteq> out_fd r pipes \<and> (use_pipes r \<longrightarrow> n \<noteq> fst pipes) \<and> (req_method r = M_POST \<longrightarrow> n \<noteq> post_data_fd r)" if "n \<le> 2" for n
    using own that by auto
  show "\<exists>d. fds p (out_fd r pipes) = Some d \<and> fds q 1 = Some (d\<lparr>d_cloexec := False\<rparr>) \<and> d_file d \<notin> set (nonblocking q)"
    using d low [of 1] X(3) s2(2) s3 unfolding X(1) p3 p2 p1 by (auto simp: without_body_def rest_def)
  show "fds p n = Some e \<and> \<not> d_cloexec e \<and> n \<notin> own_fds r pipes" if "2 < n" "fds q n = Some e"
    using that unfolding X(1) p3 p2 p1 own_fds_def by (auto simp: without_body_def split: if_splits option.splits)
  show "sigs q = (\<lambda>s. SIG_DFL)" using X(2) s3 s2(1) d(2) by (simp add: rest_def exec_sig_def o_def)
  show "fds q 0 = Some (b\<lparr>d_cloexec := False\<rparr>) \<and> offset q (d_file b) = 0"
    if a: "answers p = []" "req_method r = M_POST" "fds p (post_data_fd r) = Some b" for b
  proof -
    have ok2 using ok2(2) d(4) rs a b by auto
    moreover have "offset ?p2 (d_file b) = 0" by (rule tie_stdin_result [of r p1 b]) (use a b in auto)
    ultimately show ?thesis using low [of 0] a b X(4) s3 unfolding X(1) p3 p2 by (auto simp: without_body_def rest_def)
  qed
  show "offset q (d_file b) = 0 \<and> fds q 0 \<in> {Some (b\<lparr>d_cloexec := False\<rparr>), Some i}"
    if a: "req_method r = M_POST" "fds p (post_data_fd r) = Some b" "fds p 0 = Some i" "\<not> d_cloexec i" for b i
  proof -
    have "offset ?p2 (d_file b) = 0" by (rule tie_stdin_result [of r p1 b]) (use a b in auto)
    moreover have "fds p1 (post_data_fd r) = Some b" "fds p1 0 = Some i" using a b low [of 0] by (auto simp: p1)
    then have "fds q 0 \<in> {Some (b\<lparr>d_cloexec := False\<rparr>), Some i}"
      using low [of 0] a unfolding X(1) p3 p2 by (cases ok2; cases ok3) (auto simp: without_body_def)
    ultimately show ?thesis using X(4) s3 by (simp add: rest_def)
  qed
  show "fds q 2 \<in> {Some (l\<lparr>d_cloexec := False\<rparr>), Some m}"
    if "cgi_log_fd cf \<noteq> 0" "fds p (cgi_log_fd cf) = Some l" "fds p 2 = Some m" "\<not> d_cloexec m" for l m
  proof -
    have "fds ?p2 (cgi_log_fd cf) = Some l" "fds ?p2 2 = Some m" using l low [of 2] that by (auto simp: p2 p1 without_body_def)
    then show ?thesis using that(4) unfolding X(1) p3 by (cases ok3) auto
  qed
  show "fds q 0 = Some i" if "req_method r \<noteq> M_POST" "fds p 0 = Some i" "\<not> d_cloexec i" for i
    using low [of 0] that ok2(1) unfolding X(1) p3 p2 p1 by (auto simp: without_body_def)
  show "fds q 2 = Some (l\<lparr>d_cloexec := False\<rparr>)" if "answers p = []" "cgi_log_fd cf \<noteq> 0" "fds p (cgi_log_fd cf) = Some l" for l
  proof -
    have ok3 using ok3(2) s2(3) d(4) rs that l log by auto
    then show ?thesis using l that unfolding X(1) p3 by auto
  qed
  show "fds q 2 = Some l" if "cgi_log_fd cf = 0" "fds p 2 = Some l" "\<not> d_cloexec l" for l
    using low [of 2] that ok3(1) ok2(1) unfolding X(1) p3 p2 p1 by (auto simp: without_body_def)
  show "fds q n = Some e" if "2 < n" "n \<notin> own_fds r pipes" "fds p n = Some e" "\<not> d_cloexec e"
    using that unfolding X(1) p3 p2 p1 own_fds_def by (auto simp: without_body_def split: if_splits)
qed

section \<open>Programs that can be started\<close>

text \<open>There is something to execute.\<close>

definition startable :: "request \<Rightarrow> server \<Rightarrow> bool" where
  "startable r sv \<longleftrightarrow>
     (case child_path r sv of
        None \<Rightarrow> False
      | Some (dir, path, sv) \<Rightarrow> cgi_type r \<noteq> CGI_NONE \<or> (if ends_with_slash path then dirmaker sv \<noteq> None else build_gunzip sv))"

lemma tie_stdout_ok:
  assumes "answers p = []" and "fds p (out_fd r pipes) = Some e" and "2 < out_fd r pipes" and "use_pipes r \<Longrightarrow> fst pipes \<noteq> snd pipes"
  shows "\<exists>q. tie_stdout r pipes p = (True, q) \<and> answers q = []"
  using assms by (auto simp: tie_stdout_def out_fd_def Let_def os_dup2_def set_block_fd_def answer_ok split: if_splits)

lemma cgi_child_ok:
  assumes "answers p = []" and "fds p (out_fd r pipes) = Some e" and "2 < out_fd r pipes" and "use_pipes r \<Longrightarrow> fst pipes \<noteq> snd pipes"
    and "startable r sv"
  shows "\<exists>x. cgi_child cf r sv pipes p = Some x"
proof -
  obtain dir path sv' where c: "child_path r sv = Some (dir, path, sv')"
    and s: "cgi_type r \<noteq> CGI_NONE \<or> (if ends_with_slash path then dirmaker sv' \<noteq> None else build_gunzip sv')"
    using assms(5) by (auto simp: startable_def split: option.splits)
  have "answers (reset_signals p) = []" using assms(1) by (simp add: reset_signals_def sigaction_def Let_def)
  from tie_stdout_ok [OF this _ assms(3,4)] assms(2) obtain q where t: "tie_stdout r pipes (reset_signals p) = (True, q)" "answers q = []" by auto
  have i: "answers (tie_stdin r q) = []" by (rule tie_stdin_result [of r q]) (use t(2) in blast)
  have "answers (tie_stderr cf (tie_stdin r q)) = []" by (rule tie_stderr_result [of cf "tie_stdin r q"]) (use i in blast)
  then show ?thesis using s by (auto simp: cgi_child_def Let_def c t(1) exec_program_def answer_ok)
qed

lemma start_program_ok:
  assumes "answers p = []" and "startable r sv" and "\<forall>n<3. fds p n \<noteq> None" and "\<not> use_pipes r \<Longrightarrow> 2 < fd r \<and> fds p (fd r) \<noteq> None"
    and "start_program cf r sv p = (res, p')"
  shows "\<exists>x rd. res = Some (Some x, rd)"
proof (cases "use_pipes r")
  case True
  obtain rw q where o: "os_pipe p = (rw, q)" by fastforce
  then obtain rd w where rw: "rw = Some (rd, w)" and q: "answers q = []"
    using assms(1) by (auto simp: os_pipe_def answer_ok install_def Let_def split: prod.splits)
  note R = os_pipe_result [OF o, unfolded rw, simplified]
  have w: "2 < w" using R assms(3) by (metis less_Suc_eq_le numeral_2_eq_2 numeral_3_eq_3 not_le)
  obtain q1 where n: "set_nonblock_fd rd q = (True, q1)" "fds q1 = fds q" "answers q1 = []"
    using R q by (auto simp: set_nonblock_fd_def answer_ok)
  from cgi_child_ok [of q1 r "(rd, w)" _ sv cf] obtain x where "cgi_child cf r sv (rd, w) q1 = Some x"
    using n R w True assms(2) by (auto simp: out_fd_def)
  then show ?thesis using assms(5) True by (auto simp: start_program_def o rw n answer_ok)
next
  case False
  obtain e where "fds p (fd r) = Some e" using assms(4) [OF False] by auto
  with cgi_child_ok [of p r "(0, 0)" e sv cf] obtain x where "cgi_child cf r sv (0, 0) p = Some x"
    using assms(1,2) assms(4) [OF False] False by (auto simp: out_fd_def)
  then show ?thesis using assms(1,5) False by (auto simp: start_program_def answer_ok)
qed

end
