(* ===== verification/Boot.thy ===== *)
theory Boot
  imports Signals Process
begin

text \<open>
  The start of the server (\<open>boa.c\<close>, \<open>open_logs\<close> of \<open>log.c\<close>): the command line, the configuration, the sockets and log files, going into the
  background and giving up the rights of the superuser. The options are those \<open>getopt\<close> finds. System calls succeed or fail as the
  environment decides; for those that change the user the rules of the kernel are part of the model, because the code tests that they hold.
\<close>

section \<open>The user of the process\<close>

record credentials =
  ruid :: "32 word"
  euid :: "32 word"
  suid :: "32 word"
  rgid :: "32 word"
  egid :: "32 word"
  sgid :: "32 word"
  groups :: "32 word list"

text \<open>Documented behaviour of the calls: the superuser sets all three numbers, others only the effective one, to one of theirs.\<close>

definition setuid :: "32 word \<Rightarrow> credentials \<Rightarrow> credentials option" where
  "setuid u c =
     (if euid c = 0 then Some (c\<lparr>ruid := u, euid := u, suid := u\<rparr>)
      else if u = ruid c \<or> u = suid c then Some (c\<lparr>euid := u\<rparr>) else None)"

definition setgid :: "32 word \<Rightarrow> credentials \<Rightarrow> credentials option" where
  "setgid g c =
     (if euid c = 0 then Some (c\<lparr>rgid := g, egid := g, sgid := g\<rparr>)
      else if g = rgid c \<or> g = sgid c then Some (c\<lparr>egid := g\<rparr>) else None)"

definition initgroups :: "32 word list \<Rightarrow> 32 word \<Rightarrow> credentials \<Rightarrow> credentials option" where
  "initgroups member g c = (if euid c = 0 then Some (c\<lparr>groups := g # member\<rparr>) else None)"

text \<open>What a process can make of its user.\<close>

inductive may_become :: "credentials \<Rightarrow> credentials \<Rightarrow> bool" where
  same: "may_become c c"
| uid: "may_become c c' \<Longrightarrow> setuid u c' = Some c'' \<Longrightarrow> may_become c c''"
| gid: "may_become c c' \<Longrightarrow> setgid g c' = Some c'' \<Longrightarrow> may_become c c''"
| grp: "may_become c c' \<Longrightarrow> initgroups gs g c' = Some c'' \<Longrightarrow> may_become c c''"

section \<open>The process before the main loop\<close>

text \<open>The password database: the name and group of a number, and the groups of a name.\<close>

record boot =
  b_vars :: settings
  b_cred :: credentials
  b_env :: environment
  b_config :: "string option"
  do_fork :: bool
  debug_level :: "32 word"
  b_passwd :: "32 word \<Rightarrow> (string \<times> 32 word) option"
  b_groups :: "string \<Rightarrow> 32 word list"
  fork_result :: int
  b_net :: network
  b_proc :: process
  b_cgi_log_fd :: nat

text \<open>\<open>n\<close> system calls that must succeed.\<close>

fun must_succeed :: "nat \<Rightarrow> boot \<Rightarrow> config_stop + boot" where
  "must_succeed 0 b = Inr b"
| "must_succeed (Suc n) b =
     (case try_sys (tables (b_vars b)) of (ok, sv) \<Rightarrow>
        if ok then must_succeed n (b\<lparr>b_vars := (b_vars b)\<lparr>tables := sv\<rparr>\<rparr>) else Inl Exit)"

definition may_fail :: "boot \<Rightarrow> bool \<times> boot" where
  "may_fail b = (case try_sys (tables (b_vars b)) of (ok, sv) \<Rightarrow> (ok, b\<lparr>b_vars := (b_vars b)\<lparr>tables := sv\<rparr>\<rparr>))"

definition and_then :: "config_stop + 'a \<Rightarrow> ('a \<Rightarrow> config_stop + 'b) \<Rightarrow> config_stop + 'b" where
  "and_then x f = (case x of Inl e \<Rightarrow> Inl e | Inr b \<Rightarrow> f b)"

definition set_root :: "string \<Rightarrow> boot \<Rightarrow> config_stop + boot" where
  "set_root s b = and_then (c_set_string V_server_root s (b_vars b)) (\<lambda>st. Inr (b\<lparr>b_vars := st\<rparr>))"

definition SERVER_ROOT :: string where "SERVER_ROOT = ''/etc/boa''"
definition DEFAULT_CONFIG_FILE :: string where "DEFAULT_CONFIG_FILE = ''boa.conf''"

fun parse_option :: "char \<times> string \<Rightarrow> boot \<Rightarrow> config_stop + boot" where
  "parse_option (c, optarg) b =
     (if c = CHR ''c'' then set_root optarg b
      else if c = CHR ''d'' then Inr (b\<lparr>do_fork := False\<rparr>)
      else if c = CHR ''f'' then Inr (b\<lparr>b_config := Some optarg\<rparr>)
      else if c = CHR ''r'' then must_succeed 3 b
      else if c = CHR ''l'' then
        (case parse_debug optarg (debug_level b) of None \<Rightarrow> Inl Exit | Some l \<Rightarrow> Inr (b\<lparr>debug_level := l\<rparr>))
      else Inl Exit)"

fun parse_commandline :: "(char \<times> string) list \<Rightarrow> boot \<Rightarrow> config_stop + boot" where
  "parse_commandline [] b = Inr b"
| "parse_commandline (opt # opts) b = and_then (parse_option opt b) (parse_commandline opts)"

definition fixup_server_root :: "boot \<Rightarrow> config_stop + boot" where
  "fixup_server_root b =
     and_then (if strs (b_vars b) V_server_root = None then set_root SERVER_ROOT b else Inr b) (must_succeed 1)"

text \<open>A step on the process; \<open>None\<close> ends it.\<close>

definition on_process :: "(process \<Rightarrow> process option) \<Rightarrow> boot \<Rightarrow> config_stop + boot" where
  "on_process f b = (case f (b_proc b) of None \<Rightarrow> Inl Exit | Some p \<Rightarrow> Inr (b\<lparr>b_proc := p\<rparr>))"

text \<open>
  The error log and the access log are needed, if they are configured; the name of a log of CGI programs that cannot be opened is
  forgotten.
\<close>

definition open_logs :: "boot \<Rightarrow> config_stop + boot" where
  "open_logs b =
     (let names = strs (b_vars b) in
      case open_error_log (b_net b) (names V_error_log_name) (b_proc b) of
        None \<Rightarrow> Inl Exit
      | Some (error_log, p) \<Rightarrow>
          (case open_access_log (b_net b) (names V_access_log_name) p of
             None \<Rightarrow> Inl Exit
           | Some (access, p) \<Rightarrow>
               (case open_cgi_log (b_net b) (names V_cgi_log_name) p of (n, cgi, p) \<Rightarrow>
                  Inr (b\<lparr>b_proc := p, b_cgi_log_fd := n,
                         b_vars := (b_vars b)\<lparr>strs := names(V_error_log_name := error_log, V_access_log_name := access, V_cgi_log_name := cgi)\<rparr>\<rparr>))))"

text \<open>The descriptors of later connections are numbered from the socket on.\<close>

definition create_server_socket :: "boot \<Rightarrow> config_stop + nat \<times> boot" where
  "create_server_socket b =
     (case server_socket (b_net b) (strs (b_vars b) V_server_ip) (word_of_int (ints (b_vars b) V_server_port)) (b_proc b) of
        None \<Rightarrow> Inl Exit
      | Some (s, p) \<Rightarrow>
          (let sv = tables (b_vars b) in
           Inr (s, b\<lparr>b_proc := p,
                     b_vars := (b_vars b)\<lparr>tables := sv\<lparr>next_fd := max (next_fd sv) (s + 1), open_fds := s # open_fds sv\<rparr>\<rparr>\<rparr>)))"

definition lift_call :: "(credentials \<Rightarrow> credentials option) \<Rightarrow> boot \<Rightarrow> config_stop + boot" where
  "lift_call f b =
     and_then (must_succeed 1 b) (\<lambda>b. case f (b_cred b) of None \<Rightarrow> Inl Exit | Some c \<Rightarrow> Inr (b\<lparr>b_cred := c\<rparr>))"

definition drop_privs :: "boot \<Rightarrow> config_stop + boot" where
  "drop_privs b =
     (let u = server_uid (b_vars b); g = server_gid (b_vars b) in
      if ruid (b_cred b) = 0 then
        (case b_passwd b u of
           None \<Rightarrow> Inl Exit
         | Some (pw_name, pw_gid) \<Rightarrow>
             and_then (lift_call (initgroups (b_groups b pw_name) pw_gid) b) (\<lambda>b.
             and_then (lift_call (setgid g) b) (\<lambda>b.
             and_then (lift_call (setuid u) b) (\<lambda>b.
               if u \<noteq> 0 \<and> setuid 0 (b_cred b) \<noteq> None then Inl Exit else Inr b))))
      else Inr (b\<lparr>b_vars := (b_vars b)\<lparr>server_gid := rgid (b_cred b), server_uid := ruid (b_cred b)\<rparr>\<rparr>))"

text \<open>The world at the start of the main loop; \<open>outside\<close> holds the clients, the clock and the contents of fresh memory.\<close>

definition initial_world :: "world \<Rightarrow> settings \<Rightarrow> nat \<Rightarrow> world" where
  "initial_world outside st s =
     apply_settings st (outside\<lparr>
       request_ready := None, request_block := None, request_free := None, next_request := 0, total_connections := 0,
       pending_requests := False, sigterm_flag := 0, status_requests := 0, status_errors := 0, unav_len_set := False, read_set := [], write_set := [],
       max_fd := -1, server_s := Some s\<rparr>)"

text \<open>The message of the start, in three entries.\<close>

definition timestamp :: "log_config \<Rightarrow> int \<Rightarrow> string \<Rightarrow> string \<Rightarrow> int \<Rightarrow> 32 word \<Rightarrow> string" where
  "timestamp cfg now date time pid port =
     log_error_time cfg now @ ''yabwf: server version '' @ SERVER_VERSION @ [LF] @
     log_error_time cfg now @ ''yabwf: server built '' @ date @ '' at '' @ time @ ''.'' @ [LF] @
     log_error_time cfg now @ ''yabwf: starting server pid='' @ int_text pid @ '', port '' @ int_text (sint port) @ [LF]"

text \<open>The environment of CGI programs is made from the configuration that was read.\<close>

definition common_env :: "settings \<Rightarrow> config_stop + settings" where
  "common_env st =
     with_tables st
       (create_common_env (strs st V_cgi_path) (strs st V_cgi_ld_library_path) (strs st V_server_admin) (configured st))"

text \<open>Everything before the loop, in the process that goes on.\<close>

definition main :: "world \<Rightarrow> string \<Rightarrow> (char \<times> string) list \<Rightarrow> boot \<Rightarrow> config_stop + daemon \<times> boot" where
  "main outside stack opts b =
     and_then (on_process null_stdin b) (\<lambda>b.
     and_then (parse_commandline opts b) (\<lambda>b.
     and_then (fixup_server_root b) (\<lambda>b.
       let config = (case b_config b of Some f \<Rightarrow> f | None \<Rightarrow> DEFAULT_CONFIG_FILE) in
     and_then (read_config_files (b_env b) config stack (b_vars b)) (\<lambda>st.
     and_then (common_env st) (\<lambda>st.
     and_then (if build_strip (tables st) \<and> ints st V_cgi_strip_prefix \<noteq> 0 then with_tables st (cgi_strip_init (tables st)) else Inr st) (\<lambda>st.
     and_then (open_logs (b\<lparr>b_vars := st\<rparr>)) (\<lambda>b.
     and_then (create_server_socket b) (\<lambda>(s, b).
       let b = b\<lparr>b_proc := init_signals (b_proc b)\<rparr> in
       if build_needs_escape = None then Inl Exit
       else if do_fork b \<and> fork_result b \<noteq> 0 then Inl Exit
       else
     and_then (drop_privs b) (\<lambda>b.
       Inr (\<lparr>d_world = initial_world outside (b_vars b) s, d_vars = b_vars b, d_env = b_env b, d_stack = stack,
             config_file_name = config, sighup_flag = False, sigchld_flag = False, sigalrm_flag = False, wait_script = []\<rparr>,
            b))))))))))"

section \<open>What the steps keep\<close>

lemma and_then_Inr: "and_then x f = Inr y \<longleftrightarrow> (\<exists>b. x = Inr b \<and> f b = Inr y)"
  by (auto simp: and_then_def split: sum.split)

text \<open>A process that differs only in the answers it has used up.\<close>

definition same_boot :: "boot \<Rightarrow> boot \<Rightarrow> bool" where
  "same_boot b b' \<longleftrightarrow> (\<exists>q. b' = b\<lparr>b_vars := (b_vars b)\<lparr>tables := (tables (b_vars b))\<lparr>sys_script := q\<rparr>\<rparr>\<rparr>)"

lemma same_boot_refl: "same_boot b b"
  unfolding same_boot_def by (intro exI [of _ "sys_script (tables (b_vars b))"]) simp

lemma same_boot_trans: "same_boot b b' \<Longrightarrow> same_boot b' b'' \<Longrightarrow> same_boot b b''"
  by (auto simp: same_boot_def)

lemma same_boot_fields:
  assumes "same_boot b b'"
  shows "b_cred b' = b_cred b" "b_passwd b' = b_passwd b" "b_groups b' = b_groups b"
    "server_uid (b_vars b') = server_uid (b_vars b)" "server_gid (b_vars b') = server_gid (b_vars b)"
    "ints (b_vars b') = ints (b_vars b)" "strs (b_vars b') = strs (b_vars b)"
    "common_cgi_env (tables (b_vars b')) = common_cgi_env (tables (b_vars b))"
  using assms by (auto simp: same_boot_def)

text \<open>What the steps that deal with the configuration leave alone.\<close>

definition same_process :: "boot \<Rightarrow> boot \<Rightarrow> bool" where
  "same_process b b' \<longleftrightarrow> b_cred b' = b_cred b \<and> b_proc b' = b_proc b \<and> b_net b' = b_net b \<and> b_cgi_log_fd b' = b_cgi_log_fd b"

lemma same_boot_process: "same_boot b b' \<Longrightarrow> same_process b b'"
  by (auto simp: same_boot_def same_process_def)

lemma same_process_trans: "same_process b b' \<Longrightarrow> same_process b' b'' \<Longrightarrow> same_process b b''"
  by (simp add: same_process_def)

lemma try_sys_boot: "try_sys (tables (b_vars b)) = (ok, sv) \<Longrightarrow> same_boot b (b\<lparr>b_vars := (b_vars b)\<lparr>tables := sv\<rparr>\<rparr>)"
  by (cases "sys_script (tables (b_vars b))") (auto simp: try_sys_def same_boot_def intro: exI [of _ "sys_script (tables (b_vars b))"])

lemma must_succeed_same: "must_succeed n b = Inr b' \<Longrightarrow> same_boot b b'"
proof (induction n b rule: must_succeed.induct)
  case (2 n b)
  then obtain ok sv where t: "try_sys (tables (b_vars b)) = (ok, sv)" by fastforce
  with 2 show ?case using try_sys_boot [OF t] same_boot_trans by (auto split: if_splits)
qed (simp add: same_boot_refl)

lemma may_fail_same: "may_fail b = (ok, b') \<Longrightarrow> same_boot b b'"
  by (auto simp: may_fail_def split: prod.splits dest: try_sys_boot)

lemma must_succeed_ok: "sys_script (tables (b_vars b)) = [] \<Longrightarrow> must_succeed n b = Inr b"
  by (induction n) (simp_all add: try_sys_def)

declare must_succeed.simps [simp del]

lemma lift_call_Inr:
  assumes "lift_call f b = Inr b'"
  shows "f (b_cred b) = Some (b_cred b')" "b_vars b' = b_vars b\<lparr>tables := tables (b_vars b')\<rparr>"
    "ints (b_vars b') = ints (b_vars b)" "strs (b_vars b') = strs (b_vars b)"
    "common_cgi_env (tables (b_vars b')) = common_cgi_env (tables (b_vars b))"
proof -
  from assms obtain b1 c where m: "must_succeed 1 b = Inr b1" and c: "f (b_cred b1) = Some c" "b' = b1\<lparr>b_cred := c\<rparr>"
    by (auto simp: lift_call_def and_then_Inr split: option.splits)
  from must_succeed_same [OF m] c
  show "f (b_cred b) = Some (b_cred b')" "b_vars b' = b_vars b\<lparr>tables := tables (b_vars b')\<rparr>"
    "ints (b_vars b') = ints (b_vars b)" "strs (b_vars b') = strs (b_vars b)"
    "common_cgi_env (tables (b_vars b')) = common_cgi_env (tables (b_vars b))"
    by (auto simp: same_boot_def)
qed

lemma lift_call_ok:
  "sys_script (tables (b_vars b)) = [] \<Longrightarrow> f (b_cred b) = Some c \<Longrightarrow> lift_call f b = Inr (b\<lparr>b_cred := c\<rparr>)"
  by (simp add: lift_call_def and_then_def must_succeed_ok del: One_nat_def)

text \<open>The message of the start ends with the number of the process and the port.\<close>

lemma timestamp_lines:
  assumes "tm_valid (log_tm cfg now)" and "log_safe date" and "log_safe time"
  shows "\<exists>l1 l2 l3. timestamp cfg now date time pid port = l1 @ [LF] @ l2 @ [LF] @ l3 @ [LF] \<and> log_safe l1 \<and> log_safe l2 \<and> log_safe l3"
proof -
  let ?t = "get_commonlog_time cfg now"
  have "timestamp cfg now date time pid port =
      (?t @ ''yabwf: server version '' @ SERVER_VERSION) @ [LF] @ (?t @ ''yabwf: server built '' @ date @ '' at '' @ time @ ''.'') @ [LF] @
      (?t @ ''yabwf: starting server pid='' @ int_text pid @ '', port '' @ int_text (sint port)) @ [LF]"
    by (simp only: timestamp_def log_error_time_def append_assoc)
  moreover have "log_safe (?t @ ''yabwf: server version '' @ SERVER_VERSION)" "log_safe (?t @ ''yabwf: server built '' @ date @ '' at '' @ time @ ''.'')"
      "log_safe (?t @ ''yabwf: starting server pid='' @ int_text pid @ '', port '' @ int_text (sint port))"
    using assms log_safe_time [OF assms(1)] by (simp_all add: SERVER_VERSION_def Log.printable_def uchar_def)
  ultimately show ?thesis by blast
qed

section \<open>Giving up the superuser\<close>

text \<open>One ordinary user in all three numbers.\<close>

definition settled :: "32 word \<Rightarrow> 32 word \<Rightarrow> 32 word list \<Rightarrow> credentials \<Rightarrow> bool" where
  "settled u g gs c \<longleftrightarrow> ruid c = u \<and> euid c = u \<and> suid c = u \<and> rgid c = g \<and> egid c = g \<and> sgid c = g \<and> groups c = gs"

lemma settled_stays: "may_become c c' \<Longrightarrow> settled u g gs c \<Longrightarrow> u \<noteq> 0 \<Longrightarrow> settled u g gs c'"
  by (induction rule: may_become.induct)
     (auto simp: settled_def setuid_def setgid_def initgroups_def split: if_splits)

lemma drop_privs_settled:
  assumes "drop_privs b = Inr b'" and "ruid (b_cred b) = 0" and "b_passwd b (server_uid (b_vars b)) = Some (pw_name, pw_gid)"
    and "server_uid (b_vars b) \<noteq> 0"
  shows "settled (server_uid (b_vars b)) (server_gid (b_vars b)) (pw_gid # b_groups b pw_name) (b_cred b')"
proof -
  let ?u = "server_uid (b_vars b)" let ?g = "server_gid (b_vars b)"
  obtain b1 b2 b3 where
    l: "lift_call (initgroups (b_groups b pw_name) pw_gid) b = Inr b1" "lift_call (setgid ?g) b1 = Inr b2" "lift_call (setuid ?u) b2 = Inr b3"
    and b': "b' = b3"
    using assms by (auto simp: drop_privs_def Let_def and_then_Inr split: if_splits)
  note c = lift_call_Inr(1) [OF l(1)] lift_call_Inr(1) [OF l(2)] lift_call_Inr(1) [OF l(3)]
  have b1: "euid (b_cred b) = 0" "b_cred b1 = (b_cred b)\<lparr>groups := pw_gid # b_groups b pw_name\<rparr>"
    using c(1) by (simp_all add: initgroups_def split: if_splits)
  then have b2: "b_cred b2 = (b_cred b1)\<lparr>rgid := ?g, egid := ?g, sgid := ?g\<rparr>" using c(2) by (simp add: setgid_def)
  have "b_cred b3 = (b_cred b2)\<lparr>ruid := ?u, euid := ?u, suid := ?u\<rparr>" using c(3) b1 b2 by (simp add: setuid_def)
  then show ?thesis by (simp add: b' b1 b2 settled_def)
qed

lemma drop_privs_ok:
  assumes "sys_script (tables (b_vars b)) = []" and "ruid (b_cred b) = 0" and "euid (b_cred b) = 0" and "server_uid (b_vars b) \<noteq> 0"
    and "b_passwd b (server_uid (b_vars b)) = Some (pw_name, pw_gid)"
  shows "\<exists>b'. drop_privs b = Inr b'"
  using assms by (simp add: drop_privs_def Let_def and_then_def lift_call_ok initgroups_def setgid_def setuid_def)

text \<open>Whatever the branch, the settings the main loop uses stay.\<close>

lemma drop_privs_vars:
  assumes "drop_privs b = Inr b'"
  shows "ints (b_vars b') = ints (b_vars b)" "common_cgi_env (tables (b_vars b')) = common_cgi_env (tables (b_vars b))"
    "ruid (b_cred b) = 0 \<Longrightarrow> server_uid (b_vars b') = server_uid (b_vars b) \<and> b_passwd b (server_uid (b_vars b)) \<noteq> None"
proof -
  have "ints (b_vars b') = ints (b_vars b) \<and> common_cgi_env (tables (b_vars b')) = common_cgi_env (tables (b_vars b)) \<and>
      (ruid (b_cred b) = 0 \<longrightarrow> server_uid (b_vars b') = server_uid (b_vars b) \<and> b_passwd b (server_uid (b_vars b)) \<noteq> None)"
  proof (cases "ruid (b_cred b) = 0")
    case True
    then obtain pw_name pw_gid b1 b2 where
      l: "lift_call (initgroups (b_groups b pw_name) pw_gid) b = Inr b1" "lift_call (setgid (server_gid (b_vars b))) b1 = Inr b2"
        "lift_call (setuid (server_uid (b_vars b))) b2 = Inr b'" and p: "b_passwd b (server_uid (b_vars b)) \<noteq> None"
      using assms by (auto simp: drop_privs_def Let_def and_then_Inr split: if_splits option.splits)
    have "server_uid (b_vars x) = server_uid (b_vars y)" if "b_vars x = b_vars y\<lparr>tables := tables (b_vars x)\<rparr>" for x y
      by (subst that) simp
    then show ?thesis
      using lift_call_Inr(2-5) [OF l(1)] lift_call_Inr(2-5) [OF l(2)] lift_call_Inr(2-5) [OF l(3)] p by metis
  qed (use assms in \<open>auto simp: drop_privs_def Let_def\<close>)
  then show "ints (b_vars b') = ints (b_vars b)" "common_cgi_env (tables (b_vars b')) = common_cgi_env (tables (b_vars b))"
    "ruid (b_cred b) = 0 \<Longrightarrow> server_uid (b_vars b') = server_uid (b_vars b) \<and> b_passwd b (server_uid (b_vars b)) \<noteq> None" by blast+
qed

section \<open>The start as a whole\<close>

lemma set_root_process: "set_root s b = Inr b' \<Longrightarrow> same_process b b'"
  by (auto simp: set_root_def and_then_Inr same_process_def)

lemma parse_option_process: "parse_option opt b = Inr b' \<Longrightarrow> same_process b b'"
  by (cases opt)
     (auto split: if_splits option.splits simp: same_process_def
        dest!: set_root_process must_succeed_same [THEN same_boot_process])

lemma parse_commandline_process: "parse_commandline opts b = Inr b' \<Longrightarrow> same_process b b'"
proof (induction opts b rule: parse_commandline.induct)
  case (2 opt opts b)
  then show ?case by (auto simp: and_then_Inr intro: same_process_trans dest: parse_option_process)
qed (simp add: same_process_def)

lemma fixup_server_root_process: "fixup_server_root b = Inr b' \<Longrightarrow> same_process b b'"
  by (auto simp: fixup_server_root_def and_then_Inr split: if_splits
      dest!: must_succeed_same [THEN same_boot_process] set_root_process intro: same_process_trans)

lemma drop_privs_process:
  assumes "drop_privs b = Inr b'"
  shows "b_proc b' = b_proc b \<and> b_cgi_log_fd b' = b_cgi_log_fd b \<and> strs (b_vars b') = strs (b_vars b)"
proof -
  have "b_proc y = b_proc x \<and> b_cgi_log_fd y = b_cgi_log_fd x \<and> strs (b_vars y) = strs (b_vars x)" if "lift_call f x = Inr y" for f x y
    using that must_succeed_same [THEN same_boot_process] lift_call_Inr(4) [OF that]
    by (fastforce simp: lift_call_def and_then_Inr same_process_def split: option.splits)
  then show ?thesis
    using assms by (auto simp: drop_privs_def Let_def and_then_Inr split: if_splits option.splits)
qed

lemma on_process_Inr: "on_process f b = Inr b' \<longleftrightarrow> (\<exists>p. f (b_proc b) = Some p \<and> b' = b\<lparr>b_proc := p\<rparr>)"
  by (auto simp: on_process_def split: option.splits)

lemma open_logs_keeps:
  assumes "open_logs b = Inr b'"
  shows "b_cred b' = b_cred b \<and> ints (b_vars b') = ints (b_vars b) \<and> b_net b' = b_net b \<and>
    common_cgi_env (tables (b_vars b')) = common_cgi_env (tables (b_vars b)) \<and> strs (b_vars b') V_server_ip = strs (b_vars b) V_server_ip"
    and "\<exists>error_log p1 access p2. open_error_log (b_net b) (strs (b_vars b) V_error_log_name) (b_proc b) = Some (error_log, p1) \<and>
      open_access_log (b_net b) (strs (b_vars b) V_access_log_name) p1 = Some (access, p2) \<and>
      open_cgi_log (b_net b) (strs (b_vars b) V_cgi_log_name) p2 = (b_cgi_log_fd b', strs (b_vars b') V_cgi_log_name, b_proc b')"
  using assms by (auto simp: open_logs_def Let_def split: option.splits prod.splits)

lemma create_server_socket_keeps:
  assumes "create_server_socket b = Inr (s, b')"
  shows "b_cred b' = b_cred b \<and> ints (b_vars b') = ints (b_vars b) \<and> b_cgi_log_fd b' = b_cgi_log_fd b \<and> strs (b_vars b') = strs (b_vars b) \<and>
    common_cgi_env (tables (b_vars b')) = common_cgi_env (tables (b_vars b))"
    and "server_socket (b_net b) (strs (b_vars b) V_server_ip) (word_of_int (ints (b_vars b) V_server_port)) (b_proc b) = Some (s, b_proc b')"
  using assms by (auto simp: create_server_socket_def Let_def split: option.splits)

lemma create_common_env_count: "create_common_env p l a sv = Some sv' \<Longrightarrow> length (common_cgi_env sv') = COMMON_CGI_COUNT"
  by (auto simp: create_common_env_def split: prod.splits if_splits)

lemma cgi_strip_init_env:
  assumes "cgi_strip_init sv = Some sv'"
  shows "common_cgi_env sv' = common_cgi_env sv"
proof -
  have "add_tokens ts sv = Some sv' \<Longrightarrow> common_cgi_env sv' = common_cgi_env sv" for ts sv sv'
    by (induction ts sv rule: add_tokens.induct)
       (auto simp: cgi_strip_add_token_def try_alloc_def split: option.splits prod.splits if_splits)
  then show ?thesis using assms by (simp add: cgi_strip_init_def)
qed

text \<open>What the start does to the process: standard input, the logs, the socket and the signals.\<close>

definition process_started :: "boot \<Rightarrow> settings \<Rightarrow> nat \<Rightarrow> nat \<Rightarrow> string option \<Rightarrow> process \<Rightarrow> bool" where
  "process_started b st s log name p \<longleftrightarrow>
     (\<exists>p1 p2 p3 p4 p5 en an.
        null_stdin (b_proc b) = Some p1 \<and>
        open_error_log (b_net b) (strs st V_error_log_name) p1 = Some (en, p2) \<and>
        open_access_log (b_net b) (strs st V_access_log_name) p2 = Some (an, p3) \<and>
        open_cgi_log (b_net b) (strs st V_cgi_log_name) p3 = (log, name, p4) \<and>
        server_socket (b_net b) (strs st V_server_ip) (word_of_int (ints st V_server_port)) p4 = Some (s, p5) \<and>
        p = init_signals p5)"

text \<open>The configuration that the start reads, from the command line and the file.\<close>

definition configuration_read :: "boot \<Rightarrow> (char \<times> string) list \<Rightarrow> string \<Rightarrow> config_stop + settings" where
  "configuration_read b opts stack =
     and_then (on_process null_stdin b) (\<lambda>b.
     and_then (parse_commandline opts b) (\<lambda>b.
     and_then (fixup_server_root b) (\<lambda>b.
       read_config_files (b_env b) (case b_config b of Some f \<Rightarrow> f | None \<Rightarrow> DEFAULT_CONFIG_FILE) stack (b_vars b))))"

lemma main_keeps:
  assumes "main outside stack opts b = Inr (d, b')"
  obtains b1 s env st st0 where "drop_privs b1 = Inr b'" "b_cred b1 = b_cred b" "d_vars d = b_vars b'"
    "d_world d = initial_world outside (b_vars b') s"
    "read_config_files env (config_file_name d) stack st0 = Inr st" "ints (b_vars b1) = ints st"
    "length (common_cgi_env (tables (b_vars b1))) = COMMON_CGI_COUNT"
    "configuration_read b opts stack = Inr st"
    "process_started b st s (b_cgi_log_fd b') (strs (d_vars d) V_cgi_log_name) (b_proc b')"
proof -
  define strip where "strip st = (if build_strip (tables st) \<and> ints st V_cgi_strip_prefix \<noteq> 0
      then with_tables st (cgi_strip_init (tables st)) else Inr st)" for st
  from assms obtain ba bb bc st1 st2 st3 bd s b0 where
    a: "on_process null_stdin b = Inr ba" "parse_commandline opts ba = Inr bb" "fixup_server_root bb = Inr bc"
      and r: "read_config_files (b_env bc) (case b_config bc of Some f \<Rightarrow> f | None \<Rightarrow> DEFAULT_CONFIG_FILE) stack (b_vars bc) = Inr st1"
      and e: "common_env st1 = Inr st2" "strip st2 = Inr st3" "open_logs (bc\<lparr>b_vars := st3\<rparr>) = Inr bd" "create_server_socket bd = Inr (s, b0)"
      and p: "drop_privs (b0\<lparr>b_proc := init_signals (b_proc b0)\<rparr>) = Inr b'"
      and d: "d = \<lparr>d_world = initial_world outside (b_vars b') s, d_vars = b_vars b', d_env = b_env b', d_stack = stack,
             config_file_name = (case b_config bc of Some f \<Rightarrow> f | None \<Rightarrow> DEFAULT_CONFIG_FILE),
             sighup_flag = False, sigchld_flag = False, sigalrm_flag = False, wait_script = []\<rparr>"
    unfolding main_def Let_def strip_def [symmetric] and_then_Inr by (elim exE conjE) (auto split: prod.splits if_splits simp: and_then_Inr)
  let ?b1 = "b0\<lparr>b_proc := init_signals (b_proc b0)\<rparr>"
  obtain p1 where n: "null_stdin (b_proc b) = Some p1" "ba = b\<lparr>b_proc := p1\<rparr>" using a(1) by (auto simp: on_process_Inr)
  have bc: "same_process ba bc" using parse_commandline_process [OF a(2)] fixup_server_root_process [OF a(3)] same_process_trans by blast
  note L = open_logs_keeps [OF e(3)] and S = create_server_socket_keeps [OF e(4)]
  have st2: "length (common_cgi_env (tables st2)) = COMMON_CGI_COUNT" "ints st2 = ints st1" "strs st2 = strs st1"
    using e(1) create_common_env_count by (auto simp: common_env_def with_tables_def split: option.splits)
  have st3: "common_cgi_env (tables st3) = common_cgi_env (tables st2)" "ints st3 = ints st2" "strs st3 = strs st2"
    using e(2) cgi_strip_init_env by (auto simp: strip_def with_tables_def split: option.splits if_splits)
  have ip: "strs (b_vars bd) V_server_ip = strs st1 V_server_ip" using L(1) st2(3) st3(3) by simp
  show thesis
  proof (rule that [of ?b1 s "b_env bc" "b_vars bc" st1])
    show "process_started b st1 s (b_cgi_log_fd b') (strs (d_vars d) V_cgi_log_name) (b_proc b')"
      using n bc L S(1) S(2) [unfolded ip] drop_privs_process [OF p] st2(2,3) st3(2,3) d unfolding process_started_def same_process_def by auto
    show "configuration_read b opts stack = Inr st1" using a r by (simp add: configuration_read_def and_then_def)
  qed (use p n bc L S st2 st3 r d drop_privs_process [OF p] in \<open>auto simp: same_process_def\<close>)
qed

section \<open>The descriptors of the server\<close>

lemma init_signals_frame [simp]:
  "fds (init_signals p) = fds p" "nonblocking (init_signals p) = nonblocking p" "bound (init_signals p) = bound p"
  "peers (init_signals p) = peers p" "log_programs (init_signals p) = log_programs p"
  by (simp_all add: init_signals_def sigaction_def Let_def)

lemma init_signals_sigs:
  "sigs (init_signals p) = (\<lambda>s. if s \<in> {SIGPIPE, SIGUSR1, SIGUSR2} then SIG_IGN else Handler s)"
  by (rule ext) (case_tac s; simp add: init_signals_def sigaction_def Let_def)

text \<open>A log of CGI programs over the network that could not be reached leaves its socket behind.\<close>

definition abandoned :: "settings \<Rightarrow> nat \<Rightarrow> bool" where
  "abandoned st log \<longleftrightarrow> log = 0 \<and> (\<exists>spec. strs st V_cgi_log_name = Some spec \<and> char_at spec 0 = CHR '':'')"

text \<open>
  What is open when the main loop begins, by the settings that were read: \<open>p0\<close> is the process before the start, \<open>s\<close> the socket and \<open>log\<close> the
  log of CGI programs.
\<close>

definition server_descriptors :: "network \<Rightarrow> settings \<Rightarrow> process \<Rightarrow> nat \<Rightarrow> nat \<Rightarrow> process \<Rightarrow> bool" where
  "server_descriptors net st p0 s log p \<longleftrightarrow>
     (let failed = (answers p0 \<noteq> []) in
      fds p 0 = Some \<lparr>d_file = Dev_null, d_cloexec = False\<rparr> \<and>
      (\<exists>f. fds p 1 = Some \<lparr>d_file = f, d_cloexec = False\<rparr> \<and>
         (case strs st V_access_log_name of None \<Rightarrow> f = Dev_null | Some spec \<Rightarrow> goes_to failed net p spec f)) \<and>
      (case strs st V_error_log_name of
         None \<Rightarrow> fds p 2 = fds p0 2
       | Some spec \<Rightarrow> \<exists>f. goes_to failed net p spec f \<and> fds p 2 = Some \<lparr>d_file = f, d_cloexec = False\<rparr>) \<and>
      2 < s \<and>
      (\<exists>k a. fds p s = Some \<lparr>d_file = Socket k, d_cloexec = True\<rparr> \<and> Socket k \<in> set (nonblocking p) \<and>
         bound p = (Socket k, a) # bound p0 \<and> means_address net (strs st V_server_ip) (ints st V_server_port) a) \<and>
      (case strs st V_cgi_log_name of
         None \<Rightarrow> log = 0
       | Some spec \<Rightarrow>
           if log = 0 then failed \<or> \<not> log_reachable net spec
           else 2 < log \<and> log \<noteq> s \<and> (\<exists>f. goes_to failed net p spec f \<and> fds p log = Some \<lparr>d_file = f, d_cloexec = True\<rparr>)) \<and>
      (\<forall>n e. 2 < n \<longrightarrow> n \<noteq> s \<longrightarrow> n \<noteq> log \<longrightarrow> fds p n = Some e \<longrightarrow>
         fds p0 n = Some e \<or> abandoned st log \<and> (\<exists>k. d_file e = Log_socket k)))"

lemma process_started_descriptors:
  assumes "process_started b st s log name p" and "\<forall>n<3. fds (b_proc b) n \<noteq> None"
  shows "server_descriptors (b_net b) st (b_proc b) s log p" and "name = None \<longleftrightarrow> log = 0"
    and "sigs p = (\<lambda>s. if s \<in> {SIGPIPE, SIGUSR1, SIGUSR2} then SIG_IGN else Handler s)"
proof -
  obtain p1 p2 p3 p4 p5 en an where n: "null_stdin (b_proc b) = Some p1"
    and e: "open_error_log (b_net b) (strs st V_error_log_name) p1 = Some (en, p2)"
    and a: "open_access_log (b_net b) (strs st V_access_log_name) p2 = Some (an, p3)"
    and c: "open_cgi_log (b_net b) (strs st V_cgi_log_name) p3 = (log, name, p4)"
    and s: "server_socket (b_net b) (strs st V_server_ip) (word_of_int (ints st V_server_port)) p4 = Some (s, p5)"
    and p: "p = init_signals p5"
    using assms(1) by (auto simp: process_started_def)
  show "sigs p = (\<lambda>s. if s \<in> {SIGPIPE, SIGUSR1, SIGUSR2} then SIG_IGN else Handler s)" by (simp add: p init_signals_sigs)
  let ?failed = "answers (b_proc b) \<noteq> []" and ?net = "b_net b"
  note N = null_stdin_result [OF n]
  have p1: "fds p1 = (fds (b_proc b))(0 \<mapsto> \<lparr>d_file = Dev_null, d_cloexec = False\<rparr>)" using N assms(2) by simp
  have o1: "\<forall>n<3. fds p1 n \<noteq> None" using assms(2) by (simp add: p1)
  note E = open_error_log_result [OF e o1 [rule_format, of 2], simplified]
  have E2: "(case strs st V_error_log_name of None \<Rightarrow> fds p2 2 = fds (b_proc b) 2
      | Some spec \<Rightarrow> \<exists>f. goes_to (answers p1 \<noteq> []) ?net p2 spec f \<and> fds p2 2 = Some \<lparr>d_file = f, d_cloexec = False\<rparr>) \<and> (\<forall>n. n \<noteq> 2 \<longrightarrow> fds p2 n = fds p1 n)"
    using E by (auto simp: log_at_def p1 split: option.splits)
  have "fds p2 2 \<noteq> None" using E2 assms(2) [rule_format, of 2] by (auto split: option.splits)
  then have o2: "\<forall>n<3. fds p2 n \<noteq> None" using o1 E2 by metis
  note A = open_access_log_result [OF a o2 [rule_format, of 1], simplified]
  obtain f where f: "fds p3 = (fds p2)(1 \<mapsto> \<lparr>d_file = f, d_cloexec = False\<rparr>)"
    "case strs st V_access_log_name of None \<Rightarrow> f = Dev_null | Some spec \<Rightarrow> goes_to (answers p2 \<noteq> []) ?net p3 spec f"
    using A by (cases "strs st V_access_log_name") (auto simp: log_at_def)
  have o3: "\<forall>n<3. fds p3 n \<noteq> None" using o2 by (simp add: f)
  note C = open_cgi_log_result [OF c o3]
  show "name = None \<longleftrightarrow> log = 0" using C by simp
  have o4: "fds p4 n = fds p3 n" if "fds p3 n \<noteq> None" for n using C that by (auto dest: left_behindD split: if_splits option.splits)
  note S = server_socket_result [OF s]
  have ad: "adds (b_proc b) p1" "adds p1 p2" "adds p2 p3" "adds p3 p4" using null_stdin_adds [OF n] E A C by simp_all
  have up: "goes_to ?failed ?net p spec g" if "goes_to (answers q \<noteq> []) ?net q' spec g" "adds (b_proc b) q" "adds q' p4" for q q' spec g
  proof -
    have "goes_to ?failed ?net p4 spec g" using goes_to_adds [OF that(1,3,2)] .
    then show ?thesis by (rule goes_to_mono) (simp_all add: p S)
  qed
  note ups = up [OF _ ad(1) adds_trans [OF ad(3,4)]] up [OF _ adds_trans [OF ad(1,2)] ad(4)]
    up [OF _ adds_trans [OF adds_trans [OF ad(1,2)] ad(3)] adds_refl]
  have s2: "\<not> s < 3" using S(1) o3 o4 by metis
  have low: "fds p n = fds p3 n" if "n < 3" for n using that o3 o4 S(2) s2 by (auto simp: p)
  have std: "fds p 0 = Some \<lparr>d_file = Dev_null, d_cloexec = False\<rparr>" "fds p 1 = Some \<lparr>d_file = f, d_cloexec = False\<rparr>" "fds p 2 = fds p2 2"
    using low [of 0] low [of 1] low [of 2] E2 by (simp_all add: f p1)
  have access: "case strs st V_access_log_name of None \<Rightarrow> f = Dev_null | Some spec \<Rightarrow> goes_to ?failed ?net p spec f"
    using f(2) ups(2) by (auto split: option.splits)
  have error: "case strs st V_error_log_name of None \<Rightarrow> fds p 2 = fds (b_proc b) 2
      | Some spec \<Rightarrow> \<exists>f. goes_to ?failed ?net p spec f \<and> fds p 2 = Some \<lparr>d_file = f, d_cloexec = False\<rparr>"
    using E2 ups(1) std(3) by (fastforce split: option.splits)
  have bound: "bound p = (Socket (fresh_file p4), server_sockaddr (big_endian ?net) (inet_aton ?net) (strs st V_server_ip) (word_of_int (ints st V_server_port))) # bound (b_proc b)"
    using S ad by (simp add: p adds_def)
  have sock: "2 < s" "\<exists>k a. fds p s = Some \<lparr>d_file = Socket k, d_cloexec = True\<rparr> \<and> Socket k \<in> set (nonblocking p) \<and>
      bound p = (Socket k, a) # bound (b_proc b) \<and> means_address ?net (strs st V_server_ip) (ints st V_server_port) a"
    using S s2 bound server_sockaddr_meant [of ?net "strs st V_server_ip" "ints st V_server_port"] by (auto simp: p)
  have cgi: "case strs st V_cgi_log_name of
         None \<Rightarrow> log = 0
       | Some spec \<Rightarrow>
           if log = 0 then ?failed \<or> \<not> log_reachable ?net spec
           else 2 < log \<and> log \<noteq> s \<and> (\<exists>f. goes_to ?failed ?net p spec f \<and> fds p log = Some \<lparr>d_file = f, d_cloexec = True\<rparr>)"
  proof (cases "strs st V_cgi_log_name")
    case None
    then show ?thesis using C by simp
  next
    case (Some spec)
    have "answers p3 = []" if "\<not> ?failed" using that ad by (simp add: adds_def)
    then show ?thesis using C S(1,2) ups(3) by (cases "log = 0") (auto simp: p Some)
  qed
  have other: "fds (b_proc b) n = Some e \<or> abandoned st log \<and> (\<exists>k. d_file e = Log_socket k)"
    if "2 < n" "n \<noteq> s" "n \<noteq> log" "fds p n = Some e" for n e
  proof -
    have "fds p4 n = Some e" using that S(2) by (simp add: p)
    then have "fds p3 n = Some e \<or> abandoned st log \<and> (\<exists>k. d_file e = Log_socket k)"
      using C that(3) by (cases "fds p3 n") (auto simp: abandoned_def dest: left_behindD split: if_splits option.splits)
    then show ?thesis using that(1) E2 by (auto simp: f p1)
  qed
  show "server_descriptors ?net st (b_proc b) s log p"
    unfolding server_descriptors_def Let_def
    by (intro conjI std(1) sock cgi error exI [of _ f] std(2) access) (use other in simp)
qed

lemma main_descriptors:
  assumes "main outside stack opts b = Inr (d, b')" and "\<forall>n<3. fds (b_proc b) n \<noteq> None"
  shows "\<exists>s st. configuration_read b opts stack = Inr st \<and> server_s (d_world d) = Some s \<and>
     server_descriptors (b_net b) st (b_proc b) s (b_cgi_log_fd b') (b_proc b') \<and>
     (strs (d_vars d) V_cgi_log_name = None \<longleftrightarrow> b_cgi_log_fd b' = 0) \<and>
     (\<forall>g. sigs (b_proc b') g = (if g \<in> {SIGPIPE, SIGUSR1, SIGUSR2} then SIG_IGN else Handler g))"
  using assms(1)
proof (rule main_keeps)
  fix b1 s env st st0
  assume w: "d_world d = initial_world outside (b_vars b') s" and c: "configuration_read b opts stack = Inr st"
    and ps: "process_started b st s (b_cgi_log_fd b') (strs (d_vars d) V_cgi_log_name) (b_proc b')"
  from process_started_descriptors [OF ps assms(2)] w c show ?thesis
    by (simp add: initial_world_def apply_settings_def)
qed

section \<open>Properties\<close>

text \<open>C4: Giving up the superuser. A server started by the superuser and configured for another user gives up its rights for good:
  when no system call fails it succeeds, and when it succeeds the real, the effective and the saved user and group
  and the supplementary groups are those of that user, and no sequence of further calls changes them back.
\<close>

theorem drop_privs_final:
  assumes "ruid (b_cred b) = 0" and "euid (b_cred b) = 0" and "server_uid (b_vars b) \<noteq> 0"
    and "b_passwd b (server_uid (b_vars b)) = Some (pw_name, pw_gid)"
  shows "(sys_script (tables (b_vars b)) = [] \<longrightarrow> (\<exists>b'. drop_privs b = Inr b')) \<and>
     (case drop_privs b of
        Inl e \<Rightarrow> True
      | Inr b' \<Rightarrow> \<forall>c. may_become (b_cred b') c \<longrightarrow>
          ruid c = server_uid (b_vars b) \<and> euid c = server_uid (b_vars b) \<and> suid c = server_uid (b_vars b) \<and>
          rgid c = server_gid (b_vars b) \<and> egid c = server_gid (b_vars b) \<and> sgid c = server_gid (b_vars b) \<and>
          groups c = pw_gid # b_groups b pw_name)"
proof
  show "sys_script (tables (b_vars b)) = [] \<longrightarrow> (\<exists>b'. drop_privs b = Inr b')"
    using drop_privs_ok [OF _ assms] by blast
next
  show "case drop_privs b of Inl e \<Rightarrow> True
      | Inr b' \<Rightarrow> \<forall>c. may_become (b_cred b') c \<longrightarrow>
          ruid c = server_uid (b_vars b) \<and> euid c = server_uid (b_vars b) \<and> suid c = server_uid (b_vars b) \<and>
          rgid c = server_gid (b_vars b) \<and> egid c = server_gid (b_vars b) \<and> sgid c = server_gid (b_vars b) \<and>
          groups c = pw_gid # b_groups b pw_name"
    using drop_privs_settled [OF _ assms(1,4,3)] settled_stays assms(3) by (fastforce simp: settled_def split: sum.split)
qed

definition example_process :: process where
  "example_process = \<lparr>fd_tab = map (\<lambda>n. Some \<lparr>d_file = Given n, d_cloexec = False\<rparr>) [0, 1, 2], nonblocking = [], offset = (\<lambda>f. 0), bound = [], peers = [],
     sigs = (\<lambda>s. SIG_DFL), fresh_file = 0, log_programs = [], answers = []\<rparr>"

definition example_boot :: boot where
  "example_boot = \<lparr>b_vars = example_settings\<lparr>server_uid := 65534, server_gid := 65533, 
       strs := [V_server_root \<mapsto> ''/srv'', V_error_log_name \<mapsto> ''/log/e'', V_cgi_log_name \<mapsto> ''/log/c'']\<rparr>,
     b_cred = \<lparr>ruid = 0, euid = 0, suid = 0, rgid = 0, egid = 0, sgid = 0, groups = [0, 1]\<rparr>, b_env = example_env,
     b_config = None, do_fork = True, debug_level = 0, b_passwd = (\<lambda>u. Some (''nobody'', 65534)), b_groups = (\<lambda>n. []), fork_result = 0,
     b_net = \<lparr>big_endian = False, inet_aton = (\<lambda>a. None), gethostbyname = (\<lambda>h. None)\<rparr>, b_proc = example_process, b_cgi_log_fd = 0\<rparr>"

theorem drop_privs_final_witness:
  "\<exists>b'. drop_privs example_boot = Inr b' \<and> euid (b_cred b') = 65534 \<and> groups (b_cred b') = [65534]"
proof -
  have h: "ruid (b_cred example_boot) = 0" "euid (b_cred example_boot) = 0" "server_uid (b_vars example_boot) \<noteq> 0"
    "b_passwd example_boot (server_uid (b_vars example_boot)) = Some (''nobody'', 65534)" "sys_script (tables (b_vars example_boot)) = []"
    by (simp_all add: example_boot_def example_settings_def example_server_def)
  obtain b' where b': "drop_privs example_boot = Inr b'" using drop_privs_final [OF h(1-4)] h(5) by blast
  with drop_privs_final [OF h(1-4)]
  have "euid (b_cred b') = server_uid (b_vars example_boot) \<and> groups (b_cred b') = 65534 # b_groups example_boot ''nobody''"
    using may_become.same by simp
  with b' show ?thesis by (simp add: example_boot_def)
qed


lemma create_common_env_ok:
  assumes "alloc_script sv = []"
  shows "\<exists>e. create_common_env p l a sv = Some (sv\<lparr>common_cgi_env := e\<rparr>)"
proof -
  have t: "try_alloc sv = (True, sv)" using assms by (simp add: try_alloc_def)
  then have "env_gen_extra k v sv = (Some (k @ ''='' @ (case v of Some v \<Rightarrow> v | None \<Rightarrow> [])), sv)" for k v by (simp add: env_gen_extra_def)
  then show ?thesis by (simp add: create_common_env_def t COMMON_CGI_COUNT_def) blast
qed

lemma example_process_steps:
  "\<exists>p1. null_stdin example_process = Some p1 \<and>
     (\<exists>p2. open_error_log net (Some ''/log/e'') p1 = Some (Some ''/log/e'', p2) \<and>
       (\<exists>p3. open_access_log net None p2 = Some (None, p3) \<and>
         (\<exists>p4. open_cgi_log net (Some ''/log/c'') p3 = (3, Some ''/log/c'', p4) \<and>
           (\<exists>p5. server_socket net None port p4 = Some (4, p5) \<and> answers p5 = []))))"
  by (simp add: null_stdin_def open_error_log_def open_access_log_def open_cgi_log_def server_socket_def open_gen_fd_def char_at_def
      os_open_def os_new_def os_dup2_def os_cloexec_def os_close_def set_nonblock_fd_def bind_server_def os_bind_def answer_def install_def
      put_def fds_def fd_get_def fd_put_def fd_lowest_def example_process_def Let_def)

lemma example_main:
  "\<exists>d b'. main example_world [] [] example_boot = Inr (d, b') \<and> server_uid (d_vars d) = 65534 \<and> answers (b_proc b') = []"
proof -
  obtain p1 where n: "null_stdin example_process = Some p1"
    and ps: "\<And>net port. \<exists>p2. open_error_log net (Some ''/log/e'') p1 = Some (Some ''/log/e'', p2) \<and> (\<exists>p3. open_access_log net None p2 = Some (None, p3) \<and>
      (\<exists>p4. open_cgi_log net (Some ''/log/c'') p3 = (3, Some ''/log/c'', p4) \<and> (\<exists>p5. server_socket net None port p4 = Some (4, p5) \<and> answers p5 = [])))"
  proof -
    obtain p1 where p1: "null_stdin example_process = Some p1" using example_process_steps by blast
    show thesis by (rule that [OF p1]) (use example_process_steps p1 in \<open>simp only: option.inject ex_simps simp_thms\<close>)
  qed
  let ?b = "example_boot\<lparr>b_proc := p1\<rparr>"
  have start: "on_process null_stdin example_boot = Inr ?b" by (simp add: on_process_def example_boot_def n)
  have sys: "sys_script (tables (b_vars ?b)) = []" by (simp add: example_boot_def example_settings_def example_server_def)
  have root: "fixup_server_root ?b = Inr ?b" using must_succeed_ok [OF sys] by (simp add: fixup_server_root_def example_boot_def and_then_def)
  have conf: "(case b_config ?b of Some f \<Rightarrow> f | None \<Rightarrow> DEFAULT_CONFIG_FILE) = ''boa.conf''" "b_env ?b = example_env"
    by (simp_all add: example_boot_def DEFAULT_CONFIG_FILE_def)
  from example_read [of "b_vars ?b"] obtain st where st: "read_config_files example_env ''boa.conf'' [] (b_vars ?b) = Inr st"
      "alloc_script (tables st) = []" "sys_script (tables st) = []" "\<not> build_strip (tables st)" "server_uid st = 65534"
    and names: "strs st V_cgi_log_name = Some ''/log/c''" "strs st V_error_log_name = Some ''/log/e''" "strs st V_access_log_name = None" "strs st V_server_ip = None"
    by (auto simp: example_boot_def example_settings_def)
  have "alloc_script (configured st) = []" using st(2) by (simp add: configured_def)
  from create_common_env_ok [OF this] obtain e where
    "create_common_env (strs st V_cgi_path) (strs st V_cgi_ld_library_path) (strs st V_server_admin) (configured st) =
      Some ((configured st)\<lparr>common_cgi_env := e\<rparr>)" by blast
  then have env: "common_env st = Inr (st\<lparr>tables := (configured st)\<lparr>common_cgi_env := e\<rparr>\<rparr>)"
    by (simp add: common_env_def with_tables_def)
  define st1 where "st1 = st\<lparr>tables := (configured st)\<lparr>common_cgi_env := e\<rparr>\<rparr>"
  define b1 where "b1 = ?b\<lparr>b_vars := st1\<rparr>"
  have st1: "sys_script (tables st1) = []" "\<not> build_strip (tables st1)" "strs st1 = strs st" "server_uid st1 = 65534"
    using st by (simp_all add: st1_def configured_def)
  obtain p2 p3 p4 p5 where ops: "open_error_log (b_net b1) (Some ''/log/e'') p1 = Some (Some ''/log/e'', p2)" "open_access_log (b_net b1) None p2 = Some (None, p3)"
      "open_cgi_log (b_net b1) (Some ''/log/c'') p3 = (3, Some ''/log/c'', p4)"
      "server_socket (b_net b1) None (word_of_int (ints st1 V_server_port)) p4 = Some (4, p5)"
      "answers p5 = []"
    using ps by metis
  have "(strs st1)(V_error_log_name := Some ''/log/e'', V_access_log_name := None, V_cgi_log_name := Some ''/log/c'') = strs st1"
    using names st1(3) by (auto simp: fun_eq_iff)
  then have logs: "open_logs b1 = Inr (b1\<lparr>b_proc := p4, b_cgi_log_fd := 3\<rparr>)"
    using ops names st1(3) by (simp add: open_logs_def b1_def Let_def)
  define b2 where "b2 = b1\<lparr>b_proc := p5, b_cgi_log_fd := 3, b_vars := st1\<lparr>tables := (tables st1)\<lparr>next_fd := max (next_fd (tables st1)) 5, open_fds := 4 # open_fds (tables st1)\<rparr>\<rparr>\<rparr>"
  have sock: "create_server_socket (b1\<lparr>b_proc := p4, b_cgi_log_fd := 3\<rparr>) = Inr (4, b2)"
    using ops(4) names(4) st1(3) by (simp add: create_server_socket_def b1_def b2_def Let_def)
  let ?b3 = "b2\<lparr>b_proc := init_signals p5\<rparr>"
  have z: "ruid (b_cred ?b3) = 0" "euid (b_cred ?b3) = 0" "server_uid (b_vars ?b3) \<noteq> 0"
      "b_passwd ?b3 (server_uid (b_vars ?b3)) = Some (''nobody'', 65534)" "sys_script (tables (b_vars ?b3)) = []"
    using st1 by (simp_all add: b2_def b1_def example_boot_def)
  obtain b4 where b4: "drop_privs ?b3 = Inr b4" using drop_privs_ok [OF z(5,1,2,3,4)] by blast
  have u: "server_uid (b_vars b4) = 65534" using drop_privs_vars(3) [OF b4 z(1)] st1(4) by (simp add: b2_def)
  have "answers (init_signals p5) = []" using ops(5) by (simp add: init_signals_def sigaction_def Let_def)
  then have a: "answers (b_proc b4) = []" using drop_privs_process [OF b4] by simp
  have f: "fork_result ?b3 = 0" "b_proc b2 = p5" by (simp_all add: b2_def b1_def example_boot_def)
  note env = env [folded st1_def]
  have escape: "build_needs_escape \<noteq> None" by (simp only: needs_escape_table) simp
  show ?thesis
    unfolding main_def start and_then_def sum.case parse_commandline.simps root Let_def conf st(1) env
    using st1(2) logs sock b4 f u a escape by (simp add: b1_def)
qed




text \<open>A server that is started without standard input loses it: the null device gets descriptor 0 itself, which is then closed.\<close>

lemma stdin_closed_when_missing:
  assumes "null_stdin p = Some p'" and "fds p 0 = None"
  shows "fds p' 0 = None"
proof -
  obtain n q q' where o: "os_open Dev_null p = (Some n, q)" and c: "os_dup2 n 0 q = (True, q')" and p': "p' = os_close n q'"
    using assms(1) by (auto simp: null_stdin_def split: option.splits prod.splits if_splits)
  have "\<forall>m<n. fds p m \<noteq> None" using os_open_result [OF o] by (simp add: opened_def)
  then have "n = 0" using assms(2) by (metis gr0I)
  then show ?thesis by (simp add: p')
qed

text \<open>
  The variables that \<open>CGIEnv\<close> lines define are lost at the start: the environment is made anew after the configuration has been read, with exactly the
  standard variables.
\<close>

lemma cgi_env_lines_lost:
  assumes "main outside stack opts b = Inr (d, b')"
  shows "length (common_cgi_env (srv (d_world d))) = COMMON_CGI_COUNT"
  using assms by (rule main_keeps) (simp add: drop_privs_vars(2) initial_world_def configured_def)

text \<open>A process with the superuser as effective user that an ordinary user started, as from a set-user-id file, keeps the rights of the superuser.\<close>

lemma setuid_root_keeps_root: "ruid (b_cred b) \<noteq> 0 \<Longrightarrow> drop_privs b = Inr b' \<Longrightarrow> b_cred b' = b_cred b"
  by (auto simp: drop_privs_def Let_def)

end
