(* ===== verification/Programs.thy ===== *)
theory Programs
  imports Boot Cgi_Child
begin

text \<open>
  From the start of the server to the programs it starts: what a program gets of the server's descriptors and signals, whatever the server has
  opened and closed before.
\<close>

section \<open>The server's descriptors while it runs\<close>

text \<open>The descriptors that are never closed: the standard ones, the log of CGI programs and the socket.\<close>

definition permanent :: "daemon \<Rightarrow> boot \<Rightarrow> nat set" where
  "permanent d b = {0, 1, 2} \<union> set_option (server_s (d_world d)) \<union> (if b_cgi_log_fd b = 0 then {} else {b_cgi_log_fd b})"

lemma started_secluded:
  assumes "server_descriptors net st p0 s log p" and "\<And>n e. 2 < n \<Longrightarrow> fds p0 n = Some e \<Longrightarrow> inheritable False (d_file e)"
  shows "secluded (abandoned st log) p"
  unfolding secluded_def
proof (intro allI impI)
  fix n e
  assume e: "fds p n = Some e"
  show "n \<le> 2 \<or> d_cloexec e \<or> inheritable (abandoned st log) (d_file e)"
  proof (cases "2 < n \<and> n \<noteq> s \<and> n \<noteq> log")
    case True
    then have "fds p0 n = Some e \<or> abandoned st log \<and> (\<exists>k. d_file e = Log_socket k)"
      using assms(1) e unfolding server_descriptors_def Let_def by blast
    then show ?thesis using True assms(2) inheritable_mono by auto
  next
    case False
    then show ?thesis using assms(1) e unfolding server_descriptors_def Let_def by (auto split: option.splits if_splits)
  qed
qed

lemma permanent_open:
  assumes "server_descriptors net st p0 s (b_cgi_log_fd b) p" and "server_s (d_world d) = Some s" and "\<forall>n<3. fds p0 n \<noteq> None"
  shows "\<forall>n \<in> permanent d b. fds p n \<noteq> None"
proof -
  have "fds p 2 \<noteq> None" using assms(1) assms(3) [rule_format, of 2] unfolding server_descriptors_def Let_def by (auto split: option.splits)
  moreover have "b_cgi_log_fd b = 0 \<or> fds p (b_cgi_log_fd b) \<noteq> None"
    using assms(1) unfolding server_descriptors_def Let_def by (auto split: option.splits if_splits)
  ultimately show ?thesis using assms(1,2) unfolding permanent_def server_descriptors_def Let_def by auto
qed

text \<open>A process as it is started: the three standard descriptors are open, and none is marked to be closed by \<open>exec\<close>.\<close>

definition well_started :: "process \<Rightarrow> bool" where
  "well_started p \<longleftrightarrow>
     (\<forall>n<3. fds p n \<noteq> None) \<and> (\<forall>n e. fds p n = Some e \<longrightarrow> \<not> d_cloexec e \<and> (\<exists>k. d_file e = Given k))"

lemma running_server:
  assumes "main outside stack opts b = Inr (d, b')" and "well_started (b_proc b)" and "(server_act (permanent d b'))\<^sup>*\<^sup>* (b_proc b') p"
  obtains s st where "configuration_read b opts stack = Inr st"
    "server_descriptors (b_net b) st (b_proc b) s (b_cgi_log_fd b') (b_proc b')"
    "keeps (abandoned st (b_cgi_log_fd b')) (permanent d b') (b_proc b') p"
    "\<forall>n \<in> permanent d b'. fds p n \<noteq> None" "server_s (d_world d) = Some s"
proof -
  have o: "\<forall>n<3. fds (b_proc b) n \<noteq> None" using assms(2) by (simp add: well_started_def)
  from main_descriptors [OF assms(1) o] obtain s st where c: "configuration_read b opts stack = Inr st" and
    s: "server_s (d_world d) = Some s" and sd: "server_descriptors (b_net b) st (b_proc b) s (b_cgi_log_fd b') (b_proc b')" by blast
  have "secluded (abandoned st (b_cgi_log_fd b')) (b_proc b')" using assms(2) by (intro started_secluded [OF sd]) (fastforce simp: well_started_def)
  note k = server_act_keeps [OF assms(3) this permanent_open [OF sd s o]]
  have "\<forall>n \<in> permanent d b'. fds p n \<noteq> None" using k permanent_open [OF sd s o] by (auto simp: keeps_def)
  with that [OF c sd k _ s] show thesis .
qed

lemma all_less_3: "P 0 \<Longrightarrow> P 1 \<Longrightarrow> P 2 \<Longrightarrow> \<forall>n<3. P (n::nat)"
  by (simp add: less_Suc_eq numeral_3_eq_3 numeral_2_eq_2)

lemma server_stderr:
  assumes "server_descriptors net st p0 s log p" and "well_started p0"
  obtains l where "fds p 2 = Some l" "\<not> d_cloexec l"
proof -
  obtain g where g: "fds p0 2 = Some g" "\<not> d_cloexec g" using assms(2) unfolding well_started_def by (metis lessI not_None_eq numeral_2_eq_2 numeral_3_eq_3)
  have "case strs st V_error_log_name of None \<Rightarrow> fds p 2 = fds p0 2
      | Some spec \<Rightarrow> \<exists>f. goes_to (answers p0 \<noteq> []) net p spec f \<and> fds p 2 = Some \<lparr>d_file = f, d_cloexec = False\<rparr>"
    using assms(1) by (simp add: server_descriptors_def Let_def)
  then show thesis using g by (cases "strs st V_error_log_name") (auto intro: that)
qed

text \<open>
  What a program gets, by the request it is started for: the code goes on when a call for standard input or standard error fails, and then the
  program keeps what the server has there.
\<close>

definition own_channels :: "request \<Rightarrow> process \<Rightarrow> nat \<Rightarrow> process \<Rightarrow> process \<Rightarrow> bool" where
  "own_channels r p rd p' q \<longleftrightarrow>
     (if use_pipes r then \<exists>k. fds q 1 = Some \<lparr>d_file = Pipe_w k, d_cloexec = False\<rparr> \<and> fds p' rd = Some \<lparr>d_file = Pipe_r k, d_cloexec = False\<rparr>
      else \<exists>c. fds p (fd r) = Some c \<and> fds q 1 = Some (c\<lparr>d_cloexec := False\<rparr>)) \<and>
     (\<forall>e. fds q 1 = Some e \<longrightarrow> d_file e \<notin> set (nonblocking q)) \<and>
     (if req_method r = M_POST
      then \<exists>body. fds p (post_data_fd r) = Some body \<and> offset q (d_file body) = 0 \<and>
        fds q 0 \<in> {Some (body\<lparr>d_cloexec := False\<rparr>), Some \<lparr>d_file = Dev_null, d_cloexec = False\<rparr>} \<and>
        (answers p = [] \<longrightarrow> fds q 0 = Some (body\<lparr>d_cloexec := False\<rparr>))
      else fds q 0 = Some \<lparr>d_file = Dev_null, d_cloexec = False\<rparr>)"

definition own_stderr :: "bool \<Rightarrow> network \<Rightarrow> settings \<Rightarrow> nat \<Rightarrow> process \<Rightarrow> process \<Rightarrow> process \<Rightarrow> bool" where
  "own_stderr failed net st log p0 p q \<longleftrightarrow>
     (if log = 0 then fds q 2 = fds p0 2
      else \<exists>spec f. strs st V_cgi_log_name = Some spec \<and> goes_to failed net p0 spec f \<and>
        fds q 2 \<in> {Some \<lparr>d_file = f, d_cloexec = False\<rparr>, fds p0 2} \<and>
        (answers p = [] \<longrightarrow> fds q 2 = Some \<lparr>d_file = f, d_cloexec = False\<rparr>))"

lemma program_channels:
  assumes "cgi_child cf r sv pipes q = Some x" and "child_ready r pipes q" and "answers p = [] \<Longrightarrow> answers q = []"
    and "server_descriptors net st pb s (cgi_log_fd cf) p0" and k: "\<And>n. n \<in> K \<Longrightarrow> fds q n = fds p0 n"
    and sec: "\<And>n e. fds q n = Some e \<Longrightarrow> n \<le> 2 \<or> n \<in> own_fds r pipes \<or> d_cloexec e \<or> inheritable lost (d_file e)"
    and "{0, 1, 2} \<subseteq> K" and "cgi_log_fd cf \<in> K" and "K \<inter> own_fds r pipes = {}" and "fds p0 2 = Some l2" and "\<not> d_cloexec l2"
  shows "own_stderr (answers pb \<noteq> []) net st (cgi_log_fd cf) p0 p (x_process x)"
    and "\<forall>n e. 2 < n \<longrightarrow> fds (x_process x) n = Some e \<longrightarrow> inheritable lost (d_file e) \<and> fds q n = Some e \<and> n \<notin> own_fds r pipes"
    and "sigs (x_process x) = (\<lambda>g. SIG_DFL)"
    and "req_method r \<noteq> M_POST \<Longrightarrow> fds (x_process x) 0 = Some \<lparr>d_file = Dev_null, d_cloexec = False\<rparr>"
    and "\<exists>e. fds q (out_fd r pipes) = Some e \<and> fds (x_process x) 1 = Some (e\<lparr>d_cloexec := False\<rparr>) \<and> d_file e \<notin> set (nonblocking (x_process x))"
    and "req_method r = M_POST \<Longrightarrow> fds q (post_data_fd r) = Some body \<Longrightarrow>
      offset (x_process x) (d_file body) = 0 \<and>
      fds (x_process x) 0 \<in> {Some (body\<lparr>d_cloexec := False\<rparr>), Some \<lparr>d_file = Dev_null, d_cloexec = False\<rparr>} \<and>
      (answers p = [] \<longrightarrow> fds (x_process x) 0 = Some (body\<lparr>d_cloexec := False\<rparr>))"
proof -
  have std: "fds p0 0 = Some \<lparr>d_file = Dev_null, d_cloexec = False\<rparr>" using assms(4) by (simp add: server_descriptors_def Let_def)
  have log: "cgi_log_fd cf = 0 \<or> 2 < cgi_log_fd cf \<and>
      (\<exists>spec f. strs st V_cgi_log_name = Some spec \<and> goes_to (answers pb \<noteq> []) net p0 spec f \<and> fds p0 (cgi_log_fd cf) = Some \<lparr>d_file = f, d_cloexec = True\<rparr>)"
    using assms(4) unfolding server_descriptors_def Let_def by (auto split: option.splits if_splits)
  have h: "cgi_log_fd cf = 0 \<or> 2 < cgi_log_fd cf \<and> cgi_log_fd cf \<notin> own_fds r pipes \<and> fds q (cgi_log_fd cf) \<noteq> None"
    using log k [OF assms(8)] assms(8,9) by auto
  note D = cgi_child_descriptors [OF assms(1,2) h]
  have q: "fds q 0 = Some \<lparr>d_file = Dev_null, d_cloexec = False\<rparr>" "fds q 2 = Some l2" using k [of 0] k [of 2] std assms(7,10) by simp_all
  show "own_stderr (answers pb \<noteq> []) net st (cgi_log_fd cf) p0 p (x_process x)"
  proof (cases "cgi_log_fd cf = 0")
    case True
    then show ?thesis using D(9) [OF True q(2) assms(11)] assms(10) by (simp add: own_stderr_def)
  next
    case False
    then obtain spec f where l: "strs st V_cgi_log_name = Some spec" "goes_to (answers pb \<noteq> []) net p0 spec f"
      "fds q (cgi_log_fd cf) = Some \<lparr>d_file = f, d_cloexec = True\<rparr>" using log k [OF assms(8)] by auto
    from D(6) [OF False l(3) q(2) assms(11)] D(8) [OF _ False l(3)] assms(3) l(1,2) False assms(10) show ?thesis
      by (auto simp: own_stderr_def)
  qed
  show "\<forall>n e. 2 < n \<longrightarrow> fds (x_process x) n = Some e \<longrightarrow> inheritable lost (d_file e) \<and> fds q n = Some e \<and> n \<notin> own_fds r pipes"
    using D(2) sec by fastforce
  show "sigs (x_process x) = (\<lambda>g. SIG_DFL)" by (rule D(3))
  show "fds (x_process x) 0 = Some \<lparr>d_file = Dev_null, d_cloexec = False\<rparr>" if "req_method r \<noteq> M_POST"
    using D(7) [OF that q(1)] by simp
  show "\<exists>e. fds q (out_fd r pipes) = Some e \<and> fds (x_process x) 1 = Some (e\<lparr>d_cloexec := False\<rparr>) \<and> d_file e \<notin> set (nonblocking (x_process x))"
    by (rule D(1))
  show "offset (x_process x) (d_file body) = 0 \<and>
      fds (x_process x) 0 \<in> {Some (body\<lparr>d_cloexec := False\<rparr>), Some \<lparr>d_file = Dev_null, d_cloexec = False\<rparr>} \<and>
      (answers p = [] \<longrightarrow> fds (x_process x) 0 = Some (body\<lparr>d_cloexec := False\<rparr>))"
    if "req_method r = M_POST" "fds q (post_data_fd r) = Some body" for body
    using D(4) [OF _ that] D(5) [OF that q(1)] assms(3) by auto
qed

text \<open>The descriptors of the request a program is started for.\<close>

definition own_request :: "nat set \<Rightarrow> request \<Rightarrow> process \<Rightarrow> bool" where
  "own_request K r p \<longleftrightarrow>
     (\<not> use_pipes r \<longrightarrow> fd r \<notin> K) \<and>
     (req_method r = M_POST \<longrightarrow> post_data_fd r \<notin> K \<and> post_data_fd r \<noteq> fd r \<and> fds p (post_data_fd r) \<noteq> None)"

lemma started_program:
  assumes sd: "server_descriptors net st pb s (cgi_log_fd cf) p0" and k: "keeps lost K p0 p" and K: "\<forall>n \<in> K. fds p n \<noteq> None"
    and std: "{0, 1, 2} \<subseteq> K" and log: "cgi_log_fd cf \<in> K" and l2: "fds p0 2 = Some l2" "\<not> d_cloexec l2"
    and own: "own_request K r p" and start: "start_program cf r sv p = (Some (Some x, rd), p')"
  shows "own_channels r p rd p' (x_process x) \<and> own_stderr (answers pb \<noteq> []) net st (cgi_log_fd cf) p0 p (x_process x) \<and> (\<forall>g. sigs (x_process x) g = SIG_DFL) \<and>
    (\<forall>n e. 2 < n \<longrightarrow> fds (x_process x) n = Some e \<longrightarrow> inheritable lost (d_file e) \<and> fds p n = Some e)"
proof -
  have big: "2 < n" if "n \<notin> K" for n
  proof (rule ccontr)
    assume "\<not> 2 < n"
    then have "n \<in> {0, 1, 2}" by auto
    then show False using that std by blast
  qed
  have kp: "fds p n = fds p0 n" if "n \<in> K" for n using k that by (simp add: keeps_def)
  have sec: "n \<le> 2 \<or> d_cloexec e \<or> inheritable lost (d_file e)" if "fds p n = Some e" for n e
    using k that by (simp add: keeps_def secluded_def)
  from start show ?thesis
  proof (cases rule: start_program_cases)
    case (pipe rd' w j q)
    have rd: "rd' = rd" and c: "cgi_child cf r sv (rd, w) q = Some x" using pipe(7) by auto
    have new: "rd \<notin> K" "w \<notin> K" "rd \<noteq> w" using pipe(2-4) K rd by auto
    have b: "req_method r = M_POST \<Longrightarrow> post_data_fd r \<notin> K \<and> post_data_fd r \<noteq> rd \<and> post_data_fd r \<noteq> w \<and> fds q (post_data_fd r) = fds p (post_data_fd r) \<and> fds p (post_data_fd r) \<noteq> None"
      using own pipe(2,3,5) rd by (auto simp: own_request_def)
    have q: "fds q n = fds p n" if "n \<notin> {rd, w}" for n using that pipe(5) rd by auto
    have ready: "child_ready r (rd, w) q" using pipe(1) new b big by (auto simp: child_ready_def own_fds_def out_fd_def)
    have "own_fds r (rd, w) \<inter> K = {}" using pipe(1) new b by (auto simp: own_fds_def out_fd_def)
    then have dis: "K \<inter> own_fds r (rd, w) = {}" by blast
    have m: "rd \<in> own_fds r (rd, w)" "w \<in> own_fds r (rd, w)" "out_fd r (rd, w) = w" using pipe(1) by (simp_all add: own_fds_def out_fd_def)
    have h: "fds q n = fds p0 n" if "n \<in> K" for n using that new kp q by (metis insertE singletonD)
    have h': "n \<le> 2 \<or> n \<in> own_fds r (rd, w) \<or> d_cloexec e \<or> inheritable lost (d_file e)" if "fds q n = Some e" for n e
      using sec [of n e] q [of n] m that by (cases "n = rd \<or> n = w") auto
    note P = program_channels [where p = p, OF c ready pipe(10) sd h h' std log dis l2, simplified]
    have "own_channels r p rd p' (x_process x)"
      using P(4) P(5) P(6) pipe(1,5,9) rd new(3) b by (auto simp: own_channels_def m(3) without_body_def)
    moreover have "fds p n = Some e" if "2 < n" "fds (x_process x) n = Some e" for n e using P(2) that m q by fastforce
    ultimately show ?thesis using P(1-3) by auto
  next
    case (direct q)
    have rd: "rd = 0" and c: "cgi_child cf r sv (0, 0) q = Some x" using direct(4) by auto
    have b: "fd r \<notin> K" "req_method r = M_POST \<Longrightarrow> post_data_fd r \<notin> K \<and> post_data_fd r \<noteq> fd r \<and> fds p (post_data_fd r) \<noteq> None"
      using own direct(1) by (auto simp: own_request_def)
    have ready: "child_ready r (0, 0) q" using direct(1,2) b big by (auto simp: child_ready_def own_fds_def out_fd_def)
    have dis: "K \<inter> own_fds r (0, 0) = {}" using direct(1) b by (auto simp: own_fds_def out_fd_def)
    have m: "out_fd r (0, 0) = fd r" using direct(1) by (simp add: out_fd_def)
    have h: "fds q n = fds p0 n" if "n \<in> K" for n using that kp direct(2) by simp
    have h': "n \<le> 2 \<or> n \<in> own_fds r (0, 0) \<or> d_cloexec e \<or> inheritable lost (d_file e)" if "fds q n = Some e" for n e
      using sec [of n e] that direct(2) by auto
    note P = program_channels [where p = p, OF c ready direct(7) sd h h' std log dis l2, simplified]
    have "own_channels r p rd p' (x_process x)"
      using P(4) P(5) P(6) direct(1,2) b by (auto simp: own_channels_def m)
    then show ?thesis using P(1-3) direct(2) by auto
  qed simp
qed

section \<open>Properties\<close>

text \<open>C11: The channels of a program. In a server started with its standard descriptors open, after any number of connections, bodies, files and programs, a
  program gets its own channels: its standard output is the pipe whose other end the server reads, or the client's connection, and blocks; its standard input is
  the body of a POST from the beginning, or the null device; its standard error is the log of CGI programs, if it is open, and otherwise what the server has there. When a
  call fails on the way, which the child does not look at, a body or that log can be missing, and what the server has there is in its place, nothing else. All signals have their
  default action. Of the server's other descriptors it gets only files being served, pipes of other programs, what the server itself was started with, and, if
  the configured log of CGI programs was a host that could not be reached, the socket that was left of that attempt: never the socket of the server, a
  connection, a body or a log. When no call fails and there is something to execute, the program is started.\<close>

theorem program_gets_own_channels:
  assumes "main outside stack opts b = Inr (d, b')" and "well_started (b_proc b)" and "(server_act (permanent d b'))\<^sup>*\<^sup>* (b_proc b') p"
    and "cgi_log_fd cf = b_cgi_log_fd b'" and "own_request (permanent d b') r p" and "start_program cf r sv p = (res, p')"
  shows "(answers p = [] \<and> startable r sv \<and> (use_pipes r \<or> fds p (fd r) \<noteq> None) \<longrightarrow> (\<exists>x rd. res = Some (Some x, rd))) \<and>
     (\<exists>st. configuration_read b opts stack = Inr st \<and>
        (\<forall>x rd. res = Some (Some x, rd) \<longrightarrow>
          own_channels r p rd p' (x_process x) \<and>
          own_stderr (answers (b_proc b) \<noteq> []) (b_net b) st (b_cgi_log_fd b') (b_proc b') p (x_process x) \<and>
          (\<forall>g. sigs (x_process x) g = SIG_DFL) \<and>
          (\<forall>n e. 2 < n \<longrightarrow> fds (x_process x) n = Some e \<longrightarrow>
             inheritable (abandoned st (b_cgi_log_fd b')) (d_file e) \<and> fds p n = Some e)))"
  using assms(1-3)
proof (rule running_server)
  fix s st
  assume c: "configuration_read b opts stack = Inr st"
    and sd: "server_descriptors (b_net b) st (b_proc b) s (b_cgi_log_fd b') (b_proc b')"
    and k: "keeps (abandoned st (b_cgi_log_fd b')) (permanent d b') (b_proc b') p"
    and K: "\<forall>n \<in> permanent d b'. fds p n \<noteq> None"
  have std: "{0, 1, 2} \<subseteq> permanent d b'" and log: "b_cgi_log_fd b' \<in> permanent d b'" by (auto simp: permanent_def)
  obtain l2 where l2: "fds (b_proc b') 2 = Some l2" "\<not> d_cloexec l2" by (rule server_stderr [OF sd assms(2)])
  have three: "\<forall>n<3. fds p n \<noteq> None" using K std by (intro all_less_3) auto
  have big: "2 < fd r" if "\<not> use_pipes r"
  proof -
    have "fd r \<notin> {0, 1, 2}" using assms(5) std that unfolding own_request_def by blast
    then show ?thesis by auto
  qed
  have "\<exists>x rd. res = Some (Some x, rd)" if "answers p = [] \<and> startable r sv \<and> (use_pipes r \<or> fds p (fd r) \<noteq> None)"
    by (rule start_program_ok [OF _ _ three _ assms(6)]) (use that big in auto)
  moreover have "own_channels r p rd p' (x_process x) \<and>
      own_stderr (answers (b_proc b) \<noteq> []) (b_net b) st (b_cgi_log_fd b') (b_proc b') p (x_process x) \<and>
      (\<forall>g. sigs (x_process x) g = SIG_DFL) \<and>
      (\<forall>n e. 2 < n \<longrightarrow> fds (x_process x) n = Some e \<longrightarrow> inheritable (abandoned st (b_cgi_log_fd b')) (d_file e) \<and> fds p n = Some e)"
    if "res = Some (Some x, rd)" for x rd
    using started_program [OF sd [folded assms(4)] k K std log [folded assms(4)] l2 assms(5) assms(6) [unfolded that]] unfolding assms(4) .
  ultimately show ?thesis using c by blast
qed

definition example_script :: request where
  "example_script = example_request\<lparr>cgi_type := CGI, pathname := Some ''/srv/x.cgi''\<rparr>"

theorem program_gets_own_channels_witness:
  "\<exists>d b' x rd p'. main example_world [] [] example_boot = Inr (d, b') \<and>
     start_program \<lparr>gunzip = [], environ = [], cgi_umask = 23, cgi_log_fd = b_cgi_log_fd b'\<rparr> example_script (example_server\<lparr>fs_chdir := \<lambda>_. None\<rparr>) (accept_fd (b_proc b')) =
       (Some (Some x, rd), p') \<and>
     fds (x_process x) 0 = Some \<lparr>d_file = Dev_null, d_cloexec = False\<rparr> \<and>
     (\<exists>k. fds (x_process x) 1 = Some \<lparr>d_file = Pipe_w k, d_cloexec = False\<rparr> \<and> fds p' rd = Some \<lparr>d_file = Pipe_r k, d_cloexec = False\<rparr>)"
proof -
  obtain d b' where m: "main example_world [] [] example_boot = Inr (d, b')" and a: "answers (b_proc b') = []" using example_main by blast
  let ?cf = "\<lparr>gunzip = [], environ = [], cgi_umask = 23, cgi_log_fd = b_cgi_log_fd b'\<rparr>" and ?sv = "example_server\<lparr>fs_chdir := \<lambda>_. None\<rparr>" and ?p = "accept_fd (b_proc b')"
  have w: "well_started (b_proc example_boot)"
    by (auto simp: well_started_def example_boot_def example_process_def fds_def fd_get_def less_Suc_eq numeral_3_eq_3 nth_Cons split: nat.splits if_splits)
  have run: "(server_act (permanent d b'))\<^sup>*\<^sup>* (b_proc b') ?p" using server_act.connection by (rule r_into_rtranclp)
  have pipes: "use_pipes example_script" "req_method example_script = M_GET"
    by (simp_all add: use_pipes_def example_script_def example_request_def)
  then have own: "own_request (permanent d b') example_script ?p" by (simp add: own_request_def)
  have ans: "answers ?p = []"
    using a by (auto simp: accept_fd_def os_new_def os_open_def install_def Let_def answer_ok set_nonblock_fd_def os_cloexec_def split: option.split)
  have start: "startable example_script ?sv"
    by (simp add: startable_def child_path_def example_script_def path_of_def example_request_def example_server_def try_alloc_def Let_def)
  obtain res p' where s: "start_program ?cf example_script ?sv ?p = (res, p')" by fastforce
  note P = program_gets_own_channels [OF m w run _ own s, simplified]
  from P ans start pipes obtain x rd where x: "res = Some (Some x, rd)" by auto
  with P pipes have "own_channels example_script ?p rd p' (x_process x)" by auto
  then show ?thesis using m s x pipes unfolding own_channels_def by auto
qed

text \<open>A file that is being served is open in a program that is started meanwhile.\<close>

lemma served_file_inherited:
  assumes "cgi_child cf r sv pipes p = Some x" and "child_ready r pipes p" and "cgi_log_fd cf = 0" and "2 < n" and "n \<notin> own_fds r pipes"
    and "fds p n = Some \<lparr>d_file = Served k, d_cloexec = False\<rparr>"
  shows "fds (x_process x) n = Some \<lparr>d_file = Served k, d_cloexec = False\<rparr>"
  using cgi_child_descriptors(10) [OF assms(1,2) _ assms(4,5,6)] assms(3) by simp

end
