(* ===== verification/Spec2Isabelle.thy ===== *)
theory Spec2Isabelle
  imports Strutil Uri Escape Decimal Httpdate Hash Mmap_Cache Queue Request Access Buffer Response Ranges Alias Cgi Get Header Read Cgi_Header Pipe Log Index_Dir Scandir Scheduler Select Poll Handlers Poll_Loop Config Signals Process Cgi_Child Boot Programs
begin

text \<open>
  YABWF, a single-process HTTP server written in C (files under \<^verbatim>\<open>src/src\<close> unless said otherwise).

  \<^bold>\<open>The program.\<close> \<open>boa.c\<close> starts the server: command line, configuration file, logs, socket, other user. The main
  loop (\<open>select.c\<close> or \<open>poll.c\<close>) waits for descriptors, looks at the flags the signal handlers of \<open>signals.c\<close> set, wakes or times out
  blocked requests and calls \<open>process_requests\<close> of \<open>request.c\<close>. That walks the queue of ready requests (\<open>queue.c\<close>) and calls the handler
  of each request's state: \<open>read_header\<close>, \<open>read_body\<close> and \<open>write_body\<close> (\<open>read.c\<close>), \<open>process_get\<close> (\<open>get.c\<close>),
  \<open>read_from_pipe\<close>, \<open>write_from_pipe\<close> and \<open>io_shuffle\<close> (\<open>pipe.c\<close>). A header is parsed by \<open>request.c\<close>, its URI cleaned by \<open>util.c\<close> and
  translated by \<open>alias.c\<close>; the request then becomes a file (\<open>get.c\<close>, with \<open>mmap_cache.c\<close> and \<open>range.c\<close>), a generated
  directory listing (\<open>index_directory\<close>), a CGI program (\<open>cgi.c\<close>, \<open>cgi_header.c\<close>) or an error (\<open>response.c\<close>). All
  output goes through the buffer of the request (\<open>buffer.c\<close>). A finished request is logged (\<open>log.c\<close>), and its connection is kept for the next
  one or closed.

  \<^bold>\<open>How it is modelled.\<close> A function of C is a function of HOL with the same name. A structure is a record: \<open>request\<close>
  and \<open>server\<close> (theory \<open>Request\<close>) hold \<open>struct request\<close> and the global variables; \<open>world\<close> (\<open>Scheduler\<close>) adds the
  requests by number, the links of the queues, the descriptor sets and the counters; \<open>settings\<close> (\<open>Config\<close>) holds the variables of the configuration,
  \<open>daemon\<close> (\<open>Signals\<close>) and \<open>boot\<close> (\<open>Boot\<close>) the whole process. Integers that can wrap around are machine words of the C
  type's width or have the modulus written out. A pointer into the stream or the buffer of a request is a value of \<open>ptr\<close> with an offset.
  \<open>None\<close> in a result is the exit of the process (\<open>DIE\<close>) unless the theory says otherwise; in results of \<open>while_option\<close> it is a loop
  that does not end, and the theorems show that it does not occur. The answers of the operating system are scripts in the state: \<open>alloc_script\<close> for
  allocations, \<open>sys_script\<close> for other calls, the reads and writes of a channel (\<open>chan\<close>), accepted connections, the results of
  \<open>select\<close>, the clock. An empty script answers with success or with the end of input. Theorems quantify over all scripts, so over all failures. The
  file system and the user data base are functions in the \<open>server\<close> record.

  \<^bold>\<open>The theories\<close>, in the order of their dependencies.
  \<^item> \<open>Prelude\<close>: bytes, C strings and character classes. \<open>Strutil\<close>: \<^verbatim>\<open>src/extras/strutil.c\<close>.
  \<^item> \<open>Uri\<close>, \<open>Decimal\<close>, \<open>Httpdate\<close>: \<open>util.c\<close> (path cleaning, host names, log sanitising; numbers; dates). A cleaned path cannot leave its
    root; dates and numbers round-trip.
  \<^item> \<open>Escape\<close>: \<open>escape.c\<close>, \<open>escape.h\<close> and the encoders of \<open>util.c\<close>: the bit table, decoding inverts encoding, encoded text cannot contain markup.
  \<^item> \<open>Hash\<close>: \<open>hash.c\<close>, a refinement of finite maps with the locale of tables that both uses share.
  \<^item> \<open>Mmap_Cache\<close>: \<open>mmap_cache.c\<close>: reference counts and no lost mapping in every reachable state.
  \<^item> \<open>Queue\<close>: \<open>queue.c\<close>: doubly linked lists refine lists.
  \<^item> \<open>Request\<close>: \<open>globals.h\<close>, \<open>boa.h\<close>: the state. \<open>Access\<close>: \<open>access.c\<close>: the first matching rule decides.
  \<^item> \<open>Buffer\<close>, \<open>Response\<close>: \<open>buffer.c\<close>, \<open>response.c\<close>: writers stay inside the array, flushing preserves the output, error responses are well formed.
  \<^item> \<open>Ranges\<close>: \<open>range.c\<close>: the table-driven parser and the resolution of ranges; every range lies in the file.
  \<^item> \<open>Alias\<close>: \<open>alias.c\<close>: what file a URI names. \<open>Cgi\<close>: \<open>cgi.c\<close>: environment, arguments and descriptors of a program.
  \<^item> \<open>Get\<close>: \<open>get.c\<close> with the listing the server makes itself; no path but one leaves a descriptor open, and a range of a mapped file is delivered completely and in order.
  \<^item> \<open>Header\<close>, \<open>Read\<close>: the request line and header lines of \<open>request.c\<close>, and \<open>read.c\<close>: memory safety of the whole path from a received byte to a served
    request; the end of the header is recognised exactly; a body is delivered completely.
  \<^item> \<open>Cgi_Header\<close>, \<open>Pipe\<close>: \<open>cgi_header.c\<close>, \<open>pipe.c\<close>: the output of a program is delivered completely and its status line is the one it asked for.
  \<^item> \<open>Log\<close>: \<open>log.c\<close>: a request makes one line, whatever the client sent.
  \<^item> \<open>Scheduler\<close>, \<open>Select\<close>: \<open>request.c\<close>, \<open>select.c\<close>: accepting, dispatching, blocking, waking, timing out and releasing requests; the queues stay
    consistent although they change while they are walked, every pass ends, and a connection above the limit is answered with 503.
  \<^item> \<open>Poll\<close>: \<open>poll.c\<close>, the other main loop: its array of descriptors has one correct entry for each blocked request. \<open>Poll_Loop\<close>: whole turns of this
    variant: the invariant of the server until a shutdown begins, with the two ways in which the array can go wrong.
  \<^item> \<open>Handlers\<close>: a frame through every function that a request can reach: none changes the configuration.
  \<^item> \<open>Index_Dir\<close>: \<open>index_dir.c\<close>, the program that lists directories: no overrun, and names cannot add markup. \<open>Scandir\<close>: \<^verbatim>\<open>src/extras/scandir.c\<close> and \<^verbatim>\<open>alphasort.c\<close>.
  \<^item> \<open>Config\<close>: \<open>config.c\<close>: a directive calls its action with its arguments; an accepted configuration is consistent.
  \<^item> \<open>Process\<close>: the process of the server: descriptors, signal actions and the calls on them, with \<open>ip.c\<close>, \<open>sublog.c\<close>, \<open>open_logs\<close> of \<open>log.c\<close> and the
    installation of the handlers.
  \<^item> \<open>Signals\<close>: \<open>signals.c\<close> and the loop with signals as a step relation: the invariant of the daemon, restart and shutdown.
  \<^item> \<open>Boot\<close>: \<open>boa.c\<close>: the superuser is given up for good, the descriptors and signals are what the configuration says (the expected logs and address are
    stated apart from the code, in \<open>goes_to\<close> and \<open>means_address\<close>), and the invariant holds from every successful start on.
  \<^item> \<open>Cgi_Child\<close>, \<open>Programs\<close>: the child of \<open>init_cgi\<close>, and the descriptors of the server while it runs as a step relation: a program gets its own channels and
    inherits neither the socket of the server nor connections, bodies or open logs (a socket that a failed \<open>CgiLog\<close> left behind is the exception).

  \<^bold>\<open>Interfaces\<close> are locales, interpreted on the model's own functions: \<open>bounded_writer\<close> (the three writers of \<open>Buffer\<close>), \<open>write_once_table\<close> (both
  tables of \<open>Hash\<close>), \<open>refcounted\<close> (\<open>Mmap_Cache\<close>), \<open>request_queue\<close> (\<open>Queue\<close>, used by \<open>Scheduler\<close>), \<open>descriptor_table\<close>
  (\<open>Process\<close>) and \<open>waking_pass\<close> (\<open>Select\<close>, the contract
  both main loops keep).

  \<^bold>\<open>Bounds and fuel.\<close> Loops over the data recurse on it or have a measure. Walks along the links of a queue are \<open>while_option\<close> and proved to
  end. The loops that carry a request to its end over several rounds (\<open>body_loop\<close>, \<open>get_loop\<close>, \<open>pipe_loop\<close>) take fuel, and the delivery theorems
  state fuel that is enough: three rounds per byte of a body, two per byte of a program's output and two more. Theorems on files assume
  sizes below \<open>2 ^ 32 - 1\<close>, as \<open>get.c\<close> computes lengths in 32 bits.

  \<^bold>\<open>Build options.\<close> The sources are conditional; modelled are the default branches, with access control, \<open>GUNZIP\<close>, \<open>sendfile\<close> and \<open>CGI_STRIP_PREFIX\<close> as flags
  of the \<open>server\<close>, IPv4, the \<open>select\<close> loop for signals, restart and start-up (the \<open>poll\<close> loop has its own invariant in \<open>Poll_Loop\<close>), and the hash functions selectable. Off are \<open>USE_SETRLIMIT\<close>, \<open>USE_NCSA_CGI_ENV\<close>, \<open>ACCEPT_ON\<close> and \<open>INET6\<close>;
  of the options of \<open>request.c\<close> only \<open>TUNE_SNDBUF\<close> is on: the lines for \<open>USE_TCPNODELAY\<close> and \<open>NO_RATE_LIMIT\<close> stand in a comment, so the limit of
  connections is enforced.

  \<^bold>\<open>Two views of descriptors.\<close> The request side (\<open>open_fds\<close> and \<open>next_fd\<close> of the \<open>server\<close>) counts descriptors to show that none is lost; \<open>process\<close> has the table
  of the system, with the lowest free number, the close-on-exec flag and the open files behind it. The steps of \<open>server_act\<close> are the places where the sources open or close
  descriptors.

  \<^bold>\<open>Not modelled.\<close> The file with the process number; messages whose text is constant; the place in memory of data and its freeing, except where the code reads it afterwards; and the header files that only declare.
\<close>

end
